(* ===== verification/Prelude.thy ===== *)
theory Prelude
  imports Main "HOL-Library.Word" "HOL-Library.Signed_Division"
begin

text \<open>
  Shared vocabulary of the development: the machine integer types of the kernel (x86_64, clang),
  the ways a run can stop without returning (a panic, a failed assertion, an access the C standard
  leaves undefined), the result type that carries them, and the generic lemmas on results, words
  and cyclic indices that the component theories use.
\<close>

unbundle bit_operations_syntax

section \<open>Types\<close>

type_synonym u8 = "8 word"
type_synonym u16 = "16 word"
type_synonym u32 = "32 word"
type_synonym u64 = "64 word"

text \<open>A pointer is a 64-bit address; the null pointer is 0.\<close>
type_synonym ptr = u64

abbreviation NULL :: ptr where "NULL \<equiv> 0"

text \<open>Byte-addressed memory, for the routines that work on raw buffers.\<close>
type_synonym mem = "u64 \<Rightarrow> u8"

definition INT_MAX :: int where
  "INT_MAX = 2147483647"

definition PAGE_SIZE :: nat where
  "PAGE_SIZE = 4096"

text \<open>Character constants of the source, and string literals without their terminator.\<close>

definition ascii :: "char \<Rightarrow> u8" where
  "ascii c = of_char c"

definition lit :: "string \<Rightarrow> u8 list" where
  "lit s = map ascii s"

text \<open>Little-endian fields of packed structs.\<close>

definition rd16 :: "mem \<Rightarrow> ptr \<Rightarrow> u16" where
  "rd16 m a = ucast (m a) OR push_bit 8 (ucast (m (a + 1)))"

definition rd32 :: "mem \<Rightarrow> ptr \<Rightarrow> u32" where
  "rd32 m a = ucast (m a) OR push_bit 8 (ucast (m (a + 1))) OR push_bit 16 (ucast (m (a + 2))) OR push_bit 24 (ucast (m (a + 3)))"

definition rd64 :: "mem \<Rightarrow> ptr \<Rightarrow> u64" where
  "rd64 m a = ucast (rd32 m a) OR push_bit 32 (ucast (rd32 m (a + 4)))"

section \<open>Runs that do not return a value\<close>

text \<open>
  \<open>Panic\<close>, \<open>Abort\<close>, \<open>AssertFailed\<close> and \<open>Halted\<close> are the stops the source asks for;
  \<open>NullDeref\<close>, \<open>OutOfBounds\<close>, \<open>Uninitialised\<close>, \<open>SignedOverflow\<close> and
  \<open>DivideError\<close> are the places where
  the C program has no defined behaviour.
\<close>

datatype fault =
    Panic string
  | Abort
  | AssertFailed
  | Halted
  | NullDeref
  | OutOfBounds
  | Uninitialised
  | SignedOverflow
  | DivideError

type_synonym 'a res = "fault + 'a"

text \<open>A run that may also go on for ever: \<open>None\<close> is not returning.\<close>
type_synonym 'a run = "'a res option"

definition bindE :: "'a res \<Rightarrow> ('a \<Rightarrow> 'b res) \<Rightarrow> 'b res" where
  "bindE m f = (case m of Inl e \<Rightarrow> Inl e | Inr x \<Rightarrow> f x)"

definition guardE :: "fault \<Rightarrow> bool \<Rightarrow> unit res" where
  "guardE e b = (if b then Inr () else Inl e)"

definition is_ok :: "'a res \<Rightarrow> bool" where
  "is_ok m = (case m of Inl _ \<Rightarrow> False | Inr _ \<Rightarrow> True)"

fun foldE :: "('s \<Rightarrow> 'a \<Rightarrow> 's res) \<Rightarrow> 'a list \<Rightarrow> 's \<Rightarrow> 's res" where
  "foldE f [] s = Inr s"
| "foldE f (x # xs) s = bindE (f s x) (foldE f xs)"

text \<open>The same two combinators for runs.\<close>

definition bindR :: "'a run \<Rightarrow> ('a \<Rightarrow> 'b run) \<Rightarrow> 'b run" where
  "bindR m f = (case m of None \<Rightarrow> None | Some (Inl e) \<Rightarrow> Some (Inl e) | Some (Inr x) \<Rightarrow> f x)"

fun foldR :: "('s \<Rightarrow> 'a \<Rightarrow> 's run) \<Rightarrow> 'a list \<Rightarrow> 's \<Rightarrow> 's run" where
  "foldR f [] s = Some (Inr s)"
| "foldR f (x # xs) s = bindR (f s x) (foldR f xs)"

text \<open>Array reads and writes: out of range is a fault, never a default value.\<close>

definition readE :: "'a list \<Rightarrow> int \<Rightarrow> 'a res" where
  "readE xs i = (if 0 \<le> i \<and> i < int (length xs) then Inr (xs ! nat i) else Inl OutOfBounds)"

definition writeE :: "'a list \<Rightarrow> int \<Rightarrow> 'a \<Rightarrow> 'a list res" where
  "writeE xs i v = (if 0 \<le> i \<and> i < int (length xs) then Inr (xs[nat i := v]) else Inl OutOfBounds)"

section \<open>Lemmas on results\<close>

named_theorems res_iff \<open>when a result is a value\<close>

lemma bindE_simps [simp]: "bindE (Inl e) f = Inl e" "bindE (Inr x) f = f x"
  by (simp_all add: bindE_def)

lemma bindE_Inr_iff [res_iff]: "bindE m f = Inr y \<longleftrightarrow> (\<exists>x. m = Inr x \<and> f x = Inr y)"
  by (cases m) auto

lemma bindE_Inl_iff: "bindE m f = Inl e \<longleftrightarrow> m = Inl e \<or> (\<exists>x. m = Inr x \<and> f x = Inl e)"
  by (cases m) auto

lemma bindE_assoc: "bindE (bindE m f) g = bindE m (\<lambda>x. bindE (f x) g)"
  by (cases m) auto

lemma bindE_return [simp]: "bindE m Inr = m"
  by (cases m) auto

lemma guardE_simps [simp]: "guardE e True = Inr ()" "guardE e False = Inl e"
  by (simp_all add: guardE_def)

lemma guardE_Inr_iff [res_iff]: "guardE e b = Inr u \<longleftrightarrow> b"
  by (simp add: guardE_def)

lemma is_ok_simps [simp]: "is_ok (Inr x)" "\<not> is_ok (Inl e)"
  by (simp_all add: is_ok_def)

lemma is_ok_iff: "is_ok m \<longleftrightarrow> (\<exists>x. m = Inr x)"
  by (cases m) auto

lemma foldE_append: "foldE f (xs @ ys) s = bindE (foldE f xs s) (foldE f ys)"
proof (induction xs arbitrary: s)
  case (Cons x xs)
  then show ?case by (cases "f s x") auto
qed simp

lemma bindR_simps [simp]:
  "bindR None f = None" "bindR (Some (Inl e)) f = Some (Inl e)" "bindR (Some (Inr x)) f = f x"
  by (simp_all add: bindR_def)

lemma bindR_ok_iff [res_iff]:
  "bindR m f = Some (Inr y) \<longleftrightarrow> (\<exists>x. m = Some (Inr x) \<and> f x = Some (Inr y))"
  by (auto simp: bindR_def split: option.splits sum.splits)

lemma bindR_mono [partial_function_mono]:
  fixes B :: "('a \<Rightarrow> 'b option) \<Rightarrow> 'c run"
  assumes "mono_option B" and "\<And>y. mono_option (\<lambda>f. C y f)"
  shows "mono_option (\<lambda>f. bindR (B f) (\<lambda>y. C y f))"
proof (rule monotoneI)
  fix f g :: "'a \<Rightarrow> 'b option"
  assume fg: "fun_ord option_ord f g"
  have B: "option_ord (B f) (B g)" 
    using assms(1) fg by (rule monotoneD[of _ _ _ f g])
  have C: "option_ord (C y f) (C y g)" for y
    using assms(2) fg by (rule monotoneD[of _ _ _ f g])
  show "option_ord (bindR (B f) (\<lambda>y. C y f)) (bindR (B g) (\<lambda>y. C y g))"
  proof (cases "B f")
    case None
    then show ?thesis by (simp add: flat_ord_def)
  next
    case (Some r)
    with B have "B g = Some r" by (simp add: flat_ord_def)
    with Some C show ?thesis by (cases r) (simp_all add: flat_ord_def)
  qed
qed

lemma bindR_cong [fundef_cong]:
  "m = m' \<Longrightarrow> (\<And>x. m' = Some (Inr x) \<Longrightarrow> f x = g x) \<Longrightarrow> bindR m f = bindR m' g"
  by (auto simp: bindR_def split: option.splits sum.splits)

lemma bindE_cong [fundef_cong]:
  "m = m' \<Longrightarrow> (\<And>x. m' = Inr x \<Longrightarrow> f x = g x) \<Longrightarrow> bindE m f = bindE m' g"
  by (auto simp: bindE_def split: sum.splits)

lemma foldR_append: "foldR f (xs @ ys) s = bindR (foldR f xs s) (foldR f ys)"
proof (induction xs arbitrary: s)
  case (Cons x xs)
  then show ?case by (auto simp: bindR_def split: option.splits sum.splits)
qed simp

lemma foldE_invariant:
  assumes step: "\<And>s x. I s \<Longrightarrow> \<exists>t. f s x = Inr t \<and> I t" and "I s"
  shows "\<exists>t. foldE f xs s = Inr t \<and> I t"
  using \<open>I s\<close>
proof (induction xs arbitrary: s)
  case (Cons x xs)
  from step[OF Cons.prems] obtain t where "f s x = Inr t" "I t" by blast
  with Cons.IH show ?case by simp
qed simp

lemma readE_Inr_iff [res_iff]:
  "readE xs i = Inr v \<longleftrightarrow> 0 \<le> i \<and> i < int (length xs) \<and> v = xs ! nat i"
  by (auto simp: readE_def)

lemma writeE_Inr_iff [res_iff]:
  "writeE xs i v = Inr ys \<longleftrightarrow> 0 \<le> i \<and> i < int (length xs) \<and> ys = xs[nat i := v]"
  by (auto simp: writeE_def)

lemma readE_ok [simp]: "0 \<le> i \<Longrightarrow> i < int (length xs) \<Longrightarrow> readE xs i = Inr (xs ! nat i)"
  by (simp add: readE_def)

lemma writeE_ok [simp]:
  "0 \<le> i \<Longrightarrow> i < int (length xs) \<Longrightarrow> writeE xs i v = Inr (xs[nat i := v])"
  by (simp add: writeE_def)

section \<open>Truncating remainder on non-negative operands\<close>

lemma smod_nonneg [simp]: "0 \<le> a \<Longrightarrow> 0 < b \<Longrightarrow> a smod b = a mod (b::int)"
  by (simp add: signed_modulo_int_def signed_divide_int_def sgn_if minus_mult_div_eq_mod
      minus_div_mult_eq_mod split: if_splits)

lemma mod_succ_range: "0 \<le> (a::int) \<Longrightarrow> a < c \<Longrightarrow> (a + 1) mod c = (if a + 1 = c then 0 else a + 1)"
  by simp

text \<open>Short index lists, for evaluation.\<close>

lemma upt_small:
  "[0..<1] = [0]" "[0..<2] = [0, 1]" "[0..<3] = [0, 1, 2]" "[0..<4] = [0, 1, 2, 3]"
  "[0..<8] = [0, 1, 2, 3, 4, 5, 6, 7]"
  by (simp_all add: upt_rec)

section \<open>Words\<close>

lemma sint_of_nat_small:
  assumes "n < 2 ^ (LENGTH('a) - 1)"
  shows "sint (of_nat n :: 'a::len word) = int n"
proof -
  have "int n < 2 ^ (LENGTH('a) - 1)" using assms by (metis of_nat_less_iff of_nat_numeral of_nat_power)
  moreover have "- (2 ^ (LENGTH('a) - 1)) \<le> int n" by (rule order_trans[of _ 0]) simp_all
  ultimately have "signed_take_bit (LENGTH('a) - 1) (int n) = int n" by (rule signed_take_bit_int_eq_self[rotated])
  then show ?thesis by (simp add: signed_of_nat)
qed

lemma unat_add_of_nat:
  fixes a :: "'a::len word"
  assumes "unat a + n < 2 ^ LENGTH('a)"
  shows "unat (a + of_nat n) = unat a + n"
proof -
  have "n < 2 ^ LENGTH('a)" using assms by simp
  then have "unat (of_nat n :: 'a word) = n" by (simp add: unat_of_nat take_bit_nat_eq_self)
  with assms show ?thesis by (simp add: unat_word_ariths)
qed

lemma word_add_of_nat_inj:
  fixes a :: "'a::len word"
  assumes "unat a + i < 2 ^ LENGTH('a)" and "unat a + j < 2 ^ LENGTH('a)"
  shows "a + of_nat i = a + of_nat j \<longleftrightarrow> i = j"
  using unat_add_of_nat[OF assms(1)] unat_add_of_nat[OF assms(2)] by (metis add_left_cancel)

lemma ucast_eq_iff:
  fixes a b :: "'a::len word"
  assumes "LENGTH('a) \<le> LENGTH('b::len)"
  shows "(ucast a :: 'b word) = ucast b \<longleftrightarrow> a = b"
  using assms by transfer (simp add: take_bit_take_bit min_def)

lemma unat_ucast_up:
  fixes a :: "'a::len word"
  assumes "LENGTH('a) \<le> LENGTH('b::len)"
  shows "unat (ucast a :: 'b word) = unat a"
proof -
  have "unat a < 2 ^ LENGTH('b)"
    using unsigned_less[of a, where 'a = nat] assms by (meson le_less_trans less_le_trans one_le_numeral power_increasing)
  then show ?thesis by (simp add: unsigned_ucast_eq take_bit_nat_eq_self)
qed

lemma take_bit_add_take_bit:
  fixes a b :: int
  assumes "n \<le> m"
  shows "take_bit n (take_bit m a + take_bit m b) = take_bit n (a + b)"
proof -
  have "take_bit n (take_bit m a + take_bit m b) = take_bit n (take_bit n (take_bit m a) + take_bit n (take_bit m b))"
    by (rule take_bit_add[symmetric])
  also have "\<dots> = take_bit n (take_bit n a + take_bit n b)"
    using assms by (simp only: take_bit_take_bit min.absorb1)
  also have "\<dots> = take_bit n (a + b)" by (rule take_bit_add)
  finally show ?thesis .
qed

lemma ucast_down_add:
  fixes a b :: "'a::len word"
  assumes "LENGTH('b::len) \<le> LENGTH('a)"
  shows "(ucast (a + b) :: 'b word) = ucast a + ucast b"
  using assms
  by transfer (simp only: take_bit_add_take_bit take_bit_take_bit min.absorb1)

lemma ucast_down_of_nat:
  assumes "LENGTH('b::len) \<le> LENGTH('a::len)"
  shows "ucast (of_nat n :: 'a word) = (of_nat n :: 'b word)"
  using assms by transfer (simp add: take_bit_take_bit)

lemma ucast_down_of_int:
  assumes "LENGTH('b::len) \<le> LENGTH('a::len)"
  shows "ucast (word_of_int n :: 'a word) = (word_of_int n :: 'b word)"
  using assms by transfer (simp add: take_bit_take_bit)

lemma unat_word_of_int:
  "0 \<le> n \<Longrightarrow> n < 2 ^ LENGTH('a::len) \<Longrightarrow> unat (word_of_int n :: 'a word) = nat n"
  by (simp add: unat_eq_nat_uint unsigned_of_int take_bit_int_eq_self)

lemma ucast_up_down:
  assumes "LENGTH('b::len) \<le> LENGTH('a::len)"
  shows "ucast (ucast (i :: 'b word) :: 'a word) = i"
  using assms by transfer (simp add: take_bit_take_bit min_def)

lemma odd_mult_inj:
  fixes k x y :: "'a::len word"
  assumes inv: "k * l = 1" and "x * k = y * k"
  shows "x = y"
proof -
  have "x * (k * l) = y * (k * l)"
    using assms(2) by (simp add: mult.assoc [symmetric])
  with inv show ?thesis by simp
qed

text \<open>A property of all octets by evaluation on the 256 values.\<close>

lemma u8_all:
  fixes c :: u8
  assumes "list_all (\<lambda>n. P (of_nat n :: u8)) [0..<256]"
  shows "P c"
proof -
  have "unat c < 256" using unsigned_less[of c, where 'a = nat] by simp
  then have "unat c \<in> set [0..<256]" by (simp only: set_upt atLeastLessThan_iff simp_thms)
  then have "P (of_nat (unat c))" using assms unfolding list_all_iff by blast
  then show ?thesis by simp
qed

end
