(* ===== verification/Fnv.thy ===== *)
theory Fnv
  imports Prelude
begin

text \<open>
  The FNV-1a hashes of \<^verbatim>\<open>lethe-utils/hash_32a.c\<close> and \<^verbatim>\<open>lethe-utils/hash_64a.c\<close>, on the
  configuration the header \<^verbatim>\<open>fnv.h\<close> fixes (\<^verbatim>\<open>HAVE_64BIT_LONG_LONG\<close> and
  \<^verbatim>\<open>NO_FNV_GCC_OPTIMIZATION\<close> defined). A buffer is the list of its octets. The string variants
  scan for the terminating zero octet; reading past the last octet that the list holds is a fault.
  The shift-and-add form of the multiplication that the header disables is modelled too, and proved
  equal to the form that is compiled.
\<close>

definition FNV_32_PRIME :: u32 where "FNV_32_PRIME = 0x01000193"
definition FNV1_32A_INIT :: u32 where "FNV1_32A_INIT = 0x811C9DC5"
definition FNV_64_PRIME :: u64 where "FNV_64_PRIME = 0x100000001B3"
definition FNV1A_64_INIT :: u64 where "FNV1A_64_INIT = 0xCBF29CE484222325"

section \<open>The loops\<close>

fun fnv_32a_loop :: "u32 \<Rightarrow> u8 list \<Rightarrow> u32" where
  "fnv_32a_loop hval [] = hval"
| "fnv_32a_loop hval (b # bs) = fnv_32a_loop ((hval XOR ucast b) * FNV_32_PRIME) bs"

definition fnv_32a_buf :: "u8 list \<Rightarrow> u32" where
  "fnv_32a_buf buf = fnv_32a_loop FNV1_32A_INIT buf"

fun fnv_32a_str_loop :: "u32 \<Rightarrow> u8 list \<Rightarrow> u32 res" where
  "fnv_32a_str_loop hval [] = Inl OutOfBounds"
| "fnv_32a_str_loop hval (b # bs) =
     (if b = 0 then Inr hval
      else fnv_32a_str_loop ((hval XOR ucast b) * FNV_32_PRIME) bs)"

definition fnv_32a_str :: "u8 list \<Rightarrow> u32 res" where
  "fnv_32a_str str = fnv_32a_str_loop FNV1_32A_INIT str"

fun fnv_64a_loop :: "u64 \<Rightarrow> u8 list \<Rightarrow> u64" where
  "fnv_64a_loop hval [] = hval"
| "fnv_64a_loop hval (b # bs) = fnv_64a_loop ((hval XOR ucast b) * FNV_64_PRIME) bs"

definition fnv_64a_buf :: "u8 list \<Rightarrow> u64" where
  "fnv_64a_buf buf = fnv_64a_loop FNV1A_64_INIT buf"

fun fnv_64a_str_loop :: "u64 \<Rightarrow> u8 list \<Rightarrow> u64 res" where
  "fnv_64a_str_loop hval [] = Inl OutOfBounds"
| "fnv_64a_str_loop hval (b # bs) =
     (if b = 0 then Inr hval
      else fnv_64a_str_loop ((hval XOR ucast b) * FNV_64_PRIME) bs)"

definition fnv_64a_str :: "u8 list \<Rightarrow> u64 res" where
  "fnv_64a_str str = fnv_64a_str_loop FNV1A_64_INIT str"

text \<open>The other branch of the conditional: the multiplication as shifts and additions.\<close>

definition fnv_64a_shift_mul :: "u64 \<Rightarrow> u64" where
  "fnv_64a_shift_mul hval =
     hval + (push_bit 1 hval + push_bit 4 hval + push_bit 5 hval + push_bit 7 hval
             + push_bit 8 hval + push_bit 40 hval)"

text \<open>
  The branch for compilers without a 64-bit integer type: the hash is held as four digits to the
  base \<open>2 ^ 16\<close> in an array of \<^verbatim>\<open>unsigned long\<close> (64 bits on this target), and handed
  in and out as its two 32-bit halves.
\<close>

definition FNV_64_PRIME_LOW :: u64 where "FNV_64_PRIME_LOW = 0x1B3"
definition FNV_64_PRIME_SHIFT :: nat where "FNV_64_PRIME_SHIFT = 8"

type_synonym digits = "u64 \<times> u64 \<times> u64 \<times> u64"

definition fnv1a_64_init :: "u32 \<times> u32" where
  "fnv1a_64_init = (0x84222325, 0xCBF29CE4)"

definition digits_of :: "u32 \<times> u32 \<Rightarrow> digits" where
  "digits_of hval =
     (let lo = ucast (fst hval); hi = ucast (snd hval)
      in (lo AND 0xFFFF, drop_bit 16 lo, hi AND 0xFFFF, drop_bit 16 hi))"

definition digits_mul :: "digits \<Rightarrow> digits" where
  "digits_mul val = (case val of (v0, v1, v2, v3) \<Rightarrow>
     let t0 = v0 * FNV_64_PRIME_LOW;
         t1 = v1 * FNV_64_PRIME_LOW;
         t2 = v2 * FNV_64_PRIME_LOW + push_bit FNV_64_PRIME_SHIFT v0;
         t3 = v3 * FNV_64_PRIME_LOW + push_bit FNV_64_PRIME_SHIFT v1;
         t1 = t1 + drop_bit 16 t0;
         t2 = t2 + drop_bit 16 t1
     in (t0 AND 0xFFFF, t1 AND 0xFFFF, t2 AND 0xFFFF, t3 + drop_bit 16 t2))"

definition digits_xor :: "digits \<Rightarrow> u8 \<Rightarrow> digits" where
  "digits_xor val b = (case val of (v0, v1, v2, v3) \<Rightarrow> (v0 XOR ucast b, v1, v2, v3))"

fun fnv_64a_digits_loop :: "digits \<Rightarrow> u8 list \<Rightarrow> digits res" where
  "fnv_64a_digits_loop val [] = Inl OutOfBounds"
| "fnv_64a_digits_loop val (b # bs) =
     (if b = 0 then Inr val else fnv_64a_digits_loop (digits_xor (digits_mul val) b) bs)"

definition digits_to_halves :: "digits \<Rightarrow> u32 \<times> u32" where
  "digits_to_halves val = (case val of (v0, v1, v2, v3) \<Rightarrow>
     (ucast (push_bit 16 v1 OR v0), ucast (push_bit 16 v3 OR v2)))"

definition fnv_64a_str_digits :: "u8 list \<Rightarrow> (u32 \<times> u32) res" where
  "fnv_64a_str_digits str =
     bindE (fnv_64a_digits_loop (digits_of fnv1a_64_init) str) (\<lambda>val. Inr (digits_to_halves val))"

text \<open>The hash the halves stand for, and the FNV-1 hash, which multiplies before it mixes in the octet.\<close>

definition halves_val :: "u32 \<times> u32 \<Rightarrow> u64" where
  "halves_val hval = push_bit 32 (ucast (snd hval)) OR ucast (fst hval)"

definition fnv1_64 :: "u8 list \<Rightarrow> u64" where
  "fnv1_64 buf = foldl (\<lambda>h b. h * FNV_64_PRIME XOR ucast b) FNV1A_64_INIT buf"

section \<open>Facts on the loops\<close>

lemma fnv_64a_loop_append: "fnv_64a_loop h (xs @ ys) = fnv_64a_loop (fnv_64a_loop h xs) ys"
  by (induction h xs rule: fnv_64a_loop.induct) auto

lemma fnv_32a_loop_append: "fnv_32a_loop h (xs @ ys) = fnv_32a_loop (fnv_32a_loop h xs) ys"
  by (induction h xs rule: fnv_32a_loop.induct) auto

lemma fnv_64_prime_inverse: "FNV_64_PRIME * 0xCE965057AFF6957B = 1"
  by (simp add: FNV_64_PRIME_def)

lemma fnv_32_prime_inverse: "FNV_32_PRIME * 0x359C449B = 1"
  by (simp add: FNV_32_PRIME_def)

lemma fnv_64a_step_inj:
  "(h XOR ucast a) * FNV_64_PRIME = (h' XOR ucast b) * FNV_64_PRIME \<longleftrightarrow> h XOR ucast a = h' XOR ucast b"
  using odd_mult_inj[OF fnv_64_prime_inverse] by metis

lemma fnv_32a_step_inj:
  "(h XOR ucast a) * FNV_32_PRIME = (h' XOR ucast b) * FNV_32_PRIME \<longleftrightarrow> h XOR ucast a = h' XOR ucast b"
  using odd_mult_inj[OF fnv_32_prime_inverse] by metis

lemma xor_left_cancel: "(h XOR a = h XOR b) = (a = b)" for h :: "'a::len word"
  by (metis bit.xor_left_self)

lemma xor_right_cancel: "(a XOR h = b XOR h) = (a = b)" for h :: "'a::len word"
  by (metis xor_left_cancel xor.commute)

lemma fnv_64a_loop_inj: "fnv_64a_loop h xs = fnv_64a_loop h' xs \<longleftrightarrow> h = h'"
  by (induction h xs arbitrary: h' rule: fnv_64a_loop.induct)
    (simp_all add: fnv_64a_step_inj xor_right_cancel)

lemma fnv_32a_loop_inj: "fnv_32a_loop h xs = fnv_32a_loop h' xs \<longleftrightarrow> h = h'"
  by (induction h xs arbitrary: h' rule: fnv_32a_loop.induct)
    (simp_all add: fnv_32a_step_inj xor_right_cancel)

lemma fnv_64a_str_loop_terminated:
  "0 \<notin> set s \<Longrightarrow> fnv_64a_str_loop h (s @ 0 # rest) = Inr (fnv_64a_loop h s)"
  by (induction h s rule: fnv_64a_loop.induct) auto

lemma fnv_32a_str_loop_terminated:
  "0 \<notin> set s \<Longrightarrow> fnv_32a_str_loop h (s @ 0 # rest) = Inr (fnv_32a_loop h s)"
  by (induction h s rule: fnv_32a_loop.induct) auto

section \<open>The digits\<close>

definition digits_val :: "digits \<Rightarrow> u64" where
  "digits_val val = (case val of (v0, v1, v2, v3) \<Rightarrow>
     v0 + push_bit 16 (v1 + push_bit 16 (v2 + push_bit 16 v3)))"

definition digits_wf :: "digits \<Rightarrow> bool" where
  "digits_wf val = (case val of (v0, v1, v2, v3) \<Rightarrow>
     take_bit 16 v0 = v0 \<and> take_bit 16 v1 = v1 \<and> take_bit 16 v2 = v2)"

lemmas digits_defs = digits_val_def digits_wf_def

lemma and_FFFF: "x AND 0xFFFF = take_bit 16 x" for x :: u64
  by (simp add: take_bit_eq_mask mask_eq_exp_minus_1)

lemma carry_split: "take_bit 16 t + push_bit 16 (drop_bit 16 t + r) = t + push_bit 16 r" for t r :: u64
proof -
  have "take_bit 16 t + push_bit 16 (drop_bit 16 t) = t"
    by (metis add.commute bits_ident)
  then show ?thesis by (simp add: push_bit_add add.assoc[symmetric])
qed

lemma digits_mul_val: "digits_val (digits_mul val) = digits_val val * FNV_64_PRIME"
proof (cases val)
  case (fields v0 v1 v2 v3)
  have zeros: "(4722366482869645213696 :: u64) = 0" "(309485009821345068724781056 :: u64) = 0" by simp_all
  have "digits_val (digits_mul val)
        = v0 * 0x1B3 + push_bit 16 (v1 * 0x1B3 + push_bit 16 (v2 * 0x1B3 + push_bit 8 v0
            + push_bit 16 (v3 * 0x1B3 + push_bit 8 v1)))"
    by (simp add: fields digits_val_def digits_mul_def Let_def and_FFFF FNV_64_PRIME_LOW_def
        FNV_64_PRIME_SHIFT_def carry_split add.commute[of _ "drop_bit 16 _"] add.assoc)
  also have "\<dots> = digits_val val * FNV_64_PRIME"
    by (simp add: fields digits_val_def FNV_64_PRIME_def push_bit_eq_mult algebra_simps zeros)
  finally show ?thesis .
qed

lemma digits_mul_wf: "digits_wf (digits_mul val)"
  by (cases val) (simp add: digits_wf_def digits_mul_def Let_def and_FFFF)

lemma low_digit_or: "take_bit 16 a = a \<Longrightarrow> a + push_bit 16 y = a OR push_bit 16 y" for a y :: u64
  by (rule disjunctive_add) (metis bit_push_bit_iff bit_take_bit_iff linorder_not_le)

lemma octet_take_bit: "take_bit 16 (ucast (b :: u8) :: u64) = ucast b"
  by (rule bit_word_eqI) (auto simp: bit_simps dest: bit_imp_le_length)

lemma digits_xor_wf: "digits_wf val \<Longrightarrow> digits_wf (digits_xor val b)"
  by (cases val) (simp add: digits_wf_def digits_xor_def take_bit_xor octet_take_bit)

lemma digits_xor_val:
  assumes "digits_wf val"
  shows "digits_val (digits_xor val b) = digits_val val XOR ucast b"
proof (cases val)
  case (fields v0 v1 v2 v3)
  have a: "take_bit 16 v0 = v0" and "take_bit 16 (v0 XOR ucast b) = v0 XOR ucast b"
    using assms by (simp_all add: fields digits_wf_def take_bit_xor octet_take_bit)
  moreover have "(v0 XOR ucast b) OR push_bit 16 y = (v0 OR push_bit 16 y) XOR ucast b" for y
    by (rule bit_word_eqI) (use a octet_take_bit[of b] in
        \<open>auto simp: bit_simps dest: bit_imp_le_length; metis bit_take_bit_iff linorder_not_le\<close>)
  ultimately show ?thesis
    by (simp add: fields digits_val_def digits_xor_def low_digit_or)
qed

lemma digits_to_halves_val:
  assumes "digits_wf val"
  shows "halves_val (digits_to_halves val) = digits_val val"
proof (cases val)
  case (fields v0 v1 v2 v3)
  have w: "take_bit 16 v0 = v0" "take_bit 16 v1 = v1" "take_bit 16 v2 = v2"
    using assms by (simp_all add: fields digits_wf_def)
  have b: "\<not> bit v0 n" "\<not> bit v1 n" "\<not> bit v2 n" if "16 \<le> n" for n
    using w that by (metis bit_take_bit_iff linorder_not_le)+
  have "digits_val val = v0 OR push_bit 16 (v1 OR push_bit 16 (v2 OR push_bit 16 v3))"
    by (simp add: fields digits_val_def low_digit_or w)
  moreover have "halves_val (digits_to_halves val)
      = v0 OR push_bit 16 (v1 OR push_bit 16 (v2 OR push_bit 16 v3))"
    by (rule bit_word_eqI) (use b in \<open>auto simp: fields halves_val_def digits_to_halves_def bit_simps\<close>)
  ultimately show ?thesis by simp
qed

lemma digits_loop_terminated:
  "0 \<notin> set s \<Longrightarrow> digits_wf val \<Longrightarrow>
   \<exists>d. fnv_64a_digits_loop val (s @ 0 # rest) = Inr d \<and> digits_wf d
       \<and> digits_val d = foldl (\<lambda>h b. h * FNV_64_PRIME XOR ucast b) (digits_val val) s"
proof (induction s arbitrary: val)
  case (Cons b s)
  let ?val = "digits_xor (digits_mul val) b"
  have "digits_wf ?val" "digits_val ?val = digits_val val * FNV_64_PRIME XOR ucast b"
    by (simp_all add: digits_xor_wf digits_mul_wf digits_xor_val digits_mul_val)
  then show ?case using Cons.IH[of ?val] Cons.prems by simp
qed simp

lemma fnv1_octet_differs: "c \<noteq> 0 \<Longrightarrow> fnv1_64 [c] \<noteq> fnv_64a_buf [c]"
proof -
  have all: "\<forall>n \<in> set [1..<256]. (0xCBF29CE484222325 XOR of_nat n) * 0x100000001B3 \<noteq>
    ((0xCBF29CE484222325 :: u64) * 0x100000001B3 XOR of_nat n)"
    by code_simp
  assume "c \<noteq> 0"
  then have "unat c \<in> set [1..<256]" using unsigned_less[of c, where 'a = nat] by (auto simp: Suc_le_eq unat_gt_0)
  with all have "(0xCBF29CE484222325 XOR of_nat (unat c)) * 0x100000001B3 \<noteq>
    ((0xCBF29CE484222325 :: u64) * 0x100000001B3 XOR of_nat (unat c))" by (rule bspec)
  then show ?thesis
    by (simp add: fnv1_64_def fnv_64a_buf_def FNV_64_PRIME_def FNV1A_64_INIT_def)
qed

lemma digits_of_init: "digits_wf (digits_of fnv1a_64_init) \<and> digits_val (digits_of fnv1a_64_init) = FNV1A_64_INIT"
  by (simp add: digits_defs digits_of_def fnv1a_64_init_def FNV1A_64_INIT_def Let_def and_FFFF
      take_bit_eq_mod push_bit_eq_mult drop_bit_eq_div)

section \<open>Properties\<close>

text \<open>Changing one octet of a buffer, wherever it is, always changes the 64-bit hash: the step is a
  bijection of the state because the prime is odd.
\<close>

theorem fnv_64a_buf_octet_sensitive:
  "fnv_64a_buf (xs @ a # ys) = fnv_64a_buf (xs @ b # ys) \<longleftrightarrow> a = b"
  by (simp add: fnv_64a_buf_def fnv_64a_loop_append fnv_64a_loop_inj fnv_64a_step_inj
      xor_left_cancel ucast_eq_iff)

text \<open>The string variant of the 64-bit hash agrees with the buffer variant on the octets before the
  terminator, and reading an unterminated buffer runs out of bounds.
\<close>

theorem fnv_64a_str_buf:
  "fnv_64a_str (s @ 0 # rest) = Inr (fnv_64a_buf (takeWhile (\<lambda>b. b \<noteq> 0) s))
   \<and> fnv_64a_str (filter (\<lambda>b. b \<noteq> 0) s) = Inl OutOfBounds"
proof
  obtain t where t: "s @ 0 # rest = takeWhile (\<lambda>b. b \<noteq> 0) s @ 0 # t"
  proof (cases "0 \<in> set s")
    case True
    then obtain ys zs where s: "s = ys @ 0 # zs" "0 \<notin> set ys" by (meson split_list_first)
    then have tw: "takeWhile (\<lambda>b. b \<noteq> 0) s = ys" by (subst s) (subst takeWhile_append2, auto)
    show ?thesis by (rule that[of "zs @ 0 # rest"]) (simp add: tw, simp add: s(1))
  next
    case False
    then have "s = takeWhile (\<lambda>b. b \<noteq> 0) s" by (subst eq_commute, subst takeWhile_eq_all_conv) auto
    from arg_cong[OF this, of "\<lambda>r. r @ 0 # rest"] show ?thesis by (rule that)
  qed
  have "0 \<notin> set (takeWhile (\<lambda>b. b \<noteq> 0) s)" by (auto dest: set_takeWhileD)
  then show "fnv_64a_str (s @ 0 # rest) = Inr (fnv_64a_buf (takeWhile (\<lambda>b. b \<noteq> 0) s))"
    unfolding t fnv_64a_str_def fnv_64a_buf_def by (rule fnv_64a_str_loop_terminated)
  have "0 \<notin> set r \<Longrightarrow> fnv_64a_str_loop h r = Inl OutOfBounds" for h and r :: "u8 list"
    by (induction h r rule: fnv_64a_str_loop.induct) auto
  then show "fnv_64a_str (filter (\<lambda>b. b \<noteq> 0) s) = Inl OutOfBounds"
    by (simp add: fnv_64a_str_def)
qed

text \<open>The shift-and-add expression that the header switches off computes the same product as the
  multiplication by the 64-bit FNV prime that is compiled.
\<close>

theorem fnv_64a_shift_mul_eq: "fnv_64a_shift_mul hval = hval * FNV_64_PRIME"
  by (simp add: fnv_64a_shift_mul_def FNV_64_PRIME_def push_bit_eq_mult algebra_simps)

text \<open>(C39) The branch for compilers without a 64-bit type carries the 64-bit product exactly through its
  four digits, but it multiplies before it mixes in the octet: on every string it returns the FNV-1
  hash, not the FNV-1a hash of the other branch, and the two differ already on a string of one octet.
\<close>

theorem fnv_64a_digits_is_fnv1:
  assumes "0 \<notin> set s"
  shows "(\<exists>h. fnv_64a_str_digits (s @ 0 # rest) = Inr h \<and> halves_val h = fnv1_64 s)
    \<and> (length s = 1 \<longrightarrow> fnv1_64 s \<noteq> fnv_64a_buf s)"
proof
  obtain d where "fnv_64a_digits_loop (digits_of fnv1a_64_init) (s @ 0 # rest) = Inr d" "digits_wf d"
    "digits_val d = fnv1_64 s"
    using digits_loop_terminated[OF assms] digits_of_init unfolding fnv1_64_def by metis
  then show "\<exists>h. fnv_64a_str_digits (s @ 0 # rest) = Inr h \<and> halves_val h = fnv1_64 s"
    by (simp add: fnv_64a_str_digits_def digits_to_halves_val)
  show "length s = 1 \<longrightarrow> fnv1_64 s \<noteq> fnv_64a_buf s"
    using assms fnv1_octet_differs by (auto simp: length_Suc_conv)
qed

theorem fnv_64a_digits_is_fnv1_witness:
  "(\<exists>h. fnv_64a_str_digits [97, 0] = Inr h \<and> halves_val h = fnv1_64 [97])
   \<and> fnv1_64 [97] \<noteq> fnv_64a_buf [97]"
  using fnv_64a_digits_is_fnv1[of "[97]" "[]"] by simp

end
