(* ===== verification/Queue.thy ===== *)
theory Queue
  imports Prelude
begin

text \<open>
  The pointer queue of \<^verbatim>\<open>lethe-utils/queue.c\<close>, which the scheduler uses for its run queues. A
  \<^verbatim>\<open>queue_t\<close> is a record; \<^verbatim>\<open>_inner\<close> is the list of pointer-sized cells its heap block holds
  (\<open>None\<close> for a cell that was never written, the empty list for a null block), so an index the
  block does not hold is a fault and so is reading a cell that was never written. The allocator is
  a predicate on the requested number of bytes: whether \<^verbatim>\<open>malloc\<close> or \<^verbatim>\<open>realloc\<close> returns a block.
  \<^verbatim>\<open>pop_queue\<close> calls itself when the cell it removes holds NULL; it is a partial function, and
  its termination is proved for well-formed queues.
\<close>

section \<open>Data and operations\<close>

record queue_t =
  inner :: "ptr option list"
  head :: int
  tail :: int
  capacity :: int
  resizable :: bool

definition TASK_QUEUE_SIZE :: int where "TASK_QUEUE_SIZE = 10"
definition RESIZE_VAL :: int where "RESIZE_VAL = 2"

text \<open>\<^verbatim>\<open>sizeof(queue_t)\<close> and \<^verbatim>\<open>sizeof(void*)\<close> on x86_64.\<close>
definition sizeof_queue_t :: nat where "sizeof_queue_t = 24"
definition sizeof_ptr :: nat where "sizeof_ptr = 8"

text \<open>
  \<^verbatim>\<open>realloc(inner, bytes)\<close>: the cells that fit whole in the new block keep their contents, the
  others are indeterminate; \<open>None\<close> is the null result.
\<close>

definition realloc_cells :: "(nat \<Rightarrow> bool) \<Rightarrow> ptr option list \<Rightarrow> nat \<Rightarrow> ptr option list option" where
  "realloc_cells alloc_ok cells bytes =
     (if alloc_ok bytes
      then Some (take (bytes div sizeof_ptr)
                   (cells @ replicate (bytes div sizeof_ptr) None))
      else None)"

text \<open>The last two statements of \<^verbatim>\<open>push_queue\<close>: store at the tail and advance it.\<close>

definition store_tail :: "queue_t \<Rightarrow> ptr \<Rightarrow> queue_t res" where
  "store_tail q task =
     bindE (writeE (inner q) (tail q) (Some task)) (\<lambda>cells.
     Inr (q\<lparr>inner := cells, tail := (tail q + 1) smod capacity q\<rparr>))"

definition push_queue :: "(nat \<Rightarrow> bool) \<Rightarrow> queue_t \<Rightarrow> ptr \<Rightarrow> queue_t res" where
  "push_queue alloc_ok q task =
     (if (head q + 1) smod capacity q = tail q
      then if \<not> resizable q then Inr q
           else let cap = capacity q * RESIZE_VAL in
             bindE (guardE SignedOverflow (cap \<le> INT_MAX)) (\<lambda>_.
             case realloc_cells alloc_ok (inner q) (nat cap) of
               None \<Rightarrow> Inl AssertFailed
             | Some cells \<Rightarrow>
                 store_tail (q\<lparr>inner := cells, capacity := cap,
                               tail := (tail q + 1) smod cap\<rparr>) task)
      else store_tail q task)"

text \<open>One cell: out of range and never written are faults.\<close>

definition read_cell :: "queue_t \<Rightarrow> int \<Rightarrow> ptr res" where
  "read_cell q i =
     bindE (readE (inner q) i) (\<lambda>c. case c of None \<Rightarrow> Inl Uninitialised | Some p \<Rightarrow> Inr p)"

partial_function (option) pop_queue :: "queue_t \<Rightarrow> (ptr \<times> queue_t) res option" where
  "pop_queue q =
     (if head q = tail q then Some (Inr (NULL, q))
      else case read_cell q (head q) of
             Inl e \<Rightarrow> Some (Inl e)
           | Inr p \<Rightarrow>
               (let q' = q\<lparr>head := (head q + 1) smod capacity q\<rparr> in
                if p = NULL then pop_queue q' else Some (Inr (p, q'))))"

definition rotate_queue :: "(nat \<Rightarrow> bool) \<Rightarrow> queue_t \<Rightarrow> (ptr \<times> queue_t) res option" where
  "rotate_queue alloc_ok q =
     map_option (\<lambda>r. bindE r (\<lambda>(p, q'). bindE (push_queue alloc_ok q' p) (\<lambda>q''. Inr (p, q''))))
       (pop_queue q)"

definition new_queue :: "(nat \<Rightarrow> bool) \<Rightarrow> queue_t res" where
  "new_queue alloc_ok =
     bindE (guardE AssertFailed (alloc_ok sizeof_queue_t)) (\<lambda>_.
     let bytes = nat TASK_QUEUE_SIZE * sizeof_ptr in
     Inr \<lparr>inner = (if alloc_ok bytes then replicate (nat TASK_QUEUE_SIZE) None else []),
          head = 0, tail = 0, capacity = TASK_QUEUE_SIZE, resizable = False\<rparr>)"

definition new_queue_resizable :: "(nat \<Rightarrow> bool) \<Rightarrow> queue_t res" where
  "new_queue_resizable alloc_ok =
     bindE (new_queue alloc_ok) (\<lambda>q. Inr (q\<lparr>resizable := True\<rparr>))"

section \<open>Contents and well-formedness\<close>

text \<open>The cells from the head up to the tail, in the order \<^verbatim>\<open>pop_queue\<close> reads them.\<close>

definition used :: "queue_t \<Rightarrow> nat" where
  "used q = nat ((tail q - head q) mod capacity q)"

definition cell_at :: "queue_t \<Rightarrow> nat \<Rightarrow> ptr option" where
  "cell_at q i = inner q ! nat ((head q + int i) mod capacity q)"

definition contents :: "queue_t \<Rightarrow> ptr list" where
  "contents q = map (\<lambda>i. the (cell_at q i)) [0..<used q]"

definition queue_wf :: "queue_t \<Rightarrow> bool" where
  "queue_wf q \<longleftrightarrow> 2 \<le> capacity q \<and> length (inner q) = nat (capacity q)
     \<and> 0 \<le> head q \<and> head q < capacity q \<and> 0 \<le> tail q \<and> tail q < capacity q
     \<and> list_all (\<lambda>i. cell_at q i \<noteq> None) [0..<used q]"

text \<open>What every queue made by \<^verbatim>\<open>new_queue\<close> satisfies: see the reachability theorem below.\<close>

definition fixed_wf :: "queue_t \<Rightarrow> bool" where
  "fixed_wf q \<longleftrightarrow> queue_wf q \<and> \<not> resizable q \<and> used q \<le> 1"

section \<open>Lemmas\<close>

lemmas queue_defs = queue_wf_def fixed_wf_def used_def contents_def cell_at_def

lemma mod_diff_advance:
  fixes h t c :: int
  assumes "0 < c" and "0 < (t - h) mod c"
  shows "(t - (h + 1) mod c) mod c = (t - h) mod c - 1"
proof -
  have "(t - (h + 1) mod c) mod c = ((t - h) mod c - 1) mod c"
    by (simp add: mod_simps algebra_simps)
  also have "\<dots> = (t - h) mod c - 1"
    using assms pos_mod_bound[of c "t - h"] by (intro mod_pos_pos_trivial) linarith+
  finally show ?thesis .
qed

lemma mod_eq_small:
  fixes a b c :: int
  assumes "0 \<le> b" "b < c"
  shows "a mod c = b \<longleftrightarrow> c dvd a - b"
  using assms mod_eq_dvd_iff[of a c b] by simp

lemma mod_diff_zero:
  fixes h t c :: int
  assumes "0 \<le> h" "h < c" "0 \<le> t" "t < c"
  shows "(t - h) mod c = 0 \<longleftrightarrow> h = t"
  using mod_eq_small[OF assms(1,2), of t] assms by (auto simp: dvd_eq_mod_eq_0)

lemma mod_diff_one:
  fixes h t c :: int
  assumes "0 \<le> h" "h < c" "0 \<le> t" "t < c" "2 \<le> c"
  shows "(t - h) mod c = 1 \<longleftrightarrow> (h + 1) mod c = t"
proof
  assume "(t - h) mod c = 1"
  then have "((t - h) mod c + h) mod c = (1 + h) mod c" by simp
  then show "(h + 1) mod c = t" using assms by (simp add: mod_simps add.commute)
next
  assume "(h + 1) mod c = t"
  then have "(t - h) mod c = ((h + 1) mod c - h) mod c" by simp
  also have "\<dots> = 1 mod c" by (simp add: mod_simps)
  finally show "(t - h) mod c = 1" using assms by simp
qed

lemma queue_wfD:
  assumes "queue_wf q"
  shows "2 \<le> capacity q" "0 < capacity q" "length (inner q) = nat (capacity q)" "0 \<le> head q"
    "head q < capacity q" "0 \<le> tail q" "tail q < capacity q" "i < used q \<Longrightarrow> cell_at q i \<noteq> None"
  using assms by (auto simp: queue_wf_def list_all_iff)

lemma queue_wfI:
  assumes "2 \<le> capacity q" "length (inner q) = nat (capacity q)" "0 \<le> head q"
    "head q < capacity q" "0 \<le> tail q" "tail q < capacity q"
    "\<And>i. i < used q \<Longrightarrow> cell_at q i \<noteq> None"
  shows "queue_wf q"
  unfolding queue_wf_def list_all_iff using assms by simp

lemma int_used: "queue_wf q \<Longrightarrow> int (used q) = (tail q - head q) mod capacity q"
  by (simp add: used_def queue_wfD(2))

lemma used_0_iff:
  assumes "queue_wf q"
  shows "used q = 0 \<longleftrightarrow> head q = tail q"
proof -
  have "used q = 0 \<longleftrightarrow> (tail q - head q) mod capacity q = 0"
    using int_used[OF assms] by linarith
  also have "\<dots> \<longleftrightarrow> head q = tail q"
    using queue_wfD[OF assms] by (intro mod_diff_zero)
  finally show ?thesis .
qed

lemma used_1_iff:
  assumes "queue_wf q"
  shows "used q = 1 \<longleftrightarrow> (head q + 1) mod capacity q = tail q"
proof -
  have "used q = 1 \<longleftrightarrow> (tail q - head q) mod capacity q = 1"
    using int_used[OF assms] by linarith
  also have "\<dots> \<longleftrightarrow> (head q + 1) mod capacity q = tail q"
    using queue_wfD[OF assms] by (intro mod_diff_one)
  finally show ?thesis .
qed

lemma length_contents [simp]: "length (contents q) = used q"
  by (simp add: contents_def)

lemma used_less:
  assumes "queue_wf q"
  shows "int (used q) < capacity q"
  using queue_wfD(2)[OF assms] by (simp add: int_used[OF assms])

lemma contents_nth: "i < used q \<Longrightarrow> contents q ! i = the (cell_at q i)"
  by (simp add: contents_def)

lemma advance_head:
  fixes q :: queue_t
  defines "q' \<equiv> q\<lparr>head := (head q + 1) mod capacity q\<rparr>"
  assumes wf: "queue_wf q" and n: "used q = Suc n"
  shows "used q' = n" and "queue_wf q'" and "contents q = the (cell_at q 0) # contents q'"
proof -
  let ?d = "(tail q - head q) mod capacity q"
  have c: "0 < capacity q" and d: "0 < ?d"
    using queue_wfD(2)[OF wf] n by (simp_all add: int_used[OF wf, symmetric])
  have "nat ((tail q - (head q + 1) mod capacity q) mod capacity q) = n"
    using mod_diff_advance[OF c d] int_used[OF wf] n by simp
  then show u: "used q' = n" by (simp add: q'_def used_def)
  have cell: "cell_at q' i = cell_at q (Suc i)" for i
    by (simp add: q'_def cell_at_def mod_simps algebra_simps)
  show "queue_wf q'"
  proof (rule queue_wfI)
    show "cell_at q' i \<noteq> None" if "i < used q'" for i
      using queue_wfD(8)[OF wf, of "Suc i"] that n by (simp add: u cell)
  qed (use queue_wfD[OF wf] in \<open>simp_all add: q'_def\<close>)
  have "contents q = map (\<lambda>i. the (cell_at q i)) (0 # map Suc [0..<n])"
    by (simp add: contents_def n upt_conv_Cons map_Suc_upt del: upt_Suc)
  then show "contents q = the (cell_at q 0) # contents q'"
    by (simp add: contents_def u cell)
qed

lemma read_head:
  assumes "queue_wf q" and "used q = Suc n"
  shows "read_cell q (head q) = Inr (the (cell_at q 0))"
  using queue_wfD(8)[OF assms(1), of 0] queue_wfD(1-7)[OF assms(1)] assms(2)
  by (auto simp: cell_at_def read_cell_def split: option.splits)

text \<open>What \<^verbatim>\<open>pop_queue\<close> does to the sequence of stored pointers: leading NULLs are dropped.\<close>

definition pop_spec :: "ptr list \<Rightarrow> ptr \<times> ptr list" where
  "pop_spec xs = (case dropWhile (\<lambda>p. p = NULL) xs of [] \<Rightarrow> (NULL, []) | p # ps \<Rightarrow> (p, ps))"

lemma pop_spec_simps [simp]:
  "pop_spec [] = (NULL, [])"
  "pop_spec (p # ps) = (if p = NULL then pop_spec ps else (p, ps))"
  by (simp_all add: pop_spec_def)

lemma pop_queue_wf:
  assumes "queue_wf q"
  shows "\<exists>p q'. pop_queue q = Some (Inr (p, q')) \<and> queue_wf q' \<and> pop_spec (contents q) = (p, contents q')
     \<and> capacity q' = capacity q \<and> resizable q' = resizable q \<and> used q' \<le> used q \<and> inner q' = inner q"
  using assms
proof (induction "used q" arbitrary: q)
  case 0
  then show ?case using used_0_iff[of q] by (auto simp: pop_queue.simps contents_def)
next
  case (Suc n)
  let ?q = "q\<lparr>head := (head q + 1) mod capacity q\<rparr>"
  let ?p = "the (cell_at q 0)"
  note adv = advance_head[OF Suc.prems Suc.hyps(2) [symmetric]]
  have step: "pop_queue q = (if ?p = NULL then pop_queue ?q else Some (Inr (?p, ?q)))"
    using Suc.hyps(2) used_0_iff[OF Suc.prems] read_head[OF Suc.prems Suc.hyps(2)[symmetric]] Suc.prems
    by (subst pop_queue.simps) (simp add: queue_wf_def)
  show ?case
  proof (cases "?p = NULL")
    case True
    from Suc.hyps(1)[OF adv(1)[symmetric] adv(2)] obtain p q'
      where "pop_queue ?q = Some (Inr (p, q'))" "queue_wf q'"
        "pop_spec (contents ?q) = (p, contents q')" "capacity q' = capacity ?q"
        "resizable q' = resizable ?q" "used q' \<le> used ?q" "inner q' = inner ?q" by blast
    then show ?thesis using True step adv(1,3) Suc.hyps(2) by auto
  next
    case False
    then show ?thesis using step adv Suc.hyps(2) by auto
  qed
qed

lemma store_tail_append:
  assumes wf: "queue_wf q" and room: "int (used q) + 1 < capacity q"
  shows "\<exists>q'. store_tail q task = Inr q' \<and> queue_wf q' \<and> contents q' = contents q @ [task]
     \<and> resizable q' = resizable q \<and> capacity q' = capacity q"
proof -
  let ?c = "capacity q" and ?d = "(tail q - head q) mod capacity q"
  let ?q = "q\<lparr>inner := (inner q)[nat (tail q) := Some task], tail := (tail q + 1) mod ?c\<rparr>"
  note D = queue_wfD[OF wf] and iu = int_used[OF wf]
  have "((tail q + 1) mod ?c - head q) mod ?c = (?d + 1) mod ?c"
    by (simp add: mod_simps algebra_simps)
  also have "\<dots> = int (used q) + 1"
    using room by (simp add: iu[symmetric])
  finally have "nat (((tail q + 1) mod ?c - head q) mod ?c) = Suc (used q)" by linarith
  moreover have "used ?q = nat (((tail q + 1) mod ?c - head q) mod ?c)" by (simp add: used_def)
  ultimately have u: "used ?q = Suc (used q)" by simp
  have slot: "nat ((head q + int i) mod ?c) = nat (tail q) \<longleftrightarrow> i = used q" if "i \<le> used q" for i
  proof -
    have "nat ((head q + int i) mod ?c) = nat (tail q) \<longleftrightarrow> (head q + int i) mod ?c = tail q"
      using D pos_mod_sign[OF D(2), of "head q + int i"] by linarith
    also have "\<dots> \<longleftrightarrow> (tail q - head q) mod ?c = int i"
      using mod_eq_small[of "tail q" ?c "head q + int i"] mod_eq_small[of "int i" ?c "tail q - head q"]
        D used_less[OF wf] that dvd_minus_iff[of ?c "head q + int i - tail q"]
      by (simp add: algebra_simps)
    also have "\<dots> \<longleftrightarrow> i = used q" by (auto simp: iu[symmetric])
    finally show ?thesis .
  qed
  have cell: "cell_at ?q i = (if i = used q then Some task else cell_at q i)" if "i \<le> used q" for i
    using slot[OF that] D(3,6,7) by (cases "i = used q") (auto simp: cell_at_def)
  have "queue_wf ?q"
  proof (rule queue_wfI)
    show "cell_at ?q i \<noteq> None" if "i < used ?q" for i
      using cell[of i] D(8)[of i] that by (auto simp: u)
  qed (use D in simp_all)
  moreover have "contents ?q = contents q @ [task]"
    using cell by (simp add: contents_def u)
  moreover have "store_tail q task = Inr ?q"
    using D by (simp add: store_tail_def)
  ultimately show ?thesis by simp
qed

lemma fixed_wfD: "fixed_wf q \<Longrightarrow> queue_wf q \<and> \<not> resizable q \<and> used q \<le> 1"
  by (simp add: fixed_wf_def)

lemma push_queue_fixed:
  assumes "fixed_wf q"
  shows "\<exists>q'. push_queue alloc_ok q task = Inr q' \<and> fixed_wf q'
     \<and> contents q' = (if length (contents q) < 1 then contents q @ [task] else contents q)"
proof (cases "used q = 1")
  case True
  then have "(head q + 1) smod capacity q = tail q"
    using used_1_iff[of q] fixed_wfD[OF assms] queue_wfD(1-4)[of q] by simp
  then have "push_queue alloc_ok q task = Inr q"
    using fixed_wfD[OF assms] by (simp add: push_queue_def)
  with assms True show ?thesis by simp
next
  case False
  with fixed_wfD[OF assms] have wf: "queue_wf q" "\<not> resizable q" "used q = 0" by auto
  then have "(head q + 1) smod capacity q \<noteq> tail q"
    using used_1_iff[of q] queue_wfD(1-4)[of q] by simp
  then have "push_queue alloc_ok q task = store_tail q task"
    by (simp add: push_queue_def)
  moreover obtain q' where q': "store_tail q task = Inr q'" "queue_wf q'"
    "contents q' = contents q @ [task]" "resizable q' = resizable q"
    using store_tail_append[OF wf(1)] queue_wfD(1)[OF wf(1)] wf(3) by auto
  ultimately show ?thesis
    using wf length_contents[of q'] by (auto simp: fixed_wf_def)
qed

lemma pop_queue_fixed:
  assumes "fixed_wf q"
  shows "\<exists>p q'. pop_queue q = Some (Inr (p, q')) \<and> fixed_wf q' \<and> pop_spec (contents q) = (p, contents q')"
  using pop_queue_wf[of q] fixed_wfD[OF assms] by (auto simp: fixed_wf_def)

lemma push_queue_capacity:
  "push_queue alloc_ok q p = Inr q' \<Longrightarrow> \<not> resizable q \<Longrightarrow> capacity q' = capacity q \<and> \<not> resizable q'"
  by (auto simp: push_queue_def store_tail_def res_iff split: if_splits)

lemma push_many_capacity:
  "foldE (push_queue alloc_ok) ps q = Inr q' \<Longrightarrow> \<not> resizable q \<Longrightarrow> capacity q' = capacity q"
proof (induction ps arbitrary: q)
  case (Cons p ps)
  then obtain q1 where "push_queue alloc_ok q p = Inr q1" "foldE (push_queue alloc_ok) ps q1 = Inr q'"
    by (auto simp: res_iff)
  with Cons.IH[of q1] Cons.prems(2) push_queue_capacity show ?case by fastforce
qed simp

section \<open>The interface the scheduler relies on\<close>

text \<open>
  A bounded queue of pointers: a push beyond the bound is dropped, a pop skips NULLs. The laws are
  those of the operations above; the lemmas are proved once from them.
\<close>

locale bounded_queue =
  fixes push :: "'q \<Rightarrow> ptr \<Rightarrow> 'q res"
    and pop :: "'q \<Rightarrow> (ptr \<times> 'q) res option"
    and elems :: "'q \<Rightarrow> ptr list"
    and wf :: "'q \<Rightarrow> bool"
    and bound :: nat
  assumes push_law: "wf q \<Longrightarrow> \<exists>q'. push q x = Inr q' \<and> wf q'
      \<and> elems q' = (if length (elems q) < bound then elems q @ [x] else elems q)"
    and pop_law: "wf q \<Longrightarrow> \<exists>p q'. pop q = Some (Inr (p, q')) \<and> wf q'
      \<and> pop_spec (elems q) = (p, elems q')"
    and elems_bound: "wf q \<Longrightarrow> length (elems q) \<le> bound"
begin

lemma push_many:
  assumes "wf q"
  shows "\<exists>q'. foldE push xs q = Inr q' \<and> wf q' \<and> elems q' = take bound (elems q @ xs)"
  using assms
proof (induction xs arbitrary: q)
  case Nil
  then show ?case using elems_bound[of q] by simp
next
  case (Cons x xs)
  from push_law[OF Cons.prems, of x] obtain q1 where q1: "push q x = Inr q1" "wf q1"
    "elems q1 = (if length (elems q) < bound then elems q @ [x] else elems q)" by blast
  from Cons.IH[OF q1(2)] obtain q2 where q2: "foldE push xs q1 = Inr q2" "wf q2"
    "elems q2 = take bound (elems q1 @ xs)" by blast
  have "take bound (elems q1 @ xs) = take bound (elems q @ x # xs)"
    using q1(3) elems_bound[OF Cons.prems] by (cases "length (elems q) < bound") auto
  with q1 q2 show ?case by simp
qed

lemma push_then_pop:
  assumes "wf q" and "elems q = []" and "0 < bound" and "x \<noteq> NULL"
  shows "\<exists>q1 q2. push q x = Inr q1 \<and> pop q1 = Some (Inr (x, q2)) \<and> wf q2 \<and> elems q2 = []"
proof -
  from push_law[OF assms(1), of x] assms(2,3) obtain q1
    where "push q x = Inr q1" "wf q1" "elems q1 = [x]" by auto
  moreover from pop_law[OF \<open>wf q1\<close>] \<open>elems q1 = [x]\<close> assms(4) obtain q2
    where "pop q1 = Some (Inr (x, q2))" "wf q2" "elems q2 = []" by auto
  ultimately show ?thesis by blast
qed

end

interpretation fixedq: bounded_queue "push_queue alloc_ok" pop_queue contents fixed_wf 1
proof unfold_locales
  fix q :: queue_t and x :: ptr
  assume "fixed_wf q"
  then show "\<exists>q'. push_queue alloc_ok q x = Inr q' \<and> fixed_wf q'
      \<and> contents q' = (if length (contents q) < 1 then contents q @ [x] else contents q)"
    by (rule push_queue_fixed)
next
  fix q :: queue_t
  assume "fixed_wf q"
  then show "\<exists>p q'. pop_queue q = Some (Inr (p, q')) \<and> fixed_wf q'
      \<and> pop_spec (contents q) = (p, contents q')"
    by (rule pop_queue_fixed)
next
  fix q :: queue_t
  assume "fixed_wf q"
  then show "length (contents q) \<le> 1" by (simp add: fixed_wf_def)
qed

section \<open>Queues in use\<close>

text \<open>Every state a non-resizable queue can be brought to by the operations of the file.\<close>

inductive queue_reach :: "queue_t \<Rightarrow> bool" where
  new: "new_queue alloc_ok = Inr q \<Longrightarrow> alloc_ok (nat TASK_QUEUE_SIZE * sizeof_ptr) \<Longrightarrow> queue_reach q"
| push: "queue_reach q \<Longrightarrow> push_queue alloc_ok q p = Inr q' \<Longrightarrow> queue_reach q'"
| pop: "queue_reach q \<Longrightarrow> pop_queue q = Some (Inr (p, q')) \<Longrightarrow> queue_reach q'"
| rotate: "queue_reach q \<Longrightarrow> rotate_queue alloc_ok q = Some (Inr (p, q')) \<Longrightarrow> queue_reach q'"

lemma new_queue_fixed:
  assumes "new_queue alloc_ok = Inr q" and "alloc_ok (nat TASK_QUEUE_SIZE * sizeof_ptr)"
  shows "fixed_wf q \<and> contents q = []"
  using assms by (auto simp: new_queue_def res_iff queue_defs TASK_QUEUE_SIZE_def)

lemma rotate_queue_fixed:
  assumes "fixed_wf q"
  shows "\<exists>p q'. rotate_queue alloc_ok q = Some (Inr (p, q')) \<and> fixed_wf q'"
proof -
  from pop_queue_fixed[OF assms] obtain p q1 where "pop_queue q = Some (Inr (p, q1))" "fixed_wf q1"
    by blast
  moreover from push_queue_fixed[OF \<open>fixed_wf q1\<close>] obtain q2
    where "push_queue alloc_ok q1 p = Inr q2" "fixed_wf q2" by blast
  ultimately show ?thesis by (simp add: rotate_queue_def)
qed

lemma queue_reach_fixed: "queue_reach q \<Longrightarrow> fixed_wf q"
proof (induction rule: queue_reach.induct)
  case (new alloc_ok q)
  then show ?case using new_queue_fixed by blast
next
  case (push q alloc_ok p q')
  then show ?case using push_queue_fixed[of q alloc_ok p] by auto
next
  case (pop q p q')
  then show ?case using pop_queue_fixed[of q] by auto
next
  case (rotate q alloc_ok p q')
  then show ?case using rotate_queue_fixed[of q alloc_ok] by auto
qed

section \<open>Properties\<close>

text \<open>On a well-formed queue \<^verbatim>\<open>pop_queue\<close> returns (its self-call on NULL cells ends): it yields the
  first stored pointer that is not NULL, or NULL when there is none, and drops everything up to it.
\<close>

theorem pop_queue_returns:
  assumes "queue_wf q"
  shows "\<exists>p q'. pop_queue q = Some (Inr (p, q')) \<and> queue_wf q' \<and> pop_spec (contents q) = (p, contents q')"
  using pop_queue_wf[OF assms] by blast

theorem pop_queue_returns_witness:
  "\<exists>p q'. pop_queue \<lparr>inner = [Some 0, Some 5, None], head = 0, tail = 2, capacity = 3, resizable = False\<rparr>
        = Some (Inr (p, q')) \<and> p = 5 \<and> contents q' = []"
proof -
  let ?q = "\<lparr>inner = [Some 0, Some 5, None], head = 0, tail = 2, capacity = 3, resizable = False\<rparr>"
  have "queue_wf ?q" by (simp add: queue_defs upt_small)
  moreover have "contents ?q = [0, 5]" by (simp add: queue_defs upt_small)
  ultimately show ?thesis using pop_queue_returns[of ?q] by auto
qed

text \<open>No sequence of operations brings a fixed-size queue past one stored pointer: the fullness test
  compares the slot after the head with the tail, so a queue with one element is already full,
  whatever its capacity.
\<close>

theorem fixed_queue_holds_at_most_one:
  assumes "queue_reach q"
  shows "length (contents q) \<le> 1 \<and> queue_wf q"
  using queue_reach_fixed[OF assms] by (simp add: fixed_wf_def)

theorem fixed_queue_holds_at_most_one_witness:
  "length (contents \<lparr>inner = replicate 10 None, head = 0, tail = 0, capacity = 10, resizable = False\<rparr>) \<le> 1"
proof -
  have "queue_reach \<lparr>inner = replicate 10 None, head = 0, tail = 0, capacity = 10, resizable = False\<rparr>"
    by (rule queue_reach.new[where alloc_ok = "\<lambda>_. True"])
      (simp_all add: new_queue_def TASK_QUEUE_SIZE_def)
  from fixed_queue_holds_at_most_one[OF this] show ?thesis by blast
qed

text \<open>Pushing a sequence of pointers onto a fresh queue never fails and keeps only the first of them,
  although the block has room for ten.
\<close>

theorem fresh_queue_keeps_first:
  "\<exists>q. bindE (new_queue (\<lambda>_. True)) (foldE (push_queue alloc_ok) ps) = Inr q
      \<and> contents q = take 1 ps \<and> capacity q = 10"
proof -
  define q0 where "q0 = \<lparr>inner = replicate 10 None, head = 0, tail = 0, capacity = 10, resizable = False\<rparr>"
  have new: "new_queue (\<lambda>_. True) = Inr q0"
    by (simp add: new_queue_def TASK_QUEUE_SIZE_def q0_def)
  have q0: "fixed_wf q0 \<and> contents q0 = []" by (rule new_queue_fixed[OF new]) simp
  from fixedq.push_many[of q0 alloc_ok ps] q0 obtain q
    where q: "foldE (push_queue alloc_ok) ps q0 = Inr q" "contents q = take 1 ps" by auto
  from push_many_capacity[OF q(1)] have "capacity q = 10" by (simp add: q0_def)
  with new q show ?thesis by auto
qed

text \<open>A resizable queue faults on its second push: the new capacity is passed to \<^verbatim>\<open>realloc\<close> as a number
  of bytes, so the block shrinks to two cells and the tail is already past it.
\<close>

theorem resizable_queue_second_push_faults:
  "bindE (new_queue_resizable (\<lambda>_. True)) (\<lambda>q.
     bindE (push_queue (\<lambda>_. True) q p1) (\<lambda>q1. push_queue (\<lambda>_. True) q1 p2)) = Inl OutOfBounds"
  by (simp add: new_queue_resizable_def new_queue_def push_queue_def store_tail_def writeE_def
      realloc_cells_def TASK_QUEUE_SIZE_def RESIZE_VAL_def INT_MAX_def sizeof_ptr_def)

end
