(* ===== verification/CString.thy ===== *)
theory CString
  imports Prelude
begin

text \<open>
  The memory and string routines of \<^verbatim>\<open>lethe-libc/string.c\<close> over a byte-addressed memory. A
  counting loop is the state after its n-th iteration. \<^verbatim>\<open>strlen\<close> scans until it finds a zero byte
  and is a partial function. \<^verbatim>\<open>char\<close> is signed on the target, so the string comparisons read the
  bytes as signed values, while \<^verbatim>\<open>memcmp\<close> compares them unsigned.
\<close>

section \<open>Blocks\<close>

text \<open>Ascending copy: what the loop has done after n iterations.\<close>

fun copy_up :: "mem \<Rightarrow> ptr \<Rightarrow> ptr \<Rightarrow> nat \<Rightarrow> mem" where
  "copy_up m d s 0 = m"
| "copy_up m d s (Suc n) =
     (let m' = copy_up m d s n in m'(d + of_nat n := m' (s + of_nat n)))"

text \<open>Descending copy: index n - 1 first.\<close>

fun copy_down :: "mem \<Rightarrow> ptr \<Rightarrow> ptr \<Rightarrow> nat \<Rightarrow> mem" where
  "copy_down m d s 0 = m"
| "copy_down m d s (Suc n) = copy_down (m(d + of_nat n := m (s + of_nat n))) d s n"

text \<open>\<^verbatim>\<open>memcpy\<close> counts with an \<^verbatim>\<open>int\<close>, which overflows on more than \<open>INT_MAX\<close> bytes.\<close>

definition memcpy :: "mem \<Rightarrow> ptr \<Rightarrow> ptr \<Rightarrow> u64 \<Rightarrow> mem res" where
  "memcpy m dest src sz =
     bindE (guardE SignedOverflow (uint sz \<le> INT_MAX)) (\<lambda>_. Inr (copy_up m dest src (unat sz)))"

definition memmove :: "mem \<Rightarrow> ptr \<Rightarrow> ptr \<Rightarrow> u64 \<Rightarrow> mem" where
  "memmove m dst src sz =
     (if dst < src then copy_up m dst src (unat sz) else copy_down m dst src (unat sz))"

fun memset_loop :: "mem \<Rightarrow> ptr \<Rightarrow> u8 \<Rightarrow> nat \<Rightarrow> mem" where
  "memset_loop m p v 0 = m"
| "memset_loop m p v (Suc n) = (memset_loop m p v n)(p + of_nat n := v)"

text \<open>The stored byte is the \<^verbatim>\<open>int\<close> argument converted to \<^verbatim>\<open>unsigned char\<close>.\<close>

definition memset :: "mem \<Rightarrow> ptr \<Rightarrow> int \<Rightarrow> u64 \<Rightarrow> mem" where
  "memset m p val sz = memset_loop m p (word_of_int val) (unat sz)"

text \<open>Comparison of two blocks of the same length, first difference first.\<close>

fun memcmp_bytes :: "u8 list \<Rightarrow> u8 list \<Rightarrow> int" where
  "memcmp_bytes (a # as) (b # bs) =
     (if a < b then -1 else if a > b then 1 else memcmp_bytes as bs)"
| "memcmp_bytes _ _ = 0"

definition bytes_at :: "mem \<Rightarrow> ptr \<Rightarrow> nat \<Rightarrow> u8 list" where
  "bytes_at m p n = map (\<lambda>i. m (p + of_nat i)) [0..<n]"

definition memcmp :: "mem \<Rightarrow> ptr \<Rightarrow> ptr \<Rightarrow> u64 \<Rightarrow> int" where
  "memcmp m a b sz = memcmp_bytes (bytes_at m a (unat sz)) (bytes_at m b (unat sz))"

section \<open>Strings\<close>

partial_function (option) strlen_loop :: "mem \<Rightarrow> ptr \<Rightarrow> ptr option" where
  "strlen_loop m s = (if m s = 0 then Some s else strlen_loop m (s + 1))"

definition strlen :: "mem \<Rightarrow> ptr \<Rightarrow> u64 option" where
  "strlen m str = map_option (\<lambda>s. s - str) (strlen_loop m str)"

fun strnlen_loop :: "mem \<Rightarrow> ptr \<Rightarrow> nat \<Rightarrow> ptr" where
  "strnlen_loop m s 0 = s"
| "strnlen_loop m s (Suc maxlen) = (if m s = 0 then s else strnlen_loop m (s + 1) maxlen)"

definition strnlen :: "mem \<Rightarrow> ptr \<Rightarrow> u64 \<Rightarrow> u64" where
  "strnlen m str maxlen = strnlen_loop m str (unat maxlen) - str"

fun strncmp_loop :: "mem \<Rightarrow> ptr \<Rightarrow> ptr \<Rightarrow> nat \<Rightarrow> int" where
  "strncmp_loop m s1 s2 0 = 0"
| "strncmp_loop m s1 s2 (Suc n) =
     (if m s1 = 0 \<or> m s2 = 0 then 0
      else if sint (m s1) < sint (m s2) then -1
      else if sint (m s1) > sint (m s2) then 1
      else strncmp_loop m (s1 + 1) (s2 + 1) n)"

definition strncmp :: "mem \<Rightarrow> ptr \<Rightarrow> ptr \<Rightarrow> u64 \<Rightarrow> int" where
  "strncmp m s1 s2 n = strncmp_loop m s1 s2 (unat n)"

text \<open>
  \<^verbatim>\<open>strcmp\<close> stores both lengths in \<^verbatim>\<open>int\<close>s, compares them, and only then the characters; the
  length goes back to \<^verbatim>\<open>size_t\<close> in the call of \<^verbatim>\<open>strncmp\<close>.
\<close>

definition to_int32 :: "u64 \<Rightarrow> int" where
  "to_int32 n = sint (ucast n :: u32)"

definition strcmp :: "mem \<Rightarrow> ptr \<Rightarrow> ptr \<Rightarrow> int res option" where
  "strcmp m s1 s2 =
     (case strlen m s1 of None \<Rightarrow> None
      | Some l1 \<Rightarrow>
          (case strlen m s2 of None \<Rightarrow> None
           | Some l2 \<Rightarrow>
               let s1_len = to_int32 l1; s2_len = to_int32 l2 in
               Some (if s1_len \<noteq> s2_len
                     then if \<bar>s1_len - s2_len\<bar> \<le> INT_MAX then Inr (s1_len - s2_len)
                          else Inl SignedOverflow
                     else Inr (strncmp m s1 s2 (word_of_int s1_len)))))"

section \<open>Lemmas on blocks\<close>

text \<open>The n addresses from d on, read modulo the address width.\<close>

definition in_block :: "ptr \<Rightarrow> ptr \<Rightarrow> nat \<Rightarrow> bool" where
  "in_block a d n \<longleftrightarrow> unat (a - d) < n"

text \<open>The specification of a copy: every byte of the target block takes the old byte of the source.\<close>

definition block_copy :: "mem \<Rightarrow> ptr \<Rightarrow> ptr \<Rightarrow> nat \<Rightarrow> mem" where
  "block_copy m d s n = (\<lambda>a. if in_block a d n then m (s + (a - d)) else m a)"

lemma in_block_iff:
  assumes "n \<le> 2 ^ 64"
  shows "in_block a d n \<longleftrightarrow> (\<exists>i < n. a = d + of_nat i)"
proof
  assume "in_block a d n"
  then show "\<exists>i < n. a = d + of_nat i"
    by (intro exI[of _ "unat (a - d)"]) (simp add: in_block_def)
next
  assume "\<exists>i < n. a = d + of_nat i"
  then obtain i where "i < n" "a = d + of_nat i" by blast
  moreover have "unat (of_nat i :: ptr) \<le> i" by (simp add: unat_of_nat take_bit_nat_less_eq_self)
  ultimately show "in_block a d n" by (simp add: in_block_def)
qed

lemma in_block_Suc:
  assumes "n < 2 ^ 64"
  shows "in_block a d (Suc n) \<longleftrightarrow> in_block a d n \<or> a = d + of_nat n"
proof -
  have n: "unat (of_nat n :: ptr) = n"
    using assms by (simp add: unat_of_nat take_bit_nat_eq_self)
  have "unat (a - d) = n \<longleftrightarrow> a - d = of_nat n"
    using n by (metis word_unat_eq_iff)
  also have "\<dots> \<longleftrightarrow> a = d + of_nat n" by (auto simp: algebra_simps)
  finally have "unat (a - d) = n \<longleftrightarrow> a = d + of_nat n" .
  then show ?thesis by (auto simp: in_block_def less_Suc_eq)
qed

lemma copy_up_block:
  assumes "n \<le> 2 ^ 64"
    and sep: "\<And>i j. i < j \<Longrightarrow> j < n \<Longrightarrow> d + of_nat i \<noteq> s + of_nat j"
  shows "copy_up m d s n = block_copy m d s n"
  using assms
proof (induction n)
  case 0
  then show ?case by (simp add: block_copy_def in_block_def)
next
  case (Suc n)
  have IH: "copy_up m d s n = block_copy m d s n"
    using Suc.prems by (intro Suc.IH) auto
  have "\<not> in_block (s + of_nat n) d n"
    using Suc.prems by (subst in_block_iff) force+
  then have "block_copy m d s n (s + of_nat n) = m (s + of_nat n)"
    by (simp add: block_copy_def)
  then show ?case
    using in_block_Suc[of n _ d] Suc.prems(1) by (auto simp: IH Let_def block_copy_def)
qed

lemma copy_down_block:
  assumes "n \<le> 2 ^ 64"
    and sep: "\<And>i j. i < j \<Longrightarrow> j < n \<Longrightarrow> d + of_nat j \<noteq> s + of_nat i"
  shows "copy_down m d s n = block_copy m d s n"
  using assms
proof (induction n arbitrary: m)
  case 0
  then show ?case by (simp add: block_copy_def in_block_def)
next
  case (Suc n)
  let ?m = "m(d + of_nat n := m (s + of_nat n))"
  have IH: "copy_down ?m d s n = block_copy ?m d s n"
    using Suc.prems by (intro Suc.IH) auto
  have n: "unat (of_nat n :: ptr) = n"
    using Suc.prems(1) by (simp add: unat_of_nat take_bit_nat_eq_self)
  have last: "\<not> in_block (d + of_nat n) d n" by (simp add: in_block_def n)
  have keep: "s + (a - d) \<noteq> d + of_nat n" if "in_block a d n" for a
  proof -
    from that in_block_iff[of n a d] Suc.prems(1) obtain i where "i < n" "a = d + of_nat i" by auto
    with Suc.prems(2)[of i n] show ?thesis by (metis add_diff_cancel_left' lessI)
  qed
  show ?case
    using in_block_Suc[of n _ d] Suc.prems(1) last keep by (auto simp: IH block_copy_def)
qed

text \<open>Blocks that do not wrap around the top of the address space.\<close>

definition no_wrap :: "ptr \<Rightarrow> u64 \<Rightarrow> bool" where
  "no_wrap p n \<longleftrightarrow> unat p + unat n \<le> 2 ^ 64"

lemma no_wrap_less: "no_wrap p n \<Longrightarrow> i < unat n \<Longrightarrow> unat (p + of_nat i) = unat p + i"
  by (intro unat_add_of_nat) (simp add: no_wrap_def)

lemma memset_loop_eq:
  "n \<le> 2 ^ 64 \<Longrightarrow> memset_loop m p v n = (\<lambda>a. if in_block a p n then v else m a)"
proof (induction n)
  case 0
  then show ?case by (simp add: in_block_def)
next
  case (Suc n)
  then show ?case using in_block_Suc[of n _ p] by (auto simp: fun_eq_iff)
qed

lemma unat_le_2p64: "unat (n::u64) \<le> 2 ^ 64"
  using unsigned_less[of n, where 'a = nat] by simp

lemma memcmp_bytes_0_iff: "length as = length bs \<Longrightarrow> memcmp_bytes as bs = 0 \<longleftrightarrow> as = bs"
  by (induction as bs rule: memcmp_bytes.induct) (auto simp: not_less)

lemma memcmp_bytes_values: "memcmp_bytes as bs \<in> {-1, 0, 1}"
  by (induction as bs rule: memcmp_bytes.induct) auto

lemma memcmp_bytes_sym: "memcmp_bytes bs as = - memcmp_bytes as bs"
  by (induction as bs rule: memcmp_bytes.induct) auto

lemma length_bytes_at [simp]: "length (bytes_at m p n) = n"
  by (simp add: bytes_at_def)

section \<open>Lemmas on strings\<close>

text \<open>The C string at p: its characters, none of them zero, and the terminator.\<close>

fun cstr :: "mem \<Rightarrow> ptr \<Rightarrow> u8 list \<Rightarrow> bool" where
  "cstr m p [] \<longleftrightarrow> m p = 0"
| "cstr m p (c # cs) \<longleftrightarrow> c \<noteq> 0 \<and> m p = c \<and> cstr m (p + 1) cs"

lemma strlen_loop_cstr: "cstr m p s \<Longrightarrow> strlen_loop m p = Some (p + of_nat (length s))"
proof (induction s arbitrary: p)
  case Nil
  then show ?case by (simp add: strlen_loop.simps)
next
  case (Cons c cs)
  then show ?case by (subst strlen_loop.simps) (auto simp: algebra_simps)
qed

lemma strlen_cstr: "cstr m p s \<Longrightarrow> strlen m p = Some (of_nat (length s))"
  by (simp add: strlen_def strlen_loop_cstr)

lemma cstr_unique: "cstr m p s \<Longrightarrow> cstr m p t \<Longrightarrow> s = t"
proof (induction s arbitrary: p t)
  case Nil
  then show ?case by (cases t) auto
next
  case (Cons c cs)
  then show ?case by (cases t) auto
qed

text \<open>The comparison of two character sequences as \<^verbatim>\<open>strncmp\<close> makes it.\<close>

fun char_cmp :: "u8 list \<Rightarrow> u8 list \<Rightarrow> int" where
  "char_cmp (a # as) (b # bs) =
     (if sint a < sint b then -1 else if sint a > sint b then 1 else char_cmp as bs)"
| "char_cmp _ _ = 0"

lemma strncmp_loop_cstr:
  "cstr m p s \<Longrightarrow> cstr m q t \<Longrightarrow> strncmp_loop m p q n = char_cmp (take n s) (take n t)"
proof (induction n arbitrary: p q s t)
  case (Suc n)
  then show ?case by (cases s; cases t) auto
qed simp

lemma char_cmp_0_iff:
  "char_cmp as bs = 0 \<longleftrightarrow> take (length bs) as = take (length as) bs"
proof (induction as bs rule: char_cmp.induct)
  case (1 a as b bs)
  have "sint a = sint b \<longleftrightarrow> a = b" by (auto intro: signed_word_eqI)
  with 1 show ?case by (auto simp: not_less)
qed auto

section \<open>Properties\<close>

text \<open>(C36) \<^verbatim>\<open>memmove\<close> is a simultaneous copy: whether or not the two blocks overlap, every byte of the
  target takes the byte the source block held before, and no other byte changes.
\<close>

theorem memmove_block_copy:
  assumes "no_wrap dst n" and "no_wrap src n"
  shows "memmove m dst src n = block_copy m dst src (unat n)"
proof (cases "dst < src")
  case True
  have "copy_up m dst src (unat n) = block_copy m dst src (unat n)"
  proof (rule copy_up_block[OF unat_le_2p64])
    fix i j assume ij: "i < j" "j < unat n"
    have "unat (dst + of_nat i) < unat (src + of_nat j)"
      using no_wrap_less[OF assms(1), of i] no_wrap_less[OF assms(2), of j] ij True
      by (simp add: word_less_nat_alt)
    then show "dst + of_nat i \<noteq> src + of_nat j" by auto
  qed
  with True show ?thesis by (simp add: memmove_def)
next
  case False
  have "copy_down m dst src (unat n) = block_copy m dst src (unat n)"
  proof (rule copy_down_block[OF unat_le_2p64])
    fix i j assume ij: "i < j" "j < unat n"
    have "unat (src + of_nat i) < unat (dst + of_nat j)"
      using no_wrap_less[OF assms(1), of j] no_wrap_less[OF assms(2), of i] ij False
      by (simp add: word_less_nat_alt not_less)
    then show "dst + of_nat j \<noteq> src + of_nat i" by auto
  qed
  with False show ?thesis by (simp add: memmove_def)
qed

theorem memmove_block_copy_witness:
  "memmove (\<lambda>a. ucast a) 0x1001 0x1000 3 = block_copy (\<lambda>a. ucast a) 0x1001 0x1000 3"
proof -
  have "no_wrap 0x1001 3" "no_wrap 0x1000 3" by (simp_all add: no_wrap_def)
  from memmove_block_copy[OF this] show ?thesis by simp
qed

text \<open>\<^verbatim>\<open>memcmp\<close> returns 0 exactly on blocks with the same bytes, only the values -1, 0 and 1, and the
  opposite sign with its arguments exchanged.
\<close>

theorem memcmp_equal_iff:
  "(memcmp m a b n = 0 \<longleftrightarrow> bytes_at m a (unat n) = bytes_at m b (unat n))
   \<and> memcmp m a b n \<in> {-1, 0, 1} \<and> memcmp m b a n = - memcmp m a b n"
  unfolding memcmp_def
  by (intro conjI memcmp_bytes_values memcmp_bytes_sym memcmp_bytes_0_iff) simp

text \<open>On two C strings shorter than 2 GiB, \<^verbatim>\<open>strcmp\<close> returns, without a fault, and returns 0 exactly
  when the strings are equal.
\<close>

theorem strcmp_equal_iff:
  assumes s1: "cstr m p s" and s2: "cstr m q t" and "int (length s) \<le> INT_MAX" "int (length t) \<le> INT_MAX"
  shows "\<exists>r. strcmp m p q = Some (Inr r) \<and> (r = 0 \<longleftrightarrow> s = t)"
proof -
  have conv: "to_int32 (of_nat k) = int k" if "int k \<le> INT_MAX" for k
    using that by (simp add: to_int32_def INT_MAX_def sint_uint unsigned_ucast_eq uint_nat unat_of_nat
        take_bit_nat_eq_self signed_take_bit_int_eq_self of_nat_take_bit take_bit_int_eq_self)
  have l: "to_int32 (of_nat (length s)) = int (length s)" "to_int32 (of_nat (length t)) = int (length t)"
    using assms by (simp_all add: conv)
  show ?thesis
  proof (cases "length s = length t")
    case False
    then show ?thesis
      using assms by (auto simp: strcmp_def strlen_cstr[OF s1] strlen_cstr[OF s2] l Let_def INT_MAX_def)
  next
    case True
    have "strncmp_loop m p q n = char_cmp (take n s) (take n t)" for n
      by (rule strncmp_loop_cstr[OF s1 s2])
    moreover have "unat (of_nat (length s) :: u64) = length s"
      using assms by (simp add: unat_of_nat take_bit_nat_eq_self INT_MAX_def)
    ultimately have "strncmp m p q (word_of_int (int (length s))) = char_cmp s t"
      using True by (simp add: strncmp_def)
    then show ?thesis
      using True char_cmp_0_iff[of s t]
      by (simp add: strcmp_def strlen_cstr[OF s1] strlen_cstr[OF s2] l Let_def)
  qed
qed

theorem strcmp_equal_iff_witness:
  "\<exists>r. strcmp ((\<lambda>_. 0)(0x10 := 97, 0x20 := 98)) 0x10 0x20 = Some (Inr r) \<and> r \<noteq> 0"
proof -
  let ?m = "(\<lambda>_. 0)(0x10 := 97, 0x20 := 98) :: mem"
  have "cstr ?m 0x10 [97]" "cstr ?m 0x20 [98]" by simp_all
  moreover have "int (length [97 :: u8]) \<le> INT_MAX" "int (length [98 :: u8]) \<le> INT_MAX"
    by (simp_all add: INT_MAX_def)
  ultimately show ?thesis using strcmp_equal_iff[where m = ?m and p = "0x10" and q = "0x20"] by fastforce
qed

end
