(* ===== verification/HashMap.thy ===== *)
theory HashMap
  imports Fnv CString "HOL-Library.Log_Nat"
begin

text \<open>
  The open-addressing hash map of \<^verbatim>\<open>lethe-utils/hashmap.c\<close>, which the AML interpreter and the
  kernel use for four-character names. A key is the four octets \<^verbatim>\<open>KEY_LEN\<close> fixes; an entry holds
  the octets its key pointer points to (\<open>None\<close> for the null pointer) and the value pointer. The
  probe loops may run for ever on a full table, so they are runs; the theorems show that they end on
  every map the operations build, and that the map is a finite function from keys to pointers.
  The allocator is a predicate on the requested number of bytes.
\<close>

section \<open>Data and operations\<close>

datatype hash_key = Key u8 u8 u8 u8

fun key_bytes :: "hash_key \<Rightarrow> u8 list" where
  "key_bytes (Key a b c d) = [a, b, c, d]"

record hm_entry =
  ekey :: "hash_key option"
  evalue :: ptr

record hm =
  entries :: "hm_entry list"
  hcapacity :: nat
  count :: nat

definition KEY_LEN :: nat where "KEY_LEN = 4"
definition HM_RESIZE_VAL :: nat where "HM_RESIZE_VAL = 2"
definition INITIAL_CAPACITY :: nat where "INITIAL_CAPACITY = 4"

text \<open>\<^verbatim>\<open>sizeof(hm_entry)\<close> and \<^verbatim>\<open>sizeof(hm)\<close>; the wrap-around of \<^verbatim>\<open>size_t\<close>.\<close>
definition sizeof_hm_entry :: nat where "sizeof_hm_entry = 16"
definition sizeof_hm :: nat where "sizeof_hm = 24"
definition SIZE_MOD :: nat where "SIZE_MOD = 2 ^ 64"

definition hash_value :: "hash_key \<Rightarrow> nat" where
  "hash_value k = unat (fnv_64a_buf (key_bytes k))"

definition hm_strdup :: "(nat \<Rightarrow> bool) \<Rightarrow> hash_key \<Rightarrow> hash_key option" where
  "hm_strdup alloc_ok k = (if alloc_ok KEY_LEN then Some k else None)"

text \<open>
  The probe loop: the index it stops at, and whether the entry there holds the key (\<open>True\<close>) or is
  free (\<open>False\<close>).
\<close>

partial_function (option) probe :: "hm_entry list \<Rightarrow> nat \<Rightarrow> hash_key \<Rightarrow> nat \<Rightarrow> (nat \<times> bool) run" where
  "probe es cap k index =
     (if length es \<le> index then Some (Inl OutOfBounds)
      else case ekey (es ! index) of
             None \<Rightarrow> Some (Inr (index, False))
           | Some k' \<Rightarrow>
               if memcmp_bytes (key_bytes k) (key_bytes k') = 0 then Some (Inr (index, True))
               else probe es cap k ((index + 1) mod cap))"

definition find_slot :: "hm_entry list \<Rightarrow> nat \<Rightarrow> hash_key \<Rightarrow> (nat \<times> bool) run" where
  "find_slot es cap k =
     (if cap = 0 then Some (Inl DivideError) else probe es cap k (hash_value k mod cap))"

text \<open>
  \<^verbatim>\<open>set_entry\<close>: \<open>plength\<close> is the counter behind the pointer, \<open>None\<close> for the null pointer. The
  result is the new table, the counter and the returned key (\<open>None\<close> for the null pointer).
\<close>

definition hm_set_entry :: "(nat \<Rightarrow> bool) \<Rightarrow> hm_entry list \<Rightarrow> nat \<Rightarrow> hash_key \<Rightarrow> ptr \<Rightarrow> nat option
    \<Rightarrow> (hm_entry list \<times> nat option \<times> hash_key option) run" where
  "hm_set_entry alloc_ok es cap k v plength =
     bindR (find_slot es cap k) (\<lambda>(index, found).
       Some (Inr (
         if found then (es[index := (es ! index)\<lparr>evalue := v\<rparr>], plength, ekey (es ! index))
         else case plength of
           None \<Rightarrow> (es[index := \<lparr>ekey = Some k, evalue = v\<rparr>], None, Some k)
         | Some n \<Rightarrow>
             (case hm_strdup alloc_ok k of
                None \<Rightarrow> (es, Some n, None)
              | Some k' \<Rightarrow> (es[index := \<lparr>ekey = Some k', evalue = v\<rparr>], Some ((n + 1) mod SIZE_MOD), Some k')))))"

definition empty_entry :: hm_entry where
  "empty_entry = \<lparr>ekey = None, evalue = NULL\<rparr>"

text \<open>The body of the loop of \<^verbatim>\<open>hm_expand\<close> on the i-th old entry.\<close>

definition rehash_entry :: "(nat \<Rightarrow> bool) \<Rightarrow> hm \<Rightarrow> nat \<Rightarrow> hm_entry list \<Rightarrow> nat \<Rightarrow> hm_entry list run" where
  "rehash_entry alloc_ok m cap es i =
     (if length (entries m) \<le> i then Some (Inl OutOfBounds)
      else case ekey (entries m ! i) of
             None \<Rightarrow> Some (Inr es)
           | Some k \<Rightarrow>
               bindR (hm_set_entry alloc_ok es cap k (evalue (entries m ! i)) None)
                 (\<lambda>(es', _, _). Some (Inr es')))"

definition hm_expand :: "(nat \<Rightarrow> bool) \<Rightarrow> hm \<Rightarrow> (bool \<times> hm) run" where
  "hm_expand alloc_ok m =
     (let cap = (hcapacity m * HM_RESIZE_VAL) mod SIZE_MOD in
      if cap < hcapacity m then Some (Inr (False, m))
      else if \<not> alloc_ok (cap * sizeof_hm_entry) then Some (Inr (False, m))
      else bindR (foldR (rehash_entry alloc_ok m cap) [0..<hcapacity m] (replicate cap empty_entry))
             (\<lambda>es. Some (Inr (True, m\<lparr>hcapacity := cap, entries := es\<rparr>))))"

definition hm_create :: "(nat \<Rightarrow> bool) \<Rightarrow> hm option" where
  "hm_create alloc_ok =
     (if \<not> alloc_ok sizeof_hm then None
      else if \<not> alloc_ok (INITIAL_CAPACITY * sizeof_hm_entry) then None
      else Some \<lparr>entries = replicate INITIAL_CAPACITY empty_entry, hcapacity = INITIAL_CAPACITY, count = 0\<rparr>)"

text \<open>A found entry is read where the probe loop stopped.\<close>

definition hm_get :: "hm \<Rightarrow> hash_key \<Rightarrow> ptr run" where
  "hm_get m k =
     bindR (find_slot (entries m) (hcapacity m) k) (\<lambda>(index, found).
       Some (Inr (if found then evalue (entries m ! index) else NULL)))"

text \<open>
  Conversion of a \<^verbatim>\<open>size_t\<close> to \<^verbatim>\<open>float\<close>: 24 significant bits, to the nearest, ties to even. The
  product of a power of two with 0.75F is exact, and every capacity is a power of two, so comparing
  four times the one side with three times the other is the comparison the code makes.
\<close>

definition float_of_size :: "nat \<Rightarrow> nat" where
  "float_of_size n =
     (if n < 2 ^ 24 then n
      else let s = floorlog 2 n - 24; q = n div 2 ^ s; r = n mod 2 ^ s in
           (if 2 ^ s < 2 * r \<or> (2 ^ s = 2 * r \<and> odd q) then q + 1 else q) * 2 ^ s)"

definition over_load_factor :: "nat \<Rightarrow> nat \<Rightarrow> bool" where
  "over_load_factor n cap \<longleftrightarrow> 3 * float_of_size cap \<le> 4 * float_of_size n"

text \<open>The key returned is \<open>None\<close> when an allocation failed.\<close>

definition hm_set :: "(nat \<Rightarrow> bool) \<Rightarrow> hm \<Rightarrow> hash_key \<Rightarrow> ptr \<Rightarrow> (hash_key option \<times> hm) run" where
  "hm_set alloc_ok m k v =
     (if v = NULL then Some (Inl AssertFailed)
      else bindR (if over_load_factor (count m) (hcapacity m) then hm_expand alloc_ok m
                  else Some (Inr (True, m))) (\<lambda>(grown, m').
        if \<not> grown then Some (Inr (None, m'))
        else bindR (hm_set_entry alloc_ok (entries m') (hcapacity m') k v (Some (count m')))
               (\<lambda>(es, n, r). Some (Inr (r, m'\<lparr>entries := es, count := the n\<rparr>)))))"

record hmi =
  it_key :: "hash_key option"
  it_value :: ptr
  it_map :: hm
  it_index :: nat

text \<open>The fields the code leaves uninitialised are given by the caller.\<close>

definition hm_iter :: "hash_key option \<Rightarrow> ptr \<Rightarrow> hm \<Rightarrow> hmi" where
  "hm_iter k0 v0 m = \<lparr>it_key = k0, it_value = v0, it_map = m, it_index = 0\<rparr>"

function hm_next :: "hmi \<Rightarrow> (bool \<times> hmi) res" where
  "hm_next it =
     (if it_index it < hcapacity (it_map it)
      then let i = it_index it; it' = it\<lparr>it_index := i + 1\<rparr>; es = entries (it_map it) in
        (if length es \<le> i then Inl OutOfBounds
         else case ekey (es ! i) of
                Some k \<Rightarrow> Inr (True, it'\<lparr>it_key := Some k, it_value := evalue (es ! i)\<rparr>)
              | None \<Rightarrow> hm_next it')
      else Inr (False, it))"
  by auto
termination
  by (relation "measure (\<lambda>it. hcapacity (it_map it) - it_index it)") auto

declare hm_next.simps [simp del]

lemma hm_next_advances:
  "hm_next it = Inr (True, it') \<Longrightarrow>
     it_map it' = it_map it \<and> it_index it < it_index it' \<and> it_index it < hcapacity (it_map it)"
proof (induction it rule: hm_next.induct)
  case (1 it)
  show ?case
    using 1(2) 1(1)[OF _ refl refl refl]
    by (subst (asm) hm_next.simps) (auto simp: Let_def Suc_lessD split: if_splits option.splits)
qed

text \<open>
  \<^verbatim>\<open>hm_foreach\<close>: the calls it makes of the callback, in order, with the key and the value. The
  callback does not touch the map.
\<close>

function hm_foreach :: "hmi \<Rightarrow> (hash_key option \<times> ptr) list res" where
  "hm_foreach it =
     (case hm_next it of
        Inl e \<Rightarrow> Inl e
      | Inr (another, it') \<Rightarrow>
          if another then bindE (hm_foreach it') (\<lambda>calls. Inr ((it_key it', it_value it') # calls))
          else Inr [])"
  by auto
termination
  by (relation "measure (\<lambda>it. hcapacity (it_map it) - it_index it)")
    (auto dest!: hm_next_advances)

declare hm_foreach.simps [simp del]


section \<open>The abstract map and the invariant\<close>

text \<open>The finite map a table stands for.\<close>

definition tbl_map :: "hm_entry list \<Rightarrow> hash_key \<Rightarrow> ptr option" where
  "tbl_map es k = (case filter (\<lambda>e. ekey e = Some k) es of [] \<Rightarrow> None | e # _ \<Rightarrow> Some (evalue e))"

definition occupied :: "hm_entry list \<Rightarrow> nat" where
  "occupied es = length (filter (\<lambda>e. ekey e \<noteq> None) es)"

definition home :: "nat \<Rightarrow> hash_key \<Rightarrow> nat \<Rightarrow> nat" where
  "home cap k d = (hash_value k + d) mod cap"

text \<open>No key twice, and no free slot between the home slot of a key and the slot that holds it.\<close>

definition table_wf :: "hm_entry list \<Rightarrow> nat \<Rightarrow> bool" where
  "table_wf es cap \<longleftrightarrow> length es = cap \<and> 0 < cap
     \<and> (\<forall>i < cap. \<forall>j < cap. ekey (es ! i) \<noteq> None \<longrightarrow> ekey (es ! i) = ekey (es ! j) \<longrightarrow> i = j)
     \<and> (\<forall>i < cap. case ekey (es ! i) of None \<Rightarrow> True
          | Some k \<Rightarrow> \<exists>d < cap. i = home cap k d \<and> (\<forall>d' < d. ekey (es ! home cap k d') \<noteq> None))"

definition hm_wf :: "hm \<Rightarrow> bool" where
  "hm_wf m \<longleftrightarrow> table_wf (entries m) (hcapacity m) \<and> count m = occupied (entries m)
     \<and> count m < hcapacity m \<and> (\<exists>n < 64. 2 \<le> n \<and> hcapacity m = 2 ^ n)"

definition hm_lookup :: "hm \<Rightarrow> hash_key \<Rightarrow> ptr option" where
  "hm_lookup m = tbl_map (entries m)"

section \<open>Lemmas\<close>

lemma key_bytes_inj: "key_bytes k = key_bytes k' \<longleftrightarrow> k = k'"
  by (cases k; cases k') simp

lemma memcmp_keys [simp]: "memcmp_bytes (key_bytes k) (key_bytes k') = 0 \<longleftrightarrow> k = k'"
proof -
  have "length (key_bytes x) = 4" for x by (cases x) simp
  then show ?thesis by (simp add: memcmp_bytes_0_iff key_bytes_inj)
qed

lemma table_wfD:
  assumes "table_wf es cap"
  shows "length es = cap" "0 < cap"
    "i < cap \<Longrightarrow> j < cap \<Longrightarrow> ekey (es ! i) = Some k \<Longrightarrow> ekey (es ! j) = Some k \<Longrightarrow> i = j"
    "i < cap \<Longrightarrow> ekey (es ! i) = Some k \<Longrightarrow>
       \<exists>d < cap. i = home cap k d \<and> (\<forall>d' < d. ekey (es ! home cap k d') \<noteq> None)"
proof -
  show "length es = cap" "0 < cap" using assms by (simp_all add: table_wf_def)
  show "i < cap \<Longrightarrow> j < cap \<Longrightarrow> ekey (es ! i) = Some k \<Longrightarrow> ekey (es ! j) = Some k \<Longrightarrow> i = j"
    using assms unfolding table_wf_def by (metis option.discI)
  assume i: "i < cap" "ekey (es ! i) = Some k"
  have "\<forall>i < cap. case ekey (es ! i) of None \<Rightarrow> True
      | Some k \<Rightarrow> \<exists>d < cap. i = home cap k d \<and> (\<forall>d' < d. ekey (es ! home cap k d') \<noteq> None)"
    using assms unfolding table_wf_def by (elim conjE)
  from this[rule_format, OF i(1)] i(2)
  show "\<exists>d < cap. i = home cap k d \<and> (\<forall>d' < d. ekey (es ! home cap k d') \<noteq> None)" by simp
qed

lemma table_wfI:
  assumes "length es = cap" "0 < cap"
    "\<And>i j k. i < cap \<Longrightarrow> j < cap \<Longrightarrow> ekey (es ! i) = Some k \<Longrightarrow> ekey (es ! j) = Some k \<Longrightarrow> i = j"
    "\<And>i k. i < cap \<Longrightarrow> ekey (es ! i) = Some k \<Longrightarrow>
       \<exists>d < cap. i = home cap k d \<and> (\<forall>d' < d. ekey (es ! home cap k d') \<noteq> None)"
  shows "table_wf es cap"
  using assms by (auto simp: table_wf_def split: option.split)

lemma home_less [simp]: "0 < cap \<Longrightarrow> home cap k d < cap"
  by (simp add: home_def)

lemma home_Suc: "(home cap k d + 1) mod cap = home cap k (Suc d)"
  by (simp add: home_def mod_simps)

lemma home_onto:
  assumes "i < cap"
  shows "\<exists>d < cap. home cap k d = i"
proof -
  let ?h = "hash_value k mod cap"
  have "home cap k ((i + (cap - ?h)) mod cap) = (hash_value k mod cap + (i + (cap - ?h))) mod cap"
    by (simp add: home_def mod_simps)
  also have "\<dots> = (i + cap) mod cap"
    using assms mod_less_divisor[of cap "hash_value k"] by (intro arg_cong[of _ _ "\<lambda>x. x mod cap"]) linarith
  also have "\<dots> = i" using assms by simp
  finally show ?thesis using assms by (intro exI[of _ "(i + (cap - ?h)) mod cap"]) simp
qed

text \<open>Where the probe loop stops: at the first slot on its way that is free or holds the key.\<close>

definition stops :: "hm_entry list \<Rightarrow> hash_key \<Rightarrow> nat \<Rightarrow> bool" where
  "stops es k i \<longleftrightarrow> ekey (es ! i) = None \<or> ekey (es ! i) = Some k"

lemma probe_stops:
  assumes "length es = cap" "0 < cap" "stops es k (home cap k (d + n))"
    "\<And>j. j < n \<Longrightarrow> \<not> stops es k (home cap k (d + j))"
  shows "probe es cap k (home cap k d)
    = Some (Inr (home cap k (d + n), ekey (es ! home cap k (d + n)) \<noteq> None))"
  using assms
proof (induction n arbitrary: d)
  case 0
  then show ?case by (subst probe.simps) (auto simp: stops_def not_le split: option.splits)
next
  case (Suc n)
  have IH: "probe es cap k (home cap k (Suc d))
      = Some (Inr (home cap k (Suc d + n), ekey (es ! home cap k (Suc d + n)) \<noteq> None))"
    using Suc.prems(3,4) Suc.prems(4)[of "Suc _"] by (intro Suc.IH Suc.prems(1,2)) auto
  have "\<not> stops es k (home cap k d)" using Suc.prems(4)[of 0] by simp
  then have "probe es cap k (home cap k d) = probe es cap k (home cap k (Suc d))"
    using Suc.prems(1,2) home_less[of cap k d]
    by (subst probe.simps) (auto simp: stops_def home_Suc[symmetric] simp del: home_less split: option.splits)
  with IH show ?case by simp
qed

lemma find_slot_first:
  assumes "length es = cap" "i < cap" "ekey (es ! i) = None"
  obtains d where "d < cap" "find_slot es cap k = Some (Inr (home cap k d, ekey (es ! home cap k d) \<noteq> None))"
    "stops es k (home cap k d)" "\<And>j. j < d \<Longrightarrow> \<not> stops es k (home cap k j)"
proof -
  from home_onto[OF assms(2)] obtain e where e: "e < cap" "home cap k e = i" by blast
  define d where "d = (LEAST d. stops es k (home cap k d))"
  have ex: "stops es k (home cap k e)" using e assms by (simp add: stops_def)
  have d: "stops es k (home cap k d)" "d \<le> e"
    unfolding d_def by (rule LeastI[of _ e], rule ex) (rule Least_le, rule ex)
  have before: "\<not> stops es k (home cap k j)" if "j < d" for j
    using not_less_Least[of j "\<lambda>d. stops es k (home cap k d)"] that by (simp add: d_def)
  have "find_slot es cap k = probe es cap k (home cap k 0)"
    using assms by (simp add: find_slot_def home_def)
  also have "\<dots> = Some (Inr (home cap k d, ekey (es ! home cap k d) \<noteq> None))"
    using probe_stops[of es cap k 0 d] assms d before by simp
  finally show ?thesis using that[of d] d e before by simp
qed

text \<open>Looking up a table, by its slots.\<close>

lemma tbl_map_None: "tbl_map es k = None \<longleftrightarrow> (\<forall>i < length es. ekey (es ! i) \<noteq> Some k)"
proof -
  have "tbl_map es k = None \<longleftrightarrow> filter (\<lambda>e. ekey e = Some k) es = []"
    by (simp add: tbl_map_def split: list.split)
  then show ?thesis by (simp add: filter_empty_conv all_set_conv_all_nth)
qed

lemma tbl_map_nth:
  assumes "table_wf es cap" "i < cap" "ekey (es ! i) = Some k"
  shows "tbl_map es k = Some (evalue (es ! i))"
proof (cases "filter (\<lambda>e. ekey e = Some k) es")
  case Nil
  then show ?thesis using assms table_wfD(1)[OF assms(1)] by (auto simp: filter_empty_conv)
next
  case (Cons e r)
  then have "e \<in> set (filter (\<lambda>e. ekey e = Some k) es)" by simp
  then obtain j where "j < cap" "es ! j = e" "ekey e = Some k"
    using table_wfD(1)[OF assms(1)] by (auto simp: in_set_conv_nth)
  moreover from this have "i = j" using table_wfD(3)[OF assms(1)] assms by metis
  ultimately show ?thesis by (simp add: tbl_map_def Cons)
qed

lemma tbl_map_Some:
  assumes "table_wf es cap"
  shows "tbl_map es k = Some v \<longleftrightarrow> (\<exists>i < cap. ekey (es ! i) = Some k \<and> evalue (es ! i) = v)"
proof
  assume v: "tbl_map es k = Some v"
  then have "tbl_map es k \<noteq> None" by simp
  then obtain i where "i < cap" "ekey (es ! i) = Some k"
    using table_wfD(1)[OF assms] by (auto simp: tbl_map_None)
  with tbl_map_nth[OF assms this] v show "\<exists>i < cap. ekey (es ! i) = Some k \<and> evalue (es ! i) = v" by auto
qed (use tbl_map_nth[OF assms] in auto)

lemma tbl_map_cong:
  assumes "table_wf es cap" "table_wf es' cap"
    and same: "\<And>j. j < cap \<Longrightarrow> ekey (es ! j) = Some k \<or> ekey (es' ! j) = Some k \<Longrightarrow> es ! j = es' ! j"
  shows "tbl_map es k = tbl_map es' k"
proof -
  have "tbl_map es k = Some w \<longleftrightarrow> tbl_map es' k = Some w" for w
    unfolding tbl_map_Some[OF assms(1)] tbl_map_Some[OF assms(2)] using same by metis
  then show ?thesis by (metis not_None_eq)
qed

lemma occupied_free:
  assumes "occupied es < length es"
  shows "\<exists>i < length es. ekey (es ! i) = None"
proof (rule ccontr)
  assume "\<not> ?thesis"
  then have "\<forall>e \<in> set es. ekey e \<noteq> None" by (auto simp: in_set_conv_nth)
  then have "filter (\<lambda>e. ekey e \<noteq> None) es = es" by (simp add: filter_id_conv)
  with assms show False by (simp add: occupied_def)
qed

lemma occupied_update:
  assumes "i < length es"
  shows "occupied (es[i := e]) + (if ekey (es ! i) \<noteq> None then 1 else 0)
    = occupied es + (if ekey e \<noteq> None then 1 else 0)"
proof -
  have split: "occupied (take i es @ x # drop (Suc i) es)
      = occupied (take i es) + (if ekey x \<noteq> None then 1 else 0) + occupied (drop (Suc i) es)" for x
    by (simp add: occupied_def)
  have "occupied es = occupied (take i es) + (if ekey (es ! i) \<noteq> None then 1 else 0) + occupied (drop (Suc i) es)"
    using split[of "es ! i"] by (simp only: id_take_nth_drop[OF assms, symmetric])
  moreover have "occupied (es[i := e])
      = occupied (take i es) + (if ekey e \<noteq> None then 1 else 0) + occupied (drop (Suc i) es)"
    using split[of e] by (simp only: upd_conv_take_nth_drop[OF assms])
  ultimately show ?thesis by simp
qed

lemma find_slot_spec:
  assumes wf: "table_wf es cap" and room: "occupied es < cap"
  shows "\<exists>i < cap. find_slot es cap k = Some (Inr (i, tbl_map es k \<noteq> None)) \<and>
    (tbl_map es k \<noteq> None \<longrightarrow> ekey (es ! i) = Some k) \<and>
    (tbl_map es k = None \<longrightarrow> ekey (es ! i) = None \<and>
       (\<exists>d < cap. i = home cap k d \<and> (\<forall>d' < d. ekey (es ! home cap k d') \<noteq> None)))"
proof -
  note D = table_wfD[OF wf]
  from occupied_free[of es] room D(1) obtain f where f: "f < cap" "ekey (es ! f) = None" by auto
  from find_slot_first[OF D(1) f] obtain d where d: "d < cap"
    "find_slot es cap k = Some (Inr (home cap k d, ekey (es ! home cap k d) \<noteq> None))"
    "stops es k (home cap k d)" "\<And>j. j < d \<Longrightarrow> \<not> stops es k (home cap k j)" by blast
  have found: "tbl_map es k \<noteq> None \<longleftrightarrow> ekey (es ! home cap k d) = Some k"
  proof
    assume "tbl_map es k \<noteq> None"
    then obtain i where i: "i < cap" "ekey (es ! i) = Some k" by (auto simp: tbl_map_None D(1))
    from D(4)[OF i] obtain e where e: "i = home cap k e" "\<forall>d' < e. ekey (es ! home cap k d') \<noteq> None"
      by blast
    have "\<not> e < d" using d(4)[of e] i e by (auto simp: stops_def)
    moreover have "d < e \<Longrightarrow> ekey (es ! home cap k d) = Some k" using d(3) e by (auto simp: stops_def)
    ultimately show "ekey (es ! home cap k d) = Some k" using e i by (cases "d = e") auto
  next
    assume "ekey (es ! home cap k d) = Some k"
    then show "tbl_map es k \<noteq> None" using D(1,2) by (auto simp: tbl_map_None intro!: exI[of _ "home cap k d"])
  qed
  have "ekey (es ! home cap k d) \<noteq> None \<longleftrightarrow> tbl_map es k \<noteq> None"
    using d(3) found by (auto simp: stops_def)
  moreover have "\<forall>d' < d. ekey (es ! home cap k d') \<noteq> None"
    using d(4) by (auto simp: stops_def)
  ultimately show ?thesis
    using d(1,2) found home_less[OF D(2)]
    by (intro exI[of _ "home cap k d"]) (cases "tbl_map es k", auto)
qed

lemma table_update_value:
  assumes wf: "table_wf es cap" and i: "i < cap" "ekey (es ! i) = Some k"
  shows "table_wf (es[i := (es ! i)\<lparr>evalue := v\<rparr>]) cap"
    and "tbl_map (es[i := (es ! i)\<lparr>evalue := v\<rparr>]) = (tbl_map es)(k \<mapsto> v)"
    and "occupied (es[i := (es ! i)\<lparr>evalue := v\<rparr>]) = occupied es"
proof -
  let ?es = "es[i := (es ! i)\<lparr>evalue := v\<rparr>]"
  note D = table_wfD[OF wf]
  have key: "ekey (?es ! j) = ekey (es ! j)" for j
    using i by (cases "j = i") (simp_all add: D(1))
  show wf': "table_wf ?es cap"
    using D by (intro table_wfI) (auto simp: key)
  show "tbl_map ?es = (tbl_map es)(k \<mapsto> v)"
  proof
    fix k'
    show "tbl_map ?es k' = ((tbl_map es)(k \<mapsto> v)) k'"
    proof (cases "k' = k")
      case True
      then show ?thesis using tbl_map_nth[OF wf' i(1)] i D(1) by (simp add: key)
    next
      case False
      then have "tbl_map ?es k' = tbl_map es k'"
        using i by (intro tbl_map_cong[OF wf' wf]) (auto simp: nth_list_update D(1) split: if_splits)
      with False show ?thesis by simp
    qed
  qed
  show "occupied ?es = occupied es"
    using occupied_update[of i es "(es ! i)\<lparr>evalue := v\<rparr>"] i D(1) by simp
qed

lemma table_insert:
  assumes wf: "table_wf es cap" and i: "i < cap" "ekey (es ! i) = None"
    and new: "tbl_map es k = None"
    and path: "\<exists>d < cap. i = home cap k d \<and> (\<forall>d' < d. ekey (es ! home cap k d') \<noteq> None)"
  shows "table_wf (es[i := \<lparr>ekey = Some k, evalue = v\<rparr>]) cap"
    and "tbl_map (es[i := \<lparr>ekey = Some k, evalue = v\<rparr>]) = (tbl_map es)(k \<mapsto> v)"
    and "occupied (es[i := \<lparr>ekey = Some k, evalue = v\<rparr>]) = Suc (occupied es)"
proof -
  let ?es = "es[i := \<lparr>ekey = Some k, evalue = v\<rparr>]"
  note D = table_wfD[OF wf]
  have key: "ekey (?es ! j) = (if j = i then Some k else ekey (es ! j))" for j
    using i D(1) by (auto simp: nth_list_update)
  have grow: "ekey (es ! j) \<noteq> None \<Longrightarrow> ekey (?es ! j) \<noteq> None" for j by (simp add: key)
  have fresh: "ekey (es ! j) \<noteq> Some k" if "j < cap" for j
    using new that D(1) by (simp add: tbl_map_None)
  show wf': "table_wf ?es cap"
  proof (rule table_wfI)
    fix a b k' assume "a < cap" "b < cap" "ekey (?es ! a) = Some k'" "ekey (?es ! b) = Some k'"
    then show "a = b" using fresh D(3)[of a b k'] by (auto simp: key split: if_splits)
  next
    fix a k' assume a: "a < cap" "ekey (?es ! a) = Some k'"
    show "\<exists>d < cap. a = home cap k' d \<and> (\<forall>d' < d. ekey (?es ! home cap k' d') \<noteq> None)"
    proof (cases "a = i")
      case True
      then show ?thesis using a path grow by (auto simp: key)
    next
      case False
      then show ?thesis using a D(4)[of a k'] grow by (fastforce simp: key)
    qed
  qed (use D in simp_all)
  show "tbl_map ?es = (tbl_map es)(k \<mapsto> v)"
  proof
    fix k'
    show "tbl_map ?es k' = ((tbl_map es)(k \<mapsto> v)) k'"
    proof (cases "k' = k")
      case True
      then show ?thesis using tbl_map_nth[OF wf' i(1)] i D(1) by (simp add: key)
    next
      case False
      then have "tbl_map ?es k' = tbl_map es k'"
        using i by (intro tbl_map_cong[OF wf' wf]) (auto simp: nth_list_update D(1) split: if_splits)
      with False show ?thesis by simp
    qed
  qed
  show "occupied ?es = Suc (occupied es)"
    using occupied_update[of i es "\<lparr>ekey = Some k, evalue = v\<rparr>"] i D(1) by simp
qed

text \<open>\<^verbatim>\<open>set_entry\<close> without a counter, as \<^verbatim>\<open>hm_expand\<close> calls it, and with one, as \<^verbatim>\<open>hm_set\<close> does.\<close>

lemma hm_set_entry_expand:
  assumes wf: "table_wf es cap" and room: "occupied es < cap" and new: "tbl_map es k = None"
  shows "\<exists>es'. hm_set_entry alloc_ok es cap k v None = Some (Inr (es', None, Some k)) \<and> table_wf es' cap
     \<and> tbl_map es' = (tbl_map es)(k \<mapsto> v) \<and> occupied es' = Suc (occupied es)"
proof -
  from find_slot_spec[OF wf room, of k] obtain i
    where i: "i < cap" "find_slot es cap k = Some (Inr (i, tbl_map es k \<noteq> None))"
    "tbl_map es k = None \<longrightarrow> ekey (es ! i) = None \<and>
       (\<exists>d < cap. i = home cap k d \<and> (\<forall>d' < d. ekey (es ! home cap k d') \<noteq> None))"
    by (elim exE conjE) (rule that)
  let ?es = "es[i := \<lparr>ekey = Some k, evalue = v\<rparr>]"
  have "hm_set_entry alloc_ok es cap k v None = Some (Inr (?es, None, Some k))"
    using i(2) new by (simp add: hm_set_entry_def)
  moreover have free: "ekey (es ! i) = None"
    "\<exists>d < cap. i = home cap k d \<and> (\<forall>d' < d. ekey (es ! home cap k d') \<noteq> None)"
    using i(3) new by simp_all
  ultimately show ?thesis using table_insert[OF wf i(1) free(1) new free(2)] by blast
qed

lemma hm_set_entry_count:
  assumes wf: "table_wf es cap" and room: "occupied es < cap" and small: "occupied es + 1 < SIZE_MOD"
  shows "\<exists>es'. table_wf es' cap \<and>
     hm_set_entry alloc_ok es cap k v (Some (occupied es)) =
       Some (Inr (es', Some (occupied es'),
         if alloc_ok KEY_LEN \<or> tbl_map es k \<noteq> None then Some k else None)) \<and>
     tbl_map es' = (if alloc_ok KEY_LEN \<or> tbl_map es k \<noteq> None then (tbl_map es)(k \<mapsto> v) else tbl_map es) \<and>
     occupied es' = (if alloc_ok KEY_LEN \<and> tbl_map es k = None then Suc (occupied es) else occupied es)"
proof -
  from find_slot_spec[OF wf room, of k] obtain i
    where i: "i < cap" "find_slot es cap k = Some (Inr (i, tbl_map es k \<noteq> None))"
    "tbl_map es k \<noteq> None \<longrightarrow> ekey (es ! i) = Some k"
    "tbl_map es k = None \<longrightarrow> ekey (es ! i) = None \<and>
       (\<exists>d < cap. i = home cap k d \<and> (\<forall>d' < d. ekey (es ! home cap k d') \<noteq> None))"
    by (elim exE conjE) (rule that)
  show ?thesis
  proof (cases "tbl_map es k")
    case None
    let ?es = "es[i := \<lparr>ekey = Some k, evalue = v\<rparr>]"
    from i(4) None have free: "ekey (es ! i) = None"
      "\<exists>d < cap. i = home cap k d \<and> (\<forall>d' < d. ekey (es ! home cap k d') \<noteq> None)" by simp_all
    note ins = table_insert[OF wf i(1) free(1) None free(2), of v]
    show ?thesis
    proof (cases "alloc_ok KEY_LEN")
      case True
      then show ?thesis
        using i(2) None ins small by (intro exI[of _ ?es]) (simp add: hm_set_entry_def hm_strdup_def)
    next
      case False
      then show ?thesis
        using i(2) None wf by (intro exI[of _ es]) (simp add: hm_set_entry_def hm_strdup_def)
    qed
  next
    case (Some w)
    let ?es = "es[i := (es ! i)\<lparr>evalue := v\<rparr>]"
    from i(3) Some have k: "ekey (es ! i) = Some k" by simp
    show ?thesis
      using i(2) k Some table_update_value[OF wf i(1) k, of v]
      by (intro exI[of _ ?es]) (simp add: hm_set_entry_def)
  qed
qed

lemma tbl_map_snoc:
  "tbl_map (xs @ [e]) k =
     (case tbl_map xs k of Some v \<Rightarrow> Some v | None \<Rightarrow> if ekey e = Some k then Some (evalue e) else None)"
  by (simp add: tbl_map_def split: list.split)

lemma occupied_append [simp]: "occupied (xs @ ys) = occupied xs + occupied ys"
  by (simp add: occupied_def)

lemma occupied_single [simp]: "occupied [e] = (if ekey e \<noteq> None then 1 else 0)"
  by (simp add: occupied_def)

lemma occupied_le: "occupied es \<le> length es"
  by (simp add: occupied_def)

lemma empty_table:
  "0 < cap \<Longrightarrow> table_wf (replicate cap empty_entry) cap"
  "tbl_map (replicate cap empty_entry) = Map.empty" "occupied (replicate cap empty_entry) = 0"
  by (auto simp: table_wf_def empty_entry_def tbl_map_def occupied_def fun_eq_iff)

lemma rehash_prefix:
  assumes wf: "table_wf (entries m) (hcapacity m)" and le: "hcapacity m \<le> cap" and n: "n \<le> hcapacity m"
    and room: "occupied (entries m) < cap"
  shows "\<exists>es. foldR (rehash_entry alloc_ok m cap) [0..<n] (replicate cap empty_entry) = Some (Inr es)
     \<and> table_wf es cap \<and> tbl_map es = tbl_map (take n (entries m)) \<and> occupied es = occupied (take n (entries m))"
  using n
proof (induction n)
  case 0
  then show ?case
    using empty_table[of cap] table_wfD(2)[OF wf] le by (simp add: tbl_map_def occupied_def fun_eq_iff)
next
  case (Suc n)
  let ?es = "entries m"
  note D = table_wfD[OF wf]
  from Suc obtain es where es:
    "foldR (rehash_entry alloc_ok m cap) [0..<n] (replicate cap empty_entry) = Some (Inr es)"
    "table_wf es cap" "tbl_map es = tbl_map (take n ?es)" "occupied es = occupied (take n ?es)" by auto
  have take: "take (Suc n) ?es = take n ?es @ [?es ! n]"
    using Suc.prems D(1) by (simp add: take_Suc_conv_app_nth)
  have fold: "foldR (rehash_entry alloc_ok m cap) [0..<Suc n] (replicate cap empty_entry)
      = rehash_entry alloc_ok m cap es n"
    by (auto simp: foldR_append es(1) bindR_def split: option.splits sum.splits)
  show ?case
  proof (cases "ekey (?es ! n)")
    case None
    have "rehash_entry alloc_ok m cap es n = Some (Inr es)"
      using None Suc.prems D(1) by (simp add: rehash_entry_def)
    with None es(2-4) show ?thesis
      by (subst fold) (auto simp: take tbl_map_snoc fun_eq_iff split: option.split)
  next
    case (Some k)
    have fresh: "tbl_map es k = None"
      unfolding es(3) tbl_map_None
    proof (intro allI impI notI)
      fix i assume i: "i < length (take n ?es)" "ekey (take n ?es ! i) = Some k"
      with D(3)[of i n k] D(1) Some Suc.prems show False by simp
    qed
    have "occupied (take n ?es) + occupied (drop n ?es) = occupied ?es"
      by (metis append_take_drop_id occupied_append)
    then have "occupied es < cap" using es(4) room by linarith
    from hm_set_entry_expand[OF es(2) this fresh] obtain es' where
      "hm_set_entry alloc_ok es cap k (evalue (?es ! n)) None = Some (Inr (es', None, Some k))"
      "table_wf es' cap" "tbl_map es' = (tbl_map es)(k \<mapsto> evalue (?es ! n))"
      "occupied es' = Suc (occupied es)" by blast
    moreover from this(1) have "rehash_entry alloc_ok m cap es n = Some (Inr es')"
      using Some Suc.prems D(1) by (simp add: rehash_entry_def)
    ultimately show ?thesis
      using Some fresh es(3,4)
      by (subst fold) (auto simp: take tbl_map_snoc fun_eq_iff split: option.split)
  qed
qed

text \<open>Conversion to \<^verbatim>\<open>float\<close> keeps powers of two and loses less than one part in two to the 23.\<close>

lemma float_of_size_power: "float_of_size (2 ^ j) = 2 ^ j"
proof (cases "j < 24")
  case True
  then have "(2::nat) ^ j < 2 ^ 24" by (rule power_strict_increasing) simp
  then show ?thesis by (simp add: float_of_size_def)
next
  case False
  define s where "s = j - 23"
  have s: "j = 23 + s" "0 < s" using False by (auto simp: s_def)
  have "floorlog 2 (1 * 2 ^ j) = floorlog 2 1 + j" by (rule floorlog_power) simp_all
  moreover have "floorlog 2 1 = 1" by (simp add: floorlog_def)
  ultimately have "floorlog 2 (2 ^ j) - 24 = s" by (simp add: s)
  moreover have "\<not> (2::nat) ^ j < 2 ^ 24" using False power_increasing[of 24 j "2::nat"] by simp
  moreover have "(2::nat) ^ j div 2 ^ s = 2 ^ 23" "(2::nat) ^ j mod 2 ^ s = 0"
    unfolding s(1) power_add by simp_all
  ultimately show ?thesis by (simp add: float_of_size_def Let_def s(1) power_add)
qed

lemma float_of_size_lower: "n \<le> float_of_size n + n div 2 ^ 23"
proof (cases "n < 2 ^ 24")
  case True
  then show ?thesis by (simp add: float_of_size_def)
next
  case False
  define s where "s = floorlog 2 n - 24"
  have L: "25 \<le> floorlog 2 n" using False floorlog_ge_SucI[of 2 24 n] by simp
  have "2 ^ (23 + s) \<le> n"
    using floorlog_bounds[of n 2] False L by (simp add: s_def)
  then have "2 ^ s \<le> n div 2 ^ 23" by (simp add: power_add less_eq_div_iff_mult_less_eq mult.commute)
  moreover have "n mod 2 ^ s < 2 ^ s" by simp
  moreover have "n div 2 ^ s * 2 ^ s + n mod 2 ^ s = n" by (rule div_mult_mod_eq)
  moreover have "n div 2 ^ s * 2 ^ s \<le> float_of_size n"
    using False by (simp add: float_of_size_def Let_def s_def)
  ultimately show ?thesis by linarith
qed

lemma under_load_factor:
  assumes "\<not> over_load_factor n (2 ^ j)" and "2 \<le> j"
  shows "n + 1 < 2 ^ j"
proof -
  let ?c = "2 ^ j :: nat"
  have c: "4 \<le> ?c" using power_increasing[OF assms(2), of "2::nat"] by simp
  have lt: "4 * float_of_size n < 3 * ?c"
    using assms(1) by (simp add: over_load_factor_def float_of_size_power)
  show ?thesis
  proof (cases "n < 2 ^ 24")
    case True
    then show ?thesis using lt c by (simp add: float_of_size_def)
  next
    case False
    have "n div 2 ^ 23 * 2 ^ 23 \<le> n" by simp
    then show ?thesis using float_of_size_lower[of n] lt False by simp
  qed
qed

lemma hm_expand_spec:
  assumes wf: "hm_wf m"
  shows "\<exists>g m'. hm_expand alloc_ok m = Some (Inr (g, m')) \<and> hm_wf m' \<and> hm_lookup m' = hm_lookup m
     \<and> count m' = count m \<and> (g \<longrightarrow> hcapacity m' = 2 * hcapacity m) \<and> (\<not> g \<longrightarrow> m' = m)
     \<and> (g \<longleftrightarrow> 2 * hcapacity m < SIZE_MOD \<and> alloc_ok (2 * hcapacity m * sizeof_hm_entry))"
proof -
  obtain n where n: "n < 64" "2 \<le> n" "hcapacity m = 2 ^ n" using wf by (auto simp: hm_wf_def)
  let ?cap = "2 * hcapacity m"
  show ?thesis
  proof (cases "?cap < SIZE_MOD")
    case False
    then have "n = 63"
      using n power_strict_increasing[of "Suc n" 64 "2::nat"] by (cases "Suc n < 64") (auto simp: SIZE_MOD_def)
    then have "hcapacity m * HM_RESIZE_VAL mod SIZE_MOD < hcapacity m"
      using n by (simp add: HM_RESIZE_VAL_def SIZE_MOD_def)
    then have "hm_expand alloc_ok m = Some (Inr (False, m))" by (simp add: hm_expand_def Let_def)
    then show ?thesis using wf False by (intro exI[of _ False] exI[of _ m]) simp
  next
    case True
    then have cap: "hcapacity m * HM_RESIZE_VAL mod SIZE_MOD = ?cap" by (simp add: HM_RESIZE_VAL_def)
    have twf: "table_wf (entries m) (hcapacity m)" and cnt: "count m = occupied (entries m)" "count m < hcapacity m"
      using wf by (simp_all add: hm_wf_def)
    from rehash_prefix[OF twf _ order_refl, of ?cap alloc_ok] cnt table_wfD(1)[OF twf]
    obtain es where es: "foldR (rehash_entry alloc_ok m ?cap) [0..<hcapacity m] (replicate ?cap empty_entry)
        = Some (Inr es)" "table_wf es ?cap" "tbl_map es = tbl_map (entries m)" "occupied es = occupied (entries m)"
      by auto
    have "(2::nat) ^ Suc n < 2 ^ 64" using True n(3) by (simp add: SIZE_MOD_def)
    then have "Suc n < 64" by (rule power_less_imp_less_exp[rotated]) simp
    then have "hm_wf (m\<lparr>hcapacity := ?cap, entries := es\<rparr>)"
      using es cnt n by (auto simp: hm_wf_def intro!: exI[of _ "Suc n"])
    then show ?thesis
      using wf True es by (simp add: hm_expand_def Let_def cap hm_lookup_def)
  qed
qed

lemma hm_get_spec:
  assumes "hm_wf m"
  shows "hm_get m k = Some (Inr (case hm_lookup m k of None \<Rightarrow> NULL | Some v \<Rightarrow> v))"
proof -
  have twf: "table_wf (entries m) (hcapacity m)" and room: "occupied (entries m) < hcapacity m"
    using assms by (auto simp: hm_wf_def)
  from find_slot_spec[OF twf room, of k] obtain i where i: "i < hcapacity m"
    "find_slot (entries m) (hcapacity m) k = Some (Inr (i, tbl_map (entries m) k \<noteq> None))"
    "tbl_map (entries m) k \<noteq> None \<longrightarrow> ekey (entries m ! i) = Some k"
    by (elim exE conjE) (rule that)
  then show ?thesis
    using tbl_map_nth[OF twf i(1), of k]
    by (cases "tbl_map (entries m) k") (simp_all add: hm_get_def hm_lookup_def)
qed

lemma hm_set_spec:
  assumes wf: "hm_wf m" and v: "v \<noteq> NULL"
  shows "\<exists>r m'. hm_set alloc_ok m k v = Some (Inr (r, m')) \<and> hm_wf m' \<and>
     (r = Some k \<and> hm_lookup m' = (hm_lookup m)(k \<mapsto> v) \<or> r = None \<and> hm_lookup m' = hm_lookup m) \<and>
     ((\<forall>n. alloc_ok n) \<and> 2 * hcapacity m < SIZE_MOD \<longrightarrow> r = Some k)"
proof -
  obtain g m1 where m1: "(if over_load_factor (count m) (hcapacity m) then hm_expand alloc_ok m
      else Some (Inr (True, m))) = Some (Inr (g, m1))" "hm_wf m1" "hm_lookup m1 = hm_lookup m"
    "g \<Longrightarrow> count m1 + 1 < hcapacity m1" "(\<forall>n. alloc_ok n) \<and> 2 * hcapacity m < SIZE_MOD \<longrightarrow> g"
  proof (cases "over_load_factor (count m) (hcapacity m)")
    case True
    have "count m < hcapacity m" using wf by (simp add: hm_wf_def)
    with hm_expand_spec[OF wf, of alloc_ok] True that show ?thesis by auto
  next
    case False
    then have "count m + 1 < hcapacity m" using wf under_load_factor by (auto simp: hm_wf_def)
    with False wf that[of True m] show ?thesis by simp
  qed
  show ?thesis
  proof (cases g)
    case False
    then have "hm_set alloc_ok m k v = Some (Inr (None, m1))" using m1(1) v by (simp add: hm_set_def)
    then show ?thesis using m1(2,3,5) False by auto
  next
    case True
    have twf: "table_wf (entries m1) (hcapacity m1)" and cnt: "count m1 = occupied (entries m1)"
      and pow: "\<exists>n < 64. 2 \<le> n \<and> hcapacity m1 = 2 ^ n"
      using m1(2) by (simp_all add: hm_wf_def)
    from pow obtain n where n: "n < 64" "hcapacity m1 = 2 ^ n" by blast
    have "(2::nat) ^ n < 2 ^ 64" using n(1) by (rule power_strict_increasing) simp
    then have big: "hcapacity m1 < SIZE_MOD" by (simp add: n(2) SIZE_MOD_def)
    let ?ok = "alloc_ok KEY_LEN \<or> tbl_map (entries m1) k \<noteq> None"
    from hm_set_entry_count[OF twf, of alloc_ok k v] m1(4)[OF True] big cnt obtain es where es:
      "table_wf es (hcapacity m1)"
      "hm_set_entry alloc_ok (entries m1) (hcapacity m1) k v (Some (count m1))
         = Some (Inr (es, Some (occupied es), if ?ok then Some k else None))"
      "tbl_map es = (if ?ok then (tbl_map (entries m1))(k \<mapsto> v) else tbl_map (entries m1))"
      "occupied es \<le> count m1 + 1" by (auto split: if_splits)
    let ?m = "m1\<lparr>entries := es, count := occupied es\<rparr>"
    have "hm_set alloc_ok m k v = Some (Inr (if ?ok then Some k else None, ?m))"
      using m1(1) True v es(2) by (simp add: hm_set_def)
    moreover have "hm_wf ?m" using es(1,4) m1(4)[OF True] pow by (simp add: hm_wf_def)
    moreover have "hm_lookup ?m = (if ?ok then (hm_lookup m)(k \<mapsto> v) else hm_lookup m)"
      using es(3) m1(3) by (simp add: hm_lookup_def)
    ultimately show ?thesis by auto
  qed
qed

lemma hm_create_wf: "hm_create alloc_ok = Some m \<Longrightarrow> hm_wf m \<and> hm_lookup m = Map.empty"
  using empty_table[of INITIAL_CAPACITY]
  by (auto simp: hm_create_def hm_wf_def hm_lookup_def INITIAL_CAPACITY_def intro!: exI[of _ 2] split: if_splits)

definition live_pairs :: "hm_entry list \<Rightarrow> (hash_key option \<times> ptr) list" where
  "live_pairs es = map (\<lambda>e. (ekey e, evalue e)) (filter (\<lambda>e. ekey e \<noteq> None) es)"

lemma hm_next_spec:
  assumes "length (entries (it_map it)) = hcapacity (it_map it)"
  shows "case live_pairs (drop (it_index it) (entries (it_map it))) of
      [] \<Rightarrow> \<exists>it'. hm_next it = Inr (False, it')
    | (k, v) # ps \<Rightarrow> \<exists>it'. hm_next it = Inr (True, it') \<and> it_key it' = k \<and> it_value it' = v
        \<and> it_map it' = it_map it \<and> ps = live_pairs (drop (it_index it') (entries (it_map it)))"
  using assms
proof (induction it rule: hm_next.induct)
  case (1 it)
  let ?es = "entries (it_map it)" and ?i = "it_index it"
  show ?case
  proof (cases "?i < hcapacity (it_map it)")
    case False
    then show ?thesis using 1(2) by (subst hm_next.simps) (simp add: live_pairs_def)
  next
    case True
    then have drop: "drop ?i ?es = ?es ! ?i # drop (Suc ?i) ?es" using 1(2) by (simp add: Cons_nth_drop_Suc)
    show ?thesis
    proof (cases "ekey (?es ! ?i)")
      case (Some k)
      have "hm_next it = Inr (True, it\<lparr>it_index := Suc ?i, it_key := Some k, it_value := evalue (?es ! ?i)\<rparr>)"
        using True 1(2) Some by (subst hm_next.simps) (simp add: Let_def)
      then show ?thesis using Some by (simp add: drop live_pairs_def)
    next
      case None
      have step: "hm_next it = hm_next (it\<lparr>it_index := Suc ?i\<rparr>)"
        using None True 1(2) by (subst hm_next.simps) (simp add: Let_def)
      have pairs: "live_pairs (drop ?i ?es) = live_pairs (drop (Suc ?i) ?es)"
        using None by (simp add: drop live_pairs_def)
      show ?thesis
        using 1(1)[OF True refl refl refl] 1(2) True None
        by (cases "live_pairs (drop (Suc ?i) ?es)") (auto simp: pairs step)
    qed
  qed
qed

lemma hm_foreach_spec:
  assumes "length (entries (it_map it)) = hcapacity (it_map it)"
  shows "hm_foreach it = Inr (live_pairs (drop (it_index it) (entries (it_map it))))"
  using assms
proof (induction it rule: hm_foreach.induct)
  case (1 it)
  note N = hm_next_spec[OF 1(2)]
  show ?case
  proof (cases "live_pairs (drop (it_index it) (entries (it_map it)))")
    case Nil
    then show ?thesis using N by (subst hm_foreach.simps) auto
  next
    case (Cons p ps)
    obtain k v where p: "p = (k, v)" by (cases p)
    from N Cons p obtain it' where it': "hm_next it = Inr (True, it')" "it_key it' = k" "it_value it' = v"
      "it_map it' = it_map it" "ps = live_pairs (drop (it_index it') (entries (it_map it)))" by auto
    have "hm_foreach it' = Inr ps" using 1(1)[OF it'(1) refl] it' 1(2) by simp
    then show ?thesis using it' Cons p by (subst hm_foreach.simps) simp
  qed
qed

section \<open>The interface the clients rely on\<close>

text \<open>
  A finite map with a null result for absent keys, whose insertion may be refused for lack of
  memory but then changes nothing.
\<close>

locale name_map =
  fixes get :: "'m \<Rightarrow> 'k \<Rightarrow> ptr run"
    and put :: "'m \<Rightarrow> 'k \<Rightarrow> ptr \<Rightarrow> ('k option \<times> 'm) run"
    and look :: "'m \<Rightarrow> 'k \<Rightarrow> ptr option"
    and wf :: "'m \<Rightarrow> bool"
  assumes get_law: "wf m \<Longrightarrow> get m k = Some (Inr (case look m k of None \<Rightarrow> NULL | Some v \<Rightarrow> v))"
    and put_law: "wf m \<Longrightarrow> v \<noteq> NULL \<Longrightarrow> \<exists>r m'. put m k v = Some (Inr (r, m')) \<and> wf m' \<and>
      (r = Some k \<and> look m' = (look m)(k \<mapsto> v) \<or> r = None \<and> look m' = look m)"
begin

definition put_kept :: "'m \<Rightarrow> 'k \<times> ptr \<Rightarrow> 'm run" where
  "put_kept m kv = bindR (put m (fst kv) (snd kv)) (\<lambda>(_, m'). Some (Inr m'))"

lemma put_get:
  assumes "wf m" and "v \<noteq> NULL"
  obtains r m' where "put m k v = Some (Inr (r, m'))" "wf m'"
    "get m' k' = (if r \<noteq> None \<and> k' = k then Some (Inr v) else get m k')"
proof -
  from put_law[OF assms, of k] obtain r m' where p: "put m k v = Some (Inr (r, m'))" "wf m'"
    "r = Some k \<and> look m' = (look m)(k \<mapsto> v) \<or> r = None \<and> look m' = look m" by blast
  have "get m' k' = (if r \<noteq> None \<and> k' = k then Some (Inr v) else get m k')"
    using p(3) get_law[OF p(2), of k'] get_law[OF assms(1), of k'] by auto
  with p that show ?thesis by blast
qed

lemma put_many:
  assumes "wf m" and "NULL \<notin> snd ` set kvs"
  shows "\<exists>m'. foldR put_kept kvs m = Some (Inr m') \<and> wf m' \<and> dom (look m') \<subseteq> dom (look m) \<union> fst ` set kvs"
  using assms
proof (induction kvs arbitrary: m)
  case (Cons kv kvs)
  obtain k v where kv: "kv = (k, v)" by (cases kv)
  with Cons.prems(2) have v: "v \<noteq> NULL" and rest: "NULL \<notin> snd ` set kvs" by auto
  from put_law[OF Cons.prems(1) v, of k] obtain r m1 where p: "put m k v = Some (Inr (r, m1))" "wf m1"
    "r = Some k \<and> look m1 = (look m)(k \<mapsto> v) \<or> r = None \<and> look m1 = look m" by blast
  have step: "put_kept m kv = Some (Inr m1)" by (simp add: put_kept_def kv p(1))
  have d: "dom (look m1) \<subseteq> insert k (dom (look m))" using p(3) by auto
  from Cons.IH[OF p(2) rest] obtain m' where m': "foldR put_kept kvs m1 = Some (Inr m')" "wf m'"
    "dom (look m') \<subseteq> dom (look m1) \<union> fst ` set kvs" by blast
  from d m'(3) have "dom (look m') \<subseteq> dom (look m) \<union> fst ` set (kv # kvs)" unfolding kv by force
  with m' step show ?case by auto
qed simp

end

interpretation hmap: name_map hm_get "hm_set alloc_ok" hm_lookup hm_wf
proof unfold_locales
  fix m k assume "hm_wf m"
  then show "hm_get m k = Some (Inr (case hm_lookup m k of None \<Rightarrow> NULL | Some v \<Rightarrow> v))"
    by (rule hm_get_spec)
next
  fix m k and v :: ptr assume "hm_wf m" "v \<noteq> NULL"
  from hm_set_spec[OF this, of alloc_ok k]
  show "\<exists>r m'. hm_set alloc_ok m k v = Some (Inr (r, m')) \<and> hm_wf m' \<and>
      (r = Some k \<and> hm_lookup m' = (hm_lookup m)(k \<mapsto> v) \<or> r = None \<and> hm_lookup m' = hm_lookup m)"
    by blast
qed

section \<open>Properties\<close>



text \<open>As long as memory is there and the capacity has not reached half the address space, an insertion
  always succeeds, whatever the load: the map grows before it is full.
\<close>

theorem hm_set_succeeds:
  assumes "hm_wf m" and "v \<noteq> NULL" and "2 * hcapacity m < SIZE_MOD"
  shows "\<exists>m'. hm_set (\<lambda>_. True) m k v = Some (Inr (Some k, m')) \<and> hm_wf m'
     \<and> hm_lookup m' = (hm_lookup m)(k \<mapsto> v)"
  using hm_set_spec[OF assms(1,2), of "\<lambda>_. True" k] assms(3) by auto

theorem hm_set_succeeds_witness:
  "\<exists>m'. hm_set (\<lambda>_. True) \<lparr>entries = replicate 4 empty_entry, hcapacity = 4, count = 0\<rparr> (Key 95 83 66 95) 16
     = Some (Inr (Some (Key 95 83 66 95), m')) \<and> hm_lookup m' = [Key 95 83 66 95 \<mapsto> 16]"
proof -
  let ?m = "\<lparr>entries = replicate 4 empty_entry, hcapacity = 4, count = 0\<rparr>"
  have "hm_create (\<lambda>_. True) = Some ?m" by (simp add: hm_create_def INITIAL_CAPACITY_def)
  then have "hm_wf ?m" "hm_lookup ?m = Map.empty" using hm_create_wf by blast+
  with hm_set_succeeds[of ?m 16 "Key 95 83 66 95"] show ?thesis by (auto simp: SIZE_MOD_def)
qed

text \<open>\<^verbatim>\<open>hm_expand\<close> doubles the capacity (unless the size wraps around or memory is refused, when the
  map is left as it was) and keeps every binding and the number of entries.
\<close>

theorem hm_expand_keeps_bindings:
  assumes "hm_wf m"
  shows "\<exists>g m'. hm_expand alloc_ok m = Some (Inr (g, m')) \<and> hm_wf m' \<and> hm_lookup m' = hm_lookup m
     \<and> count m' = count m \<and> hcapacity m' = (if g then 2 * hcapacity m else hcapacity m)
     \<and> (g \<longleftrightarrow> 2 * hcapacity m < SIZE_MOD \<and> alloc_ok (2 * hcapacity m * sizeof_hm_entry))"
  using hm_expand_spec[OF assms, of alloc_ok] by force

theorem hm_expand_keeps_bindings_witness:
  "\<exists>m'. hm_expand (\<lambda>_. True) \<lparr>entries = replicate 4 empty_entry, hcapacity = 4, count = 0\<rparr>
     = Some (Inr (True, m')) \<and> hcapacity m' = 8"
proof -
  let ?m = "\<lparr>entries = replicate 4 empty_entry, hcapacity = 4, count = 0\<rparr>"
  have "hm_create (\<lambda>_. True) = Some ?m" by (simp add: hm_create_def INITIAL_CAPACITY_def)
  then have "hm_wf ?m" using hm_create_wf by blast
  from hm_expand_keeps_bindings[OF this, of "\<lambda>_. True"] show ?thesis by (auto simp: SIZE_MOD_def)
qed

text \<open>Iterating over a well-formed map with \<^verbatim>\<open>hm_iter\<close> and \<^verbatim>\<open>hm_foreach\<close> ends without a fault and
  calls the callback once for every key the map binds, with the value \<^verbatim>\<open>hm_get\<close> returns for it.
\<close>

theorem hm_foreach_visits_each_binding:
  assumes "hm_wf m"
  shows "\<exists>calls. hm_foreach (hm_iter k0 v0 m) = Inr calls \<and> distinct (map fst calls) \<and> length calls = count m
     \<and> (\<forall>k v. (Some k, v) \<in> set calls \<longleftrightarrow> hm_lookup m k = Some v)"
proof -
  let ?es = "entries m"
  have twf: "table_wf ?es (hcapacity m)" and cnt: "count m = occupied ?es" using assms by (simp_all add: hm_wf_def)
  note D = table_wfD[OF twf]
  have "hm_foreach (hm_iter k0 v0 m) = Inr (live_pairs ?es)"
    using hm_foreach_spec[of "hm_iter k0 v0 m"] D(1) by (simp add: hm_iter_def)
  moreover have "distinct (map fst (live_pairs ?es))"
  proof -
    have "distinct (map ekey (filter (\<lambda>e. ekey e \<noteq> None) es))"
      if "\<And>i j k. i < length es \<Longrightarrow> j < length es \<Longrightarrow> ekey (es ! i) = Some k \<Longrightarrow> ekey (es ! j) = Some k \<Longrightarrow> i = j"
      for es :: "hm_entry list"
      using that
    proof (induction es)
      case (Cons e es)
      have "distinct (map ekey (filter (\<lambda>e. ekey e \<noteq> None) es))"
        using Cons.prems[of "Suc _" "Suc _"] by (intro Cons.IH) fastforce
      moreover have "e' \<in> set es \<Longrightarrow> ekey e = Some k \<Longrightarrow> ekey e' \<noteq> Some k" for e' k
        using Cons.prems[of 0 "Suc _" k] by (fastforce simp: in_set_conv_nth)
      ultimately show ?case by auto
    qed simp
    from this[of ?es] D(1,3) show ?thesis by (simp add: live_pairs_def comp_def)
  qed
  moreover have "length (live_pairs ?es) = count m" by (simp add: live_pairs_def cnt occupied_def)
  moreover have "(Some k, v) \<in> set (live_pairs ?es) \<longleftrightarrow> hm_lookup m k = Some v" for k v
    unfolding hm_lookup_def tbl_map_Some[OF twf] using D(1)
    by (auto simp: live_pairs_def in_set_conv_nth image_iff Bex_def intro: sym)
  ultimately show ?thesis by blast
qed

theorem hm_foreach_visits_each_binding_witness:
  "\<exists>calls. hm_foreach (hm_iter None 0 \<lparr>entries = replicate 4 empty_entry, hcapacity = 4, count = 0\<rparr>) = Inr calls
     \<and> length calls = 0"
proof -
  let ?m = "\<lparr>entries = replicate 4 empty_entry, hcapacity = 4, count = 0\<rparr>"
  have "hm_create (\<lambda>_. True) = Some ?m" by (simp add: hm_create_def INITIAL_CAPACITY_def)
  then have "hm_wf ?m" using hm_create_wf by blast
  from hm_foreach_visits_each_binding[OF this, of None 0] show ?thesis by auto
qed

end
