(* ===== verification/Stdio.thy ===== *)
theory Stdio
  imports CString
begin

text \<open>
  The formatted output of \<^verbatim>\<open>lethe-libc/stdio.c\<close>. The format is the list of its bytes from the
  cursor on, terminator included; reading past the list is a fault, so running over the terminator
  shows. Variadic arguments are the list of their 64-bit slots, \<^verbatim>\<open>%s\<close> arguments are addresses in
  a byte-addressed memory, and the output is the list of bytes handed to \<^verbatim>\<open>putchar\<close>. The one long
  function \<^verbatim>\<open>vprintf\<close> is cut at its own stages: flags, width, precision, length, conversion.
\<close>

section \<open>Flags\<close>

definition FLAGS_ZEROPAD :: u32 where "FLAGS_ZEROPAD = 1"
definition FLAGS_LEFT :: u32 where "FLAGS_LEFT = 2"
definition FLAGS_PLUS :: u32 where "FLAGS_PLUS = 4"
definition FLAGS_SPACE :: u32 where "FLAGS_SPACE = 8"
definition FLAGS_HASH :: u32 where "FLAGS_HASH = 16"
definition FLAGS_UPPER :: u32 where "FLAGS_UPPER = 32"
definition FLAGS_CHAR :: u32 where "FLAGS_CHAR = 64"
definition FLAGS_SHORT :: u32 where "FLAGS_SHORT = 128"
definition FLAGS_LONG :: u32 where "FLAGS_LONG = 256"
definition FLAGS_LONG_LONG :: u32 where "FLAGS_LONG_LONG = 512"
definition FLAGS_PRECISION :: u32 where "FLAGS_PRECISION = 1024"

lemmas flag_defs = FLAGS_ZEROPAD_def FLAGS_LEFT_def FLAGS_PLUS_def FLAGS_SPACE_def FLAGS_HASH_def
  FLAGS_UPPER_def FLAGS_CHAR_def FLAGS_SHORT_def FLAGS_LONG_def FLAGS_LONG_LONG_def FLAGS_PRECISION_def

definition NTOA_MAX :: nat where "NTOA_MAX = 48"

definition has_flag :: "u32 \<Rightarrow> u32 \<Rightarrow> bool" where
  "has_flag flags f \<longleftrightarrow> flags AND f \<noteq> 0"

section \<open>Scanning and number buffers\<close>

definition is_digit :: "u8 \<Rightarrow> bool" where
  "is_digit c \<longleftrightarrow> 0x30 \<le> c \<and> c \<le> 0x39"

text \<open>The loop of \<^verbatim>\<open>atoi\<close> from the value so far: the value and the advanced cursor.\<close>

fun atoi_loop :: "u32 \<Rightarrow> u8 list \<Rightarrow> (u32 \<times> u8 list) res" where
  "atoi_loop i [] = Inl OutOfBounds"
| "atoi_loop i (c # cs) =
     (if is_digit c then atoi_loop (i * 10 + (ucast c - 0x30)) cs else Inr (i, c # cs))"

definition atoi :: "u8 list \<Rightarrow> (u32 \<times> u8 list) res" where
  "atoi a = atoi_loop 0 a"

text \<open>
  The digits are stored least significant first in \<^verbatim>\<open>char buf[NTOA_MAX]\<close>; the list holds the
  \<^verbatim>\<open>len\<close> bytes written so far. \<open>print_reverse\<close> returns what it prints and the new index.
\<close>

definition print_reverse :: "u8 list \<Rightarrow> u32 \<Rightarrow> u32 \<Rightarrow> u64 \<Rightarrow> u8 list \<times> u64" where
  "print_reverse buf flags width idx =
     (let pre = (if \<not> has_flag flags FLAGS_LEFT \<and> \<not> has_flag flags FLAGS_ZEROPAD
                 then replicate (unat width - length buf) (ascii CHR '' '') else []);
          body = pre @ rev buf;
          post = (if has_flag flags FLAGS_LEFT
                  then replicate (unat width - length body) (ascii CHR '' '') else []);
          printed = body @ post
      in (printed, idx + of_nat (length printed)))"

text \<open>\<^verbatim>\<open>while (len < lim && len < NTOA_MAX) buf[len++] = '0'\<close>\<close>

function zero_fill :: "nat \<Rightarrow> u8 list \<Rightarrow> u8 list" where
  "zero_fill lim buf =
     (if length buf < lim \<and> length buf < NTOA_MAX then zero_fill lim (buf @ [ascii CHR ''0'']) else buf)"
  by auto
termination by (relation "measure (\<lambda>(_, buf). NTOA_MAX - length buf)") auto

declare zero_fill.simps [simp del]

definition buf_push :: "char \<Rightarrow> u8 list \<Rightarrow> u8 list" where
  "buf_push c buf = (if length buf < NTOA_MAX then buf @ [ascii c] else buf)"

text \<open>The prefix stage: the alternative form of \<^verbatim>\<open>#\<close>.\<close>

definition hash_prefix :: "u8 list \<Rightarrow> u32 \<Rightarrow> u32 \<Rightarrow> u32 \<Rightarrow> u32 \<Rightarrow> u8 list" where
  "hash_prefix buf flags width precision base =
     (let b1 = (if \<not> has_flag flags FLAGS_PRECISION \<and> buf \<noteq> [] \<and>
                   (length buf = unat precision \<or> length buf = unat width)
                then let b = butlast buf in if b \<noteq> [] \<and> base = 16 then butlast b else b
                else buf);
          b2 = (if base = 16 \<and> \<not> has_flag flags FLAGS_UPPER \<and> length b1 < NTOA_MAX
                then b1 @ [ascii CHR ''x'']
                else if base = 16 \<and> has_flag flags FLAGS_UPPER \<and> length b1 < NTOA_MAX
                then b1 @ [ascii CHR ''x'']
                else if base = 2 \<and> length b1 < NTOA_MAX then b1 @ [ascii CHR ''b'']
                else b1)
      in buf_push CHR ''0'' b2)"

definition sign_char :: "u8 list \<Rightarrow> u32 \<Rightarrow> bool \<Rightarrow> u8 list" where
  "sign_char buf flags negative =
     (if length buf < NTOA_MAX
      then if negative then buf @ [ascii CHR ''-'']
           else if has_flag flags FLAGS_PLUS then buf @ [ascii CHR ''+'']
           else if has_flag flags FLAGS_SPACE then buf @ [ascii CHR '' '']
           else buf
      else buf)"

definition ntoa_width :: "u32 \<Rightarrow> u32 \<Rightarrow> bool \<Rightarrow> u32" where
  "ntoa_width flags width negative =
     (if \<not> has_flag flags FLAGS_LEFT \<and> width \<noteq> 0 \<and> has_flag flags FLAGS_ZEROPAD
         \<and> (negative \<or> has_flag flags (FLAGS_PLUS OR FLAGS_SPACE))
      then width - 1 else width)"

text \<open>The buffer that \<^verbatim>\<open>__ntoa\<close> hands to \<^verbatim>\<open>print_reverse\<close>, and the call.\<close>

definition ntoa_buf :: "u8 list \<Rightarrow> u32 \<Rightarrow> u32 \<Rightarrow> u32 \<Rightarrow> u32 \<Rightarrow> bool \<Rightarrow> u8 list" where
  "ntoa_buf buf flags width precision base negative =
     (let w = ntoa_width flags width negative;
          b1 = (if \<not> has_flag flags FLAGS_LEFT
                then let b = zero_fill (unat precision) buf in
                     if has_flag flags FLAGS_ZEROPAD then zero_fill (unat w) b else b
                else buf);
          b2 = (if has_flag flags FLAGS_HASH then hash_prefix b1 flags w precision base else b1)
      in sign_char b2 flags negative)"

definition ntoa :: "u8 list \<Rightarrow> u32 \<Rightarrow> u32 \<Rightarrow> u32 \<Rightarrow> u32 \<Rightarrow> bool \<Rightarrow> u64 \<Rightarrow> u8 list \<times> u64" where
  "ntoa buf flags width precision base negative idx =
     print_reverse (ntoa_buf buf flags width precision base negative) flags
       (ntoa_width flags width negative) idx"

definition digit_char :: "u32 \<Rightarrow> u8 \<Rightarrow> u8" where
  "digit_char flags digit =
     (if digit < 10 then digit + ascii CHR ''0''
      else (if has_flag flags FLAGS_UPPER then ascii CHR ''A'' else ascii CHR ''a'') + digit - 10)"

text \<open>The do-while loop that writes the digits.\<close>

function ntoa_digits :: "u64 \<Rightarrow> u32 \<Rightarrow> u32 \<Rightarrow> u8 list \<Rightarrow> u8 list" where
  "ntoa_digits val flags base buf =
     (let buf' = buf @ [digit_char flags (ucast (val mod ucast base))]; val' = val div ucast base in
      if val' \<noteq> 0 \<and> length buf' < NTOA_MAX then ntoa_digits val' flags base buf' else buf')"
  by auto
termination by (relation "measure (\<lambda>(_, _, _, buf). NTOA_MAX - length buf)") (auto simp: Let_def)

declare ntoa_digits.simps [simp del]

text \<open>
  \<^verbatim>\<open>ntoa_long\<close>; \<^verbatim>\<open>ntoa_long_long\<close> has the same body, and \<^verbatim>\<open>unsigned long\<close> and
  \<^verbatim>\<open>unsigned long long\<close> are both 64 bits wide.
\<close>

definition ntoa_flags :: "u64 \<Rightarrow> u32 \<Rightarrow> u32" where
  "ntoa_flags val flags = (if val = 0 then flags AND NOT FLAGS_HASH else flags)"

definition ntoa_start :: "u64 \<Rightarrow> u32 \<Rightarrow> u32 \<Rightarrow> u8 list" where
  "ntoa_start val flags base =
     (if \<not> has_flag flags FLAGS_PRECISION \<or> val \<noteq> 0 then ntoa_digits val flags base [] else [])"

definition ntoa_long :: "u64 \<Rightarrow> u32 \<Rightarrow> u32 \<Rightarrow> u32 \<Rightarrow> u32 \<Rightarrow> u64 \<Rightarrow> bool \<Rightarrow> u8 list \<times> u64" where
  "ntoa_long val flags base width precision idx negative =
     (let fl = ntoa_flags val flags in
      ntoa (ntoa_start val fl base) fl width precision base negative idx)"

definition ntoa_long_long :: "u64 \<Rightarrow> u32 \<Rightarrow> u32 \<Rightarrow> u32 \<Rightarrow> u32 \<Rightarrow> u64 \<Rightarrow> bool \<Rightarrow> u8 list \<times> u64" where
  "ntoa_long_long val flags base width precision idx negative =
     (let fl = ntoa_flags val flags in
      ntoa (ntoa_start val fl base) fl width precision base negative idx)"

section \<open>The stages of vprintf\<close>

record pstate =
  pflags :: u32
  pfmt :: "u8 list"
  pva :: "u64 list"
  pout :: "u8 list"
  pidx :: u32

definition peek :: "u8 list \<Rightarrow> u8 res" where
  "peek f = (case f of [] \<Rightarrow> Inl OutOfBounds | c # _ \<Rightarrow> Inr c)"

text \<open>A missing variadic argument is an indeterminate value.\<close>

definition next_arg :: "u64 list \<Rightarrow> (u64 \<times> u64 list) res" where
  "next_arg va = (case va of [] \<Rightarrow> Inl Uninitialised | a # as \<Rightarrow> Inr (a, as))"

definition flag_of_char :: "u8 \<Rightarrow> u32" where
  "flag_of_char c =
     (if c = ascii CHR ''0'' then FLAGS_ZEROPAD
      else if c = ascii CHR ''-'' then FLAGS_LEFT
      else if c = ascii CHR ''+'' then FLAGS_PLUS
      else if c = ascii CHR '' '' then FLAGS_SPACE
      else if c = ascii CHR ''#'' then FLAGS_HASH
      else 0)"

fun scan_flags :: "u32 \<Rightarrow> u8 list \<Rightarrow> (u32 \<times> u8 list) res" where
  "scan_flags flags [] = Inl OutOfBounds"
| "scan_flags flags (c # cs) =
     (if flag_of_char c \<noteq> 0 then scan_flags (flags OR flag_of_char c) cs else Inr (flags, c # cs))"

text \<open>Width: the flags may gain \<^verbatim>\<open>FLAGS_LEFT\<close>; the result is the width.\<close>

definition scan_width :: "pstate \<Rightarrow> (u32 \<times> pstate) res" where
  "scan_width s =
     bindE (peek (pfmt s)) (\<lambda>c.
     if is_digit c then bindE (atoi (pfmt s)) (\<lambda>(w, f). Inr (w, s\<lparr>pfmt := f\<rparr>))
     else if c = ascii CHR ''*'' then
       bindE (next_arg (pva s)) (\<lambda>(a, va).
       let w = (ucast a :: u32); s' = s\<lparr>pva := va, pfmt := tl (pfmt s)\<rparr> in
       if sint w < 0
       then bindE (guardE SignedOverflow (- sint w \<le> INT_MAX)) (\<lambda>_.
              Inr (- w, s'\<lparr>pflags := pflags s OR FLAGS_LEFT\<rparr>))
       else Inr (w, s'))
     else Inr (0, s))"

definition scan_precision :: "pstate \<Rightarrow> (u32 \<times> pstate) res" where
  "scan_precision s =
     bindE (peek (pfmt s)) (\<lambda>c.
     if c = ascii CHR ''.'' then
       let s1 = s\<lparr>pflags := pflags s OR FLAGS_PRECISION, pfmt := tl (pfmt s)\<rparr> in
       bindE (peek (pfmt s1)) (\<lambda>d.
       if is_digit d then bindE (atoi (pfmt s1)) (\<lambda>(n, f). Inr (n, s1\<lparr>pfmt := f\<rparr>))
       else if d = ascii CHR ''*'' then
         bindE (next_arg (pva s1)) (\<lambda>(a, va).
         let n = (ucast a :: u32) in
         Inr (if 0 < sint n then n else 0, s1\<lparr>pva := va, pfmt := tl (pfmt s1)\<rparr>))
       else Inr (0, s1))
     else Inr (0, s))"

text \<open>Length modifiers; \<^verbatim>\<open>ptrdiff_t\<close>, \<^verbatim>\<open>intmax_t\<close> and \<^verbatim>\<open>size_t\<close> are as wide as \<^verbatim>\<open>long\<close>.\<close>

definition scan_doubled :: "char \<Rightarrow> u32 \<Rightarrow> u32 \<Rightarrow> pstate \<Rightarrow> pstate res" where
  "scan_doubled ch one two s =
     (let s1 = s\<lparr>pflags := pflags s OR one, pfmt := tl (pfmt s)\<rparr> in
      bindE (peek (pfmt s1)) (\<lambda>d.
      Inr (if d = ascii ch then s1\<lparr>pflags := pflags s1 OR two, pfmt := tl (pfmt s1)\<rparr> else s1)))"

definition scan_length :: "pstate \<Rightarrow> pstate res" where
  "scan_length s =
     bindE (peek (pfmt s)) (\<lambda>c.
     if c = ascii CHR ''l'' then scan_doubled CHR ''l'' FLAGS_LONG FLAGS_LONG_LONG s
     else if c = ascii CHR ''h'' then scan_doubled CHR ''h'' FLAGS_SHORT FLAGS_CHAR s
     else if c = ascii CHR ''t'' \<or> c = ascii CHR ''j'' \<or> c = ascii CHR ''z''
     then Inr (s\<lparr>pflags := pflags s OR FLAGS_LONG, pfmt := tl (pfmt s)\<rparr>)
     else Inr s)"

text \<open>Output of a list of characters, and of a number the index of which comes back as \<^verbatim>\<open>size_t\<close>.\<close>

definition emit :: "u8 list \<Rightarrow> pstate \<Rightarrow> pstate" where
  "emit cs s = s\<lparr>pout := pout s @ cs, pidx := pidx s + of_nat (length cs)\<rparr>"

definition emit_number :: "u8 list \<times> u64 \<Rightarrow> pstate \<Rightarrow> pstate" where
  "emit_number r s = s\<lparr>pout := pout s @ fst r, pidx := ucast (snd r)\<rparr>"

definition integer_base :: "u8 \<Rightarrow> u32" where
  "integer_base c =
     (if c = ascii CHR ''x'' \<or> c = ascii CHR ''X'' then 16
      else if c = ascii CHR ''o'' then 8
      else if c = ascii CHR ''b'' then 2 else 10)"

definition is_signed_conv :: "u8 \<Rightarrow> bool" where
  "is_signed_conv c \<longleftrightarrow> c = ascii CHR ''i'' \<or> c = ascii CHR ''d''"

definition integer_flags :: "u8 \<Rightarrow> u32 \<Rightarrow> u32" where
  "integer_flags c flags =
     (let f1 = (if integer_base c = 10 then flags AND NOT FLAGS_HASH else flags);
          f2 = (if c = ascii CHR ''X'' then f1 OR FLAGS_UPPER else f1);
          f3 = (if \<not> is_signed_conv c then f2 AND NOT (FLAGS_PLUS OR FLAGS_SPACE) else f2)
      in if has_flag f3 FLAGS_PRECISION then f3 AND NOT FLAGS_ZEROPAD else f3)"

text \<open>\<^verbatim>\<open>value > 0 ? value : 0 - value\<close>: negating the least value overflows.\<close>

definition LONG_MAX :: int where "LONG_MAX = 9223372036854775807"

definition magnitude :: "int \<Rightarrow> int \<Rightarrow> u64 res" where
  "magnitude limit v =
     (if 0 < v then Inr (word_of_int v)
      else bindE (guardE SignedOverflow (0 - v \<le> limit)) (\<lambda>_. Inr (word_of_int (0 - v))))"

text \<open>The value of the argument of \<^verbatim>\<open>%d\<close> when neither \<^verbatim>\<open>l\<close> flag is set.\<close>

definition int_arg :: "u32 \<Rightarrow> u64 \<Rightarrow> int" where
  "int_arg flags a =
     (if has_flag flags FLAGS_CHAR then sint (ucast a :: u8)
      else if has_flag flags FLAGS_SHORT then sint (ucast a :: u16)
      else sint (ucast a :: u32))"

definition uint_arg :: "u32 \<Rightarrow> u64 \<Rightarrow> u64" where
  "uint_arg flags a =
     (if has_flag flags FLAGS_CHAR then ucast (ucast a :: u8)
      else if has_flag flags FLAGS_SHORT then ucast (ucast a :: u16)
      else ucast (ucast a :: u32))"

definition conv_signed :: "u32 \<Rightarrow> u32 \<Rightarrow> u32 \<Rightarrow> pstate \<Rightarrow> pstate res" where
  "conv_signed base width precision s =
     bindE (next_arg (pva s)) (\<lambda>(a, va).
     let fl = pflags s; i = ucast (pidx s); s' = s\<lparr>pva := va\<rparr> in
     if has_flag fl FLAGS_LONG_LONG
     then bindE (magnitude LONG_MAX (sint a)) (\<lambda>v.
            Inr (emit_number (ntoa_long_long v fl base width precision i (sint a < 0)) s'))
     else if has_flag fl FLAGS_LONG
     then bindE (magnitude LONG_MAX (sint a)) (\<lambda>v.
            Inr (emit_number (ntoa_long v fl base width precision i (sint a < 0)) s'))
     else bindE (magnitude INT_MAX (int_arg fl a)) (\<lambda>v.
            Inr (emit_number (ntoa_long v fl base width precision i (int_arg fl a < 0)) s')))"

definition conv_unsigned :: "u32 \<Rightarrow> u32 \<Rightarrow> u32 \<Rightarrow> pstate \<Rightarrow> pstate res" where
  "conv_unsigned base width precision s =
     bindE (next_arg (pva s)) (\<lambda>(a, va).
     let fl = pflags s; i = ucast (pidx s); s' = s\<lparr>pva := va\<rparr> in
     Inr (emit_number
       (if has_flag fl FLAGS_LONG_LONG then ntoa_long_long a fl base width precision i False
        else if has_flag fl FLAGS_LONG then ntoa_long a fl base width precision i False
        else ntoa_long (uint_arg fl a) fl base width precision i False) s'))"

definition conv_integer :: "u8 \<Rightarrow> u32 \<Rightarrow> u32 \<Rightarrow> pstate \<Rightarrow> pstate res" where
  "conv_integer c width precision s =
     (let s' = s\<lparr>pflags := integer_flags c (pflags s)\<rparr> in
      if is_signed_conv c then conv_signed (integer_base c) width precision s'
      else conv_unsigned (integer_base c) width precision s')"

text \<open>\<^verbatim>\<open>while (l++ < width) putchar(' ')\<close>\<close>

definition spaces :: "u32 \<Rightarrow> u32 \<Rightarrow> u8 list" where
  "spaces l width = replicate (unat width - unat l) (ascii CHR '' '')"

definition conv_char :: "u32 \<Rightarrow> pstate \<Rightarrow> pstate res" where
  "conv_char width s =
     bindE (next_arg (pva s)) (\<lambda>(a, va).
     let left = has_flag (pflags s) FLAGS_LEFT in
     Inr (emit ((if \<not> left then spaces 1 width else []) @ [ucast a]
                @ (if left then spaces 1 width else [])) (s\<lparr>pva := va\<rparr>)))"

text \<open>\<^verbatim>\<open>while (*p && (!(flags & FLAGS_PRECISION) || precision--)) putchar(*(p++))\<close>\<close>

partial_function (option) str_chars :: "mem \<Rightarrow> ptr \<Rightarrow> bool \<Rightarrow> u32 \<Rightarrow> u8 list run" where
  "str_chars m p limited precision =
     (if m p = 0 \<or> (limited \<and> precision = 0) then Some (Inr [])
      else bindR (str_chars m (p + 1) limited (precision - 1)) (\<lambda>cs. Some (Inr (m p # cs))))"

definition conv_string :: "mem \<Rightarrow> u32 \<Rightarrow> u32 \<Rightarrow> pstate \<Rightarrow> pstate run" where
  "conv_string m width precision s =
     (case next_arg (pva s) of
        Inl e \<Rightarrow> Some (Inl e)
      | Inr (p, va) \<Rightarrow>
          (case strlen m p of
             None \<Rightarrow> None
           | Some n \<Rightarrow>
               let limited = has_flag (pflags s) FLAGS_PRECISION;
                   left = has_flag (pflags s) FLAGS_LEFT;
                   l0 = (ucast n :: u32);
                   l = (if limited then (if l0 < precision then l0 else precision) else l0)
               in bindR (str_chars m p limited precision) (\<lambda>cs.
                  Some (Inr (emit ((if \<not> left then spaces l width else []) @ cs
                                   @ (if left then spaces l width else [])) (s\<lparr>pva := va\<rparr>))))))"

definition conv_pointer :: "u32 \<Rightarrow> pstate \<Rightarrow> pstate res" where
  "conv_pointer precision s =
     bindE (next_arg (pva s)) (\<lambda>(a, va).
     let fl = pflags s OR (FLAGS_ZEROPAD OR FLAGS_UPPER) in
     Inr (emit_number (ntoa_long_long a fl 16 16 precision (ucast (pidx s)) False)
            (s\<lparr>pflags := fl, pva := va\<rparr>)))"

text \<open>The second \<^verbatim>\<open>switch\<close>; every case ends by advancing the cursor.\<close>

definition is_integer_conv :: "u8 \<Rightarrow> bool" where
  "is_integer_conv c \<longleftrightarrow> c \<in> set (lit ''diuxXob'')"

definition step_fmt :: "pstate \<Rightarrow> pstate" where
  "step_fmt s = s\<lparr>pfmt := tl (pfmt s)\<rparr>"

definition conversion :: "mem \<Rightarrow> u32 \<Rightarrow> u32 \<Rightarrow> pstate \<Rightarrow> pstate run" where
  "conversion m width precision s =
     bindR (Some (peek (pfmt s))) (\<lambda>c.
     bindR (if is_integer_conv c then Some (conv_integer c width precision s)
            else if c = ascii CHR ''c'' then Some (conv_char width s)
            else if c = ascii CHR ''s'' then conv_string m width precision s
            else if c = ascii CHR ''p'' then Some (conv_pointer precision s)
            else Some (Inr (emit [c] s)))
       (\<lambda>s'. Some (Inr (step_fmt s'))))"

text \<open>Everything after a percent sign; the flags are those the state already has.\<close>

definition directive :: "mem \<Rightarrow> pstate \<Rightarrow> pstate run" where
  "directive m s =
     bindR (Some (scan_flags (pflags s) (pfmt s))) (\<lambda>(fl, f).
     bindR (Some (scan_width (s\<lparr>pflags := fl, pfmt := f\<rparr>))) (\<lambda>(width, s1).
     bindR (Some (scan_precision s1)) (\<lambda>(precision, s2).
     bindR (Some (scan_length s2)) (\<lambda>s3.
     conversion m width precision s3))))"

section \<open>The cursor only moves forward\<close>

lemma atoi_loop_shorter: "atoi_loop i f = Inr (n, f') \<Longrightarrow> length f' \<le> length f"
  by (induction i f rule: atoi_loop.induct) (auto split: if_splits)

lemma scan_flags_shorter: "scan_flags fl f = Inr (fl', f') \<Longrightarrow> length f' \<le> length f"
  by (induction fl f rule: scan_flags.induct) (auto split: if_splits)

lemma scan_width_shorter: "scan_width s = Inr (w, s') \<Longrightarrow> length (pfmt s') \<le> length (pfmt s)"
  by (auto simp: scan_width_def atoi_def res_iff Let_def dest!: atoi_loop_shorter split: if_splits)

lemma scan_precision_shorter: "scan_precision s = Inr (w, s') \<Longrightarrow> length (pfmt s') \<le> length (pfmt s)"
  by (auto simp: scan_precision_def atoi_def res_iff Let_def dest!: atoi_loop_shorter split: if_splits)

lemma scan_length_shorter: "scan_length s = Inr s' \<Longrightarrow> length (pfmt s') \<le> length (pfmt s)"
  by (auto simp: scan_length_def scan_doubled_def res_iff Let_def split: if_splits)

lemma emit_fmt [simp]: "pfmt (emit cs s) = pfmt s" "pfmt (emit_number r s) = pfmt s"
  by (simp_all add: emit_def emit_number_def)

lemma conv_fmt:
  "conv_integer c w p s = Inr s' \<Longrightarrow> pfmt s' = pfmt s"
  "conv_char w s = Inr s' \<Longrightarrow> pfmt s' = pfmt s"
  "conv_pointer p s = Inr s' \<Longrightarrow> pfmt s' = pfmt s"
  "conv_string m w p s = Some (Inr s') \<Longrightarrow> pfmt s' = pfmt s"
  by (auto simp: conv_integer_def conv_signed_def conv_unsigned_def conv_char_def conv_pointer_def
      conv_string_def res_iff Let_def split: if_splits sum.splits option.splits)

lemma conversion_shorter: "conversion m w p s = Some (Inr s') \<Longrightarrow> length (pfmt s') \<le> length (pfmt s)"
  by (auto simp: conversion_def res_iff step_fmt_def conv_fmt split: if_splits)

lemma directive_shorter:
  assumes "directive m s = Some (Inr s')"
  shows "length (pfmt s') \<le> length (pfmt s)"
proof -
  from assms obtain fl f w s1 p s2 s3 where "scan_flags (pflags s) (pfmt s) = Inr (fl, f)"
    "scan_width (s\<lparr>pflags := fl, pfmt := f\<rparr>) = Inr (w, s1)" "scan_precision s1 = Inr (p, s2)"
    "scan_length s2 = Inr s3" "conversion m w p s3 = Some (Inr s')"
    by (auto simp: directive_def res_iff)
  then show ?thesis
    using scan_flags_shorter scan_width_shorter scan_precision_shorter scan_length_shorter
      conversion_shorter by (metis (no_types, lifting) dual_order.trans pstate.select_convs(2)
        pstate.surjective pstate.update_convs(1,2))
qed

text \<open>The loop of \<^verbatim>\<open>vprintf\<close>, and the function: what is printed, and the result.\<close>

function vprintf_loop :: "mem \<Rightarrow> pstate \<Rightarrow> pstate run" where
  "vprintf_loop m s =
     (case pfmt s of
        [] \<Rightarrow> Some (Inl OutOfBounds)
      | c # cs \<Rightarrow>
          if c = 0 then Some (Inr s)
          else if c \<noteq> ascii CHR ''%'' then vprintf_loop m (emit [c] (s\<lparr>pfmt := cs\<rparr>))
          else bindR (directive m (s\<lparr>pfmt := cs\<rparr>)) (\<lambda>s'. vprintf_loop m s'))"
  by auto
termination
  by (relation "measure (\<lambda>(_, s). length (pfmt s))") (auto dest!: directive_shorter)

declare vprintf_loop.simps [simp del]

definition vprintf :: "mem \<Rightarrow> u8 list \<Rightarrow> u64 list \<Rightarrow> (u8 list \<times> int) run" where
  "vprintf m fmt va =
     bindR (vprintf_loop m \<lparr>pflags = 0, pfmt = fmt, pva = va, pout = [], pidx = 0\<rparr>)
       (\<lambda>s. Some (Inr (pout s, sint (pidx s))))"

text \<open>\<^verbatim>\<open>print\<close> and \<^verbatim>\<open>puts\<close>: \<^verbatim>\<open>putchar\<close> returns its argument, a byte, which is never \<^verbatim>\<open>EOF\<close>.\<close>

definition print :: "mem \<Rightarrow> ptr \<Rightarrow> u64 \<Rightarrow> u8 list \<times> int" where
  "print m p len = (bytes_at m p (unat len), to_int32 len)"

definition puts :: "mem \<Rightarrow> ptr \<Rightarrow> (u8 list \<times> int) option" where
  "puts m p = map_option (print m p) (strlen m p)"

section \<open>The digits\<close>

text \<open>The reference: at most k digits of n in base b, least significant first.\<close>

fun nat_digits :: "nat \<Rightarrow> nat \<Rightarrow> nat \<Rightarrow> nat list" where
  "nat_digits n b 0 = []"
| "nat_digits n b (Suc k) = n mod b # (if n div b = 0 then [] else nat_digits (n div b) b k)"

lemma nat_digits_bound: "0 < b \<Longrightarrow> d \<in> set (nat_digits n b k) \<Longrightarrow> d < b"
  by (induction n b k rule: nat_digits.induct) (auto split: if_splits)

lemma length_nat_digits: "length (nat_digits n b k) \<le> k"
  by (induction n b k rule: nat_digits.induct) auto

lemma horner_nat_digits: "0 < b \<Longrightarrow> horner_sum id b (nat_digits n b k) = n mod b ^ k"
proof (induction n b k rule: nat_digits.induct)
  case (2 n b k)
  show ?case
  proof (cases "n div b = 0")
    case True
    with 2(2) have "n < b" by (simp add: div_eq_0_iff)
    moreover have "b \<le> b * b ^ k" using 2(2) by simp
    ultimately have "n < b * b ^ k" by linarith
    with \<open>n < b\<close> show ?thesis by simp
  next
    case False
    then show ?thesis
      using 2 by (simp add: mod_mult2_eq add.commute)
  qed
qed simp

lemma length_nat_digits_full: "1 < b \<Longrightarrow> b ^ k \<le> n \<Longrightarrow> length (nat_digits n b (Suc k)) = Suc k"
proof (induction k arbitrary: n)
  case (Suc k)
  then have "b ^ k \<le> n div b" by (simp add: less_eq_div_iff_mult_less_eq mult.commute)
  moreover from this have "n div b \<noteq> 0" using Suc.prems(1) by (metis less_le_trans not_less_zero zero_less_power less_trans zero_less_one)
  ultimately show ?case using Suc.IH[of "n div b"] Suc.prems(1) by simp
qed (simp add: div_eq_0_iff)

lemma ntoa_digits_eq:
  assumes "length buf < NTOA_MAX" and "0 < base" and "base \<le> 16"
  shows "ntoa_digits v fl base buf
    = buf @ map (\<lambda>d. digit_char fl (of_nat d)) (nat_digits (unat v) (unat base) (NTOA_MAX - length buf))"
  using assms
proof (induction v fl base buf rule: ntoa_digits.induct)
  case (1 v fl base buf)
  let ?b = "ucast base :: u64" and ?d = "digit_char fl (ucast (v mod ucast base))"
  have b: "unat ?b = unat base" by (simp add: unat_ucast_up)
  obtain k where k: "NTOA_MAX - length buf = Suc k" using 1(2) by (metis Suc_diff_Suc)
  then have k': "NTOA_MAX - Suc (length buf) = k" by simp
  have "unat (v mod ?b) = unat v mod unat base" by (simp only: unat_mod b)
  then have d: "ucast (v mod ?b) = (of_nat (unat v mod unat base) :: u8)"
    by (metis of_nat_unat)
  have q: "v div ?b = 0 \<longleftrightarrow> unat v div unat base = 0" "unat (v div ?b) = unat v div unat base"
    by (simp_all add: word_unat_eq_iff unat_div b)
  show ?case
  proof (cases "v div ?b \<noteq> 0 \<and> length (buf @ [?d]) < NTOA_MAX")
    case True
    have "ntoa_digits v fl base buf = ntoa_digits (v div ?b) fl base (buf @ [?d])"
      using True by (subst ntoa_digits.simps) (simp add: Let_def)
    then show ?thesis using 1(1)[OF refl refl True] True 1(3,4) q by (simp add: k k' d)
  next
    case False
    have "ntoa_digits v fl base buf = buf @ [?d]"
      using False by (subst ntoa_digits.simps) (auto simp: Let_def)
    moreover have "v div ?b = 0 \<or> k = 0" using False k by auto
    ultimately show ?thesis using q by (auto simp: k d)
  qed
qed

lemma ntoa_start_eq:
  assumes "\<not> has_flag fl FLAGS_PRECISION" "0 < base" "base \<le> 16"
  shows "ntoa_start v fl base = map (\<lambda>d. digit_char fl (of_nat d)) (nat_digits (unat v) (unat base) NTOA_MAX)"
  using assms ntoa_digits_eq[of "[]" base v fl] by (simp add: ntoa_start_def NTOA_MAX_def)

text \<open>Reading decimal digits back.\<close>

lemma atoi_loop_digits:
  assumes "\<forall>d \<in> set ds. d < 10"
  shows "atoi_loop i (map (\<lambda>d. digit_char fl (of_nat d)) ds @ rest)
    = atoi_loop (foldl (\<lambda>i d. i * 10 + of_nat d) i ds) rest"
  using assms
proof (induction ds arbitrary: i)
  case (Cons d ds)
  then have "d \<in> {0, 1, 2, 3, 4, 5, 6, 7, 8, 9}" by auto
  then have "is_digit (digit_char fl (of_nat d)) \<and> ucast (digit_char fl (of_nat d)) - 0x30 = (of_nat d :: u32)"
    by (auto simp: is_digit_def digit_char_def ascii_def)
  with Cons show ?case by simp
qed simp

lemma foldl_horner: "foldl (\<lambda>i d. i * 10 + of_nat d) (0 :: u32) (rev ds) = of_nat (horner_sum id 10 ds)"
  by (induction ds) (simp_all add: algebra_simps)

section \<open>Buffer and count invariants\<close>

lemma length_zero_fill: "length buf \<le> NTOA_MAX \<Longrightarrow> length (zero_fill lim buf) \<le> NTOA_MAX"
  by (induction lim buf rule: zero_fill.induct) (subst zero_fill.simps, simp)

lemma length_hash_prefix: "length buf \<le> NTOA_MAX \<Longrightarrow> length (hash_prefix buf fl w p b) \<le> NTOA_MAX"
  by (simp add: hash_prefix_def buf_push_def Let_def NTOA_MAX_def) linarith

lemma length_sign_char: "length buf \<le> NTOA_MAX \<Longrightarrow> length (sign_char buf fl n) \<le> NTOA_MAX"
  by (simp add: sign_char_def)

lemma length_ntoa_digits: "length buf < NTOA_MAX \<Longrightarrow> length (ntoa_digits v fl base buf) \<le> NTOA_MAX"
proof (induction v fl base buf rule: ntoa_digits.induct)
  case (1 v fl base buf)
  then show ?case by (subst ntoa_digits.simps) (simp add: Let_def)
qed

definition counted :: "pstate \<Rightarrow> bool" where
  "counted s \<longleftrightarrow> pidx s = of_nat (length (pout s))"

lemma counted_emit: "counted s \<Longrightarrow> counted (emit cs s)"
  by (simp add: counted_def emit_def)

lemma ucast_add_of_nat: "ucast (ucast (i :: u32) + of_nat n :: u64) = i + of_nat n"
  by (simp add: ucast_down_add ucast_up_down ucast_down_of_nat)

lemma counted_number:
  assumes "counted s" and "snd r = ucast (pidx s) + of_nat (length (fst r))"
  shows "counted (emit_number r s)"
proof -
  have "ucast (snd r) = pidx s + of_nat (length (fst r))"
    unfolding assms(2) by (rule ucast_add_of_nat)
  then show ?thesis using assms(1) by (simp add: counted_def emit_number_def)
qed

lemma ntoa_idx:
  "snd (ntoa_long v fl b w p i n) = i + of_nat (length (fst (ntoa_long v fl b w p i n)))"
  "snd (ntoa_long_long v fl b w p i n) = i + of_nat (length (fst (ntoa_long_long v fl b w p i n)))"
  by (simp_all add: ntoa_long_def ntoa_long_long_def ntoa_def print_reverse_def Let_def)

lemma counted_update [simp]:
  "counted (s\<lparr>pflags := fl\<rparr>) = counted s" "counted (s\<lparr>pfmt := f\<rparr>) = counted s"
  "counted (s\<lparr>pva := va\<rparr>) = counted s"
  by (simp_all add: counted_def)

lemma counted_scan:
  "scan_width s = Inr (w, s') \<Longrightarrow> counted s' = counted s"
  "scan_precision s = Inr (w, s') \<Longrightarrow> counted s' = counted s"
  "scan_length s = Inr s' \<Longrightarrow> counted s' = counted s"
  by (auto simp: scan_width_def scan_precision_def scan_length_def scan_doubled_def res_iff Let_def
      split: if_splits)

lemma counted_conv:
  assumes "counted s"
  shows "conv_integer c w p s = Inr s' \<Longrightarrow> counted s'" "conv_char w s = Inr s' \<Longrightarrow> counted s'"
    "conv_pointer p s = Inr s' \<Longrightarrow> counted s'" "conv_string m w p s = Some (Inr s') \<Longrightarrow> counted s'"
  using assms
  by (auto simp: conv_integer_def conv_signed_def conv_unsigned_def conv_char_def conv_pointer_def
      conv_string_def res_iff Let_def ntoa_idx intro!: counted_number counted_emit
      split: if_splits sum.splits option.splits)

lemma counted_conversion: "conversion m w p s = Some (Inr s') \<Longrightarrow> counted s \<Longrightarrow> counted s'"
  by (auto simp: conversion_def res_iff step_fmt_def intro: counted_conv counted_emit split: if_splits)

lemma counted_directive:
  assumes "directive m s = Some (Inr s')" and "counted s"
  shows "counted s'"
proof -
  from assms(1) obtain fl f w s1 p s2 s3 where c: "scan_flags (pflags s) (pfmt s) = Inr (fl, f)"
    "scan_width (s\<lparr>pflags := fl, pfmt := f\<rparr>) = Inr (w, s1)" "scan_precision s1 = Inr (p, s2)"
    "scan_length s2 = Inr s3" "conversion m w p s3 = Some (Inr s')"
    by (auto simp: directive_def res_iff)
  have "counted s3"
    using assms(2) by (simp add: counted_scan(1)[OF c(2)] counted_scan(2)[OF c(3)] counted_scan(3)[OF c(4)])
  with c(5) show ?thesis by (rule counted_conversion)
qed

lemma counted_loop: "vprintf_loop m s = Some (Inr s') \<Longrightarrow> counted s \<Longrightarrow> counted s'"
proof (induction m s rule: vprintf_loop.induct)
  case (1 m s)
  show ?case
  proof (cases "pfmt s")
    case Nil
    then show ?thesis using 1(3) by (subst (asm) vprintf_loop.simps) simp
  next
    case (Cons c cs)
    consider "c = 0" | "c \<noteq> 0" "c \<noteq> ascii CHR ''%''" | "c \<noteq> 0" "c = ascii CHR ''%''" by blast
    then show ?thesis
    proof cases
      case 1
      then show ?thesis using "1.prems" Cons by (subst (asm) vprintf_loop.simps) simp
    next
      case 2
      have "vprintf_loop m (emit [c] (s\<lparr>pfmt := cs\<rparr>)) = Some (Inr s')"
        using "1.prems"(1) Cons 2 by (subst (asm) vprintf_loop.simps) simp
      then show ?thesis using "1.IH"(1)[OF Cons] 2 "1.prems"(2) by (simp add: counted_emit)
    next
      case 3
      obtain s1 where "directive m (s\<lparr>pfmt := cs\<rparr>) = Some (Inr s1)" "vprintf_loop m s1 = Some (Inr s')"
        using "1.prems"(1) Cons 3 by (subst (asm) vprintf_loop.simps) (auto simp: res_iff)
      then show ?thesis
        using "1.IH"(2)[OF Cons] 3 "1.prems"(2) counted_directive[of m "s\<lparr>pfmt := cs\<rparr>" s1] by simp
    qed
  qed
qed

lemma vprintf_loop_plain:
  assumes "0 \<notin> set t" "ascii CHR ''%'' \<notin> set t"
  shows "vprintf_loop m (s\<lparr>pfmt := t @ f\<rparr>) = vprintf_loop m (emit t (s\<lparr>pfmt := f\<rparr>))"
  using assms
proof (induction t arbitrary: s)
  case Nil
  then show ?case by (simp add: emit_def)
next
  case (Cons c cs)
  have "vprintf_loop m (s\<lparr>pfmt := (c # cs) @ f\<rparr>) = vprintf_loop m (emit [c] (s\<lparr>pfmt := cs @ f\<rparr>))"
    using Cons.prems by (subst vprintf_loop.simps) auto
  also have "emit [c] (s\<lparr>pfmt := cs @ f\<rparr>) = (emit [c] s)\<lparr>pfmt := cs @ f\<rparr>" by (simp add: emit_def)
  also have "vprintf_loop m ((emit [c] s)\<lparr>pfmt := cs @ f\<rparr>) = vprintf_loop m (emit cs ((emit [c] s)\<lparr>pfmt := f\<rparr>))"
    using Cons.prems by (intro Cons.IH) auto
  also have "emit cs ((emit [c] s)\<lparr>pfmt := f\<rparr>) = emit (c # cs) (s\<lparr>pfmt := f\<rparr>)"
    by (simp add: emit_def algebra_simps)
  finally show ?case .
qed

section \<open>Single directives\<close>

lemma has_flag_0 [simp]: "\<not> has_flag 0 f"
  by (simp add: has_flag_def)

lemmas scan_defs = scan_width_def scan_precision_def scan_length_def scan_doubled_def peek_def
  flag_of_char_def is_digit_def ascii_def lit_def

lemma zero_fill_0 [simp]: "zero_fill 0 buf = buf"
  by (subst zero_fill.simps) simp

lemma length_nat_digits_le: "n < b ^ Suc k \<Longrightarrow> length (nat_digits n b K) \<le> Suc k"
proof (induction k arbitrary: n K)
  case 0
  then show ?case by (cases K) auto
next
  case (Suc k)
  show ?case
  proof (cases K)
    case (Suc K')
    have "n div b < b ^ Suc k"
      using Suc.prems by (simp add: less_mult_imp_div_less mult.commute mult.left_commute)
    then show ?thesis using Suc.IH[of "n div b" K'] Suc by simp
  qed simp
qed

text \<open>What a number without flags, width and precision prints.\<close>

definition numeral_chars :: "u64 \<Rightarrow> nat \<Rightarrow> u8 list" where
  "numeral_chars v b = map (\<lambda>d. digit_char 0 (of_nat d)) (rev (nat_digits (unat v) b NTOA_MAX))"

lemma ntoa_long_plain:
  assumes "0 < base" "base \<le> 16" "length (nat_digits (unat v) (unat base) NTOA_MAX) < NTOA_MAX \<or> \<not> negative"
  shows "fst (ntoa_long v 0 base 0 0 i negative)
    = (if negative then [ascii CHR ''-''] else []) @ numeral_chars v (unat base)"
proof -
  have fl: "ntoa_flags v 0 = 0" by (simp add: ntoa_flags_def)
  have st: "ntoa_start v 0 base = rev (numeral_chars v (unat base))"
    using ntoa_start_eq[of 0 base v] assms(1,2) by (simp add: numeral_chars_def rev_map)
  have len: "length (numeral_chars v (unat base)) = length (nat_digits (unat v) (unat base) NTOA_MAX)"
    by (simp add: numeral_chars_def)
  show ?thesis
    using assms(3)
    by (auto simp: ntoa_long_def ntoa_def print_reverse_def ntoa_width_def ntoa_buf_def sign_char_def
        Let_def fl st len)
qed

lemma atoi_numeral:
  "atoi (numeral_chars v 10 @ [0]) = Inr (ucast v, [0])"
proof -
  let ?ds = "nat_digits (unat v) 10 NTOA_MAX"
  have "\<forall>d \<in> set (rev ?ds). d < 10" using nat_digits_bound[of 10] by auto
  from atoi_loop_digits[OF this, of 0 0 "[0]"]
  have "atoi (numeral_chars v 10 @ [0]) = atoi_loop (of_nat (horner_sum id 10 ?ds)) [0]"
    by (simp add: atoi_def numeral_chars_def foldl_horner)
  moreover have "unat v < 10 ^ NTOA_MAX"
    using unsigned_less[of v, where 'a = nat] by (simp add: NTOA_MAX_def)
  ultimately show ?thesis by (simp add: horner_nat_digits is_digit_def)
qed

lemma vprintf_one:
  assumes "directive m \<lparr>pflags = 0, pfmt = f @ [0], pva = va, pout = [], pidx = 0\<rparr>
      = bindR (Some r) (\<lambda>s. Some (Inr (s\<lparr>pfmt := [0]\<rparr>)))"
  shows "vprintf m (ascii CHR ''%'' # f @ [0]) va = bindR (Some r) (\<lambda>s. Some (Inr (pout s, sint (pidx s))))"
proof -
  have "vprintf_loop m \<lparr>pflags = 0, pfmt = ascii CHR ''%'' # f @ [0], pva = va, pout = [], pidx = 0\<rparr>
      = bindR (bindR (Some r) (\<lambda>s. Some (Inr (s\<lparr>pfmt := [0]\<rparr>)))) (vprintf_loop m)"
    by (subst vprintf_loop.simps) (simp add: assms ascii_def)
  also have "\<dots> = bindR (Some r) (\<lambda>s. Some (Inr (s\<lparr>pfmt := [0]\<rparr>)))"
    by (cases r) (simp_all add: vprintf_loop.simps)
  finally show ?thesis by (cases r) (simp_all add: vprintf_def)
qed

text \<open>What \<^verbatim>\<open>%d\<close> prints without flags.\<close>

definition signed_chars :: "int \<Rightarrow> u8 list" where
  "signed_chars v = (if v < 0 then [ascii CHR ''-''] else []) @ numeral_chars (word_of_int \<bar>v\<bar>) 10"

lemma conv_signed_plain:
  assumes "pflags s = 0" "pva s = a # va"
  shows "if sint (ucast a :: u32) = - 2147483648 then conv_signed 10 0 0 s = Inl SignedOverflow
    else \<exists>r. conv_signed 10 0 0 s = Inr (emit_number (signed_chars (sint (ucast a :: u32)), r) (s\<lparr>pva := va\<rparr>))"
proof -
  let ?v = "sint (ucast a :: u32)"
  let ?w = "word_of_int \<bar>?v\<bar> :: u64"
  have arg: "conv_signed 10 0 0 s = bindE (magnitude INT_MAX ?v) (\<lambda>v. Inr (emit_number (ntoa_long v 0 10 0 0 (ucast (pidx s)) (?v < 0)) (s\<lparr>pva := va\<rparr>)))"
    using assms by (simp add: conv_signed_def next_arg_def int_arg_def)
  have range: "- 2147483648 \<le> ?v" "?v \<le> 2147483647"
    using sint_greater_eq[of "ucast a :: u32"] sint_less[of "ucast a :: u32"] by simp_all
  show ?thesis
  proof (cases "?v = - 2147483648")
    case True
    then show ?thesis by (simp add: arg magnitude_def INT_MAX_def)
  next
    case False
    have w: "unat ?w = nat \<bar>?v\<bar>" using range by (simp add: unat_word_of_int)
    have "length (nat_digits (unat ?w) 10 NTOA_MAX) \<le> Suc 9"
      using range w by (intro length_nat_digits_le) simp
    then have out: "fst (ntoa_long ?w 0 10 0 0 i (?v < 0)) = signed_chars ?v" for i
      using ntoa_long_plain[of 10 ?w "?v < 0" i] by (simp add: NTOA_MAX_def signed_chars_def)
    have "magnitude INT_MAX ?v = Inr ?w" using False range by (auto simp: magnitude_def INT_MAX_def)
    then have "conv_signed 10 0 0 s = Inr (emit_number (signed_chars ?v, snd (ntoa_long ?w 0 10 0 0 (ucast (pidx s)) (?v < 0))) (s\<lparr>pva := va\<rparr>))"
      using out by (simp add: arg emit_number_def)
    with False show ?thesis by auto
  qed
qed

section \<open>Formats, directive by directive\<close>

abbreviation fmt_state :: "u32 \<Rightarrow> u8 list \<Rightarrow> u64 list \<Rightarrow> u8 list \<Rightarrow> u32 \<Rightarrow> pstate" where
  "fmt_state fl f va out i \<equiv> \<lparr>pflags = fl, pfmt = f, pva = va, pout = out, pidx = i\<rparr>"

lemma loop_end: "vprintf_loop m (fmt_state fl [0] va out i) = Some (Inr (fmt_state fl [0] va out i))"
  by (subst vprintf_loop.simps) simp

lemma loop_text:
  assumes "0 \<notin> set t" "ascii CHR ''%'' \<notin> set t"
  shows "vprintf_loop m (fmt_state fl (t @ f) va out i) = vprintf_loop m (fmt_state fl f va (out @ t) (i + of_nat (length t)))"
  using vprintf_loop_plain[OF assms, where m = m and f = f and s = "fmt_state fl [] va out i"] by (simp add: emit_def)

lemma str_chars_cstr: "cstr m p n \<Longrightarrow> str_chars m p False k = Some (Inr n)"
proof (induction n arbitrary: p k)
  case Nil
  then show ?case by (subst str_chars.simps) simp
next
  case (Cons c n)
  then show ?case by (subst str_chars.simps) simp
qed

lemma loop_string:
  assumes "cstr m p n" "\<not> has_flag fl FLAGS_PRECISION" "\<not> has_flag fl FLAGS_LEFT"
  shows "vprintf_loop m (fmt_state fl (lit ''%s'' @ f) (p # va) out i) = vprintf_loop m (fmt_state fl f va (out @ n) (i + of_nat (length n)))"
proof -
  have "directive m (fmt_state fl (lit ''s'' @ f) (p # va) out i) = Some (Inr (fmt_state fl f va (out @ n) (i + of_nat (length n))))"
    using assms(2,3) strlen_cstr[OF assms(1)] str_chars_cstr[OF assms(1)]
    by (simp add: directive_def scan_defs conversion_def is_integer_conv_def conv_string_def next_arg_def emit_def step_fmt_def spaces_def)
  then show ?thesis by (subst vprintf_loop.simps) (simp add: lit_def ascii_def)
qed

lemma loop_decimal:
  assumes "sint (ucast a :: u32) \<noteq> - 2147483648"
  shows "\<exists>i'. vprintf_loop m (fmt_state 0 (lit ''%d'' @ f) (a # va) out i)
    = vprintf_loop m (fmt_state 0 f va (out @ signed_chars (sint (ucast a :: u32))) i')"
proof -
  let ?s = "fmt_state 0 (lit ''d'' @ f) (a # va) out i"
  from conv_signed_plain[of ?s a va] assms obtain r where
    r: "conv_signed 10 0 0 ?s = Inr (emit_number (signed_chars (sint (ucast a :: u32)), r) (?s\<lparr>pva := va\<rparr>))" by auto
  have "directive m ?s = bindR (Some (conv_signed 10 0 0 ?s)) (\<lambda>s. Some (Inr (step_fmt s)))"
    by (simp add: directive_def scan_defs conversion_def is_integer_conv_def conv_integer_def
        integer_flags_def integer_base_def is_signed_conv_def)
  then have "directive m ?s = Some (Inr (fmt_state 0 f va (out @ signed_chars (sint (ucast a :: u32))) (ucast r)))"
    unfolding r by (simp add: emit_number_def step_fmt_def lit_def)
  then show ?thesis by (intro exI[of _ "ucast r"], subst vprintf_loop.simps) (simp add: lit_def ascii_def)
qed

text \<open>What \<^verbatim>\<open>%p\<close> prints; the flags it sets stay.\<close>

definition pointer_chars :: "u64 \<Rightarrow> u8 list" where
  "pointer_chars a = fst (ntoa_long_long a (FLAGS_ZEROPAD OR FLAGS_UPPER) 16 16 0 0 False)"

lemma loop_pointer:
  "\<exists>i'. vprintf_loop m (fmt_state 0 (lit ''%p'' @ f) (a # va) out i)
    = vprintf_loop m (fmt_state (FLAGS_ZEROPAD OR FLAGS_UPPER) f va (out @ pointer_chars a) i')"
proof -
  let ?s = "fmt_state 0 (lit ''p'' @ f) (a # va) out i" and ?fl = "FLAGS_ZEROPAD OR FLAGS_UPPER"
  define r where "r = snd (ntoa_long_long a ?fl 16 16 0 (ucast i) False)"
  have out: "fst (ntoa_long_long a ?fl 16 16 0 k False) = pointer_chars a" for k
    by (simp add: pointer_chars_def ntoa_long_long_def ntoa_def print_reverse_def Let_def)
  have "directive m ?s = Some (Inr (fmt_state ?fl f va (out @ pointer_chars a) (ucast r)))"
    by (simp add: directive_def scan_defs conversion_def is_integer_conv_def conv_pointer_def next_arg_def emit_number_def step_fmt_def out r_def Let_def)
  then show ?thesis by (intro exI[of _ "ucast r"], subst vprintf_loop.simps) (simp add: lit_def ascii_def)
qed

lemma vprintf_loop_run:
  assumes "vprintf_loop m (fmt_state 0 fmt va [] 0) = vprintf_loop m (fmt_state fl [0] va' out i)"
  shows "vprintf m fmt va = Some (Inr (out, sint i))"
  using assms by (simp add: vprintf_def loop_end)

section \<open>Properties\<close>

text \<open>Whatever the format and the arguments, when \<^verbatim>\<open>vprintf\<close> returns, its result is the number of
  characters it printed, as a 32-bit integer.
\<close>

theorem vprintf_returns_count:
  assumes "vprintf m fmt va = Some (Inr (printed, r))"
  shows "r = sint (of_nat (length printed) :: u32)"
proof -
  from assms obtain s where "vprintf_loop m \<lparr>pflags = 0, pfmt = fmt, pva = va, pout = [], pidx = 0\<rparr> = Some (Inr s)"
    "printed = pout s" "r = sint (pidx s)" by (auto simp: vprintf_def res_iff)
  with counted_loop[OF this(1)] show ?thesis by (simp add: counted_def)
qed

theorem vprintf_returns_count_witness:
  "3 = sint (of_nat (length (lit ''abc'')) :: u32)"
proof -
  have "vprintf (\<lambda>_. 0) (lit ''abc'' @ [0]) [] = Some (Inr (lit ''abc'', 3))"
    by (simp add: vprintf_def vprintf_loop.simps lit_def ascii_def emit_def)
  from vprintf_returns_count[OF this] show ?thesis .
qed

text \<open>Text without a percent sign is printed as it is.
\<close>

theorem vprintf_plain_text:
  "vprintf m (filter (\<lambda>c. c \<noteq> 0 \<and> c \<noteq> ascii CHR ''%'') t @ 0 # rest) va
     = Some (Inr (filter (\<lambda>c. c \<noteq> 0 \<and> c \<noteq> ascii CHR ''%'') t,
                  sint (of_nat (length (filter (\<lambda>c. c \<noteq> 0 \<and> c \<noteq> ascii CHR ''%'') t)) :: u32)))"
proof -
  let ?t = "filter (\<lambda>c. c \<noteq> 0 \<and> c \<noteq> ascii CHR ''%'') t"
  let ?s = "\<lparr>pflags = 0, pfmt = [], pva = va, pout = [], pidx = 0\<rparr> :: pstate"
  have "vprintf_loop m (?s\<lparr>pfmt := ?t @ 0 # rest\<rparr>) = vprintf_loop m (emit ?t (?s\<lparr>pfmt := 0 # rest\<rparr>))"
    by (rule vprintf_loop_plain) auto
  also have "\<dots> = Some (Inr (emit ?t (?s\<lparr>pfmt := 0 # rest\<rparr>)))"
    by (subst vprintf_loop.simps) simp
  finally show ?thesis by (simp add: vprintf_def emit_def)
qed

text \<open>(C30) The number buffer of 48 bytes is never overrun: whatever the value, base, flags, width and
  precision, the digits, padding, prefix and sign stay within it.
\<close>

theorem ntoa_buffer_in_bounds:
  "length (ntoa_buf (ntoa_start v flags base) flags width precision base negative) \<le> NTOA_MAX"
proof -
  have "length (ntoa_start v flags base) \<le> NTOA_MAX"
    using length_ntoa_digits[of "[]" v flags base] by (simp add: ntoa_start_def NTOA_MAX_def)
  then show ?thesis
    by (auto simp: ntoa_buf_def Let_def intro!: length_sign_char length_hash_prefix length_zero_fill)
qed

text \<open>(C29) \<^verbatim>\<open>printf("%d", v)\<close> prints the decimal numeral of v: a minus sign when v is negative, then digits
  that \<^verbatim>\<open>atoi\<close> reads back as the absolute value. Only for the least 32-bit integer does the
  program overflow, when it negates the value.
\<close>

theorem vprintf_decimal_roundtrip:
  "if sint (ucast a :: u32) = - 2147483648
   then vprintf m (lit ''%d'' @ [0]) (a # va) = Some (Inl SignedOverflow)
   else \<exists>digits r. vprintf m (lit ''%d'' @ [0]) (a # va) =
          Some (Inr ((if sint (ucast a :: u32) < 0 then [ascii CHR ''-''] else []) @ digits, r))
        \<and> atoi (digits @ [0]) = Inr (word_of_int \<bar>sint (ucast a :: u32)\<bar>, [0])"
proof -
  let ?v = "sint (ucast a :: u32)"
  let ?s = "\<lparr>pflags = 0, pfmt = lit ''d'' @ [0], pva = a # va, pout = [], pidx = 0\<rparr> :: pstate"
  let ?r = "conv_signed 10 0 0 ?s"
  have cf: "conv_signed 10 0 0 ?s = Inr s' \<Longrightarrow> pfmt s' = lit ''d'' @ [0]" for s'
    by (auto simp: conv_signed_def next_arg_def res_iff)
  have "directive m ?s = bindR (Some ?r) (\<lambda>s. Some (Inr (step_fmt s)))"
    by (simp add: directive_def scan_defs conversion_def is_integer_conv_def conv_integer_def
        integer_flags_def integer_base_def is_signed_conv_def)
  also have "\<dots> = bindR (Some ?r) (\<lambda>s. Some (Inr (s\<lparr>pfmt := [0]\<rparr>)))"
    using cf by (cases ?r) (simp_all add: step_fmt_def lit_def)
  finally have run: "vprintf m (lit ''%d'' @ [0]) (a # va) = bindR (Some ?r) (\<lambda>s. Some (Inr (pout s, sint (pidx s))))"
    using vprintf_one[of m "lit ''d''" "a # va" ?r] by (simp add: lit_def)
  show ?thesis
  proof (cases "?v = - 2147483648")
    case True
    then show ?thesis using run conv_signed_plain[of ?s a va] by simp
  next
    case False
    with conv_signed_plain[of ?s a va] obtain r where "?r = Inr (emit_number (signed_chars ?v, r) (?s\<lparr>pva := va\<rparr>))" by auto
    moreover have "ucast (word_of_int \<bar>?v\<bar> :: u64) = (word_of_int \<bar>?v\<bar> :: u32)" by (simp add: ucast_down_of_int)
    ultimately show ?thesis
      using False run atoi_numeral[of "word_of_int \<bar>?v\<bar>"] by (auto simp: emit_number_def signed_chars_def)
  qed
qed

text \<open>\<^verbatim>\<open>printf("%lb", v)\<close> keeps only the 48 low bits of a 64-bit value: what it prints are the binary
  digits of v modulo 2 to the 48, so distinct values print alike.
\<close>

theorem vprintf_binary_truncates:
  "\<exists>ds r. vprintf m (lit ''%lb'' @ [0]) (v # va) = Some (Inr (map (\<lambda>d. digit_char FLAGS_LONG (of_nat d)) (rev ds), r))
     \<and> set ds \<subseteq> {..<2} \<and> horner_sum id 2 ds = unat v mod 2 ^ 48"
proof -
  let ?s = "\<lparr>pflags = 0, pfmt = lit ''lb'' @ [0], pva = v # va, pout = [], pidx = 0\<rparr> :: pstate"
  let ?ds = "nat_digits (unat v) 2 NTOA_MAX"
  let ?f = FLAGS_LONG
  let ?s' = "?s\<lparr>pflags := ?f, pva := va\<rparr>"
  let ?e = "emit_number (ntoa_long v ?f 2 0 0 0 False) ?s'"
  have conv: "conv_unsigned 2 0 0 (?s\<lparr>pflags := ?f, pfmt := lit ''b'' @ [0]\<rparr>)
      = Inr (emit_number (ntoa_long v ?f 2 0 0 0 False) (?s'\<lparr>pfmt := lit ''b'' @ [0]\<rparr>))"
    by (simp add: conv_unsigned_def next_arg_def has_flag_def flag_defs)
  have "directive m ?s = bindR (Some (conv_unsigned 2 0 0 (?s\<lparr>pflags := ?f, pfmt := lit ''b'' @ [0]\<rparr>)))
      (\<lambda>s. Some (Inr (step_fmt s)))"
    by (simp add: directive_def scan_defs conversion_def is_integer_conv_def conv_integer_def
        integer_flags_def integer_base_def is_signed_conv_def has_flag_def flag_defs)
  also have "\<dots> = bindR (Some (Inr ?e)) (\<lambda>s. Some (Inr (s\<lparr>pfmt := [0]\<rparr>)))"
    by (simp only: conv) (simp add: step_fmt_def lit_def emit_number_def)
  finally have run: "vprintf m (lit ''%lb'' @ [0]) (v # va) = bindR (Some (Inr ?e)) (\<lambda>s. Some (Inr (pout s, sint (pidx s))))"
    using vprintf_one[of m "lit ''lb''" "v # va" "Inr ?e"] by (simp add: lit_def)
  have no: "\<not> has_flag ?f FLAGS_LEFT" "\<not> has_flag ?f FLAGS_ZEROPAD" "\<not> has_flag ?f FLAGS_HASH"
    "\<not> has_flag ?f FLAGS_PLUS" "\<not> has_flag ?f FLAGS_SPACE"
    by (simp_all add: has_flag_def flag_defs)
  have fl: "ntoa_flags v ?f = ?f" by (simp add: ntoa_flags_def flag_defs)
  have st: "ntoa_start v ?f 2 = map (\<lambda>d. digit_char ?f (of_nat d)) ?ds"
    using ntoa_start_eq[of ?f 2 v] by (simp add: has_flag_def flag_defs)
  have "fst (ntoa_long v ?f 2 0 0 0 False) = map (\<lambda>d. digit_char ?f (of_nat d)) (rev ?ds)"
    by (simp add: ntoa_long_def ntoa_def print_reverse_def ntoa_width_def ntoa_buf_def sign_char_def
        Let_def fl st no rev_map)
  then show ?thesis
    using run nat_digits_bound[of 2 _ "unat v" NTOA_MAX] horner_nat_digits[of 2 "unat v" NTOA_MAX]
    by (auto simp: emit_number_def NTOA_MAX_def intro!: exI[of _ ?ds])
qed

text \<open>A format that ends in a lone percent sign makes \<^verbatim>\<open>vprintf\<close> print the terminator and read on
  behind it, past the end of the string.
\<close>

theorem vprintf_lone_percent_overruns:
  "vprintf m (filter (\<lambda>c. c \<noteq> 0 \<and> c \<noteq> ascii CHR ''%'') t @ lit ''%'' @ [0]) va = Some (Inl OutOfBounds)"
proof -
  let ?t = "filter (\<lambda>c. c \<noteq> 0 \<and> c \<noteq> ascii CHR ''%'') t"
  let ?s = "\<lparr>pflags = 0, pfmt = [], pva = va, pout = [], pidx = 0\<rparr> :: pstate"
  let ?s1 = "emit ?t (?s\<lparr>pfmt := lit ''%'' @ [0]\<rparr>)"
  have "vprintf_loop m (?s\<lparr>pfmt := ?t @ lit ''%'' @ [0]\<rparr>) = vprintf_loop m ?s1"
    by (rule vprintf_loop_plain) auto
  also have "\<dots> = bindR (directive m (?s1\<lparr>pfmt := [0]\<rparr>)) (vprintf_loop m)"
    by (subst vprintf_loop.simps) (simp add: lit_def ascii_def)
  also have "directive m (?s1\<lparr>pfmt := [0]\<rparr>) = Some (Inr (emit [0] (?s1\<lparr>pfmt := []\<rparr>)))"
    by (simp add: directive_def scan_defs conversion_def is_integer_conv_def step_fmt_def emit_def)
  also have "bindR \<dots> (vprintf_loop m) = Some (Inl OutOfBounds)"
    by (simp add: vprintf_loop.simps)
  finally show ?thesis by (simp add: vprintf_def)
qed

text \<open>The flags are not cleared between directives: after \<^verbatim>\<open>%.4s\<close> a plain \<^verbatim>\<open>%s\<close> still counts as having
  a precision, which is 0, so the second string is not printed at all.
\<close>

theorem vprintf_flags_leak:
  assumes "cstr m p s" and "cstr m q t"
  shows "\<exists>r. vprintf m (lit ''%.4s%s'' @ [0]) [p, q] = Some (Inr (take 4 s, r))"
proof -
  let ?P = "FLAGS_PRECISION"
  have chars: "str_chars m a True (of_nat n) = Some (Inr (take n u))" if "cstr m a u" "n < 2 ^ 32" for a u n
    using that
  proof (induction u arbitrary: a n)
    case Nil
    then show ?case by (subst str_chars.simps) simp
  next
    case (Cons c cs)
    show ?case
    proof (cases n)
      case 0
      then show ?thesis by (subst str_chars.simps) simp
    next
      case (Suc k)
      have "unat (of_nat n :: u32) = n" using Cons.prems(2) by (simp add: unat_of_nat)
      then have nz: "(of_nat n :: u32) \<noteq> 0" using Suc by (intro notI) simp
      have pred: "of_nat n - 1 = (of_nat k :: u32)" by (simp add: Suc)
      have "str_chars m (a + 1) True (of_nat k) = Some (Inr (take k cs))"
        using Cons Suc by (intro Cons.IH) auto
      then show ?thesis
        using Cons.prems(1) nz Suc by (subst str_chars.simps) (simp add: pred)
    qed
  qed
  have s1: "str_chars m p True 4 = Some (Inr (take 4 s))" using chars[OF assms(1), of 4] by simp
  have s2: "str_chars m q True 0 = Some (Inr [])" using chars[OF assms(2), of 0] by simp
  have d1: "directive m \<lparr>pflags = 0, pfmt = lit ''.4s%s'' @ [0], pva = [p, q], pout = [], pidx = 0\<rparr>
      = Some (Inr (emit (take 4 s) \<lparr>pflags = ?P, pfmt = lit ''%s'' @ [0], pva = [q], pout = [], pidx = 0\<rparr>))"
    by (simp add: directive_def scan_defs conversion_def is_integer_conv_def conv_string_def next_arg_def
        strlen_cstr[OF assms(1)] s1 spaces_def atoi_def has_flag_def flag_defs step_fmt_def emit_def Let_def)
  have d2: "directive m (emit (take 4 s) \<lparr>pflags = ?P, pfmt = lit ''s'' @ [0], pva = [q], pout = [], pidx = 0\<rparr>)
      = Some (Inr (emit (take 4 s) \<lparr>pflags = ?P, pfmt = [0], pva = [], pout = [], pidx = 0\<rparr>))"
    by (simp add: directive_def scan_defs conversion_def is_integer_conv_def conv_string_def next_arg_def
        strlen_cstr[OF assms(2)] s2 spaces_def has_flag_def flag_defs step_fmt_def emit_def Let_def)
  have "vprintf_loop m \<lparr>pflags = 0, pfmt = lit ''%.4s%s'' @ [0], pva = [p, q], pout = [], pidx = 0\<rparr>
      = vprintf_loop m (emit (take 4 s) \<lparr>pflags = ?P, pfmt = lit ''%s'' @ [0], pva = [q], pout = [], pidx = 0\<rparr>)"
    using d1 by (subst vprintf_loop.simps) (simp add: lit_def ascii_def)
  also have "\<dots> = vprintf_loop m (emit (take 4 s) \<lparr>pflags = ?P, pfmt = [0], pva = [], pout = [], pidx = 0\<rparr>)"
    using d2 by (subst vprintf_loop.simps) (simp add: lit_def ascii_def emit_def)
  also have "\<dots> = Some (Inr (emit (take 4 s) \<lparr>pflags = ?P, pfmt = [0], pva = [], pout = [], pidx = 0\<rparr>))"
    by (subst vprintf_loop.simps) simp
  finally show ?thesis by (simp add: vprintf_def emit_def)
qed

theorem vprintf_flags_leak_witness:
  "\<exists>r. vprintf ((\<lambda>_. 0)(0x10 := 97, 0x20 := 98)) (lit ''%.4s%s'' @ [0]) [0x10, 0x20] = Some (Inr ([97], r))"
proof -
  let ?m = "(\<lambda>_. 0)(0x10 := 97, 0x20 := 98) :: mem"
  have "cstr ?m 0x10 [97]" "cstr ?m 0x20 [98]" by simp_all
  from vprintf_flags_leak[OF this] show ?thesis by simp
qed

end
