(* ===== verification/FrameAlloc.thy ===== *)
theory FrameAlloc
  imports Prelude
begin

text \<open>
  The physical frame allocator of \<^verbatim>\<open>lethe-kernel/memory/initial_frame_allocator.c\<close>: it walks the
  memory map the bootloader hands over and cuts 4 KiB frames off the usable regions. Physical
  memory is seen frame by frame: \<open>phys f i\<close> is the i-th 64-bit cell of the frame at physical
  address f, which the kernel reaches at f plus \<^verbatim>\<open>hhdm_mapping\<close>; zeroing a new frame with
  \<^verbatim>\<open>memset\<close> makes all its cells 0. The abstract specification is the list of free frames.
\<close>

section \<open>Data and operations\<close>

record memmap_entry =
  me_base :: u64
  me_length :: u64
  me_type :: u64

record frame_t =
  f_start :: bool
  f_base :: u64
  f_length :: u64

record mm =
  memory_map :: "memmap_entry list"
  next_frame :: frame_t
  phys :: "u64 \<Rightarrow> u64 \<Rightarrow> u64"
  root :: u64

definition KERNEL_USED :: u64 where "KERNEL_USED = 0xA9"
definition LIMINE_MEMMAP_USABLE :: u64 where "LIMINE_MEMMAP_USABLE = 0"

definition usable :: "memmap_entry \<Rightarrow> bool" where
  "usable e \<longleftrightarrow> me_type e = LIMINE_MEMMAP_USABLE"

text \<open>The first usable entry is marked as used; \<open>None\<close> when there is none.\<close>

fun take_usable :: "memmap_entry list \<Rightarrow> (memmap_entry \<times> memmap_entry list) option" where
  "take_usable [] = None"
| "take_usable (e # es) =
     (if usable e then Some (e, e\<lparr>me_type := KERNEL_USED\<rparr> # es)
      else map_option (\<lambda>(e', es'). (e', e # es')) (take_usable es))"

definition next_usable :: "mm \<Rightarrow> mm res" where
  "next_usable m =
     (case take_usable (memory_map m) of
        None \<Rightarrow> Inl (Panic ''Could not find a free entry'')
      | Some (e, es) \<Rightarrow>
          Inr (m\<lparr>memory_map := es,
                 next_frame := \<lparr>f_start = False, f_base = me_base e, f_length = me_length e\<rparr>\<rparr>))"

lemma take_usable_decreases:
  "take_usable es = Some (e, es') \<Longrightarrow> length (filter usable es') < length (filter usable es)"
  by (induction es arbitrary: es')
    (auto simp: usable_def KERNEL_USED_def LIMINE_MEMMAP_USABLE_def split: if_splits)

lemma next_usable_decreases:
  "next_usable m = Inr m' \<Longrightarrow> length (filter usable (memory_map m')) < length (filter usable (memory_map m))"
  by (auto simp: next_usable_def split: option.splits dest: take_usable_decreases)

text \<open>The adjustment of a region that starts at address 0, and the cut of one frame.\<close>

definition skip_zero :: "frame_t \<Rightarrow> frame_t" where
  "skip_zero f = (if f_base f = 0 then f\<lparr>f_base := f_base f + 4096, f_length := f_length f - 4096\<rparr> else f)"

definition cut_frame :: "mm \<Rightarrow> u64 \<times> mm" where
  "cut_frame m =
     (let f = next_frame m; addr = f_base f in
      (addr, m\<lparr>next_frame := f\<lparr>f_base := f_base f + 4096, f_length := f_length f - 4096\<rparr>,
               phys := (phys m)(addr := \<lambda>_. 0)\<rparr>))"

function allocate_frame :: "mm \<Rightarrow> (u64 \<times> mm) res" where
  "allocate_frame m =
     (if f_start (next_frame m) then Inr (0, m)
      else let m1 = m\<lparr>next_frame := skip_zero (next_frame m)\<rparr> in
           if f_length (next_frame m1) < 4096
           then bindE (next_usable m1) (\<lambda>m2. allocate_frame m2)
           else Inr (cut_frame m1))"
  by auto
termination
  by (relation "measure (\<lambda>m. length (filter usable (memory_map m)))") (auto dest!: next_usable_decreases)

declare allocate_frame.simps [simp del]

definition init_frame_allocator :: "memmap_entry list \<Rightarrow> mm \<Rightarrow> mm res" where
  "init_frame_allocator es m =
     next_usable (m\<lparr>memory_map := es, next_frame := \<lparr>f_start = True, f_base = 0, f_length = 0\<rparr>\<rparr>)"

section \<open>The abstract free list\<close>

text \<open>The frames of a region in the order they are handed out; frame 0 never is.\<close>

definition region_frames :: "u64 \<Rightarrow> u64 \<Rightarrow> u64 list" where
  "region_frames b l = filter (\<lambda>a. a \<noteq> 0) (map (\<lambda>i. b + of_nat (4096 * i)) [0..<unat l div 4096])"

definition free_frames :: "mm \<Rightarrow> u64 list" where
  "free_frames m = region_frames (f_base (next_frame m)) (f_length (next_frame m))
     @ concat (map (\<lambda>e. region_frames (me_base e) (me_length e)) (filter usable (memory_map m)))"

text \<open>
  What the boot protocol promises of a usable region: page-aligned, below 2 to the 52 (the reach of
  a page table entry), and at least one page when it starts at 0.
\<close>

definition region_ok :: "u64 \<Rightarrow> u64 \<Rightarrow> bool" where
  "region_ok b l \<longleftrightarrow> unat b mod 4096 = 0 \<and> unat b + unat l \<le> 2 ^ 52 \<and> (b = 0 \<longrightarrow> 4096 \<le> unat l)"

definition frames_wf :: "mm \<Rightarrow> bool" where
  "frames_wf m \<longleftrightarrow> \<not> f_start (next_frame m)
     \<and> region_ok (f_base (next_frame m)) (f_length (next_frame m))
     \<and> list_all (\<lambda>e. region_ok (me_base e) (me_length e)) (filter usable (memory_map m))
     \<and> distinct (free_frames m)"

definition frame_ok :: "u64 \<Rightarrow> bool" where
  "frame_ok a \<longleftrightarrow> a \<noteq> 0 \<and> unat a mod 4096 = 0 \<and> unat a < 2 ^ 52"

section \<open>Lemmas\<close>

lemma region_frames_0: "unat l < 4096 \<Longrightarrow> region_frames b l = []"
  by (simp add: region_frames_def)

lemma unat_region_frame:
  assumes "region_ok b l" "i < unat l div 4096"
  shows "unat (b + of_nat (4096 * i)) = unat b + 4096 * i" "unat b + 4096 * i < 2 ^ 52"
proof -
  have "4096 * i < unat l" using assms(2) by (metis div_less_iff_less_mult less_mult_imp_div_less mult.commute not_less_iff_gr_or_eq
        less_le_trans div_times_less_eq_dividend nat_mult_less_cancel1 zero_less_numeral)
  then show *: "unat b + 4096 * i < 2 ^ 52" using assms(1) by (simp add: region_ok_def)
  then show "unat (b + of_nat (4096 * i)) = unat b + 4096 * i" by (intro unat_add_of_nat) simp
qed

lemma region_frames_shift:
  assumes ok: "region_ok b l" and l: "4096 \<le> unat l"
  shows "region_frames b l = (if b = 0 then [] else [b]) @ region_frames (b + 4096) (l - 4096)"
    and "region_ok (b + 4096) (l - 4096)" and "b + 4096 \<noteq> 0"
proof -
  have l': "unat (l - 4096) = unat l - 4096" using l by (simp add: unat_sub word_le_nat_alt)
  have b': "unat (b + 4096) = unat b + 4096"
    using unat_add_of_nat[of b 4096] ok l by (simp add: region_ok_def)
  show nz: "b + 4096 \<noteq> 0" using b' by (metis add_is_0 unat_0 zero_neq_numeral)
  have n: "unat l div 4096 = Suc (unat (l - 4096) div 4096)"
    using l by (simp add: l' le_div_geq)
  have "[0..<unat l div 4096] = 0 # map Suc [0..<unat (l - 4096) div 4096]"
    unfolding n map_Suc_upt by (rule upt_conv_Cons) simp
  then show "region_frames b l = (if b = 0 then [] else [b]) @ region_frames (b + 4096) (l - 4096)"
    by (simp add: region_frames_def comp_def algebra_simps)
  show "region_ok (b + 4096) (l - 4096)"
    using ok l nz by (simp add: region_ok_def b' l')
qed

lemma region_frames_ok: "region_ok b l \<Longrightarrow> a \<in> set (region_frames b l) \<Longrightarrow> frame_ok a"
proof -
  assume ok: "region_ok b l" and "a \<in> set (region_frames b l)"
  then obtain i where i: "i < unat l div 4096" "a = b + of_nat (4096 * i)" "a \<noteq> 0"
    by (auto simp: region_frames_def)
  from unat_region_frame[OF ok i(1)] i ok show "frame_ok a"
    by (simp add: frame_ok_def region_ok_def mod_add_eq[symmetric])
qed

lemma skip_zero_region:
  assumes "region_ok (f_base f) (f_length f)"
  shows "region_ok (f_base (skip_zero f)) (f_length (skip_zero f))" "f_base (skip_zero f) \<noteq> 0"
    "region_frames (f_base (skip_zero f)) (f_length (skip_zero f)) = region_frames (f_base f) (f_length f)"
    "f_start (skip_zero f) = f_start f"
  using region_frames_shift[OF assms] assms by (auto simp: skip_zero_def region_ok_def)

lemma take_usable_filter:
  "take_usable es = None \<Longrightarrow> filter usable es = []"
  "take_usable es = Some (e, es') \<Longrightarrow> filter usable es = e # filter usable es'"
  by (induction es arbitrary: es')
    (auto simp: usable_def KERNEL_USED_def LIMINE_MEMMAP_USABLE_def split: if_splits)

lemma frames_wf_mem: "frames_wf m \<Longrightarrow> a \<in> set (free_frames m) \<Longrightarrow> frame_ok a"
  by (auto simp: frames_wf_def free_frames_def list_all_iff dest: region_frames_ok)

lemma next_usable_spec:
  assumes ok: "list_all (\<lambda>e. region_ok (me_base e) (me_length e)) (filter usable (memory_map m))"
    and dist: "distinct (free_frames m)" and used: "region_frames (f_base (next_frame m)) (f_length (next_frame m)) = []"
  shows "next_usable m = Inl (Panic ''Could not find a free entry'') \<and> free_frames m = [] \<or>
    (\<exists>m'. next_usable m = Inr m' \<and> frames_wf m' \<and> free_frames m' = free_frames m \<and> phys m' = phys m \<and> root m' = root m)"
proof (cases "take_usable (memory_map m)")
  case None
  then show ?thesis using take_usable_filter(1)[OF None] used by (simp add: next_usable_def free_frames_def)
next
  case (Some p)
  obtain e es where p: "p = (e, es)" by (cases p)
  note F = take_usable_filter(2)[OF Some[unfolded p]]
  let ?m = "m\<lparr>memory_map := es, next_frame := \<lparr>f_start = False, f_base = me_base e, f_length = me_length e\<rparr>\<rparr>"
  have n: "next_usable m = Inr ?m" by (simp add: next_usable_def Some p)
  have f: "free_frames ?m = free_frames m" using used F by (simp add: free_frames_def)
  then have "frames_wf ?m" using ok dist F by (simp add: frames_wf_def)
  with n f show ?thesis by auto
qed

lemma allocate_frame_spec:
  assumes "frames_wf m"
  shows "case free_frames m of
      [] \<Rightarrow> allocate_frame m = Inl (Panic ''Could not find a free entry'')
    | a # as \<Rightarrow> \<exists>m'. allocate_frame m = Inr (a, m') \<and> free_frames m' = as \<and> frames_wf m'
        \<and> phys m' = (phys m)(a := \<lambda>_. 0) \<and> root m' = root m"
  using assms
proof (induction m rule: allocate_frame.induct)
  case (1 m)
  let ?f = "skip_zero (next_frame m)"
  let ?m = "m\<lparr>next_frame := ?f\<rparr>"
  have st: "\<not> f_start (next_frame m)" and ok: "region_ok (f_base (next_frame m)) (f_length (next_frame m))"
    and es: "list_all (\<lambda>e. region_ok (me_base e) (me_length e)) (filter usable (memory_map m))"
    and dist: "distinct (free_frames m)"
    using 1(2) by (simp_all add: frames_wf_def)
  note Z = skip_zero_region[OF ok]
  have free: "free_frames ?m = free_frames m" by (simp add: free_frames_def Z)
  have step: "allocate_frame m = (if f_length ?f < 4096 then bindE (next_usable ?m) allocate_frame else Inr (cut_frame ?m))"
    using st by (subst allocate_frame.simps) (simp add: Let_def)
  show ?case
  proof (cases "f_length ?f < 4096")
    case True
    then have empty: "region_frames (f_base ?f) (f_length ?f) = []"
      by (intro region_frames_0) (simp add: word_less_nat_alt)
    from next_usable_spec[of ?m] es dist empty free
    consider "next_usable ?m = Inl (Panic ''Could not find a free entry'')" "free_frames m = []"
      | m2 where "next_usable ?m = Inr m2" "frames_wf m2" "free_frames m2 = free_frames m" "phys m2 = phys m" "root m2 = root m"
      by auto
    then show ?thesis
    proof cases
      case 1
      then show ?thesis using True step by simp
    next
      case (2 m2)
      have "allocate_frame m = allocate_frame m2" using True step 2(1) by simp
      then show ?thesis using "1.IH"[OF st refl _ 2(1,2)] True 2(3-5)
        by (cases "free_frames m") simp_all
    qed
  next
    case False
    then have l: "4096 \<le> unat (f_length ?f)" by (simp add: word_less_nat_alt not_less)
    note S = region_frames_shift[OF Z(1) l]
    have hd: "region_frames (f_base ?f) (f_length ?f) = f_base ?f # region_frames (f_base ?f + 4096) (f_length ?f - 4096)"
      using S(1) Z(2) by simp
    obtain m' where m': "cut_frame ?m = (f_base ?f, m')" "m' = snd (cut_frame ?m)" by (simp add: cut_frame_def Let_def)
    have free': "free_frames m = f_base ?f # free_frames m'"
      using hd Z(3) by (simp add: m'(2) cut_frame_def Let_def free_frames_def)
    have "frames_wf m'"
      using dist es S(2,3) st Z(4) unfolding free'
      by (auto simp: frames_wf_def m'(2) cut_frame_def Let_def)
    then show ?thesis
      using False step m' by (simp add: free' cut_frame_def Let_def)
  qed
qed

section \<open>The interface the page tables and the heap rely on\<close>

text \<open>A number of allocations in a row.\<close>

fun alloc_n :: "('m \<Rightarrow> (u64 \<times> 'm) res) \<Rightarrow> nat \<Rightarrow> 'm \<Rightarrow> (u64 list \<times> 'm) res" where
  "alloc_n alloc 0 m = Inr ([], m)"
| "alloc_n alloc (Suc n) m =
     bindE (alloc m) (\<lambda>(a, m1). bindE (alloc_n alloc n m1) (\<lambda>(as, m2). Inr (a # as, m2)))"

locale frame_source =
  fixes alloc :: "'m \<Rightarrow> (u64 \<times> 'm) res"
    and free :: "'m \<Rightarrow> u64 list"
    and wf :: "'m \<Rightarrow> bool"
  assumes alloc_law: "wf m \<Longrightarrow> free m = a # as \<Longrightarrow> \<exists>m'. alloc m = Inr (a, m') \<and> free m' = as \<and> wf m'"
    and free_law: "wf m \<Longrightarrow> distinct (free m) \<and> list_all frame_ok (free m)"
begin

lemma alloc_n_spec:
  "wf m \<Longrightarrow> n \<le> length (free m) \<Longrightarrow>
     \<exists>m'. alloc_n alloc n m = Inr (take n (free m), m') \<and> free m' = drop n (free m) \<and> wf m'"
proof (induction n arbitrary: m)
  case (Suc n)
  then obtain a as where f: "free m = a # as" by (cases "free m") auto
  from alloc_law[OF Suc.prems(1) f] obtain m1 where m1: "alloc m = Inr (a, m1)" "free m1 = as" "wf m1" by blast
  with Suc.IH[OF m1(3)] Suc.prems(2) f show ?case by auto
qed simp

lemma alloc_n_fresh:
  assumes "wf m" and "n \<le> length (free m)"
  shows "\<exists>as m'. alloc_n alloc n m = Inr (as, m') \<and> length as = n \<and> distinct as \<and> list_all frame_ok as
    \<and> set as \<inter> set (free m') = {} \<and> wf m'"
proof -
  from alloc_n_spec[OF assms] obtain m' where m': "alloc_n alloc n m = Inr (take n (free m), m')"
    "free m' = drop n (free m)" "wf m'" by blast
  have "list_all frame_ok (take n (free m))"
    using free_law[OF assms(1)] by (auto simp: list_all_iff dest: in_set_takeD)
  moreover have "set (take n (free m)) \<inter> set (drop n (free m)) = {}"
    using free_law[OF assms(1)] by (intro set_take_disj_set_drop_if_distinct) auto
  ultimately show ?thesis using m' free_law[OF assms(1)] assms(2) by (intro exI[of _ "take n (free m)"] exI[of _ m']) simp
qed

end

interpretation frames: frame_source allocate_frame free_frames frames_wf
proof unfold_locales
  fix m a as assume "frames_wf m" "free_frames m = a # as"
  then show "\<exists>m'. allocate_frame m = Inr (a, m') \<and> free_frames m' = as \<and> frames_wf m'"
    using allocate_frame_spec[of m] by auto
next
  fix m assume "frames_wf m"
  then show "distinct (free_frames m) \<and> list_all frame_ok (free_frames m)"
    using frames_wf_mem[of m] by (auto simp: frames_wf_def list_all_iff)
qed

section \<open>Properties\<close>

text \<open>(C1) The allocator hands out the free frames of the memory map one after the other: as long as one is
  left, \<^verbatim>\<open>allocate_frame\<close> returns (its self-call ends) a page-aligned frame other than 0, zeroed,
  that was free and is free no longer, so no frame is handed out twice; when none is left it panics.
\<close>

theorem allocate_frame_takes_free:
  assumes "frames_wf m"
  shows "if free_frames m = [] then allocate_frame m = Inl (Panic ''Could not find a free entry'')
    else \<exists>a m'. allocate_frame m = Inr (a, m') \<and> frame_ok a \<and> free_frames m = a # free_frames m'
      \<and> a \<notin> set (free_frames m') \<and> frames_wf m' \<and> (\<forall>i. phys m' a i = 0) \<and> (\<forall>b. b \<noteq> a \<longrightarrow> phys m' b = phys m b)"
proof (cases "free_frames m")
  case Nil
  then show ?thesis using allocate_frame_spec[OF assms] by simp
next
  case (Cons a as)
  then have "distinct (a # as)" using assms by (simp add: frames_wf_def)
  then show ?thesis
    using allocate_frame_spec[OF assms] frames_wf_mem[OF assms, of a] Cons by auto
qed

definition demo_mm :: mm where
  "demo_mm = \<lparr>memory_map = [\<lparr>me_base = 0x1000, me_length = 0x2000, me_type = 0xA9\<rparr>],
     next_frame = \<lparr>f_start = False, f_base = 0x1000, f_length = 0x2000\<rparr>, phys = (\<lambda>_ _. 7), root = 0x9000\<rparr>"

lemma demo_frames: "free_frames demo_mm = [0x1000, 0x2000]" "frames_wf demo_mm"
  by (simp_all add: frames_wf_def demo_mm_def free_frames_def region_frames_def region_ok_def usable_def
      LIMINE_MEMMAP_USABLE_def upt_small)

theorem allocate_frame_takes_free_witness:
  "\<exists>a m'. allocate_frame demo_mm = Inr (a, m') \<and> free_frames m' = [0x2000] \<and> a = 0x1000"
  using allocate_frame_takes_free[OF demo_frames(2)] by (auto simp: demo_frames)

text \<open>(C24) Frames handed out in a row are pairwise distinct, page-aligned and below the reach of a page table
  entry, and none of them is still free.
\<close>

theorem allocate_frames_distinct:
  assumes "frames_wf m" and "n \<le> length (free_frames m)"
  shows "\<exists>as m'. alloc_n allocate_frame n m = Inr (as, m') \<and> length as = n \<and> distinct as
    \<and> list_all frame_ok as \<and> set as \<inter> set (free_frames m') = {} \<and> frames_wf m'"
  by (rule frames.alloc_n_fresh[OF assms])

theorem allocate_frames_distinct_witness:
  "\<exists>as m'. alloc_n allocate_frame 2 demo_mm = Inr (as, m') \<and> length as = 2 \<and> distinct as"
  using allocate_frames_distinct[OF demo_frames(2), of 2] by (auto simp: demo_frames)

end
