(* ===== verification/Paging.thy ===== *)
theory Paging
  imports FrameAlloc
begin

text \<open>
  The four-level page tables of \<^verbatim>\<open>lethe-kernel/memory/paging.c\<close>. A page table is a frame of 512
  cells in the physical memory of \<open>FrameAlloc\<close>; \<open>encode_entry\<close> and \<open>decode_entry\<close> are the bit-field
  layout of \<^verbatim>\<open>page_entry_t\<close>. The invariant says that the tables reachable from the root form a tree
  disjoint from the free frames; the theorems show that mapping and unmapping a page change the
  translation of that page only.
\<close>

section \<open>Page table entries\<close>

record page_entry_t =
  present :: bool
  writable :: bool
  user_accessable :: bool
  write_through :: bool
  cache_disable :: bool
  accessed :: bool
  unused_1 :: bool
  page_size :: bool
  unused_2 :: "4 word"
  address :: "40 word"
  unused_3 :: "11 word"
  execute_disable :: bool

definition encode_entry :: "page_entry_t \<Rightarrow> u64" where
  "encode_entry e =
     of_bool (present e) OR push_bit 1 (of_bool (writable e)) OR push_bit 2 (of_bool (user_accessable e))
     OR push_bit 3 (of_bool (write_through e)) OR push_bit 4 (of_bool (cache_disable e))
     OR push_bit 5 (of_bool (accessed e)) OR push_bit 6 (of_bool (unused_1 e))
     OR push_bit 7 (of_bool (page_size e)) OR push_bit 8 (ucast (unused_2 e))
     OR push_bit 12 (ucast (address e)) OR push_bit 52 (ucast (unused_3 e))
     OR push_bit 63 (of_bool (execute_disable e))"

definition decode_entry :: "u64 \<Rightarrow> page_entry_t" where
  "decode_entry w =
     \<lparr>present = bit w 0, writable = bit w 1, user_accessable = bit w 2, write_through = bit w 3,
      cache_disable = bit w 4, accessed = bit w 5, unused_1 = bit w 6, page_size = bit w 7,
      unused_2 = ucast (drop_bit 8 w), address = ucast (drop_bit 12 w), unused_3 = ucast (drop_bit 52 w),
      execute_disable = bit w 63\<rparr>"

definition zero_entry :: page_entry_t where
  "zero_entry = \<lparr>present = False, writable = False, user_accessable = False, write_through = False,
     cache_disable = False, accessed = False, unused_1 = False, page_size = False, unused_2 = 0,
     address = 0, unused_3 = 0, execute_disable = False\<rparr>"

text \<open>\<^verbatim>\<open>entry->address << 12\<close>, in 64 bits.\<close>

definition target :: "page_entry_t \<Rightarrow> u64" where
  "target e = push_bit 12 (ucast (address e))"

definition set_entry :: "u64 \<Rightarrow> u16 \<Rightarrow> page_entry_t" where
  "set_entry addr flags =
     \<lparr>present = bit flags 0, writable = bit flags 1, user_accessable = bit flags 2,
      write_through = bit flags 3, cache_disable = bit flags 4, accessed = bit flags 5,
      unused_1 = True, page_size = bit flags 6, unused_2 = 0, address = ucast (drop_bit 12 addr),
      unused_3 = 0, execute_disable = bit flags 7\<rparr>"

section \<open>The walks\<close>

definition p4_index :: "u64 \<Rightarrow> u64" where
  "p4_index v = drop_bit 9 (drop_bit 9 (drop_bit 9 (drop_bit 12 v))) AND 0x1FF"

definition p3_index :: "u64 \<Rightarrow> u64" where
  "p3_index v = drop_bit 9 (drop_bit 9 (drop_bit 12 v)) AND 0x1FF"

definition p2_index :: "u64 \<Rightarrow> u64" where
  "p2_index v = drop_bit 9 (drop_bit 12 v) AND 0x1FF"

definition p1_index :: "u64 \<Rightarrow> u64" where
  "p1_index v = drop_bit 12 v AND 0x1FF"

definition entry_at :: "mm \<Rightarrow> u64 \<Rightarrow> u64 \<Rightarrow> page_entry_t" where
  "entry_at m t i = decode_entry (phys m t i)"

definition write_entry :: "mm \<Rightarrow> u64 \<Rightarrow> u64 \<Rightarrow> page_entry_t \<Rightarrow> mm" where
  "write_entry m t i e = m\<lparr>phys := (phys m)(t := (phys m t)(i := encode_entry e))\<rparr>"

definition virtual_to_physical :: "mm \<Rightarrow> u64 \<Rightarrow> u64" where
  "virtual_to_physical m v =
     (let p3_physical = target (entry_at m (root m) (p4_index v)) in
      if p3_physical = 0 then 0
      else let p2_physical = target (entry_at m p3_physical (p3_index v)) in
      if p2_physical = 0 then 0
      else let p1_physical = target (entry_at m p2_physical (p2_index v)) in
      if p1_physical = 0 then 0
      else let page_entry = target (entry_at m p1_physical (p1_index v)) in
      if page_entry = 0 then 0 else page_entry)"

definition get_entry :: "mm \<Rightarrow> u64 \<Rightarrow> page_entry_t" where
  "get_entry m v =
     (let p3_physical = target (entry_at m (root m) (p4_index v)) in
      if p3_physical = 0 then zero_entry
      else let p2_physical = target (entry_at m p3_physical (p3_index v)) in
      if p2_physical = 0 then zero_entry
      else let p1_physical = target (entry_at m p2_physical (p2_index v)) in
      if p1_physical = 0 then zero_entry
      else let page_entry = target (entry_at m p1_physical (p1_index v)) in
      if page_entry = 0 then zero_entry
      else entry_at m p1_physical (p1_index v))"

definition is_free :: "mm \<Rightarrow> u64 \<Rightarrow> bool" where
  "is_free m v \<longleftrightarrow> \<not> unused_1 (get_entry m v)"

definition allocate_entry :: "mm \<Rightarrow> u64 \<Rightarrow> u64 \<Rightarrow> u16 \<Rightarrow> mm res" where
  "allocate_entry m t i flags =
     bindE (allocate_frame m) (\<lambda>(a, m').
     bindE (guardE (Panic ''Failed to allocate space for page entry'') (a \<noteq> 0)) (\<lambda>_.
     Inr (write_entry m' t i (set_entry a flags))))"

text \<open>One level of \<^verbatim>\<open>map_page\<close>: the entry is filled if it is not present, then followed.\<close>

definition descend :: "mm \<Rightarrow> u64 \<Rightarrow> u64 \<Rightarrow> u16 \<Rightarrow> (u64 \<times> mm) res" where
  "descend m t i flags =
     bindE (if \<not> present (entry_at m t i) then allocate_entry m t i flags else Inr m) (\<lambda>m'.
     Inr (target (entry_at m' t i), m'))"

definition map_page :: "mm \<Rightarrow> u64 \<Rightarrow> u64 \<Rightarrow> u16 \<Rightarrow> mm res" where
  "map_page m page frame flags =
     bindE (descend m (root m) (p4_index page) flags) (\<lambda>(p3, m1).
     bindE (descend m1 p3 (p3_index page) flags) (\<lambda>(p2, m2).
     bindE (descend m2 p2 (p2_index page) flags) (\<lambda>(p1, m3).
     bindE (guardE (Panic '' '') (\<not> present (entry_at m3 p1 (p1_index page)))) (\<lambda>_.
     Inr (write_entry m3 p1 (p1_index page) (set_entry frame flags))))))"

definition unmap_page :: "mm \<Rightarrow> u64 \<Rightarrow> mm" where
  "unmap_page m page =
     (if \<not> present (entry_at m (root m) (p4_index page)) then m
      else let p3 = target (entry_at m (root m) (p4_index page)) in
      if \<not> present (entry_at m p3 (p3_index page)) then m
      else let p2 = target (entry_at m p3 (p3_index page)) in
      if \<not> present (entry_at m p2 (p2_index page)) then m
      else let p1 = target (entry_at m p2 (p2_index page)) in
      write_entry m p1 (p1_index page) zero_entry)"

text \<open>
  The inner loop of \<^verbatim>\<open>get_free_region\<close> from its i-th iteration: whether all pages were free, and the
  address after the last page looked at. The counter is an \<^verbatim>\<open>int\<close>.
\<close>

function scan_region :: "mm \<Rightarrow> u64 \<Rightarrow> nat \<Rightarrow> nat \<Rightarrow> (bool \<times> u64) res" where
  "scan_region m v i n =
     (if i < n
      then if is_free m v
           then bindE (guardE SignedOverflow (int i < INT_MAX)) (\<lambda>_. scan_region m (v + of_nat PAGE_SIZE) (i + 1) n)
           else Inr (False, v + of_nat PAGE_SIZE)
      else Inr (True, v))"
  by auto
termination by (relation "measure (\<lambda>(_, _, i, n). n - i)") auto

declare scan_region.simps [simp del]

text \<open>The statement \<^verbatim>\<open>ALIGN_UP(search_start, PAGE_SIZE);\<close> computes a value and drops it.\<close>

partial_function (option) get_free_region :: "mm \<Rightarrow> u64 \<Rightarrow> u64 \<Rightarrow> u64 run" where
  "get_free_region m search_start num_pages =
     (case scan_region m search_start 0 (unat num_pages) of
        Inl e \<Rightarrow> Some (Inl e)
      | Inr (found, v) \<Rightarrow> if found then Some (Inr search_start) else get_free_region m v num_pages)"

function map_run :: "mm \<Rightarrow> u64 \<Rightarrow> u64 \<Rightarrow> nat \<Rightarrow> nat \<Rightarrow> u16 \<Rightarrow> mm res" where
  "map_run m v p i n flags =
     (if i < n
      then bindE (map_page m v p flags) (\<lambda>m'.
           bindE (guardE SignedOverflow (int i < INT_MAX)) (\<lambda>_.
           map_run m' (v + of_nat PAGE_SIZE) (p + of_nat PAGE_SIZE) (i + 1) n flags))
      else Inr m)"
  by auto
termination by (relation "measure (\<lambda>(_, _, _, i, n, _). n - i)") auto

declare map_run.simps [simp del]

definition map_contiguous_pages :: "mm \<Rightarrow> u64 \<Rightarrow> u64 \<Rightarrow> u64 \<Rightarrow> u16 \<Rightarrow> (u64 \<times> mm) run" where
  "map_contiguous_pages m desired_start physical_start num_pages flags =
     bindR (get_free_region m desired_start num_pages) (\<lambda>v.
     bindR (Some (map_run m v physical_start 0 (unat num_pages) flags)) (\<lambda>m'.
     Some (Inr (v, m'))))"

partial_function (option) nearest_unmapped :: "mm \<Rightarrow> u64 \<Rightarrow> u64 option" where
  "nearest_unmapped m v = (if virtual_to_physical m v \<noteq> 0 then nearest_unmapped m (v + 0x1000) else Some v)"

definition map_page_nearest :: "u64 \<Rightarrow> mm \<Rightarrow> u64 \<Rightarrow> u64 \<Rightarrow> u16 \<Rightarrow> (u64 \<times> mm) run" where
  "map_page_nearest hhdm_mapping m desired_page frame flags =
     (let v0 = (if desired_page = hhdm_mapping \<or> desired_page = 0 then desired_page + 0x1000 else desired_page) in
      case nearest_unmapped m v0 of
        None \<Rightarrow> None
      | Some v \<Rightarrow> bindR (Some (map_page m v frame flags)) (\<lambda>m'. Some (Inr (v, m'))))"

text \<open>\<^verbatim>\<open>read_cr3\<close> is the argument; the root is kept as a physical address.\<close>

definition init_page_table :: "u64 \<Rightarrow> mm \<Rightarrow> mm" where
  "init_page_table cr3 m = m\<lparr>root := drop_bit 12 (push_bit 12 cr3)\<rparr>"

section \<open>Lemmas on entries\<close>

lemma bit_encode_entry:
  assumes "n < 64"
  shows "bit (encode_entry e) n \<longleftrightarrow> present e \<and> n = 0 \<or> writable e \<and> n = 1 \<or> user_accessable e \<and> n = 2
    \<or> write_through e \<and> n = 3 \<or> cache_disable e \<and> n = 4 \<or> accessed e \<and> n = 5 \<or> unused_1 e \<and> n = 6
    \<or> page_size e \<and> n = 7 \<or> 8 \<le> n \<and> bit (unused_2 e) (n - 8) \<or> 12 \<le> n \<and> bit (address e) (n - 12)
    \<or> 52 \<le> n \<and> bit (unused_3 e) (n - 52) \<or> execute_disable e \<and> n = 63"
proof -
  have flag: "bit (push_bit k (of_bool b) :: u64) n \<longleftrightarrow> b \<and> n = k" if "k < 64" for k b
    using that assms by (auto simp: bit_simps)
  have field: "bit (push_bit k (ucast w) :: u64) n \<longleftrightarrow> k \<le> n \<and> bit w (n - k)" for k and w :: "'a::len word"
    using assms by (auto simp: bit_simps)
  have zero: "bit (of_bool b :: u64) n \<longleftrightarrow> b \<and> n = 0" for b by (auto simp: bit_simps)
  show ?thesis
    unfolding encode_entry_def bit_or_iff zero field
    by (simp only: flag)
qed

lemma bit_small: "bit (w :: 'a::len word) n \<Longrightarrow> n < LENGTH('a)"
  by (rule bit_imp_le_length)

lemma decode_encode [simp]: "decode_entry (encode_entry e) = e"
proof -
  have 4: "\<not> bit (unused_2 e) n" if "4 \<le> n" for n using bit_small[of "unused_2 e" n] that by auto
  have 40: "\<not> bit (address e) n" if "40 \<le> n" for n using bit_small[of "address e" n] that by auto
  have 11: "\<not> bit (unused_3 e) n" if "11 \<le> n" for n using bit_small[of "unused_3 e" n] that by auto
  have u2: "ucast (drop_bit 8 (encode_entry e)) = unused_2 e"
    by (rule bit_word_eqI) (simp add: bit_simps bit_encode_entry)
  have ad: "ucast (drop_bit 12 (encode_entry e)) = address e"
    by (rule bit_word_eqI) (simp add: bit_simps bit_encode_entry 4)
  have u3: "ucast (drop_bit 52 (encode_entry e)) = unused_3 e"
    by (rule bit_word_eqI) (simp add: bit_simps bit_encode_entry 4 40)
  show ?thesis
    by (simp add: decode_entry_def u2 ad u3 bit_encode_entry 4 40 11)
qed

lemma decode_0 [simp]: "decode_entry 0 = zero_entry"
  by (simp add: decode_entry_def zero_entry_def)

lemma encode_zero [simp]: "encode_entry zero_entry = 0"
  by (simp add: encode_entry_def zero_entry_def)

lemma target_zero [simp]: "target zero_entry = 0"
  by (simp add: target_def zero_entry_def)

lemma target_set_entry:
  assumes "unat a mod 4096 = 0" and "unat a < 2 ^ 52"
  shows "target (set_entry a flags) = a"
proof (rule bit_word_eqI)
  fix n assume n: "n < LENGTH(64)"
  have low: "\<not> bit a n" if "n < 12"
  proof -
    have "unat (take_bit 12 a) = 0"
      using assms(1) by (simp only: unsigned_take_bit_eq take_bit_nat_def) simp
    then have "take_bit 12 a = 0" by (simp only: unsigned_eq_0_iff)
    then have "\<not> bit (take_bit 12 a) n" by simp
    then show ?thesis using that by (simp add: bit_simps)
  qed
  have high: "\<not> bit a n" if "52 \<le> n"
  proof -
    have "take_bit 52 a = a"
      using assms(2) by (simp add: word_unat_eq_iff unsigned_take_bit_eq take_bit_nat_eq_self)
    then have "bit a n \<longleftrightarrow> bit (take_bit 52 a) n" by simp
    then show ?thesis using that by (simp add: bit_simps)
  qed
  show "bit (target (set_entry a flags)) n \<longleftrightarrow> bit a n"
  proof (cases "n < 12 \<or> 52 \<le> n")
    case True
    then show ?thesis using n low high by (auto simp: target_def set_entry_def bit_simps)
  next
    case False
    then have "n - 12 < 40" by linarith
    with False n show ?thesis by (simp add: target_def set_entry_def bit_simps)
  qed
qed

lemma entry_at_write [simp]:
  "entry_at (write_entry m t i e) t' i' = (if t' = t \<and> i' = i then e else entry_at m t' i')"
  by (auto simp: entry_at_def write_entry_def)

lemma write_entry_frame [simp]:
  "root (write_entry m t i e) = root m" "free_frames (write_entry m t i e) = free_frames m"
  "frames_wf (write_entry m t i e) = frames_wf m"
  by (simp_all add: write_entry_def free_frames_def frames_wf_def)

section \<open>The tree of page tables\<close>

text \<open>The table at the end of a path of indices from the root.\<close>

definition follow :: "mm \<Rightarrow> u64 \<Rightarrow> u64 \<Rightarrow> u64 option" where
  "follow m t i = (let c = target (entry_at m t i) in if c = 0 then None else Some c)"

fun table_at :: "mm \<Rightarrow> u64 list \<Rightarrow> u64 option" where
  "table_at m [] = Some (root m)"
| "table_at m (i # is) = (case table_at m is of None \<Rightarrow> None | Some t \<Rightarrow> follow m t i)"

text \<open>
  Paths are kept innermost index first. Up to level 1 no table is reached by two paths, no table is
  a free frame, and above level 1 an entry is present exactly when it points somewhere.
\<close>

definition pt_inv :: "mm \<Rightarrow> bool" where
  "pt_inv m \<longleftrightarrow> frames_wf m
     \<and> (\<forall>is js t. length is \<le> 3 \<longrightarrow> length js \<le> 3 \<longrightarrow> table_at m is = Some t \<longrightarrow> table_at m js = Some t \<longrightarrow> is = js)
     \<and> (\<forall>is t. length is \<le> 3 \<longrightarrow> table_at m is = Some t \<longrightarrow> t \<notin> set (free_frames m))
     \<and> (\<forall>is t i. length is \<le> 2 \<longrightarrow> table_at m is = Some t \<longrightarrow> (present (entry_at m t i) \<longleftrightarrow> target (entry_at m t i) \<noteq> 0))"

lemma pt_invD:
  assumes "pt_inv m"
  shows "frames_wf m"
    "length is \<le> 3 \<Longrightarrow> length js \<le> 3 \<Longrightarrow> table_at m is = Some t \<Longrightarrow> table_at m js = Some t \<Longrightarrow> is = js"
    "length is \<le> 3 \<Longrightarrow> table_at m is = Some t \<Longrightarrow> t \<notin> set (free_frames m)"
    "length is \<le> 2 \<Longrightarrow> table_at m is = Some t \<Longrightarrow> present (entry_at m t i) \<longleftrightarrow> target (entry_at m t i) \<noteq> 0"
  using assms unfolding pt_inv_def by blast+

definition leaf_path :: "u64 \<Rightarrow> u64 list" where
  "leaf_path v = [p2_index v, p3_index v, p4_index v]"

text \<open>The level 1 entry of a page, and what the operations read of it.\<close>

definition leaf :: "mm \<Rightarrow> u64 \<Rightarrow> page_entry_t" where
  "leaf m v = (case table_at m (leaf_path v) of None \<Rightarrow> zero_entry | Some t \<Rightarrow> entry_at m t (p1_index v))"

lemma virtual_to_physical_leaf: "virtual_to_physical m v = target (leaf m v)"
  by (simp add: virtual_to_physical_def leaf_def leaf_path_def follow_def Let_def)

lemma is_free_leaf: "is_free m v \<longleftrightarrow> target (leaf m v) = 0 \<or> \<not> unused_1 (leaf m v)"
proof -
  have "\<not> unused_1 zero_entry" by (simp add: zero_entry_def)
  then show ?thesis by (simp add: is_free_def get_entry_def leaf_def leaf_path_def follow_def Let_def)
qed

text \<open>Entering a zeroed free frame f in an empty entry, by any entry that points to it.\<close>

lemma table_at_link:
  assumes inv: "pt_inv m" and free: "free_frames m = f # fs"
    and at: "table_at m ps = Some t" "length ps \<le> 2" and empty: "target (entry_at m t i) = 0"
    and m': "free_frames m' = fs" "root m' = root m" "phys m' = (phys m)(f := \<lambda>_. 0)" and e: "target e = f"
    and js: "length js \<le> 3"
  shows "table_at (write_entry m' t i e) js = Some u \<longleftrightarrow>
    table_at m js = Some u \<or> js = i # ps \<and> u = f"
  using js
proof (induction js arbitrary: u)
  case Nil
  then show ?case by (simp add: m'(2))
next
  case (Cons j js)
  let ?m = "write_entry m' t i e"
  have fok: "f \<noteq> 0" using frames_wf_mem[OF pt_invD(1)[OF inv], of f] free by (auto simp: frame_ok_def)
  have ft: "f \<noteq> t" using pt_invD(3)[OF inv _ at(1)] at(2) free by auto
  have old: "entry_at ?m a j = (if a = t \<and> j = i then e else entry_at m a j)" if "a \<noteq> f" for a
    using that by (simp add: entry_at_def write_entry_def m'(3))
  have new: "follow ?m f j = None" using ft by (simp add: follow_def entry_at_def write_entry_def m'(3))
  have step: "table_at ?m (j # js) = Some u \<longleftrightarrow> (\<exists>a. table_at ?m js = Some a \<and> follow ?m a j = Some u)"
    by (simp split: option.split)
  also have "\<dots> \<longleftrightarrow> (\<exists>a. table_at m js = Some a \<and> follow ?m a j = Some u)"
    using Cons new by auto
  also have "\<dots> \<longleftrightarrow> (\<exists>a. table_at m js = Some a \<and> (follow m a j = Some u \<or> a = t \<and> j = i \<and> u = f))"
  proof -
    have "follow ?m a j = Some u \<longleftrightarrow> follow m a j = Some u \<or> a = t \<and> j = i \<and> u = f" if "table_at m js = Some a" for a
    proof -
      have "a \<noteq> f" using pt_invD(3)[OF inv _ that] Cons.prems free by auto
      then show ?thesis using empty fok e by (auto simp: follow_def old Let_def simp del: entry_at_write)
    qed
    then show ?thesis by blast
  qed
  also have "\<dots> \<longleftrightarrow> table_at m (j # js) = Some u \<or> j = i \<and> u = f \<and> table_at m js = Some t"
    by (auto split: option.split)
  also have "\<dots> \<longleftrightarrow> table_at m (j # js) = Some u \<or> j # js = i # ps \<and> u = f"
    using pt_invD(2)[OF inv, of js ps t] at Cons.prems by auto
  finally show ?case .
qed

lemma leaf_cong:
  assumes "\<And>u. table_at m' (leaf_path v) = Some u \<longleftrightarrow> table_at m (leaf_path v) = Some u"
    and "\<And>u. table_at m (leaf_path v) = Some u \<Longrightarrow> entry_at m' u (p1_index v) = entry_at m u (p1_index v)"
  shows "leaf m' v = leaf m v"
proof (cases "table_at m (leaf_path v)")
  case None
  with assms(1) have "table_at m' (leaf_path v) = None" by (metis not_None_eq)
  with None show ?thesis by (simp add: leaf_def)
next
  case (Some u)
  with assms(1) have "table_at m' (leaf_path v) = Some u" by blast
  with Some assms(2) show ?thesis by (simp add: leaf_def)
qed

lemma link_table:
  assumes inv: "pt_inv m" and at: "table_at m ps = Some t" "length ps \<le> 2"
    and np: "\<not> present (entry_at m t i)" and free: "free_frames m = f # fs"
    and m': "free_frames m' = fs" "frames_wf m'" "phys m' = (phys m)(f := \<lambda>_. 0)" "root m' = root m"
    and e: "present e" "target e = f"
  defines "m2 \<equiv> write_entry m' t i e"
  shows "pt_inv m2" "root m2 = root m" "free_frames m2 = fs" "target (entry_at m2 t i) = f" "f \<noteq> 0" "leaf m2 v = leaf m v"
    "length js \<le> 3 \<Longrightarrow> table_at m2 js = Some u \<longleftrightarrow> table_at m js = Some u \<or> js = i # ps \<and> u = f"
proof -
  note D = pt_invD[OF inv]
  have empty: "target (entry_at m t i) = 0" using D(4)[OF at(2,1), of i] np by simp
  have fok: "f \<noteq> 0" using frames_wf_mem[OF D(1), of f] free by (auto simp: frame_ok_def)
  let ?m = "write_entry m' t i e"
  have tab: "table_at ?m js = Some u \<longleftrightarrow> table_at m js = Some u \<or> js = i # ps \<and> u = f" if "length js \<le> 3" for js u
    by (rule table_at_link[OF inv free at empty m'(1,4,3) e(2) that])
  have nf: "u \<noteq> f" if "length js \<le> 3" "table_at m js = Some u" for js u using D(3)[OF that] free by auto
  have old: "entry_at ?m u k = (if u = t \<and> k = i then e else entry_at m u k)" if "u \<noteq> f" for u k
    using that by (simp add: entry_at_def write_entry_def m'(3))
  have new: "entry_at ?m f k = zero_entry" for k
    using nf[OF _ at(1)] at(2) by (simp add: entry_at_def write_entry_def m'(3))
  have "pt_inv ?m"
    unfolding pt_inv_def
  proof (intro conjI allI impI)
    show "frames_wf ?m" using m'(2) by simp
  next
    fix js ks u assume *: "length js \<le> 3" "length ks \<le> 3" "table_at ?m js = Some u" "table_at ?m ks = Some u"
    then show "js = ks" using D(2)[of js ks u] nf[of js u] nf[of ks u] by (auto simp: tab)
  next
    fix js u assume *: "length js \<le> 3" "table_at ?m js = Some u"
    have "f \<notin> set fs" using D(1) free by (simp add: frames_wf_def)
    then show "u \<notin> set (free_frames ?m)" using * D(3)[of js u] free by (auto simp: tab m'(1))
  next
    fix js u k assume *: "length js \<le> 2" "table_at ?m js = Some u"
    show "present (entry_at ?m u k) \<longleftrightarrow> target (entry_at ?m u k) \<noteq> 0"
    proof (cases "u = f")
      case True
      have "\<not> present zero_entry" by (simp add: zero_entry_def)
      then show ?thesis using True new by (simp del: entry_at_write)
    next
      case False
      then have "table_at m js = Some u" using * by (auto simp: tab)
      then show ?thesis using False D(4)[OF *(1), of u k] fok e by (auto simp: old simp del: entry_at_write)
    qed
  qed
  moreover have "leaf ?m v = leaf m v" for v
  proof -
    have len: "length (leaf_path v) = 3" by (simp add: leaf_path_def)
    show ?thesis
    proof (cases "leaf_path v = i # ps")
      case True
      have "table_at m (i # ps) = None" using at(1) empty by (simp add: follow_def)
      moreover have "table_at ?m (i # ps) = Some f" using tab[of "i # ps" f] True len by simp
      ultimately show ?thesis using True new by (simp add: leaf_def del: entry_at_write table_at.simps)
    next
      case False
      have "entry_at ?m u (p1_index v) = entry_at m u (p1_index v)" if "table_at m (leaf_path v) = Some u" for u
      proof -
        have "u \<noteq> t" using D(2)[OF _ _ that, of ps] len at by auto
        with nf[OF _ that] len show ?thesis by (simp add: old del: entry_at_write)
      qed
      then show ?thesis using False len by (intro leaf_cong) (auto simp: tab)
    qed
  qed
  ultimately show "pt_inv m2" "leaf m2 v = leaf m v" by (simp_all add: m2_def)
  show "root m2 = root m" "free_frames m2 = fs" "f \<noteq> 0" using m'(1,4) fok by (simp_all add: m2_def)
  show "target (entry_at m2 t i) = f" using e by (simp add: m2_def)
  show "table_at m2 js = Some u \<longleftrightarrow> table_at m js = Some u \<or> js = i # ps \<and> u = f" if "length js \<le> 3"
    using tab[OF that] by (simp add: m2_def)
qed

lemma allocate_entry_spec:
  assumes inv: "pt_inv m" and at: "table_at m ps = Some t" "length ps \<le> 2"
    and np: "\<not> present (entry_at m t i)" and free: "free_frames m = f # fs" and fl: "bit flags 0"
  shows "\<exists>m2. allocate_entry m t i flags = Inr m2 \<and> pt_inv m2 \<and> root m2 = root m \<and> free_frames m2 = fs
    \<and> target (entry_at m2 t i) = f \<and> f \<noteq> 0 \<and> (\<forall>v. leaf m2 v = leaf m v)
    \<and> (\<forall>js u. length js \<le> 3 \<longrightarrow> (table_at m2 js = Some u \<longleftrightarrow> table_at m js = Some u \<or> js = i # ps \<and> u = f))"
proof -
  note D = pt_invD[OF inv]
  have f: "target (set_entry f flags) = f" "present (set_entry f flags)"
    using frames_wf_mem[OF D(1), of f] free target_set_entry[of f flags] fl by (auto simp: frame_ok_def set_entry_def)
  from allocate_frame_spec[OF D(1)] free obtain m' where m': "allocate_frame m = Inr (f, m')"
    "free_frames m' = fs" "frames_wf m'" "phys m' = (phys m)(f := \<lambda>_. 0)" "root m' = root m" by auto
  note L = link_table[OF inv at np free m'(2-5) f(2,1)]
  have "allocate_entry m t i flags = Inr (write_entry m' t i (set_entry f flags))" using m'(1) L(5) by (simp add: allocate_entry_def)
  with L show ?thesis by blast
qed

lemma descend_spec:
  assumes inv: "pt_inv m" and at: "table_at m ps = Some t" "length ps \<le> 2"
    and free: "free_frames m \<noteq> []" and fl: "bit flags 0"
  shows "\<exists>c m2. descend m t i flags = Inr (c, m2) \<and> pt_inv m2 \<and> table_at m2 (i # ps) = Some c
    \<and> root m2 = root m \<and> length (free_frames m) \<le> Suc (length (free_frames m2)) \<and> (\<forall>v. leaf m2 v = leaf m v)"
proof (cases "present (entry_at m t i)")
  case True
  then have "target (entry_at m t i) \<noteq> 0" using pt_invD(4)[OF inv at(2,1), of i] by simp
  then show ?thesis using True inv at by (simp add: descend_def follow_def)
next
  case False
  from free obtain f fs where f: "free_frames m = f # fs" by (cases "free_frames m") auto
  from allocate_entry_spec[OF inv at False f fl] obtain m2 where m2: "allocate_entry m t i flags = Inr m2"
    "pt_inv m2" "root m2 = root m" "free_frames m2 = fs" "target (entry_at m2 t i) = f" "\<forall>v. leaf m2 v = leaf m v"
    "\<And>js u. length js \<le> 3 \<Longrightarrow> table_at m2 js = Some u \<longleftrightarrow> table_at m js = Some u \<or> js = i # ps \<and> u = f" by blast
  have "table_at m2 (i # ps) = Some f" using m2(7)[of "i # ps" f] at(2) by simp
  then show ?thesis using False m2(1-6) f by (auto simp: descend_def)
qed

text \<open>Two addresses in the same page, as far as the walk can tell.\<close>

definition same_page :: "u64 \<Rightarrow> u64 \<Rightarrow> bool" where
  "same_page v w \<longleftrightarrow> leaf_path v = leaf_path w \<and> p1_index v = p1_index w"

lemma write_leaf:
  fixes e :: page_entry_t
  assumes inv: "pt_inv m" and at: "table_at m (leaf_path page) = Some t"
  defines "m' \<equiv> write_entry m t (p1_index page) e"
  shows "pt_inv m'" "leaf m' v = (if same_page v page then e else leaf m v)"
proof -
  note D = pt_invD[OF inv]
  have len: "length (leaf_path w) = 3" for w by (simp add: leaf_path_def)
  have other: "u \<noteq> t" if "table_at m js = Some u" "length js \<le> 2" for js u
  proof
    assume "u = t"
    then have "js = leaf_path page" using D(2)[of js "leaf_path page" t] that at len by auto
    then show False using that len by simp
  qed
  have tab: "length js \<le> 3 \<Longrightarrow> table_at m' js = table_at m js" for js
  proof (induction js)
    case (Cons j js)
    then show ?case using other[of js] by (auto simp: m'_def follow_def split: option.split)
  qed (simp add: m'_def)
  show "pt_inv m'"
    unfolding pt_inv_def
  proof (intro conjI allI impI)
    show "frames_wf m'" using D(1) by (simp add: m'_def)
  next
    fix js ks u assume "length js \<le> 3" "length ks \<le> 3" "table_at m' js = Some u" "table_at m' ks = Some u"
    then show "js = ks" using D(2)[of js ks u] by (simp add: tab)
  next
    fix js u assume "length js \<le> 3" "table_at m' js = Some u"
    then show "u \<notin> set (free_frames m')" using D(3)[of js u] by (simp add: tab) (simp add: m'_def)
  next
    fix js u k assume "length js \<le> 2" "table_at m' js = Some u"
    then show "present (entry_at m' u k) \<longleftrightarrow> target (entry_at m' u k) \<noteq> 0"
      using D(4)[of js u k] other[of js u] by (simp add: tab) (simp add: m'_def)
  qed
  show "leaf m' v = (if same_page v page then e else leaf m v)"
  proof (cases "table_at m (leaf_path v)")
    case None
    then show ?thesis using at len by (auto simp: leaf_def tab same_page_def)
  next
    case (Some u)
    have "u = t \<longleftrightarrow> leaf_path v = leaf_path page"
      using D(2)[of "leaf_path v" "leaf_path page" t] Some at len by auto
    then show ?thesis using Some len by (auto simp: leaf_def tab same_page_def) (auto simp: m'_def)
  qed
qed

lemma map_page_spec:
  assumes inv: "pt_inv m" and fl: "bit flags 0" and free: "3 \<le> length (free_frames m)"
  shows "if present (leaf m page) then map_page m page frame flags = Inl (Panic '' '')
    else \<exists>m'. map_page m page frame flags = Inr m' \<and> pt_inv m'
      \<and> length (free_frames m) \<le> length (free_frames m') + 3
      \<and> (\<forall>v. leaf m' v = (if same_page v page then set_entry frame flags else leaf m v))"
proof -
  have ne: "free_frames x \<noteq> []" if "1 \<le> length (free_frames x)" for x using that by auto
  from descend_spec[OF inv _ _ _ fl, of "[]" "root m" "p4_index page"] free obtain p3 m1 where
    1: "descend m (root m) (p4_index page) flags = Inr (p3, m1)" "pt_inv m1" "table_at m1 [p4_index page] = Some p3"
    "length (free_frames m) \<le> Suc (length (free_frames m1))" "\<forall>v. leaf m1 v = leaf m v" by fastforce
  from descend_spec[OF 1(2,3) _ _ fl, of "p3_index page"] 1(4) free obtain p2 m2 where
    2: "descend m1 p3 (p3_index page) flags = Inr (p2, m2)" "pt_inv m2" "table_at m2 [p3_index page, p4_index page] = Some p2"
    "length (free_frames m1) \<le> Suc (length (free_frames m2))" "\<forall>v. leaf m2 v = leaf m1 v" using ne by fastforce
  from descend_spec[OF 2(2,3) _ _ fl, of "p2_index page"] 1(4) 2(4) free obtain p1 m3 where
    3: "descend m2 p2 (p2_index page) flags = Inr (p1, m3)" "pt_inv m3" "table_at m3 (leaf_path page) = Some p1"
    "length (free_frames m2) \<le> Suc (length (free_frames m3))" "\<forall>v. leaf m3 v = leaf m2 v"
    using ne unfolding leaf_path_def by fastforce
  have "entry_at m3 p1 (p1_index page) = leaf m3 page" by (simp add: leaf_def 3(3))
  then have e: "entry_at m3 p1 (p1_index page) = leaf m page" using 1(5) 2(5) 3(5) by simp
  have run: "map_page m page frame flags = (if present (leaf m page) then Inl (Panic '' '')
      else Inr (write_entry m3 p1 (p1_index page) (set_entry frame flags)))"
    using 1(1) 2(1) 3(1) e by (simp add: map_page_def)
  show ?thesis
    using run write_leaf[OF 3(2,3), of "set_entry frame flags"] 1(4,5) 2(4,5) 3(4,5) by auto
qed

lemma unmap_page_spec:
  assumes inv: "pt_inv m"
  shows "pt_inv (unmap_page m page)" "leaf (unmap_page m page) v = (if same_page v page then zero_entry else leaf m v)"
proof -
  note D = pt_invD(4)[OF inv]
  let ?t3 = "target (entry_at m (root m) (p4_index page))"
  let ?t2 = "target (entry_at m ?t3 (p3_index page))"
  let ?t1 = "target (entry_at m ?t2 (p2_index page))"
  have d4: "present (entry_at m (root m) (p4_index page)) \<longleftrightarrow> ?t3 \<noteq> 0" using D[of "[]" "root m" "p4_index page"] by simp
  have d3: "present (entry_at m ?t3 (p3_index page)) \<longleftrightarrow> ?t2 \<noteq> 0" if "?t3 \<noteq> 0"
    using D[of "[p4_index page]" ?t3 "p3_index page"] that by (simp add: follow_def)
  have d2: "present (entry_at m ?t2 (p2_index page)) \<longleftrightarrow> ?t1 \<noteq> 0" if "?t3 \<noteq> 0" "?t2 \<noteq> 0"
    using D[of "[p3_index page, p4_index page]" ?t2 "p2_index page"] that by (simp add: follow_def)
  have un: "unmap_page m page = (case table_at m (leaf_path page) of None \<Rightarrow> m
      | Some t \<Rightarrow> write_entry m t (p1_index page) zero_entry)"
    using d4 d3 d2 by (auto simp: unmap_page_def leaf_path_def follow_def Let_def)
  have "pt_inv (unmap_page m page) \<and> leaf (unmap_page m page) v = (if same_page v page then zero_entry else leaf m v)"
  proof (cases "table_at m (leaf_path page)")
    case None
    then show ?thesis using inv by (auto simp: un leaf_def same_page_def)
  next
    case (Some t)
    then show ?thesis using write_leaf[OF inv Some] by (simp add: un)
  qed
  then show "pt_inv (unmap_page m page)"
    "leaf (unmap_page m page) v = (if same_page v page then zero_entry else leaf m v)" by auto
qed

text \<open>The walk sees 36 bits of the page number.\<close>

lemma same_page_iff: "same_page v w \<longleftrightarrow> take_bit 36 (drop_bit 12 v) = take_bit 36 (drop_bit 12 w)"
proof
  have mask: "(0x1FF :: u64) = mask 9" by (simp add: mask_eq_exp_minus_1)
  have b: "bit (p4_index x) k \<longleftrightarrow> k < 9 \<and> bit x (39 + k)" "bit (p3_index x) k \<longleftrightarrow> k < 9 \<and> bit x (30 + k)"
    "bit (p2_index x) k \<longleftrightarrow> k < 9 \<and> bit x (21 + k)" "bit (p1_index x) k \<longleftrightarrow> k < 9 \<and> bit x (12 + k)" for x k
    unfolding p4_index_def p3_index_def p2_index_def p1_index_def mask
    by (auto simp: bit_simps add.assoc)
  assume "same_page v w"
  then have eq: "p4_index v = p4_index w" "p3_index v = p3_index w" "p2_index v = p2_index w" "p1_index v = p1_index w"
    by (simp_all add: same_page_def leaf_path_def)
  have same: "bit v (k + j) \<longleftrightarrow> bit w (k + j)" if "j < 9" "k \<in> {12, 21, 30, 39}" for j k
    using that b(1)[of v j] b(1)[of w j] b(2)[of v j] b(2)[of w j] b(3)[of v j] b(3)[of w j] b(4)[of v j] b(4)[of w j]
    by (auto simp: eq)
  show "take_bit 36 (drop_bit 12 v) = take_bit 36 (drop_bit 12 w)"
  proof (rule bit_word_eqI)
    fix n
    have "bit v (12 + n) \<longleftrightarrow> bit w (12 + n)" if "n < 36"
    proof -
      have "12 + n = (12 + n div 9 * 9) + n mod 9" by simp
      moreover have "n div 9 \<in> {0, 1, 2, 3}" using that by auto
      then have "12 + n div 9 * 9 \<in> {12, 21, 30, 39}" by auto
      ultimately show ?thesis using same[of "n mod 9" "12 + n div 9 * 9"] by (metis mod_less_divisor zero_less_numeral)
    qed
    then show "bit (take_bit 36 (drop_bit 12 v)) n \<longleftrightarrow> bit (take_bit 36 (drop_bit 12 w)) n"
      by (auto simp: bit_simps)
  qed
next
  assume eq: "take_bit 36 (drop_bit 12 v) = take_bit 36 (drop_bit 12 w)"
  have split: "p4_index x = drop_bit 27 (take_bit 36 (drop_bit 12 x))"
    "p3_index x = take_bit 9 (drop_bit 18 (take_bit 36 (drop_bit 12 x)))"
    "p2_index x = take_bit 9 (drop_bit 9 (take_bit 36 (drop_bit 12 x)))"
    "p1_index x = take_bit 9 (take_bit 36 (drop_bit 12 x))" for x
  proof -
    have mask: "(0x1FF :: u64) = mask 9" by (simp add: mask_eq_exp_minus_1)
    show "p4_index x = drop_bit 27 (take_bit 36 (drop_bit 12 x))"
      "p3_index x = take_bit 9 (drop_bit 18 (take_bit 36 (drop_bit 12 x)))"
      "p2_index x = take_bit 9 (drop_bit 9 (take_bit 36 (drop_bit 12 x)))"
      "p1_index x = take_bit 9 (take_bit 36 (drop_bit 12 x))"
      unfolding p4_index_def p3_index_def p2_index_def p1_index_def mask
      by (rule bit_word_eqI, auto simp: bit_simps add.assoc)+
  qed
  show "same_page v w" by (simp add: same_page_def leaf_path_def split eq)
qed

lemma same_page_refl [simp]: "same_page v v"
  by (simp add: same_page_def)

lemma page_number:
  fixes v :: u64
  shows "unat (take_bit 36 (drop_bit 12 (v + of_nat (4096 * i)))) = (unat v div 4096 + i) mod 2 ^ 36"
proof -
  have "unat (take_bit 36 (drop_bit 12 (v + of_nat (4096 * i)))) = unat (v + of_nat (4096 * i)) div 4096 mod 2 ^ 36"
    using unsigned_less[of "v + of_nat (4096 * i)", where 'a = nat]
    by (simp only: unsigned_take_bit_eq take_bit_nat_def unsigned_drop_bit_eq drop_bit_nat_def) simp
  also have "unat (v + of_nat (4096 * i)) = (unat v + 4096 * i) mod (4096 * 2 ^ 52)"
    by (simp add: unat_word_ariths unat_of_nat mod_simps)
  also have "(unat v + 4096 * i) mod (4096 * 2 ^ 52) div 4096 mod 2 ^ 36 = (unat v + 4096 * i) div 4096 mod 2 ^ 36"
    unfolding mod_mult2_eq by (simp add: mod_mod_cancel)
  finally show ?thesis by (simp add: add.commute)
qed

lemma same_page_offset:
  assumes "i < 2 ^ 36" "j < 2 ^ 36"
  shows "same_page (v + of_nat (4096 * i)) (v + of_nat (4096 * j)) \<longleftrightarrow> i = j"
proof
  assume "same_page (v + of_nat (4096 * i)) (v + of_nat (4096 * j))"
  then have "(unat v div 4096 + i) mod 2 ^ 36 = (unat v div 4096 + j) mod 2 ^ 36"
    using page_number[of v i] page_number[of v j] by (simp add: same_page_iff)
  then have "int ((unat v div 4096 + i) mod 2 ^ 36) = int ((unat v div 4096 + j) mod 2 ^ 36)" by (rule arg_cong)
  then have "int (unat v div 4096 + i) mod 2 ^ 36 = int (unat v div 4096 + j) mod 2 ^ 36" unfolding zmod_int by simp
  then have "2 ^ 36 dvd int i - int j" by (simp add: mod_eq_dvd_iff)
  moreover have "\<bar>int i - int j\<bar> < 2 ^ 36" using assms by simp
  ultimately show "i = j" using dvd_imp_le_int[of "int i - int j" "2 ^ 36"] by (cases "int i - int j = 0") auto
qed simp

section \<open>Searching for free pages\<close>

definition pgoff :: "nat \<Rightarrow> u64" where
  "pgoff k = of_nat (4096 * k)"

lemma pgoff_0 [simp]: "pgoff 0 = 0"
  by (simp add: pgoff_def)

lemma pgoff_1 [simp]: "pgoff (Suc 0) = 4096"
  by (simp add: pgoff_def)

lemma pgoff_add: "pgoff (a + b) = pgoff a + pgoff b"
  by (simp add: pgoff_def distrib_left)

lemma same_page_pgoff:
  "i < 2 ^ 36 \<Longrightarrow> j < 2 ^ 36 \<Longrightarrow> same_page (v + pgoff i) (v + pgoff j) \<longleftrightarrow> i = j"
  unfolding pgoff_def by (rule same_page_offset)

lemma offset_Suc: "v + pgoff (Suc k) = (v + 4096) + pgoff k" for v :: u64
  by (simp add: pgoff_def algebra_simps)

lemma scan_region_step:
  assumes "int n \<le> INT_MAX" "i < n" "is_free m v"
  shows "scan_region m v i n = scan_region m (v + 4096) (Suc i) n"
  using assms by (subst scan_region.simps) (simp add: PAGE_SIZE_def)

lemma scan_region_free:
  assumes "int n \<le> INT_MAX" "\<And>j. j < k \<Longrightarrow> is_free m (v + pgoff j)" "i + k = n"
  shows "\<exists>w. scan_region m v i n = Inr (True, w)"
  using assms
proof (induction k arbitrary: v i)
  case 0
  then show ?case by (subst scan_region.simps) simp
next
  case (Suc k)
  have "\<exists>w. scan_region m (v + 4096) (Suc i) n = Inr (True, w)"
    using Suc.prems(1,3) Suc.prems(2)[of "Suc _"] unfolding offset_Suc by (intro Suc.IH) auto
  then show ?case using scan_region_step[of n i m v] Suc.prems(1,3) Suc.prems(2)[of 0] by simp
qed

lemma scan_region_busy:
  assumes "int n \<le> INT_MAX" "\<And>k. k < j \<Longrightarrow> is_free m (v + pgoff k)" "i + j < n"
    and "\<not> is_free m (v + pgoff j)"
  shows "scan_region m v i n = Inr (False, v + pgoff (Suc j))"
  using assms
proof (induction j arbitrary: v i)
  case 0
  then show ?case by (subst scan_region.simps) (simp add: PAGE_SIZE_def)
next
  case (Suc j)
  have "scan_region m (v + 4096) (Suc i) n = Inr (False, (v + 4096) + pgoff (Suc j))"
    using Suc.prems(1,3,4) Suc.prems(2)[of "Suc _"] unfolding offset_Suc[of v] by (intro Suc.IH) auto
  then show ?case
    using scan_region_step[of n i m v] Suc.prems(1,3) Suc.prems(2)[of 0] unfolding offset_Suc[of v] by simp
qed

lemma scan_region_cases:
  assumes "int n \<le> INT_MAX"
  obtains w where "scan_region m v 0 n = Inr (True, w)" "\<And>j. j < n \<Longrightarrow> is_free m (v + pgoff j)"
  | j where "j < n" "\<not> is_free m (v + pgoff j)" "scan_region m v 0 n = Inr (False, v + pgoff (Suc j))"
proof (cases "\<forall>j < n. is_free m (v + pgoff j)")
  case True
  then show ?thesis using scan_region_free[of n n m v 0] assms that(1) by auto
next
  case False
  define j where "j = (LEAST j. j < n \<and> \<not> is_free m (v + pgoff j))"
  from False have ex: "\<exists>j. j < n \<and> \<not> is_free m (v + pgoff j)" by blast
  have j: "j < n" "\<not> is_free m (v + pgoff j)" using LeastI_ex[OF ex] by (auto simp: j_def)
  have "is_free m (v + pgoff k)" if "k < j" for k
    using not_less_Least[of k "\<lambda>j. j < n \<and> \<not> is_free m (v + pgoff j)"] that j by (auto simp: j_def)
  then show ?thesis using scan_region_busy[of n j m v 0] assms j that(2) by auto
qed

lemma get_free_region_sound:
  assumes "get_free_region m start num = Some r" "int (unat num) \<le> INT_MAX"
  shows "\<exists>v. r = Inr v \<and> (\<forall>j < unat num. is_free m (v + pgoff j))"
  using assms(2)
proof (induction rule: get_free_region.raw_induct[OF _ assms(1), consumes 0])
  case (1 f m start num r)
  from 1(3) show ?case
  proof (rule scan_region_cases[of "unat num" m start])
    fix w assume "scan_region m start 0 (unat num) = Inr (True, w)" "\<And>j. j < unat num \<Longrightarrow> is_free m (start + pgoff j)"
    then show ?thesis using 1(2) by auto
  next
    fix j assume "scan_region m start 0 (unat num) = Inr (False, start + pgoff (Suc j))"
    then show ?thesis using 1(1)[of m "start + pgoff (Suc j)" num r] 1(2,3) by simp
  qed
qed

lemma get_free_region_ends:
  assumes "int (unat num) \<le> INT_MAX" "\<And>j. j < unat num \<Longrightarrow> is_free m (start + pgoff (k + j))"
  shows "\<exists>k' \<le> k. get_free_region m start num = Some (Inr (start + pgoff k'))"
  using assms(2)
proof (induction k arbitrary: start rule: less_induct)
  case (less k)
  from assms(1) show ?case
  proof (rule scan_region_cases[of "unat num" m start])
    fix w assume "scan_region m start 0 (unat num) = Inr (True, w)"
    then show ?thesis by (intro exI[of _ 0]) (simp add: get_free_region.simps)
  next
    fix j assume j: "j < unat num" "\<not> is_free m (start + pgoff j)"
      "scan_region m start 0 (unat num) = Inr (False, start + pgoff (Suc j))"
    let ?s = "start + pgoff (Suc j)"
    have step: "get_free_region m start num = get_free_region m ?s num"
      using j(3) by (subst get_free_region.simps) simp
    have "j < k"
    proof (rule ccontr)
      assume "\<not> j < k"
      then have "is_free m (start + pgoff j)" using less.prems[of "j - k"] j(1) by simp
      with j(2) show False ..
    qed
    have "is_free m (?s + pgoff (k - Suc j + i))" if "i < unat num" for i
    proof -
      have "k + i = Suc j + (k - Suc j + i)" using \<open>j < k\<close> by simp
      then have "start + pgoff (k + i) = ?s + pgoff (k - Suc j + i)"
        by (simp only: pgoff_add add.assoc)
      then show ?thesis using less.prems[OF that] by (simp only:)
    qed
    from less.IH[OF _ this] \<open>j < k\<close> obtain k' where k': "k' \<le> k - Suc j"
      "get_free_region m ?s num = Some (Inr (?s + pgoff k'))" by auto
    have "?s + pgoff k' = start + pgoff (Suc j + k')"
      by (simp only: pgoff_add add.assoc)
    then show ?thesis using k' step \<open>j < k\<close> by (intro exI[of _ "Suc j + k'"]) simp
  qed
qed

section \<open>The interface of page mapping\<close>

text \<open>
  What a user of page tables relies on: mapping one page, which takes at most three frames for tables, changes the entry
  of that page only. The kernel maps through \<^verbatim>\<open>map_page\<close>, the boot loader with code of its own; both map runs of pages, one
  after the other, and the lemma on runs is proved once. \<open>fresh_only\<close> says whether a page that is present is refused.
\<close>

fun map_seq :: "('s \<Rightarrow> u64 \<Rightarrow> u64 \<Rightarrow> u16 \<Rightarrow> 's res) \<Rightarrow> u16 \<Rightarrow> nat \<Rightarrow> u64 \<Rightarrow> u64 \<Rightarrow> 's \<Rightarrow> 's res" where
  "map_seq map_op flags 0 v p s = Inr s"
| "map_seq map_op flags (Suc k) v p s = bindE (map_op s v p flags) (map_seq map_op flags k (v + 4096) (p + 4096))"

lemma same_page_sym: "same_page v w \<Longrightarrow> same_page w v"
  by (simp add: same_page_def)

locale page_mapper =
  fixes map_op :: "'s \<Rightarrow> u64 \<Rightarrow> u64 \<Rightarrow> u16 \<Rightarrow> 's res"
    and lookup :: "'s \<Rightarrow> u64 \<Rightarrow> page_entry_t"
    and room :: "'s \<Rightarrow> nat"
    and inv :: "'s \<Rightarrow> bool"
    and fresh_only :: bool
    and flags_ok :: "u16 \<Rightarrow> bool"
    and made :: "u64 \<Rightarrow> u16 \<Rightarrow> page_entry_t"
  assumes map_law: "inv s \<Longrightarrow> flags_ok flags \<Longrightarrow> 3 \<le> room s \<Longrightarrow> (fresh_only \<Longrightarrow> \<not> present (lookup s v)) \<Longrightarrow>
      \<exists>s'. map_op s v p flags = Inr s' \<and> inv s' \<and> room s \<le> room s' + 3
        \<and> (\<forall>w. lookup s' w = (if same_page w v then made p flags else lookup s w))"
begin

lemma map_seq_maps:
  assumes "inv s" "flags_ok flags" "3 * k \<le> room s" "k < 2 ^ 36"
    and "\<And>j. fresh_only \<Longrightarrow> j < k \<Longrightarrow> \<not> present (lookup s (v + pgoff j))"
  shows "\<exists>s'. map_seq map_op flags k v p s = Inr s' \<and> inv s' \<and> room s \<le> room s' + 3 * k
    \<and> (\<forall>j < k. lookup s' (v + pgoff j) = made (p + pgoff j) flags)
    \<and> (\<forall>w. (\<forall>j < k. \<not> same_page w (v + pgoff j)) \<longrightarrow> lookup s' w = lookup s w)"
  using assms
proof (induction k arbitrary: s v p)
  case (Suc k)
  have far: "\<not> same_page ((v + 4096) + pgoff j) v" if "j < k" for j
    using same_page_pgoff[of "Suc j" 0 v] that Suc.prems(4) by (simp add: offset_Suc)
  from map_law[OF Suc.prems(1,2), of v p] Suc.prems(3) Suc.prems(5)[of 0] obtain s1 where s1:
    "map_op s v p flags = Inr s1" "inv s1" "room s \<le> room s1 + 3"
    "\<forall>w. lookup s1 w = (if same_page w v then made p flags else lookup s w)" by auto
  have "\<not> present (lookup s1 ((v + 4096) + pgoff j))" if "fresh_only" "j < k" for j
    using Suc.prems(5)[of "Suc j"] that far[OF that(2)] s1(4) by (simp add: offset_Suc)
  with Suc.IH[of s1 "v + 4096" "p + 4096"] Suc.prems(2-4) s1(2,3) obtain s' where s':
    "map_seq map_op flags k (v + 4096) (p + 4096) s1 = Inr s'" "inv s'" "room s1 \<le> room s' + 3 * k"
    "\<And>j. j < k \<Longrightarrow> lookup s' ((v + 4096) + pgoff j) = made ((p + 4096) + pgoff j) flags"
    "\<And>w. (\<And>j. j < k \<Longrightarrow> \<not> same_page w ((v + 4096) + pgoff j)) \<Longrightarrow> lookup s' w = lookup s1 w" by auto
  have "lookup s' v = lookup s1 v" by (rule s'(5)) (use far same_page_sym in blast)
  then have "lookup s' (v + pgoff j) = made (p + pgoff j) flags" if "j < Suc k" for j
    using that s'(4) s1(4) by (cases j) (simp_all add: offset_Suc)
  moreover have "lookup s' w = lookup s w" if w: "\<forall>j < Suc k. \<not> same_page w (v + pgoff j)" for w
  proof -
    have "\<not> same_page w v" using w by force
    moreover have "\<not> same_page w ((v + 4096) + pgoff j)" if "j < k" for j
      using w that offset_Suc[of v j] by (metis Suc_mono)
    ultimately show ?thesis using s'(5)[of w] s1(4) by simp
  qed
  ultimately show ?case using s1(1,3) s'(1-3) by simp
qed simp

end

interpretation kernel_pages: page_mapper map_page leaf "\<lambda>m. length (free_frames m)" pt_inv True "\<lambda>f. bit f 0" set_entry
proof unfold_locales
  fix m v p and flags :: u16
  assume "pt_inv m" "bit flags 0" "3 \<le> length (free_frames m)" "True \<Longrightarrow> \<not> present (leaf m v)"
  with map_page_spec[of m flags v p] show "\<exists>m'. map_page m v p flags = Inr m' \<and> pt_inv m'
      \<and> length (free_frames m) \<le> length (free_frames m') + 3
      \<and> (\<forall>w. leaf m' w = (if same_page w v then set_entry p flags else leaf m w))" by auto
qed

lemma map_run_seq:
  "int n \<le> INT_MAX \<Longrightarrow> i + k = n \<Longrightarrow> map_run m v p i n flags = map_seq map_page flags k v p m"
proof (induction k arbitrary: m v p i)
  case (Suc k)
  then show ?case by (subst map_run.simps) (simp add: PAGE_SIZE_def)
qed (subst map_run.simps, simp)

lemma frame_in_run:
  assumes "unat p mod 4096 = 0" "unat p + 4096 * k \<le> 2 ^ 52" "j < k"
  shows "unat (p + pgoff j) mod 4096 = 0" "unat (p + pgoff j) < 2 ^ 52"
proof -
  have "unat (p + pgoff j) = unat p + 4096 * j" unfolding pgoff_def using assms(2,3) by (intro unat_add_of_nat) simp
  then show "unat (p + pgoff j) mod 4096 = 0" "unat (p + pgoff j) < 2 ^ 52" using assms by simp_all
qed

lemma map_run_spec:
  assumes "pt_inv m" "bit flags 0" "3 * k \<le> length (free_frames m)" "int n \<le> INT_MAX" "i + k = n"
    and "unat p mod 4096 = 0" "unat p + 4096 * k \<le> 2 ^ 52" "\<And>j. j < k \<Longrightarrow> \<not> present (leaf m (v + pgoff j))"
  shows "\<exists>m'. map_run m v p i n flags = Inr m' \<and> pt_inv m'
    \<and> (\<forall>j < k. virtual_to_physical m' (v + pgoff j) = p + pgoff j)
    \<and> (\<forall>w. (\<forall>j < k. \<not> same_page w (v + pgoff j)) \<longrightarrow> leaf m' w = leaf m w)"
proof -
  have "k < 2 ^ 36" using assms(4,5) by (simp add: INT_MAX_def)
  from kernel_pages.map_seq_maps[OF assms(1-3) this, of v p] assms(8) obtain m' where
    "map_seq map_page flags k v p m = Inr m'" "pt_inv m'"
    "\<forall>j < k. leaf m' (v + pgoff j) = set_entry (p + pgoff j) flags"
    "\<forall>w. (\<forall>j < k. \<not> same_page w (v + pgoff j)) \<longrightarrow> leaf m' w = leaf m w" by blast
  then show ?thesis
    using frame_in_run[OF assms(6,7)] target_set_entry by (simp add: virtual_to_physical_leaf map_run_seq[OF assms(4,5)])
qed

section \<open>Properties\<close>

text \<open>The bit-field layout of a page table entry is exact: every field written is read back, and no
  field disturbs another.
\<close>

theorem page_entry_roundtrip: "decode_entry (encode_entry e) = e"
  by (rule decode_encode)

text \<open>(C2) Mapping an unmapped page to a frame succeeds while frames for page tables are left, and keeps the
  page tables a tree. Afterwards the page translates to the frame and every other page translates
  as before.
\<close>

theorem map_page_translates:
  assumes "pt_inv m" and "bit flags 0" and "3 \<le> length (free_frames m)"
    and "unat frame mod 4096 = 0" and "unat frame < 2 ^ 52" and "\<not> present (leaf m page)"
  shows "\<exists>m'. map_page m page frame flags = Inr m' \<and> pt_inv m' \<and> virtual_to_physical m' page = frame
    \<and> (\<forall>v. \<not> same_page v page \<longrightarrow> virtual_to_physical m' v = virtual_to_physical m v)"
  using map_page_spec[OF assms(1-3), of page frame] assms(6) target_set_entry[OF assms(4,5), of flags]
  by (auto simp: virtual_to_physical_leaf)

text \<open>Mapping a page that is already present panics instead of changing the mapping.
\<close>

theorem map_page_twice_panics:
  assumes "pt_inv m" and "bit flags 0" and "6 \<le> length (free_frames m)" and "\<not> present (leaf m page)"
  shows "bindE (map_page m page frame flags) (\<lambda>m'. map_page m' page frame' flags) = Inl (Panic '' '')"
proof -
  from map_page_spec[OF assms(1,2), of page frame] assms(3,4) obtain m' where m': "map_page m page frame flags = Inr m'"
    "pt_inv m'" "3 \<le> length (free_frames m')" "leaf m' page = set_entry frame flags" by auto
  moreover have "present (leaf m' page)" using m'(4) assms(2) by (simp add: set_entry_def)
  ultimately show ?thesis using map_page_spec[OF m'(2) assms(2) m'(3), of page frame'] by simp
qed

text \<open>(C3) Unmapping a page removes its translation and no other, and keeps the page tables a tree.
\<close>

theorem unmap_page_translates:
  assumes "pt_inv m"
  shows "pt_inv (unmap_page m page) \<and> virtual_to_physical (unmap_page m page) page = 0
    \<and> (\<forall>v. \<not> same_page v page \<longrightarrow> virtual_to_physical (unmap_page m page) v = virtual_to_physical m v)"
  using unmap_page_spec[OF assms] by (simp add: virtual_to_physical_leaf)

text \<open>\<^verbatim>\<open>get_free_region\<close> ends as soon as some run of free pages lies ahead, at the first address of its
  search whose pages are all free.
\<close>

theorem get_free_region_finds:
  assumes "int (unat num) \<le> INT_MAX" and "\<And>j. j < unat num \<Longrightarrow> is_free m (start + pgoff (k + j))"
  shows "\<exists>k' \<le> k. get_free_region m start num = Some (Inr (start + pgoff k'))
    \<and> (\<forall>j < unat num. is_free m (start + pgoff k' + pgoff j))"
proof -
  from get_free_region_ends[OF assms] obtain k' where k': "k' \<le> k"
    "get_free_region m start num = Some (Inr (start + pgoff k'))" by blast
  with get_free_region_sound[OF k'(2) assms(1)] show ?thesis by auto
qed

text \<open>The search does not align its start: the value of the \<^verbatim>\<open>ALIGN_UP\<close> in its loop is dropped, so a
  start address inside a page comes back unchanged when the pages there are free.
\<close>

theorem get_free_region_unaligned:
  assumes "int (unat num) \<le> INT_MAX" and "\<And>j. j < unat num \<Longrightarrow> is_free m (0x1001 + pgoff j)"
  shows "get_free_region m 0x1001 num = Some (Inr 0x1001)"
  using get_free_region_ends[of num m "0x1001" 0] assms by auto


section \<open>Witnesses\<close>

text \<open>A machine with an empty root table at 0x9000 and eight free frames.\<close>

definition boot_mm :: mm where
  "boot_mm = \<lparr>memory_map = [], next_frame = \<lparr>f_start = False, f_base = 0x10000, f_length = 0x8000\<rparr>,
     phys = (\<lambda>_ _. 0), root = 0x9000\<rparr>"

lemma boot_frames:
  "free_frames boot_mm = [0x10000, 0x11000, 0x12000, 0x13000, 0x14000, 0x15000, 0x16000, 0x17000]"
  by (simp add: boot_mm_def free_frames_def region_frames_def upt_small)

lemma boot_table: "table_at boot_mm js = Some t \<longleftrightarrow> js = [] \<and> t = 0x9000"
proof -
  have "table_at boot_mm js = (if js = [] then Some 0x9000 else None)"
  proof (induction js)
    case (Cons j js)
    then show ?case by (simp add: follow_def entry_at_def boot_mm_def split: option.split)
  qed (simp add: boot_mm_def)
  then show ?thesis by auto
qed

lemma boot_inv: "pt_inv boot_mm"
proof -
  have "frames_wf boot_mm"
    unfolding frames_wf_def boot_frames by (simp add: boot_mm_def region_ok_def)
  moreover have "entry_at boot_mm t i = zero_entry" for t i by (simp add: entry_at_def boot_mm_def)
  moreover have "\<not> present zero_entry" by (simp add: zero_entry_def)
  ultimately show ?thesis unfolding pt_inv_def boot_table boot_frames by simp
qed

lemma boot_leaf: "leaf boot_mm v = zero_entry"
proof -
  have "table_at boot_mm (leaf_path v) = None"
    using boot_table[of "leaf_path v"] by (cases "table_at boot_mm (leaf_path v)") (auto simp: leaf_path_def simp del: table_at.simps)
  then show ?thesis by (simp add: leaf_def)
qed

lemma boot_free: "\<not> present (leaf boot_mm v)" "is_free boot_mm v"
  by (simp_all add: boot_leaf is_free_leaf) (simp add: zero_entry_def)

theorem map_page_translates_witness:
  "\<exists>m'. map_page boot_mm 0x400000 0x7000 3 = Inr m' \<and> virtual_to_physical m' 0x400000 = 0x7000"
  using map_page_translates[OF boot_inv, where flags = 3 and frame = "0x7000" and page = "0x400000"] boot_free
  by (auto simp: boot_frames)

theorem map_page_twice_panics_witness:
  "bindE (map_page boot_mm 0x400000 0x7000 3) (\<lambda>m'. map_page m' 0x400000 0x8000 3) = Inl (Panic '' '')"
  by (rule map_page_twice_panics[OF boot_inv]) (simp_all add: boot_frames boot_free)

theorem unmap_page_translates_witness: "virtual_to_physical (unmap_page boot_mm 0x400000) 0x400000 = 0"
  using unmap_page_translates[OF boot_inv] by blast

theorem get_free_region_finds_witness:
  "\<exists>k' \<le> 3. get_free_region boot_mm 0x400000 2 = Some (Inr (0x400000 + pgoff k'))"
  using get_free_region_finds[of 2 boot_mm "0x400000" 3] boot_free by (auto simp: INT_MAX_def)

theorem get_free_region_unaligned_witness: "get_free_region boot_mm 0x1001 2 = Some (Inr 0x1001)"
  by (rule get_free_region_unaligned) (simp_all add: INT_MAX_def boot_free)


end
