(* ===== verification/ListAlloc.thy ===== *)
theory ListAlloc
  imports Paging
begin

text \<open>
  The page heap: \<^verbatim>\<open>lethe-kernel/memory/list_allocator.c\<close>, a first-fit list of free regions kept in
  the regions themselves, and \<^verbatim>\<open>lethe-kernel/memory/alloc.c\<close>, which sets it up and gives it to
  liballoc. A region header lives at the address of its region; \<open>node_at\<close> is the heap of headers.
  The list may be of any shape, so the walk over it is a run; on a proper list it ends.
\<close>

section \<open>Data and operations\<close>

record list_node =
  pages :: int
  node_next :: ptr

record heap =
  head_next :: ptr
  node_at :: "ptr \<Rightarrow> list_node"
  heap_end :: u64
  vm :: mm

definition set_heap_end :: "u64 \<Rightarrow> heap \<Rightarrow> heap" where
  "set_heap_end val h = h\<lparr>heap_end := val\<rparr>"

definition add_region :: "heap \<Rightarrow> u64 \<Rightarrow> int \<Rightarrow> heap" where
  "add_region h start n =
     h\<lparr>node_at := (node_at h)(start := \<lparr>pages = n, node_next = head_next h\<rparr>), head_next := start\<rparr>"

text \<open>The loops that back a range of heap pages with fresh frames, both ends included.\<close>

partial_function (option) back_range :: "string \<Rightarrow> mm \<Rightarrow> u64 \<Rightarrow> u64 \<Rightarrow> mm run" where
  "back_range msg m i limit =
     (if i \<le> limit
      then case allocate_frame m of
             Inl e \<Rightarrow> Some (Inl e)
           | Inr (frame, m1) \<Rightarrow>
               if frame = 0 then Some (Inl (Panic msg))
               else (case map_page m1 i frame 3 of
                       Inl e \<Rightarrow> Some (Inl e)
                     | Inr m2 \<Rightarrow> back_range msg m2 (i + of_nat PAGE_SIZE) limit)
      else Some (Inr m))"

definition page_bytes :: "int \<Rightarrow> int res" where
  "page_bytes n =
     bindE (guardE SignedOverflow (\<bar>n * int PAGE_SIZE\<bar> \<le> INT_MAX)) (\<lambda>_. Inr (n * int PAGE_SIZE))"

definition increase_heap_size :: "heap \<Rightarrow> int \<Rightarrow> heap run" where
  "increase_heap_size h n =
     bindR (Some (page_bytes n)) (\<lambda>bytes.
     let heap_start = heap_end h + of_nat PAGE_SIZE; new_heap_end = heap_start + word_of_int bytes in
     bindR (back_range ''Out of Memory'' (vm h) heap_start new_heap_end) (\<lambda>m.
     Some (Inr (add_region (h\<lparr>vm := m, heap_end := new_heap_end\<rparr>) heap_start n))))"

definition try_alloc :: "heap \<Rightarrow> ptr \<Rightarrow> int \<Rightarrow> ptr" where
  "try_alloc h region n = (if pages (node_at h region) < n then NULL else region)"

text \<open>The walk of \<^verbatim>\<open>get_valid_region\<close>: \<open>None\<close> is the list head, \<open>Some r\<close> the header at r.\<close>

definition next_of :: "heap \<Rightarrow> ptr option \<Rightarrow> ptr" where
  "next_of h current = (case current of None \<Rightarrow> head_next h | Some r \<Rightarrow> node_next (node_at h r))"

definition set_next :: "heap \<Rightarrow> ptr option \<Rightarrow> ptr \<Rightarrow> heap" where
  "set_next h current p =
     (case current of
        None \<Rightarrow> h\<lparr>head_next := p\<rparr>
      | Some r \<Rightarrow> h\<lparr>node_at := (node_at h)(r := (node_at h r)\<lparr>node_next := p\<rparr>)\<rparr>)"

partial_function (option) valid_region_from :: "heap \<Rightarrow> ptr option \<Rightarrow> int \<Rightarrow> (ptr \<times> heap) option" where
  "valid_region_from h current n =
     (if next_of h current = NULL then Some (NULL, h)
      else if try_alloc h (next_of h current) n = NULL then valid_region_from h (Some (next_of h current)) n
      else let valid_region = next_of h current in
           Some (valid_region, set_next h current (node_next (node_at h valid_region))))"

definition get_valid_region :: "heap \<Rightarrow> int \<Rightarrow> (ptr \<times> heap) option" where
  "get_valid_region h n = valid_region_from h None n"

text \<open>The part of \<^verbatim>\<open>list_alloc\<close> after a region was found.\<close>

definition split_region :: "heap \<Rightarrow> ptr \<Rightarrow> int \<Rightarrow> (ptr \<times> heap) res" where
  "split_region h region n =
     (let excess = pages (node_at h region) - n in
      bindE (page_bytes excess) (\<lambda>bytes.
      let alloc_end = region + word_of_int bytes in
      Inr (region, if 0 < excess then add_region h alloc_end excess else h)))"

definition list_alloc :: "heap \<Rightarrow> int \<Rightarrow> (ptr \<times> heap) run" where
  "list_alloc h n =
     (case get_valid_region h n of
        None \<Rightarrow> None
      | Some (region, h1) \<Rightarrow>
          if region \<noteq> NULL then Some (split_region h1 region n)
          else bindR (increase_heap_size h1 n) (\<lambda>h2.
               case get_valid_region h2 n of
                 None \<Rightarrow> None
               | Some (region', h3) \<Rightarrow>
                   if region' = NULL then Some (Inl Abort) else Some (split_region h3 region' n)))"

section \<open>The glue of alloc.c\<close>

definition heap_size :: u64 where "heap_size = 0x20000"

definition ALIGN_UP :: "u64 \<Rightarrow> u64 \<Rightarrow> u64" where
  "ALIGN_UP x a = (x + a - 1) AND NOT (a - 1)"

definition liballoc_lock :: int where "liballoc_lock = 0"
definition liballoc_unlock :: int where "liballoc_unlock = 0"

definition liballoc_free :: "heap \<Rightarrow> ptr \<Rightarrow> int \<Rightarrow> int \<times> heap" where
  "liballoc_free h p n = (0, add_region h p n)"

definition liballoc_alloc :: "heap \<Rightarrow> int \<Rightarrow> (ptr \<times> heap) run" where
  "liballoc_alloc h n = list_alloc h n"

text \<open>The address of the linker symbol, the memory map and \<^verbatim>\<open>cr3\<close> are arguments.\<close>

definition setup_allocator :: "u64 \<Rightarrow> u64 \<Rightarrow> memmap_entry list \<Rightarrow> heap \<Rightarrow> heap run" where
  "setup_allocator kernel_end cr3 mmap h =
     (let heap_start = ALIGN_UP (kernel_end + 0x10000) (of_nat PAGE_SIZE) in
      bindR (Some (init_frame_allocator mmap (vm h))) (\<lambda>m.
      bindR (back_range ''Out of Memory'' (init_page_table cr3 m) heap_start (heap_start + heap_size)) (\<lambda>m'.
      Some (Inr (add_region (set_heap_end (heap_start + heap_size) (h\<lparr>vm := m'\<rparr>)) heap_start
                   (uint (heap_size div of_nat PAGE_SIZE)))))))"

section \<open>The region list\<close>

text \<open>The regions on the list from p on, in order.\<close>

fun regions :: "heap \<Rightarrow> ptr \<Rightarrow> ptr list \<Rightarrow> bool" where
  "regions h p [] \<longleftrightarrow> p = NULL"
| "regions h p (r # rs) \<longleftrightarrow> p = r \<and> r \<noteq> NULL \<and> regions h (node_next (node_at h r)) rs"

definition region_list :: "heap \<Rightarrow> ptr list \<Rightarrow> bool" where
  "region_list h rs \<longleftrightarrow> regions h (head_next h) rs \<and> distinct rs"

lemma regions_cong:
  "(\<And>r. r \<in> set rs \<Longrightarrow> node_next (node_at h' r) = node_next (node_at h r)) \<Longrightarrow> regions h' p rs = regions h p rs"
  by (induction rs arbitrary: p) auto

lemma add_region_list:
  assumes "region_list h rs" and "start \<noteq> NULL" and "start \<notin> set rs"
  shows "region_list (add_region h start n) (start # rs)"
proof -
  have "regions (add_region h start n) (head_next h) rs = regions h (head_next h) rs"
    using assms(3) by (intro regions_cong) (auto simp: add_region_def)
  then show ?thesis using assms by (simp add: region_list_def) (simp add: add_region_def)
qed

text \<open>First fit, on the list of regions.\<close>

definition fits :: "heap \<Rightarrow> int \<Rightarrow> ptr \<Rightarrow> bool" where
  "fits h n r \<longleftrightarrow> n \<le> pages (node_at h r)"

lemma valid_region_walk:
  assumes "regions h (next_of h current) rs" and "\<And>c. current = Some c \<Longrightarrow> c \<notin> set rs" and "distinct rs"
  shows "case find (fits h n) rs of
      None \<Rightarrow> valid_region_from h current n = Some (NULL, h)
    | Some r \<Rightarrow> \<exists>h'. valid_region_from h current n = Some (r, h') \<and> regions h' (next_of h' current) (remove1 r rs)
        \<and> pages (node_at h' x) = pages (node_at h x) \<and> (current \<noteq> None \<longrightarrow> head_next h' = head_next h)
        \<and> (\<forall>q. q \<notin> set rs \<longrightarrow> Some q \<noteq> current \<longrightarrow> node_at h' q = node_at h q)"
  using assms
proof (induction rs arbitrary: current)
  case Nil
  then show ?case by (subst valid_region_from.simps) simp
next
  case (Cons r rs)
  have r: "next_of h current = r" "r \<noteq> NULL" "regions h (node_next (node_at h r)) rs" using Cons.prems(1) by auto
  show ?case
  proof (cases "fits h n r")
    case True
    let ?h = "set_next h current (node_next (node_at h r))"
    have "valid_region_from h current n = Some (r, ?h)"
      using True r by (subst valid_region_from.simps) (simp add: try_alloc_def fits_def)
    moreover have "node_next (node_at ?h q) = node_next (node_at h q)" if "q \<in> set rs" for q
      using that Cons.prems(2) by (auto simp: set_next_def split: option.split)
    then have "regions ?h (node_next (node_at h r)) rs" using r(3) regions_cong by blast
    moreover have "next_of ?h current = node_next (node_at h r)" by (simp add: set_next_def next_of_def split: option.split)
    ultimately show ?thesis using True by (auto simp: set_next_def split: option.split)
  next
    case False
    have step: "valid_region_from h current n = valid_region_from h (Some r) n"
      using False r by (subst valid_region_from.simps) (simp add: try_alloc_def fits_def)
    have IH: "case find (fits h n) rs of
      None \<Rightarrow> valid_region_from h (Some r) n = Some (NULL, h)
    | Some r' \<Rightarrow> \<exists>h'. valid_region_from h (Some r) n = Some (r', h') \<and> regions h' (next_of h' (Some r)) (remove1 r' rs)
        \<and> pages (node_at h' x) = pages (node_at h x) \<and> (Some r \<noteq> None \<longrightarrow> head_next h' = head_next h)
        \<and> (\<forall>q. q \<notin> set rs \<longrightarrow> Some q \<noteq> Some r \<longrightarrow> node_at h' q = node_at h q)"
      using Cons.prems(3) r(3) by (intro Cons.IH) (auto simp: next_of_def)
    show ?thesis
    proof (cases "find (fits h n) rs")
      case None
      then show ?thesis using IH False step by simp
    next
      case (Some r')
      then have "r' \<noteq> r" using Cons.prems(3) by (auto simp: find_Some_iff)
      from IH Some obtain h' where h': "valid_region_from h (Some r) n = Some (r', h')"
        "regions h' (next_of h' (Some r)) (remove1 r' rs)" "pages (node_at h' x) = pages (node_at h x)"
        "head_next h' = head_next h" "\<forall>q. q \<notin> set rs \<longrightarrow> q \<noteq> r \<longrightarrow> node_at h' q = node_at h q" by auto
      have "next_of h' current = r"
        using r(1) h'(4,5) Cons.prems(2) by (auto simp: next_of_def split: option.splits)
      then show ?thesis using Some False step h' \<open>r' \<noteq> r\<close> r(2) by (auto simp: next_of_def)
    qed
  qed
qed

lemma get_valid_region_spec:
  assumes "region_list h rs"
  shows "case find (fits h n) rs of
      None \<Rightarrow> get_valid_region h n = Some (NULL, h)
    | Some r \<Rightarrow> \<exists>h'. get_valid_region h n = Some (r, h') \<and> region_list h' (remove1 r rs)
        \<and> pages (node_at h' x) = pages (node_at h x)"
  using valid_region_walk[of h None rs n x] assms
  by (auto simp: region_list_def get_valid_region_def next_of_def split: option.splits)

section \<open>Backing heap pages\<close>

lemma allocate_frame_pt_inv:
  assumes inv: "pt_inv m" and free: "free_frames m = f # fs"
  shows "\<exists>m'. allocate_frame m = Inr (f, m') \<and> pt_inv m' \<and> free_frames m' = fs \<and> frame_ok f \<and> (\<forall>v. leaf m' v = leaf m v)"
proof -
  note D = pt_invD[OF inv]
  from allocate_frame_spec[OF D(1)] free obtain m' where m': "allocate_frame m = Inr (f, m')" "free_frames m' = fs"
    "frames_wf m'" "phys m' = (phys m)(f := \<lambda>_. 0)" "root m' = root m" by auto
  have nf: "t \<noteq> f" if "length js \<le> 3" "table_at m js = Some t" for js t using D(3)[OF that] free by auto
  have ent: "entry_at m' t i = entry_at m t i" if "t \<noteq> f" for t i using that by (simp add: entry_at_def m'(4))
  have tab: "length js \<le> 3 \<Longrightarrow> table_at m' js = table_at m js" for js
  proof (induction js)
    case (Cons j js)
    then show ?case using nf[of js] by (auto simp: follow_def ent split: option.split)
  qed (simp add: m'(5))
  have "pt_inv m'"
    unfolding pt_inv_def
  proof (intro conjI allI impI)
    fix js ks t assume "length js \<le> 3" "length ks \<le> 3" "table_at m' js = Some t" "table_at m' ks = Some t"
    then show "js = ks" using D(2)[of js ks t] by (simp add: tab)
  next
    fix js t assume "length js \<le> 3" "table_at m' js = Some t"
    then show "t \<notin> set (free_frames m')" using D(3)[of js t] free by (simp add: tab m'(2))
  next
    fix js t i assume "length js \<le> 2" "table_at m' js = Some t"
    then show "present (entry_at m' t i) \<longleftrightarrow> target (entry_at m' t i) \<noteq> 0"
      using D(4)[of js t i] nf[of js t] by (simp add: tab ent)
  qed (rule m'(3))
  moreover have "leaf m' v = leaf m v" for v
    using nf[of "leaf_path v"] by (auto simp: leaf_def tab ent leaf_path_def simp del: table_at.simps split: option.split)
  ultimately show ?thesis using m'(1,2) frames_wf_mem[OF D(1), of f] free by auto
qed

lemma back_range_maps:
  assumes "pt_inv m" "4 * Suc k \<le> length (free_frames m)" "unat i + 4096 * Suc k < 2 ^ 64" "Suc k < 2 ^ 36"
    and "\<And>j. j \<le> k \<Longrightarrow> \<not> present (leaf m (i + pgoff j))"
  shows "\<exists>m'. back_range msg m i (i + pgoff k) = Some (Inr m') \<and> pt_inv m'
    \<and> length (free_frames m) \<le> length (free_frames m') + 4 * Suc k
    \<and> (\<forall>j \<le> k. virtual_to_physical m' (i + pgoff j) \<noteq> 0)
    \<and> (\<forall>w. (\<forall>j \<le> k. \<not> same_page w (i + pgoff j)) \<longrightarrow> leaf m' w = leaf m w)"
  using assms
proof (induction k arbitrary: m i)
  case (0 m i)
  obtain f fs where f: "free_frames m = f # fs" using 0(2) by (cases "free_frames m") auto
  from allocate_frame_pt_inv[OF 0(1) f] obtain m1 where m1: "allocate_frame m = Inr (f, m1)" "pt_inv m1"
    "free_frames m1 = fs" "frame_ok f" "\<forall>v. leaf m1 v = leaf m v" by blast
  have b3: "bit (3 :: u16) 0" by simp
  have np: "\<not> present (leaf m i)" using 0(5)[of 0] by simp
  from map_page_spec[OF m1(2) b3, of i f] m1(3,5) f 0(2) np obtain m2 where m2: "map_page m1 i f 3 = Inr m2"
    "pt_inv m2" "length fs \<le> length (free_frames m2) + 3"
    "\<forall>w. leaf m2 w = (if same_page w i then set_entry f 3 else leaf m w)" by auto
  have "unat (i + 4096) = unat i + 4096" using unat_add_of_nat[of i 4096] 0(3) by simp
  then have stop: "\<not> i + 4096 \<le> i" by (simp add: word_le_nat_alt)
  have "back_range msg m i (i + pgoff 0) = Some (Inr m2)"
    using m1(1,4) m2(1) stop
    by (subst back_range.simps) (simp add: frame_ok_def PAGE_SIZE_def back_range.simps)
  moreover have "virtual_to_physical m2 i \<noteq> 0"
    using m2(4) m1(4) target_set_entry[of f 3] by (simp add: virtual_to_physical_leaf frame_ok_def)
  ultimately show ?case using m2(2-4) f by auto
next
  case (Suc k m i)
  obtain f fs where f: "free_frames m = f # fs" using Suc.prems(2) by (cases "free_frames m") auto
  from allocate_frame_pt_inv[OF Suc.prems(1) f] obtain m1 where m1: "allocate_frame m = Inr (f, m1)" "pt_inv m1"
    "free_frames m1 = fs" "frame_ok f" "\<forall>v. leaf m1 v = leaf m v" by blast
  have b3: "bit (3 :: u16) 0" by simp
  have np: "\<not> present (leaf m i)" using Suc.prems(5)[of 0] by simp
  from map_page_spec[OF m1(2) b3, of i f] m1(3,5) f Suc.prems(2) np obtain m2 where m2: "map_page m1 i f 3 = Inr m2"
    "pt_inv m2" "length fs \<le> length (free_frames m2) + 3"
    "\<forall>w. leaf m2 w = (if same_page w i then set_entry f 3 else leaf m w)" by auto
  have far: "\<not> same_page ((i + 4096) + pgoff j) i" if "j \<le> k" for j
    using same_page_pgoff[of "Suc j" 0 i] that Suc.prems(4) by (simp add: offset_Suc)
  have i': "unat (i + 4096) = unat i + 4096" using unat_add_of_nat[of i 4096] Suc.prems(3) by simp
  have np': "\<not> present (leaf m2 ((i + 4096) + pgoff j))" if "j \<le> k" for j
    using Suc.prems(5)[of "Suc j"] that far[OF that] m2(4) by (simp add: offset_Suc)
  have "\<exists>m'. back_range msg m2 (i + 4096) ((i + 4096) + pgoff k) = Some (Inr m') \<and> pt_inv m'
    \<and> length (free_frames m2) \<le> length (free_frames m') + 4 * Suc k
    \<and> (\<forall>j \<le> k. virtual_to_physical m' ((i + 4096) + pgoff j) \<noteq> 0)
    \<and> (\<forall>w. (\<forall>j \<le> k. \<not> same_page w ((i + 4096) + pgoff j)) \<longrightarrow> leaf m' w = leaf m2 w)"
    using Suc.prems(2-4) f m2(2,3) i' np' by (intro Suc.IH) auto
  then obtain m' where m': "back_range msg m2 (i + 4096) ((i + 4096) + pgoff k) = Some (Inr m')" "pt_inv m'"
    "length (free_frames m2) \<le> length (free_frames m') + 4 * Suc k"
    "\<And>j. j \<le> k \<Longrightarrow> virtual_to_physical m' ((i + 4096) + pgoff j) \<noteq> 0"
    "\<And>w. (\<And>j. j \<le> k \<Longrightarrow> \<not> same_page w ((i + 4096) + pgoff j)) \<Longrightarrow> leaf m' w = leaf m2 w" by blast
  have "unat (i + pgoff (Suc k)) = unat i + 4096 * Suc k"
    unfolding pgoff_def using Suc.prems(3) by (intro unat_add_of_nat) simp
  then have le: "i \<le> i + pgoff (Suc k)" by (simp add: word_le_nat_alt)
  have run: "back_range msg m i (i + pgoff (Suc k)) = Some (Inr m')"
    using le m1(1,4) m2(1) m'(1)
    by (subst back_range.simps) (simp add: frame_ok_def PAGE_SIZE_def offset_Suc)
  have sym: "same_page a b \<Longrightarrow> same_page b a" for a b by (simp add: same_page_def)
  have "leaf m' i = leaf m2 i" by (rule m'(5)) (use far sym in blast)
  then have "virtual_to_physical m' i \<noteq> 0"
    using m2(4) m1(4) target_set_entry[of f 3] by (simp add: virtual_to_physical_leaf frame_ok_def)
  then have "virtual_to_physical m' (i + pgoff j) \<noteq> 0" if "j \<le> Suc k" for j
    using that m'(4) by (cases j) (simp_all add: offset_Suc)
  moreover have "leaf m' w = leaf m w" if far_w: "\<forall>j \<le> Suc k. \<not> same_page w (i + pgoff j)" for w
  proof -
    have "\<not> same_page w i" using far_w by force
    moreover have "\<not> same_page w ((i + 4096) + pgoff j)" if "j \<le> k" for j
      using far_w that offset_Suc[of i j] by (metis Suc_le_mono)
    ultimately show ?thesis using m'(5)[of w] m2(4) by simp
  qed
  moreover have "length (free_frames m) \<le> length (free_frames m') + 4 * Suc (Suc k)" using m'(3) m2(3) f by simp
  ultimately show ?case using run m'(2) by blast
qed

section \<open>Properties\<close>

text \<open>(C37) On a proper region list \<^verbatim>\<open>get_valid_region\<close> returns, and it is first fit: it unlinks the first
  region with enough pages and leaves the others on the list in order, or returns NULL with the
  list as it was when no region is large enough.
\<close>

theorem get_valid_region_first_fit:
  assumes "region_list h rs"
  shows "case find (\<lambda>r. n \<le> pages (node_at h r)) rs of
      None \<Rightarrow> get_valid_region h n = Some (NULL, h)
    | Some r \<Rightarrow> \<exists>h'. get_valid_region h n = Some (r, h') \<and> region_list h' (remove1 r rs)
        \<and> pages (node_at h' r) = pages (node_at h r)"
proof -
  have "fits h n = (\<lambda>r. n \<le> pages (node_at h r))" by (simp add: fits_def fun_eq_iff)
  with get_valid_region_spec[OF assms, of n] show ?thesis by (auto split: option.splits)
qed

theorem get_valid_region_first_fit_witness:
  "\<exists>h'. get_valid_region \<lparr>head_next = 0x2000, node_at = (\<lambda>_. \<lparr>pages = 5, node_next = 0\<rparr>), heap_end = 0, vm = boot_mm\<rparr> 3
     = Some (0x2000, h')"
proof -
  let ?h = "\<lparr>head_next = 0x2000, node_at = (\<lambda>_. \<lparr>pages = 5, node_next = 0\<rparr>), heap_end = 0, vm = boot_mm\<rparr>"
  have "region_list ?h [0x2000]" by (simp add: region_list_def)
  from get_valid_region_first_fit[OF this, of 3] show ?thesis by auto
qed

text \<open>The bytes of a block of pages.\<close>

definition span :: "u64 \<Rightarrow> int \<Rightarrow> int set" where
  "span a n = {uint a ..< uint a + n * 4096}"

text \<open>When a region of N pages serves a request for k of them, the remainder goes back on the list at
  \<^verbatim>\<open>region + excess * PAGE_SIZE\<close>. It lies inside the region and beside the block handed out only
  when exactly half the region was asked for; otherwise it overlaps the block or runs past the end
  of the region.
\<close>

theorem split_region_misplaces_remainder:
  assumes "0 < k" and "k < pages (node_at h r)" and "pages (node_at h r) * 4096 \<le> INT_MAX"
    and "uint r + 2 * (pages (node_at h r) * 4096) < 2 ^ 64"
  shows "\<exists>a h'. split_region h r k = Inr (r, h') \<and> head_next h' = a \<and> pages (node_at h' a) = pages (node_at h r) - k
    \<and> (span a (pages (node_at h r) - k) \<subseteq> span r (pages (node_at h r)) \<and> span a (pages (node_at h r) - k) \<inter> span r k = {}
       \<longleftrightarrow> pages (node_at h r) = 2 * k)"
proof -
  let ?N = "pages (node_at h r)"
  let ?e = "?N - k"
  let ?a = "r + word_of_int (?e * 4096)"
  have b: "page_bytes ?e = Inr (?e * 4096)" using assms by (simp add: page_bytes_def PAGE_SIZE_def)
  have run: "split_region h r k = Inr (r, add_region h ?a ?e)" using assms(2) b by (simp add: split_region_def Let_def)
  have "0 \<le> ?e * 4096" "?e * 4096 < 2 ^ 64" using assms by (simp_all add: INT_MAX_def)
  then have "unat (word_of_int (?e * 4096) :: u64) = nat (?e * 4096)" by (intro unat_word_of_int) simp_all
  then have "uint (word_of_int (?e * 4096) :: u64) = ?e * 4096"
    unfolding uint_nat using \<open>0 \<le> ?e * 4096\<close> by (simp only: int_nat_eq if_True)
  then have a: "uint ?a = uint r + ?e * 4096"
    using assms by (simp add: uint_plus_if')
  have "span ?a ?e \<subseteq> span r ?N \<longleftrightarrow> ?e * 4096 + ?e * 4096 \<le> ?N * 4096"
  proof
    assume sub: "span ?a ?e \<subseteq> span r ?N"
    have "uint r + ?e * 4096 + ?e * 4096 - 1 \<in> span ?a ?e" unfolding span_def a using assms(2) by auto
    with sub show "?e * 4096 + ?e * 4096 \<le> ?N * 4096" by (auto simp: span_def)
  next
    assume "?e * 4096 + ?e * 4096 \<le> ?N * 4096"
    then show "span ?a ?e \<subseteq> span r ?N" unfolding span_def a using assms(2) by auto
  qed
  moreover have "span ?a ?e \<inter> span r k = {} \<longleftrightarrow> k \<le> ?e"
  proof
    assume "k \<le> ?e"
    then show "span ?a ?e \<inter> span r k = {}" unfolding span_def a by auto
  next
    assume empty: "span ?a ?e \<inter> span r k = {}"
    show "k \<le> ?e"
    proof (rule ccontr)
      assume "\<not> k \<le> ?e"
      then have "uint r + ?e * 4096 \<in> span ?a ?e \<inter> span r k" using assms(1,2) unfolding span_def a by auto
      with empty show False by blast
    qed
  qed
  ultimately have "span ?a ?e \<subseteq> span r ?N \<and> span ?a ?e \<inter> span r k = {} \<longleftrightarrow> ?N = 2 * k" by auto
  with run show ?thesis by (simp add: add_region_def)
qed

theorem split_region_misplaces_remainder_witness:
  "\<exists>a h'. split_region \<lparr>head_next = 0, node_at = (\<lambda>_. \<lparr>pages = 32, node_next = 0\<rparr>), heap_end = 0, vm = boot_mm\<rparr> 0x100000 1
     = Inr (0x100000, h') \<and> head_next h' = a \<and> \<not> (span a 31 \<subseteq> span 0x100000 32 \<and> span a 31 \<inter> span 0x100000 1 = {})"
proof -
  let ?h = "\<lparr>head_next = 0, node_at = (\<lambda>_. \<lparr>pages = 32, node_next = 0\<rparr>), heap_end = 0, vm = boot_mm\<rparr>"
  from split_region_misplaces_remainder[of 1 ?h "0x100000"] show ?thesis by (auto simp: INT_MAX_def)
qed

text \<open>Setting up the kernel heap backs all its pages: with enough free frames and an unmapped heap range,
  \<^verbatim>\<open>setup_allocator\<close>'s loop ends, every page from the heap start up to and including its end
  translates to a frame, and every other page translates as before.
\<close>

theorem heap_range_backed:
  assumes "pt_inv m" and "132 \<le> length (free_frames m)" and "unat heap_start + 0x21000 < 2 ^ 64"
    and "\<And>j. j \<le> 32 \<Longrightarrow> \<not> present (leaf m (heap_start + pgoff j))"
  shows "\<exists>m'. back_range ''Out of Memory'' m heap_start (heap_start + heap_size) = Some (Inr m') \<and> pt_inv m'
    \<and> (\<forall>j \<le> 32. virtual_to_physical m' (heap_start + pgoff j) \<noteq> 0)
    \<and> (\<forall>w. (\<forall>j \<le> 32. \<not> same_page w (heap_start + pgoff j)) \<longrightarrow> virtual_to_physical m' w = virtual_to_physical m w)"
proof -
  have "heap_size = pgoff 32" by (simp add: heap_size_def pgoff_def)
  with back_range_maps[OF assms(1), of 32 heap_start "''Out of Memory''"] assms(2-4) obtain m' where
    "back_range ''Out of Memory'' m heap_start (heap_start + heap_size) = Some (Inr m')" "pt_inv m'"
    "\<forall>j \<le> 32. virtual_to_physical m' (heap_start + pgoff j) \<noteq> 0"
    "\<forall>w. (\<forall>j \<le> 32. \<not> same_page w (heap_start + pgoff j)) \<longrightarrow> leaf m' w = leaf m w" by auto
  then show ?thesis by (auto simp: virtual_to_physical_leaf)
qed

text \<open>A machine with an empty root table and 192 free frames.\<close>

definition big_mm :: mm where
  "big_mm = boot_mm\<lparr>next_frame := \<lparr>f_start = False, f_base = 0x10000, f_length = 0xC0000\<rparr>\<rparr>"

lemma big_frames: "free_frames big_mm = map (\<lambda>i. 0x10000 + of_nat (4096 * i)) [0..<192]"
proof -
  have "unat (0x10000 + of_nat (4096 * i) :: u64) = 0x10000 + 4096 * i" if "i < 192" for i
    using unat_add_of_nat[of "0x10000 :: u64" "4096 * i"] that by simp
  then have "0x10000 + of_nat (4096 * i) \<noteq> (0 :: u64)" if "i < 192" for i
    using that by (metis add_is_0 unat_0 zero_neq_numeral)
  then show ?thesis
    by (simp add: big_mm_def boot_mm_def free_frames_def region_frames_def filter_id_conv)
qed

lemma big_table: "table_at big_mm js = Some t \<longleftrightarrow> js = [] \<and> t = 0x9000"
proof -
  have "table_at big_mm js = table_at boot_mm js"
    by (induction js) (auto simp: big_mm_def follow_def entry_at_def split: option.split)
  then show ?thesis using boot_table by simp
qed

lemma big_inv: "pt_inv big_mm"
proof -
  have u: "unat (0x10000 + of_nat (4096 * i) :: u64) = 0x10000 + 4096 * i" if "i < 192" for i
    using unat_add_of_nat[of "0x10000 :: u64" "4096 * i"] that by simp
  have "inj_on (\<lambda>i. 0x10000 + of_nat (4096 * i) :: u64) {0..<192}"
    by (rule inj_onI) (metis atLeastLessThan_iff add_left_cancel mult_left_cancel u zero_neq_numeral)
  then have "frames_wf big_mm"
    unfolding frames_wf_def big_frames distinct_map by (simp add: big_mm_def boot_mm_def region_ok_def)
  moreover have "0x9000 \<notin> set (free_frames big_mm)"
  proof
    assume "0x9000 \<in> set (free_frames big_mm)"
    then obtain i where i: "i < 192" "0x9000 = (0x10000 + of_nat (4096 * i) :: u64)" unfolding big_frames by fastforce
    from arg_cong[OF i(2), of unat] have "unat (0x9000 :: u64) = 0x10000 + 4096 * i" unfolding u[OF i(1)] .
    then show False by simp
  qed
  moreover have "entry_at big_mm t i = zero_entry" for t i by (simp add: entry_at_def big_mm_def boot_mm_def)
  moreover have "\<not> present zero_entry" by (simp add: zero_entry_def)
  ultimately show ?thesis unfolding pt_inv_def big_table by simp
qed

theorem heap_range_backed_witness:
  "\<exists>m'. back_range ''Out of Memory'' big_mm 0x400000 (0x400000 + heap_size) = Some (Inr m')
     \<and> virtual_to_physical m' (0x400000 + pgoff 5) \<noteq> 0"
proof -
  have "leaf big_mm v = zero_entry" for v
    using big_table[of "leaf_path v"]
    by (cases "table_at big_mm (leaf_path v)") (auto simp: leaf_def leaf_path_def simp del: table_at.simps)
  then have "\<not> present (leaf big_mm v)" for v by (simp add: zero_entry_def)
  with heap_range_backed[OF big_inv, of "0x400000"] show ?thesis by (auto simp: big_frames)
qed

end
