(* ===== verification/Liballoc.thy ===== *)
theory Liballoc
  imports ListAlloc CString
begin

text \<open>
  The kernel's \<^verbatim>\<open>malloc\<close>: \<^verbatim>\<open>lethe-kernel/memory/liballoc.c\<close> on top of the page heap. Boundary tags are
  a typed heap indexed by their address, the free lists are the 32 bucket heads, and the payload
  bytes are a byte-addressed memory of their own. Sizes keep their C widths: \<^verbatim>\<open>unsigned int\<close> in the
  tags and in \<^verbatim>\<open>getexp\<close>, \<^verbatim>\<open>size_t\<close> in the interface.
\<close>

section \<open>Data\<close>

record boundary_tag =
  magic :: u32
  tsize :: u32
  real_size :: u32
  tindex :: int
  split_left :: ptr
  split_right :: ptr
  tnext :: ptr
  tprev :: ptr

record la =
  tags :: "ptr \<Rightarrow> boundary_tag"
  freePages :: "ptr list"
  completePages :: "int list"
  initialized :: bool
  bytes :: mem
  pgheap :: heap

definition LIBALLOC_MAGIC :: u32 where "LIBALLOC_MAGIC = 0xC001C0DE"
definition MAXCOMPLETE :: int where "MAXCOMPLETE = 5"
definition MAXEXP :: nat where "MAXEXP = 32"
definition MINEXP :: nat where "MINEXP = 8"
definition MODE :: int where "MODE = 0"
definition l_pageSize :: u32 where "l_pageSize = 4096"
definition l_pageCount :: u32 where "l_pageCount = 16"
definition sizeof_tag :: u64 where "sizeof_tag = 48"

section \<open>Helpers\<close>

text \<open>The loop of \<^verbatim>\<open>getexp\<close> from a given shift.\<close>

function getexp_loop :: "u32 \<Rightarrow> nat \<Rightarrow> nat" where
  "getexp_loop sz shift =
     (if shift < MAXEXP then if sz < push_bit shift 1 then shift else getexp_loop sz (shift + 1) else shift)"
  by auto
termination by (relation "measure (\<lambda>(_, shift). MAXEXP - shift)") auto

declare getexp_loop.simps [simp del]

definition getexp :: "u32 \<Rightarrow> int" where
  "getexp sz = (if sz < push_bit MINEXP 1 then - 1 else int (getexp_loop sz MINEXP) - 1)"

definition liballoc_memset :: "mem \<Rightarrow> ptr \<Rightarrow> int \<Rightarrow> u64 \<Rightarrow> mem res" where
  "liballoc_memset m s c n =
     bindE (guardE SignedOverflow (uint n \<le> INT_MAX)) (\<lambda>_. Inr (memset_loop m s (word_of_int c) (unat n)))"

text \<open>One \<^verbatim>\<open>unsigned int\<close>: four bytes are read, then written.\<close>

definition copy4 :: "mem \<Rightarrow> ptr \<Rightarrow> ptr \<Rightarrow> mem" where
  "copy4 m d s = m(d := m s, d + 1 := m (s + 1), d + 2 := m (s + 2), d + 3 := m (s + 3))"

fun liballoc_memcpy_loop :: "mem \<Rightarrow> ptr \<Rightarrow> ptr \<Rightarrow> nat \<Rightarrow> mem" where
  "liballoc_memcpy_loop m d s n =
     (if 4 \<le> n then liballoc_memcpy_loop (copy4 m d s) (d + 4) (s + 4) (n - 4)
      else if 0 < n then liballoc_memcpy_loop (m(d := m s)) (d + 1) (s + 1) (n - 1)
      else m)"

declare liballoc_memcpy_loop.simps [simp del]

definition liballoc_memcpy :: "mem \<Rightarrow> ptr \<Rightarrow> ptr \<Rightarrow> u64 \<Rightarrow> mem" where
  "liballoc_memcpy m s1 s2 n = liballoc_memcpy_loop m s1 s2 (unat n)"

text \<open>Writing one tag, and a bucket, which may be out of range.\<close>

definition upd_tag :: "la \<Rightarrow> ptr \<Rightarrow> (boundary_tag \<Rightarrow> boundary_tag) \<Rightarrow> la" where
  "upd_tag s p f = s\<lparr>tags := (tags s)(p := f (tags s p))\<rparr>"

definition set_bucket :: "la \<Rightarrow> int \<Rightarrow> ptr \<Rightarrow> la res" where
  "set_bucket s i p = bindE (writeE (freePages s) i p) (\<lambda>fp. Inr (s\<lparr>freePages := fp\<rparr>))"

text \<open>\<^verbatim>\<open>tag->real_size - sizeof(struct boundary_tag)\<close> as the \<^verbatim>\<open>unsigned int\<close> argument of \<^verbatim>\<open>getexp\<close>.\<close>

definition payload :: "boundary_tag \<Rightarrow> u32" where
  "payload t = ucast (ucast (real_size t) - sizeof_tag)"

definition tag_index :: "boundary_tag \<Rightarrow> int" where
  "tag_index t = (if getexp (payload t) < int MINEXP then int MINEXP else getexp (payload t))"

definition insert_tag :: "la \<Rightarrow> ptr \<Rightarrow> int \<Rightarrow> la res" where
  "insert_tag s tag index =
     (let realIndex = (if index < 0 then tag_index (tags s tag) else index);
          s1 = upd_tag s tag (\<lambda>t. t\<lparr>tindex := realIndex\<rparr>)
      in bindE (readE (freePages s1) realIndex) (\<lambda>front.
         let s2 = (if front \<noteq> NULL
                   then upd_tag (upd_tag s1 front (\<lambda>t. t\<lparr>tprev := tag\<rparr>)) tag (\<lambda>t. t\<lparr>tnext := front\<rparr>)
                   else s1)
         in set_bucket s2 realIndex tag))"

definition remove_tag :: "la \<Rightarrow> ptr \<Rightarrow> la res" where
  "remove_tag s tag =
     bindE (readE (freePages s) (tindex (tags s tag))) (\<lambda>front.
     bindE (if front = tag then set_bucket s (tindex (tags s tag)) (tnext (tags s tag)) else Inr s) (\<lambda>s1.
     let prev = tprev (tags s1 tag);
         s2 = (if prev \<noteq> NULL then upd_tag s1 prev (\<lambda>t. t\<lparr>tnext := tnext (tags s1 tag)\<rparr>) else s1);
         next = tnext (tags s2 tag);
         s3 = (if next \<noteq> NULL then upd_tag s2 next (\<lambda>t. t\<lparr>tprev := tprev (tags s2 tag)\<rparr>) else s2)
     in Inr (upd_tag s3 tag (\<lambda>t. t\<lparr>tnext := NULL, tprev := NULL, tindex := - 1\<rparr>))))"

definition melt_left :: "la \<Rightarrow> ptr \<Rightarrow> ptr \<times> la" where
  "melt_left s tag =
     (let left = split_left (tags s tag);
          s1 = upd_tag s left (\<lambda>t. t\<lparr>real_size := real_size t + real_size (tags s tag)\<rparr>);
          s2 = upd_tag s1 left (\<lambda>t. t\<lparr>split_right := split_right (tags s1 tag)\<rparr>);
          right = split_right (tags s2 tag);
          s3 = (if right \<noteq> NULL then upd_tag s2 right (\<lambda>t. t\<lparr>split_left := left\<rparr>) else s2)
      in (left, s3))"

definition absorb_right :: "la \<Rightarrow> ptr \<Rightarrow> (ptr \<times> la) res" where
  "absorb_right s tag =
     (let right = split_right (tags s tag) in
      bindE (remove_tag s right) (\<lambda>s1.
      let s2 = upd_tag s1 tag (\<lambda>t. t\<lparr>real_size := real_size t + real_size (tags s1 right)\<rparr>);
          s3 = upd_tag s2 tag (\<lambda>t. t\<lparr>split_right := split_right (tags s2 right)\<rparr>);
          rr = split_right (tags s3 right);
          s4 = (if rr \<noteq> NULL then upd_tag s3 rr (\<lambda>t. t\<lparr>split_left := tag\<rparr>) else s3)
      in Inr (tag, s4)))"

definition split_tag :: "la \<Rightarrow> ptr \<Rightarrow> (ptr \<times> la) res" where
  "split_tag s tag =
     (let t = tags s tag;
          remainder = ucast (ucast (real_size t) - sizeof_tag - ucast (tsize t)) :: u32;
          new_tag = tag + sizeof_tag + ucast (tsize t);
          s1 = upd_tag s new_tag (\<lambda>n. n\<lparr>magic := LIBALLOC_MAGIC, real_size := remainder, tnext := NULL,
                                        tprev := NULL, split_left := tag\<rparr>);
          s2 = upd_tag s1 new_tag (\<lambda>n. n\<lparr>split_right := split_right (tags s1 tag)\<rparr>);
          right = split_right (tags s2 new_tag);
          s3 = (if right \<noteq> NULL then upd_tag s2 right (\<lambda>n. n\<lparr>split_left := new_tag\<rparr>) else s2);
          s4 = upd_tag s3 tag (\<lambda>n. n\<lparr>split_right := new_tag\<rparr>);
          s5 = upd_tag s4 tag (\<lambda>n. n\<lparr>real_size := real_size n - real_size (tags s4 new_tag)\<rparr>)
      in bindE (insert_tag s5 new_tag (- 1)) (\<lambda>s6. Inr (new_tag, s6)))"

section \<open>The interface\<close>

definition tag_pages :: "u32 \<Rightarrow> u32" where
  "tag_pages usage =
     (let p = usage div l_pageSize; q = (if usage mod l_pageSize \<noteq> 0 then p + 1 else p)
      in if q < l_pageCount then l_pageCount else q)"

definition allocate_new_tag :: "la \<Rightarrow> u32 \<Rightarrow> (ptr \<times> la) run" where
  "allocate_new_tag s sz =
     (let usage = ucast (ucast sz + sizeof_tag) :: u32; n = tag_pages usage in
      bindR (liballoc_alloc (pgheap s) (sint n)) (\<lambda>(tag, h).
      let s1 = s\<lparr>pgheap := h\<rparr> in
      Some (Inr (if tag = NULL then (NULL, s1)
        else (tag, upd_tag s1 tag (\<lambda>_. \<lparr>magic = LIBALLOC_MAGIC, tsize = sz, real_size = n * l_pageSize,
               tindex = - 1, split_left = NULL, split_right = NULL, tnext = NULL, tprev = NULL\<rparr>))))))"

text \<open>The first tag of a bucket with enough space, NULL when the list ends.\<close>

partial_function (option) find_tag :: "la \<Rightarrow> ptr \<Rightarrow> u64 \<Rightarrow> ptr option" where
  "find_tag s tag sz =
     (if tag = NULL then Some NULL
      else if sz + sizeof_tag \<le> ucast (real_size (tags s tag)) - sizeof_tag then Some tag
      else find_tag s (tnext (tags s tag)) sz)"

definition init_la :: "la \<Rightarrow> la" where
  "init_la s =
     (if \<not> initialized s
      then s\<lparr>freePages := replicate MAXEXP NULL, completePages := replicate MAXEXP 0, initialized := True\<rparr>
      else s)"

text \<open>The end of \<^verbatim>\<open>malloc\<close>: store the size, give back the excess, return the payload address.\<close>

definition finish_malloc :: "la \<Rightarrow> ptr \<Rightarrow> u64 \<Rightarrow> (ptr \<times> la) res" where
  "finish_malloc s tag sz =
     (let s1 = upd_tag s tag (\<lambda>t. t\<lparr>tsize := ucast sz\<rparr>);
          remainder = ucast (ucast (real_size (tags s1 tag)) - sz - sizeof_tag * 2) :: u32
      in bindE (if 0 < sint remainder \<and> 0 \<le> getexp remainder
                then bindE (split_tag s1 tag) (\<lambda>(_, s2). Inr s2) else Inr s1) (\<lambda>s3.
         Inr (tag + sizeof_tag, s3)))"

definition adjust_complete :: "la \<Rightarrow> int \<Rightarrow> int \<Rightarrow> la res" where
  "adjust_complete s i d =
     bindE (readE (completePages s) i) (\<lambda>c.
     bindE (writeE (completePages s) i (c + d)) (\<lambda>cp. Inr (s\<lparr>completePages := cp\<rparr>)))"

definition malloc :: "la \<Rightarrow> u64 \<Rightarrow> (ptr \<times> la) run" where
  "malloc s0 sz =
     (let s = init_la s0;
          i0 = getexp (ucast sz) + MODE;
          index = (if i0 < int MINEXP then int MINEXP else i0)
      in bindR (Some (readE (freePages s) index)) (\<lambda>front.
         case find_tag s front sz of
           None \<Rightarrow> None
         | Some tag \<Rightarrow>
             if tag = NULL
             then bindR (allocate_new_tag s (ucast sz)) (\<lambda>(new, s1).
                  if new = NULL then Some (Inr (NULL, s1)) else Some (finish_malloc s1 new sz))
             else bindR (Some (remove_tag s tag)) (\<lambda>s1.
                  bindR (Some (if split_left (tags s1 tag) = NULL \<and> split_right (tags s1 tag) = NULL
                               then adjust_complete s1 index (- 1) else Inr s1)) (\<lambda>s2.
                  Some (finish_malloc s2 tag sz)))))"

partial_function (option) melt_left_loop :: "la \<Rightarrow> ptr \<Rightarrow> (ptr \<times> la) run" where
  "melt_left_loop s tag =
     (if split_left (tags s tag) \<noteq> NULL \<and> 0 \<le> tindex (tags s (split_left (tags s tag)))
      then (case melt_left s tag of (left, s1) \<Rightarrow>
            (case remove_tag s1 left of
               Inl e \<Rightarrow> Some (Inl e)
             | Inr s2 \<Rightarrow> melt_left_loop s2 left))
      else Some (Inr (tag, s)))"

partial_function (option) melt_right_loop :: "la \<Rightarrow> ptr \<Rightarrow> (ptr \<times> la) run" where
  "melt_right_loop s tag =
     (if split_right (tags s tag) \<noteq> NULL \<and> 0 \<le> tindex (tags s (split_right (tags s tag)))
      then (case absorb_right s tag of
              Inl e \<Rightarrow> Some (Inl e)
            | Inr (t, s1) \<Rightarrow> melt_right_loop s1 t)
      else Some (Inr (tag, s)))"

text \<open>The end of \<^verbatim>\<open>free\<close>: a whole block is counted or given back to the page heap.\<close>

definition finish_free :: "la \<Rightarrow> ptr \<Rightarrow> la res" where
  "finish_free s tag =
     (let index = tag_index (tags s tag) in
      if split_left (tags s tag) = NULL \<and> split_right (tags s tag) = NULL
      then bindE (readE (completePages s) index) (\<lambda>c.
           if c = MAXCOMPLETE
           then Inr (s\<lparr>pgheap := snd (liballoc_free (pgheap s) tag (sint (tag_pages (real_size (tags s tag)))))\<rparr>)
           else bindE (adjust_complete s index 1) (\<lambda>s1. insert_tag s1 tag index))
      else insert_tag s tag index)"

definition free :: "la \<Rightarrow> ptr \<Rightarrow> la run" where
  "free s p =
     (if p = NULL then Some (Inr s)
      else let tag = p - sizeof_tag in
           if magic (tags s tag) \<noteq> LIBALLOC_MAGIC then Some (Inr s)
           else bindR (melt_left_loop s tag) (\<lambda>(t1, s1).
                bindR (melt_right_loop s1 t1) (\<lambda>(t2, s2).
                Some (finish_free s2 t2))))"

text \<open>Writing through a null pointer is a fault.\<close>

definition calloc :: "la \<Rightarrow> u64 \<Rightarrow> u64 \<Rightarrow> (ptr \<times> la) run" where
  "calloc s nobj sz =
     (let real = word_of_int (sint (ucast (nobj * sz) :: u32)) :: u64 in
      bindR (malloc s real) (\<lambda>(p, s1).
      bindR (Some (guardE NullDeref (p \<noteq> NULL \<or> real = 0))) (\<lambda>_.
      bindR (Some (liballoc_memset (bytes s1) p 0 real)) (\<lambda>m.
      Some (Inr (p, s1\<lparr>bytes := m\<rparr>))))))"

definition realloc :: "la \<Rightarrow> ptr \<Rightarrow> u64 \<Rightarrow> (ptr \<times> la) run" where
  "realloc s p sz =
     (if sz = 0 then bindR (free s p) (\<lambda>s1. Some (Inr (NULL, s1)))
      else if p = NULL then malloc s sz
      else let old = word_of_int (sint (tsize (tags s (p - sizeof_tag)))) :: u64;
               real = (if sz < old then word_of_int (sint (ucast sz :: u32)) else old)
           in bindR (malloc s sz) (\<lambda>(q, s1).
              bindR (Some (guardE NullDeref (q \<noteq> NULL \<or> real = 0))) (\<lambda>_.
              bindR (free (s1\<lparr>bytes := liballoc_memcpy (bytes s1) q p real\<rparr>) p) (\<lambda>s2.
              Some (Inr (q, s2))))))"

section \<open>Exponents\<close>

lemma unat_push_bit_1:
  assumes "k < 32"
  shows "unat (2 ^ k :: u32) = 2 ^ k"
proof -
  have "(2::nat) ^ k < 2 ^ 32" using assms by (rule power_strict_increasing) simp
  then have "unat (of_nat (2 ^ k) :: u32) = 2 ^ k" by (simp only: unat_of_nat) simp
  then show ?thesis by simp
qed

lemma getexp_loop_spec:
  assumes "MINEXP \<le> shift" "shift \<le> MAXEXP" "2 ^ shift \<le> 2 * unat sz"
  shows "shift \<le> getexp_loop sz shift" "getexp_loop sz shift \<le> MAXEXP" "2 ^ getexp_loop sz shift \<le> 2 * unat sz"
    "unat sz < 2 ^ getexp_loop sz shift"
proof -
  have "shift \<le> getexp_loop sz shift \<and> getexp_loop sz shift \<le> MAXEXP \<and> 2 ^ getexp_loop sz shift \<le> 2 * unat sz
      \<and> unat sz < 2 ^ getexp_loop sz shift"
    using assms
  proof (induction sz shift rule: getexp_loop.induct)
    case (1 sz shift)
    show ?case
    proof (cases "shift < MAXEXP")
      case False
      then have "shift = 32" using 1(3) by (simp add: MAXEXP_def)
      then show ?thesis using False 1(2-4) unsigned_less[of sz, where 'a = nat]
        by (subst (1 2 3 4) getexp_loop.simps) (simp add: MAXEXP_def)
    next
      case True
      have p: "unat (2 ^ shift :: u32) = 2 ^ shift" using True by (intro unat_push_bit_1) (simp add: MAXEXP_def)
      show ?thesis
      proof (cases "sz < push_bit shift 1")
        case small: True
        then have "getexp_loop sz shift = shift" using True by (subst getexp_loop.simps) simp
        then show ?thesis using small 1(2-4) True by (simp add: word_less_nat_alt p)
      next
        case False
        then have "2 ^ Suc shift \<le> 2 * unat sz" by (simp add: word_less_nat_alt p not_less)
        moreover have "getexp_loop sz shift = getexp_loop sz (shift + 1)" using False True by (subst getexp_loop.simps) simp
        ultimately show ?thesis using 1(1)[OF True False] 1(2) True by simp
      qed
    qed
  qed
  then show "shift \<le> getexp_loop sz shift" "getexp_loop sz shift \<le> MAXEXP" "2 ^ getexp_loop sz shift \<le> 2 * unat sz"
    "unat sz < 2 ^ getexp_loop sz shift" by auto
qed

lemma getexp_small: "unat sz < 256 \<Longrightarrow> getexp sz = - 1"
  by (simp add: getexp_def MINEXP_def word_less_nat_alt)

lemma getexp_range:
  assumes "256 \<le> unat sz"
  shows "8 \<le> getexp sz" "getexp sz \<le> 31" "2 ^ nat (getexp sz) \<le> unat sz" "unat sz < 2 ^ Suc (nat (getexp sz))"
proof -
  let ?n = "getexp_loop sz (Suc 8)"
  have g: "getexp sz = int (getexp_loop sz 8) - 1" using assms by (simp add: getexp_def MINEXP_def word_less_nat_alt)
  have "getexp_loop sz 8 = ?n"
    using assms by (subst getexp_loop.simps) (simp add: MAXEXP_def word_less_nat_alt)
  moreover note L = getexp_loop_spec[of "Suc 8" sz]
  ultimately have n: "getexp sz = int ?n - 1" "Suc 8 \<le> ?n" "?n \<le> 32" "2 ^ ?n \<le> 2 * unat sz" "unat sz < 2 ^ ?n"
    using g L assms by (simp_all add: MINEXP_def MAXEXP_def)
  obtain k where k: "?n = Suc k" using n(2) by (cases ?n) auto
  show "8 \<le> getexp sz" "getexp sz \<le> 31" "2 ^ nat (getexp sz) \<le> unat sz" "unat sz < 2 ^ Suc (nat (getexp sz))"
    using n unfolding n(1) k by simp_all
qed

lemma tag_index_range: "0 \<le> tag_index t \<and> tag_index t < 32"
proof (cases "256 \<le> unat (payload t)")
  case True
  then show ?thesis using getexp_range[OF True] by (simp add: tag_index_def MINEXP_def)
next
  case False
  then show ?thesis using getexp_small[of "payload t"] by (simp add: tag_index_def MINEXP_def)
qed

section \<open>Free lists\<close>

text \<open>
  A stretch of a doubly linked list: the tags in order, what stands before the first and after the
  last.
\<close>

definition first :: "ptr list \<Rightarrow> ptr \<Rightarrow> ptr" where
  "first xs n = (case xs of [] \<Rightarrow> n | x # _ \<Rightarrow> x)"

definition final :: "ptr list \<Rightarrow> ptr \<Rightarrow> ptr" where
  "final xs q = (if xs = [] then q else last xs)"

fun seg :: "(ptr \<Rightarrow> boundary_tag) \<Rightarrow> ptr \<Rightarrow> ptr list \<Rightarrow> ptr \<Rightarrow> bool" where
  "seg T q [] n \<longleftrightarrow> True"
| "seg T q (x # xs) n \<longleftrightarrow> x \<noteq> NULL \<and> tprev (T x) = q \<and> tnext (T x) = first xs n \<and> seg T x xs n"

definition bucket_wf :: "la \<Rightarrow> int \<Rightarrow> ptr list \<Rightarrow> bool" where
  "bucket_wf s i ts \<longleftrightarrow> 0 \<le> i \<and> i < int (length (freePages s)) \<and> freePages s ! nat i = first ts NULL
     \<and> seg (tags s) NULL ts NULL \<and> distinct ts \<and> list_all (\<lambda>t. tindex (tags s t) = i) ts"

lemma first_simps [simp]: "first [] n = n" "first (x # xs) n = x"
  by (simp_all add: first_def)

lemma final_simps [simp]: "final [] q = q" "final (x # xs) q = final xs x"
  by (simp_all add: final_def)

lemma first_append: "first (xs @ ys) n = first xs (first ys n)"
  by (cases xs) simp_all

lemma seg_append: "seg T q (xs @ ys) n \<longleftrightarrow> seg T q xs (first ys n) \<and> seg T (final xs q) ys n"
  by (induction xs arbitrary: q) (auto simp: first_append)

lemma seg_cong:
  "(\<And>x. x \<in> set xs \<Longrightarrow> tprev (T' x) = tprev (T x) \<and> tnext (T' x) = tnext (T x)) \<Longrightarrow> seg T' q xs n = seg T q xs n"
  by (induction xs arbitrary: q) auto

lemma seg_nonnull: "seg T q xs n \<Longrightarrow> x \<in> set xs \<Longrightarrow> x \<noteq> NULL"
  by (induction xs arbitrary: q) auto

text \<open>Redirecting the pointer out of the last tag, and the pointer back from the first.\<close>

lemma seg_retarget_last:
  assumes "seg T q xs n" "distinct xs"
    and "\<And>x. x \<in> set xs \<Longrightarrow> tprev (T' x) = tprev (T x)"
    and "\<And>x. x \<in> set xs \<Longrightarrow> tnext (T' x) = (if x = last xs then n' else tnext (T x))"
  shows "seg T' q xs n'"
  using assms
proof (induction xs arbitrary: q)
  case (Cons x xs)
  show ?case
  proof (cases xs)
    case Nil
    then show ?thesis using Cons.prems by simp
  next
    case (Cons y ys)
    then have "seg T' x xs n'" using Cons.prems by (intro Cons.IH) auto
    moreover have "x \<noteq> last xs" using Cons.prems(2) \<open>xs = y # ys\<close> by (metis distinct.simps(2) last_in_set list.distinct(1))
    ultimately show ?thesis using Cons.prems(1,3,4) \<open>xs = y # ys\<close> by auto
  qed
qed simp

lemma seg_retarget_first:
  assumes "seg T q ys n" "distinct ys"
    and "\<And>x. x \<in> set ys \<Longrightarrow> tnext (T' x) = tnext (T x)"
    and "\<And>x. x \<in> set ys \<Longrightarrow> tprev (T' x) = (if x = hd ys then q' else tprev (T x))"
  shows "seg T' q' ys n"
proof (cases ys)
  case (Cons y zs)
  have "seg T' y zs n = seg T y zs n"
    using assms(2-4) Cons by (intro seg_cong) auto
  then show ?thesis using assms Cons by auto
qed simp

lemma tags_upd_tag [simp]: "tags (upd_tag s p f) = (tags s)(p := f (tags s p))"
  by (simp add: upd_tag_def)

lemma upd_tag_fields [simp]:
  "freePages (upd_tag s p f) = freePages s" "completePages (upd_tag s p f) = completePages s"
  "pgheap (upd_tag s p f) = pgheap s" "bytes (upd_tag s p f) = bytes s"
  by (simp_all add: upd_tag_def)

lemma set_bucket_ok:
  "0 \<le> i \<Longrightarrow> i < int (length (freePages s)) \<Longrightarrow> set_bucket s i p = Inr (s\<lparr>freePages := (freePages s)[nat i := p]\<rparr>)"
  by (simp add: set_bucket_def)

lemma insert_tag_spec:
  assumes wf: "bucket_wf s i ts" and new: "tag \<noteq> NULL" "tag \<notin> set ts" "tprev (tags s tag) = NULL" "tnext (tags s tag) = NULL"
  shows "\<exists>s'. insert_tag s tag i = Inr s' \<and> bucket_wf s' i (tag # ts)
    \<and> freePages s' = (freePages s)[nat i := tag]
    \<and> (\<forall>p. p \<noteq> tag \<longrightarrow> p \<noteq> first ts NULL \<longrightarrow> tags s' p = tags s p)
    \<and> (\<forall>p. real_size (tags s' p) = real_size (tags s p) \<and> split_left (tags s' p) = split_left (tags s p)
         \<and> split_right (tags s' p) = split_right (tags s p) \<and> tsize (tags s' p) = tsize (tags s p)
         \<and> magic (tags s' p) = magic (tags s p))"
proof -
  have B: "0 \<le> i" "i < int (length (freePages s))" "freePages s ! nat i = first ts NULL" "seg (tags s) NULL ts NULL"
    "distinct ts" "list_all (\<lambda>t. tindex (tags s t) = i) ts" using wf by (simp_all add: bucket_wf_def)
  let ?f = "first ts NULL"
  define s2 where "s2 = (let s1 = upd_tag s tag (\<lambda>t. t\<lparr>tindex := i\<rparr>) in
     if ?f \<noteq> NULL then upd_tag (upd_tag s1 ?f (\<lambda>t. t\<lparr>tprev := tag\<rparr>)) tag (\<lambda>t. t\<lparr>tnext := ?f\<rparr>) else s1)"
  let ?s = "s2\<lparr>freePages := (freePages s)[nat i := tag]\<rparr>"
  have fp: "freePages s2 = freePages s" by (simp add: s2_def Let_def)
  have run: "insert_tag s tag i = Inr ?s"
    using B(1-3) by (simp add: insert_tag_def Let_def s2_def set_bucket_ok)
  have ne: "?f \<noteq> tag" using new(1,2) by (cases ts) auto
  have nn: "ts \<noteq> [] \<Longrightarrow> ?f \<noteq> NULL" using seg_nonnull[OF B(4)] by (cases ts) auto
  have t2: "tags s2 p = (if p = tag then (tags s tag)\<lparr>tindex := i, tnext := ?f\<rparr>
      else if ts \<noteq> [] \<and> p = ?f then (tags s p)\<lparr>tprev := tag\<rparr> else tags s p)" for p
    using nn ne new(4) by (cases ts) (auto simp: s2_def Let_def)
  have "seg (tags s2) tag ts NULL"
    by (rule seg_retarget_first[OF B(4,5)]) (use new(2) in \<open>auto simp: t2 first_def split: list.splits\<close>)
  then have "bucket_wf ?s i (tag # ts)"
    using B(1,2,5,6) new by (auto simp: bucket_wf_def t2 list_all_iff)
  with run show ?thesis by (auto simp: t2)
qed

lemma remove_tag_spec:
  assumes wf: "bucket_wf s i (xs @ tag # ys)"
  shows "\<exists>s'. remove_tag s tag = Inr s' \<and> bucket_wf s' i (xs @ ys)
    \<and> tnext (tags s' tag) = NULL \<and> tprev (tags s' tag) = NULL \<and> tindex (tags s' tag) = - 1
    \<and> (\<forall>p. real_size (tags s' p) = real_size (tags s p) \<and> split_left (tags s' p) = split_left (tags s p)
         \<and> split_right (tags s' p) = split_right (tags s p) \<and> tsize (tags s' p) = tsize (tags s p))"
proof -
  let ?T = "tags s" and ?q = "final xs NULL" and ?n = "first ys NULL"
  have B: "0 \<le> i" "i < int (length (freePages s))" "freePages s ! nat i = first (xs @ tag # ys) NULL"
    "seg ?T NULL (xs @ tag # ys) NULL" "distinct (xs @ tag # ys)" "list_all (\<lambda>t. tindex (?T t) = i) (xs @ tag # ys)"
    using wf by (simp_all add: bucket_wf_def)
  have S: "seg ?T NULL xs tag" "tag \<noteq> NULL" "tprev (?T tag) = ?q" "tnext (?T tag) = ?n" "seg ?T tag ys NULL"
    using B(4) by (simp_all add: seg_append)
  have idx: "tindex (?T tag) = i" using B(6) by simp
  have front: "freePages s ! nat i = first xs tag" using B(3) by (simp add: first_append)
  have hd: "first xs tag = tag \<longleftrightarrow> xs = []" using B(5) by (cases xs) auto
  have nul: "?q = NULL \<longleftrightarrow> xs = []" "?n = NULL \<longleftrightarrow> ys = []"
  proof -
    show "?q = NULL \<longleftrightarrow> xs = []" using seg_nonnull[OF B(4), of ?q] by (cases "xs = []") (auto simp: final_def)
    show "?n = NULL \<longleftrightarrow> ys = []" using seg_nonnull[OF B(4), of ?n] by (cases ys) auto
  qed
  have qn: "xs \<noteq> [] \<Longrightarrow> ?q \<in> set xs" "ys \<noteq> [] \<Longrightarrow> ?n \<in> set ys"
    by (auto simp: final_def first_def split: list.splits)
  define s1 where "s1 = (if xs = [] then s\<lparr>freePages := (freePages s)[nat i := ?n]\<rparr> else s)"
  define s2 where "s2 = (if xs \<noteq> [] then upd_tag s1 ?q (\<lambda>t. t\<lparr>tnext := ?n\<rparr>) else s1)"
  define s3 where "s3 = (if ys \<noteq> [] then upd_tag s2 ?n (\<lambda>t. t\<lparr>tprev := ?q\<rparr>) else s2)"
  let ?s = "upd_tag s3 tag (\<lambda>t. t\<lparr>tnext := NULL, tprev := NULL, tindex := - 1\<rparr>)"
  have t1: "tags s1 = ?T" by (simp add: s1_def)
  have t2: "tags s2 p = (if xs \<noteq> [] \<and> p = ?q then (?T p)\<lparr>tnext := ?n\<rparr> else ?T p)" for p by (simp add: s2_def t1)
  have tq: "tag \<noteq> ?q \<or> xs = []" "tag \<noteq> ?n \<or> ys = []" using qn B(5) by auto
  have ts2: "tnext (tags s2 tag) = ?n" "tprev (tags s2 tag) = ?q" using tq(1) S(3,4) by (auto simp: t2)
  have a: "(if tprev (tags s1 tag) \<noteq> NULL
      then upd_tag s1 (tprev (tags s1 tag)) (\<lambda>t. t\<lparr>tnext := tnext (tags s1 tag)\<rparr>) else s1) = s2"
    by (simp add: t1 S(3,4) nul s2_def)
  have b: "(if tnext (tags s2 tag) \<noteq> NULL
      then upd_tag s2 (tnext (tags s2 tag)) (\<lambda>t. t\<lparr>tprev := tprev (tags s2 tag)\<rparr>) else s2) = s3"
    by (simp add: ts2 nul s3_def)
  have c1: "readE (freePages s) i = Inr (first xs tag)" by (simp add: B(1,2) front)
  have c2: "(if first xs tag = tag then set_bucket s i ?n else Inr s) = Inr s1"
    unfolding hd s1_def by (simp add: set_bucket_ok[OF B(1,2)])
  have run: "remove_tag s tag = Inr ?s"
    unfolding remove_tag_def idx S(4) c1 bindE_simps c2 Let_def a b by (rule refl)
  have sep: "xs \<noteq> [] \<Longrightarrow> ys \<noteq> [] \<Longrightarrow> ?q \<noteq> ?n" using qn B(5) by auto
  have t3: "tags ?s p = (if p = tag then (?T p)\<lparr>tnext := NULL, tprev := NULL, tindex := - 1\<rparr>
      else if xs \<noteq> [] \<and> p = ?q then (?T p)\<lparr>tnext := ?n\<rparr>
      else if ys \<noteq> [] \<and> p = ?n then (?T p)\<lparr>tprev := ?q\<rparr> else ?T p)" for p
  proof -
    have t3': "tags s3 x = (if ys \<noteq> [] \<and> x = ?n then (tags s2 x)\<lparr>tprev := ?q\<rparr> else tags s2 x)" for x by (simp add: s3_def)
    have self: "tags s3 tag = ?T tag" unfolding t3' t2 using tq by metis
    show ?thesis
    proof (cases "p = tag")
      case True
      then show ?thesis by (simp add: self)
    next
      case False
      then have "tags ?s p = tags s3 p" by simp
      also have "\<dots> = (if xs \<noteq> [] \<and> p = ?q then (?T p)\<lparr>tnext := ?n\<rparr>
          else if ys \<noteq> [] \<and> p = ?n then (?T p)\<lparr>tprev := ?q\<rparr> else ?T p)"
      proof (cases "xs \<noteq> [] \<and> p = ?q")
        case True
        then have "\<not> (ys \<noteq> [] \<and> p = ?n)" using sep by metis
        with True show ?thesis unfolding t3' t2 by (simp only: if_True if_False simp_thms)
      next
        case False
        then show ?thesis unfolding t3' t2 by (simp only: if_False)
      qed
      finally show ?thesis using False by (simp only: if_False)
    qed
  qed
  have "seg (tags ?s) NULL xs ?n"
    by (rule seg_retarget_last[OF S(1)]) (use B(5) qn in \<open>auto simp: t3 final_def simp del: tags_upd_tag\<close>)
  moreover have "seg (tags ?s) ?q ys NULL"
    by (rule seg_retarget_first[OF S(5)]) (use B(5) qn in \<open>auto simp: t3 first_def simp del: tags_upd_tag split: list.splits\<close>)
  moreover have "freePages ?s = (if xs = [] then (freePages s)[nat i := ?n] else freePages s)"
    by (simp add: s1_def s2_def s3_def)
  moreover have "list_all (\<lambda>t. tindex (tags ?s t) = i) (xs @ ys)"
  proof -
    have "tindex (tags ?s x) = i" if "x \<in> set (xs @ ys)" for x
    proof -
      have "x \<noteq> tag" using that B(5) by auto
      moreover have "tindex (?T x) = i" using that B(6) by (auto simp: list_all_iff)
      ultimately show ?thesis unfolding t3 by (auto simp del: tags_upd_tag)
    qed
    then show ?thesis unfolding list_all_iff by blast
  qed
  moreover have "first xs tag = first xs ?n" if "xs \<noteq> []" using that by (cases xs) auto
  ultimately have "bucket_wf ?s i (xs @ ys)"
    using B(1,2,5) front
    by (cases "xs = []") (simp_all add: bucket_wf_def seg_append first_append del: tags_upd_tag upd_tag_fields(1))
  moreover have "real_size (tags ?s p) = real_size (?T p) \<and> split_left (tags ?s p) = split_left (?T p)
      \<and> split_right (tags ?s p) = split_right (?T p) \<and> tsize (tags ?s p) = tsize (?T p)" for p
    unfolding t3 by simp
  moreover have "tnext (tags ?s tag) = NULL" "tprev (tags ?s tag) = NULL" "tindex (tags ?s tag) = - 1" by simp_all
  ultimately show ?thesis using run by blast
qed

section \<open>Copying\<close>

lemma copy_up_front: "copy_up m d s (Suc n) = copy_up (m(d := m s)) (d + 1) (s + 1) n"
proof (induction n)
  case (Suc n)
  have "copy_up m d s (Suc (Suc n)) = (let m' = copy_up m d s (Suc n) in m'(d + of_nat (Suc n) := m' (s + of_nat (Suc n))))"
    by (rule copy_up.simps(2))
  also have "\<dots> = copy_up (m(d := m s)) (d + 1) (s + 1) (Suc n)"
    unfolding Suc by (simp add: Let_def add.assoc)
  finally show ?case .
qed simp

definition disjoint_blocks :: "ptr \<Rightarrow> ptr \<Rightarrow> nat \<Rightarrow> bool" where
  "disjoint_blocks d s n \<longleftrightarrow> (\<forall>i < n. \<forall>j < n. d + of_nat i \<noteq> s + of_nat j)"

lemma disjoint_blocks_shift: "disjoint_blocks d s (k + n) \<Longrightarrow> disjoint_blocks (d + of_nat k) (s + of_nat k) n"
  unfolding disjoint_blocks_def
proof (intro allI impI)
  fix i j assume *: "\<forall>i < k + n. \<forall>j < k + n. d + of_nat i \<noteq> s + of_nat j" "i < n" "j < n"
  then have "d + of_nat (k + i) \<noteq> s + of_nat (k + j)" by (meson add_strict_left_mono)
  then show "d + of_nat k + of_nat i \<noteq> s + of_nat k + of_nat j" by (simp add: add.assoc)
qed

lemma copy4_up:
  assumes "disjoint_blocks d s 4"
  shows "copy4 m d s = copy_up m d s 4"
proof -
  have D: "d + of_nat i \<noteq> s + of_nat j" if "i < 4" "j < 4" for i j using assms that by (simp add: disjoint_blocks_def)
  have "d \<noteq> s + 1" "d \<noteq> s + 2" "d \<noteq> s + 3" "d + 1 \<noteq> s + 2" "d + 1 \<noteq> s + 3" "d + 2 \<noteq> s + 3"
    using D[of 0 1] D[of 0 2] D[of 0 3] D[of 1 2] D[of 1 3] D[of 2 3] by simp_all
  moreover have "copy_up m d s 4 = copy_up m d s (Suc (Suc (Suc (Suc 0))))" by (simp add: numeral_eq_Suc)
  ultimately show ?thesis by (simp add: copy4_def Let_def)
qed

lemma copy_up_add: "copy_up m d s (k + n) = copy_up (copy_up m d s k) (d + of_nat k) (s + of_nat k) n"
proof (induction k arbitrary: m d s)
  case (Suc k)
  have "copy_up m d s (Suc k + n) = copy_up (m(d := m s)) (d + 1) (s + 1) (k + n)"
    using copy_up_front[of m d s "k + n"] by simp
  also have "\<dots> = copy_up (copy_up (m(d := m s)) (d + 1) (s + 1) k) (d + 1 + of_nat k) (s + 1 + of_nat k) n"
    by (rule Suc.IH)
  finally show ?case by (simp only: copy_up_front[of m d s k]) (simp add: add.assoc)
qed simp

lemma liballoc_memcpy_loop_up:
  "disjoint_blocks d s n \<Longrightarrow> liballoc_memcpy_loop m d s n = copy_up m d s n"
proof (induction m d s n rule: liballoc_memcpy_loop.induct)
  case (1 m d s n)
  consider "4 \<le> n" | "n < 4" "0 < n" | "n = 0" by linarith
  then show ?case
  proof cases
    case 1
    then obtain k where k: "n = 4 + k" by (metis le_iff_add)
    have d4: "disjoint_blocks d s 4" using "1.prems" k by (simp add: disjoint_blocks_def)
    have dk: "disjoint_blocks (d + 4) (s + 4) k" using disjoint_blocks_shift[of d s 4 k] "1.prems" k by simp
    have "liballoc_memcpy_loop m d s n = liballoc_memcpy_loop (copy4 m d s) (d + 4) (s + 4) k"
      using k by (subst liballoc_memcpy_loop.simps) simp
    also have "\<dots> = copy_up (copy_up m d s 4) (d + 4) (s + 4) k"
      using "1.IH"(1)[OF 1] dk k by (simp add: copy4_up[OF d4])
    finally show ?thesis using copy_up_add[of m d s 4 k] k by simp
  next
    case 2
    then obtain k where k: "n = Suc k" by (cases n) auto
    have dk: "disjoint_blocks (d + 1) (s + 1) k" using disjoint_blocks_shift[of d s 1 k] "1.prems" k by simp
    have "liballoc_memcpy_loop m d s n = liballoc_memcpy_loop (m(d := m s)) (d + 1) (s + 1) k"
      using 2 k by (subst liballoc_memcpy_loop.simps) simp
    also have "\<dots> = copy_up (m(d := m s)) (d + 1) (s + 1) k"
      using "1.IH"(2) 2 dk k by (simp add: fun_upd_def)
    finally show ?thesis unfolding k copy_up_front .
  next
    case 3
    then show ?thesis by (subst liballoc_memcpy_loop.simps) simp
  qed
qed

section \<open>Properties\<close>

text \<open>\<^verbatim>\<open>getexp\<close> returns n with 2^n at most the size and the size below 2^(n+1), as its comment says, for
  every size from 256 on, always within the 32 buckets; below 256 it returns -1.
\<close>

theorem getexp_bounds:
  "if unat sz < 256 then getexp sz = - 1
   else 8 \<le> getexp sz \<and> getexp sz < int MAXEXP \<and> 2 ^ nat (getexp sz) \<le> unat sz \<and> unat sz < 2 ^ Suc (nat (getexp sz))"
proof (cases "unat sz < 256")
  case False
  then show ?thesis using getexp_range[of sz] by (simp add: MAXEXP_def)
qed (simp add: getexp_small)

text \<open>The free lists are doubly linked lists: taking any tag out of a bucket with \<^verbatim>\<open>remove_tag\<close> and putting
  it back with \<^verbatim>\<open>insert_tag\<close> succeeds and moves it to the front, with every other tag in place.
\<close>

theorem remove_insert_tag:
  assumes "bucket_wf s i (xs @ tag # ys)"
  shows "\<exists>s1 s2. remove_tag s tag = Inr s1 \<and> bucket_wf s1 i (xs @ ys)
    \<and> insert_tag s1 tag i = Inr s2 \<and> bucket_wf s2 i (tag # xs @ ys)"
proof -
  from remove_tag_spec[OF assms] obtain s1 where s1: "remove_tag s tag = Inr s1" "bucket_wf s1 i (xs @ ys)"
    "tnext (tags s1 tag) = NULL" "tprev (tags s1 tag) = NULL" by blast
  have "distinct (xs @ tag # ys)" "seg (tags s) NULL (xs @ tag # ys) NULL" using assms by (simp_all add: bucket_wf_def)
  then have "tag \<notin> set (xs @ ys)" "tag \<noteq> NULL" by (auto simp: seg_append)
  from insert_tag_spec[OF s1(2) this(2,1) s1(4,3)] s1 show ?thesis by blast
qed

definition demo_la :: la where
  "demo_la = \<lparr>tags = (\<lambda>p. \<lparr>magic = LIBALLOC_MAGIC, tsize = 0, real_size = 4096, tindex = 11, split_left = 0,
       split_right = 0, tnext = (if p = 0x1000 then 0x2000 else 0), tprev = (if p = 0x2000 then 0x1000 else 0)\<rparr>),
     freePages = (replicate 32 0)[11 := 0x1000], completePages = replicate 32 0, initialized = True,
     bytes = (\<lambda>_. 0), pgheap = \<lparr>head_next = 0, node_at = (\<lambda>_. \<lparr>pages = 0, node_next = 0\<rparr>), heap_end = 0, vm = boot_mm\<rparr>\<rparr>"

theorem remove_insert_tag_witness:
  "\<exists>s1 s2. remove_tag demo_la 0x2000 = Inr s1 \<and> insert_tag s1 0x2000 11 = Inr s2 \<and> bucket_wf s2 11 [0x2000, 0x1000]"
proof -
  have "bucket_wf demo_la 11 ([0x1000] @ 0x2000 # [])" by (simp add: bucket_wf_def demo_la_def)
  from remove_insert_tag[OF this] show ?thesis by auto
qed

text \<open>Splitting a block conserves its bytes: the front part keeps the header and the requested size, the
  new tag behind it gets all the rest, and the two point at each other and at the old right
  neighbour.
\<close>

theorem split_tag_conserves:
  assumes fit: "48 + unat (tsize (tags s tag)) \<le> unat (real_size (tags s tag))"
    and buckets: "length (freePages s) = 32"
    and new: "new = tag + sizeof_tag + ucast (tsize (tags s tag))" "new \<noteq> tag" "new \<noteq> split_right (tags s tag)"
    and right: "split_right (tags s tag) \<noteq> tag"
  shows "\<exists>s'. split_tag s tag = Inr (new, s')
    \<and> unat (real_size (tags s' tag)) = 48 + unat (tsize (tags s tag))
    \<and> unat (real_size (tags s' tag)) + unat (real_size (tags s' new)) = unat (real_size (tags s tag))
    \<and> split_right (tags s' tag) = new \<and> split_left (tags s' new) = tag
    \<and> split_right (tags s' new) = split_right (tags s tag)
    \<and> (split_right (tags s tag) \<noteq> NULL \<longrightarrow> split_left (tags s' (split_right (tags s tag))) = new)"
proof -
  let ?t = "tags s tag" and ?r = "split_right (tags s tag)"
  define rem where "rem = (ucast (ucast (real_size ?t) - sizeof_tag - ucast (tsize ?t)) :: u32)"
  have "unat (ucast (real_size ?t) - sizeof_tag - ucast (tsize ?t) :: u64) = unat (real_size ?t) - 48 - unat (tsize ?t)"
    using fit by (simp add: unat_sub word_le_nat_alt sizeof_tag_def unat_ucast_up)
  then have rem: "unat rem = unat (real_size ?t) - 48 - unat (tsize ?t)"
    using unsigned_less[of "real_size ?t", where 'a = nat]
    by (simp add: rem_def unsigned_ucast_eq take_bit_nat_eq_self)
  define s5 where "s5 = upd_tag (upd_tag (if ?r \<noteq> NULL
      then upd_tag (upd_tag (upd_tag s new (\<lambda>n. n\<lparr>magic := LIBALLOC_MAGIC, real_size := rem, tnext := NULL, tprev := NULL, split_left := tag\<rparr>))
             new (\<lambda>n. n\<lparr>split_right := ?r\<rparr>)) ?r (\<lambda>n. n\<lparr>split_left := new\<rparr>)
      else upd_tag (upd_tag s new (\<lambda>n. n\<lparr>magic := LIBALLOC_MAGIC, real_size := rem, tnext := NULL, tprev := NULL, split_left := tag\<rparr>))
             new (\<lambda>n. n\<lparr>split_right := ?r\<rparr>))
      tag (\<lambda>n. n\<lparr>split_right := new\<rparr>)) tag (\<lambda>n. n\<lparr>real_size := real_size n - rem\<rparr>)"
  have run: "split_tag s tag = bindE (insert_tag s5 new (- 1)) (\<lambda>s6. Inr (new, s6))"
    using new right by (simp add: split_tag_def Let_def rem_def[symmetric] s5_def)
  have t5: "real_size (tags s5 tag) = real_size ?t - rem" "real_size (tags s5 new) = rem" "split_right (tags s5 tag) = new"
    "split_left (tags s5 new) = tag" "split_right (tags s5 new) = ?r" "?r \<noteq> NULL \<Longrightarrow> split_left (tags s5 ?r) = new"
    using new right by (simp_all add: s5_def)
  have fp: "freePages s5 = freePages s" by (simp add: s5_def)
  obtain s' where s': "insert_tag s5 new (- 1) = Inr s'"
    and keep: "\<And>p. real_size (tags s' p) = real_size (tags s5 p) \<and> split_left (tags s' p) = split_left (tags s5 p)
      \<and> split_right (tags s' p) = split_right (tags s5 p)"
  proof -
    define i where "i = tag_index (tags s5 new)"
    have i: "0 \<le> i" "i < int (length (freePages s5))" using tag_index_range buckets by (simp_all add: i_def fp)
    show ?thesis using i that
      by (auto simp: insert_tag_def i_def[symmetric] Let_def set_bucket_ok)
  qed
  have "unat (real_size ?t - rem) = unat (real_size ?t) - unat rem"
    using rem fit by (intro unat_sub) (simp add: word_le_nat_alt)
  then show ?thesis using run s' keep t5 rem fit by (intro exI[of _ s']) simp
qed

theorem split_tag_conserves_witness:
  "\<exists>s'. split_tag demo_la 0x1000 = Inr (0x1030, s') \<and> unat (real_size (tags s' 0x1030)) = 4048"
  using split_tag_conserves[of demo_la "0x1000" "0x1030"] by (force simp: demo_la_def sizeof_tag_def)

text \<open>(C38) \<^verbatim>\<open>liballoc_memcpy\<close>, which copies four bytes at a time and the rest one by one, copies the block
  exactly when source and target do not overlap.
\<close>

theorem liballoc_memcpy_copies:
  assumes "disjoint_blocks d s (unat n)"
  shows "liballoc_memcpy m d s n = block_copy m d s (unat n)"
proof -
  have "liballoc_memcpy m d s n = copy_up m d s (unat n)"
    unfolding liballoc_memcpy_def by (rule liballoc_memcpy_loop_up[OF assms])
  also have "\<dots> = block_copy m d s (unat n)"
    using assms by (intro copy_up_block unat_le_2p64) (auto simp: disjoint_blocks_def)
  finally show ?thesis .
qed

theorem liballoc_memcpy_copies_witness:
  "liballoc_memcpy (\<lambda>a. ucast a) 0x100 0x200 7 = block_copy (\<lambda>a. ucast a) 0x100 0x200 7"
proof -
  have "disjoint_blocks 0x100 0x200 (unat (7 :: u64))"
    unfolding disjoint_blocks_def
  proof (intro allI impI notI)
    fix i j assume "i < unat (7 :: u64)" "j < unat (7 :: u64)" "0x100 + of_nat i = (0x200 + of_nat j :: ptr)"
    then have "unat (0x100 + of_nat i :: ptr) = unat (0x200 + of_nat j :: ptr)" "i < 7" "j < 7" by simp_all
    then show False using unat_add_of_nat[of "0x100 :: ptr" i] unat_add_of_nat[of "0x200 :: ptr" j] by simp
  qed
  from liballoc_memcpy_copies[OF this] show ?thesis by simp
qed

text \<open>\<^verbatim>\<open>calloc\<close> computes the size in an \<^verbatim>\<open>int\<close>, so a request whose size wraps is served with a smaller
  block: asking for 65536 objects of 65536 bytes allocates none of them, and clears nothing.
\<close>

theorem calloc_size_wraps: "calloc s 65536 65536 = malloc s 0"
proof -
  have "liballoc_memset m p 0 0 = Inr m" for m p by (simp add: liballoc_memset_def INT_MAX_def)
  then show ?thesis
    by (simp add: calloc_def Let_def bindR_def split: option.split sum.split)
qed

end
