(* ===== verification/Terminal.thy ===== *)
theory Terminal
  imports Prelude
begin

text \<open>
  The framebuffer console: \<^verbatim>\<open>lethe-kernel/terminal/pixel.c\<close> and \<^verbatim>\<open>lethe-kernel/terminal/tty.c\<close>. The
  framebuffer is a memory of 32-bit pixels indexed by address; the font is an argument, the bytes of
  the PSF image by their offset from its start. The loops over rows and columns are folds over the
  coordinates in the order of the source.
\<close>

section \<open>Pixels\<close>

record fb =
  fb_base :: u64
  fb_pitch :: u32
  fb_yres :: int
  fb_xres :: int
  fb_init :: bool
  pixels :: "u64 \<Rightarrow> u32"

text \<open>\<^verbatim>\<open>fb_base + (fb_pitch * y) + (4 * x)\<close>: the product is 32 bits wide.\<close>

definition pixel_addr :: "fb \<Rightarrow> int \<Rightarrow> int \<Rightarrow> u64" where
  "pixel_addr f x y = fb_base f + ucast (fb_pitch f * word_of_int y) + word_of_int (4 * x)"

definition put_pixel :: "fb \<Rightarrow> int \<Rightarrow> int \<Rightarrow> u32 \<Rightarrow> fb" where
  "put_pixel f x y color =
     (if \<not> fb_init f then f else f\<lparr>pixels := (pixels f)(pixel_addr f x y := color)\<rparr>)"

definition fill_coords :: "int \<Rightarrow> int \<Rightarrow> int \<Rightarrow> int \<Rightarrow> (int \<times> int) list" where
  "fill_coords sx sy w h =
     concat (map (\<lambda>x. map (\<lambda>y. (x, y)) [sy .. sy + h - 1]) [sx .. sx + w - 1])"

definition fill :: "fb \<Rightarrow> int \<Rightarrow> int \<Rightarrow> int \<Rightarrow> int \<Rightarrow> u32 \<Rightarrow> fb" where
  "fill f sx sy w h color =
     (if \<not> fb_init f then f
      else foldl (\<lambda>g (x, y). g\<lparr>pixels := (pixels g)(pixel_addr g x y := color)\<rparr>) f (fill_coords sx sy w h))"

definition test_pixels :: "fb \<Rightarrow> fb" where
  "test_pixels f =
     (let x = fb_xres f sdiv 8 in
      foldl (\<lambda>g (k, color). fill g (x * k) 0 x (fb_yres g) color) f
        [(0, 0xFF0000), (1, 0x00FF00), (2, 0x0000FF), (3, 0xFFFF00),
         (4, 0xFF00FF), (5, 0x00FFFF), (6, 0xFFFFFF), (7, 0x000000)])"

text \<open>\<^verbatim>\<open>init_fb\<close> with the fields of the first framebuffer of the boot response.\<close>

definition init_fb :: "fb \<Rightarrow> u64 \<Rightarrow> u64 \<Rightarrow> u64 \<Rightarrow> u64 \<Rightarrow> fb" where
  "init_fb f address pitch width height =
     f\<lparr>fb_base := address, fb_pitch := ucast pitch, fb_xres := sint (ucast width :: u32),
       fb_yres := sint (ucast height :: u32), fb_init := True\<rparr>"

section \<open>The console\<close>

record tty =
  cursor :: u32
  line :: u32
  screen :: fb

definition set_cursor :: "tty \<Rightarrow> u32 \<Rightarrow> u32 \<Rightarrow> tty" where
  "set_cursor t new_cursor new_line = t\<lparr>cursor := new_cursor, line := new_line\<rparr>"

definition get_cursor :: "tty \<Rightarrow> u64" where
  "get_cursor t = push_bit 32 (ucast (cursor t)) OR ucast (line t)"

definition clear_screen :: "tty \<Rightarrow> tty" where
  "clear_screen t =
     set_cursor (t\<lparr>screen := fill (screen t) 0 0 (fb_xres (screen t)) (fb_yres (screen t)) 0\<rparr>) 1 1"

text \<open>The pixels of one glyph: row j, column i, white where the font has the bit, mask first.\<close>

definition glyph_pixels :: "(int \<Rightarrow> u8) \<Rightarrow> u8 \<Rightarrow> u32 \<Rightarrow> u32 \<Rightarrow> (int \<times> int \<times> u32) list" where
  "glyph_pixels font ch cur ln =
     concat (map (\<lambda>j. map (\<lambda>i.
         (uint (cur * 8) + int i, uint (ln * 16) + int j,
          if bit (font (32 + sint ch * 16 + int j)) (7 - i) then 0xFFFFFF else 0))
       [0..<8]) [0..<16])"

definition draw_glyph :: "(int \<Rightarrow> u8) \<Rightarrow> tty \<Rightarrow> u8 \<Rightarrow> tty" where
  "draw_glyph font t ch =
     t\<lparr>screen := foldl (\<lambda>f (x, y, c). put_pixel f x y c) (screen t) (glyph_pixels font ch (cursor t) (line t))\<rparr>"

text \<open>The position the glyph is drawn at, after the wrap to the next line and the clearing.\<close>

definition wrap_cursor :: "tty \<Rightarrow> tty" where
  "wrap_cursor t =
     (let t1 = (if 80 \<le> cursor t then t\<lparr>cursor := 1, line := line t + 1\<rparr> else t)
      in if 25 \<le> line t1 then (clear_screen t1)\<lparr>cursor := 1, line := 1\<rparr> else t1)"

definition tty_putc :: "(int \<Rightarrow> u8) \<Rightarrow> tty \<Rightarrow> u8 \<Rightarrow> tty" where
  "tty_putc font t ch =
     (if ch = 10 then t\<lparr>cursor := 1, line := line t + 1\<rparr>
      else if ch = 9 then t\<lparr>cursor := cursor t + 4\<rparr>
      else let t1 = draw_glyph font (wrap_cursor t) ch in t1\<lparr>cursor := cursor t1 + 1\<rparr>)"

definition tty_delc :: "(int \<Rightarrow> u8) \<Rightarrow> tty \<Rightarrow> tty" where
  "tty_delc font t =
     (if cursor t = 0
      then if line t = 0
           then let t1 = tty_putc font t (ascii CHR '' '') in t1\<lparr>cursor := cursor t1 - 1\<rparr>
           else let t1 = tty_putc font (t\<lparr>cursor := 79, line := line t - 1\<rparr>) (ascii CHR '' '') in
                t1\<lparr>cursor := cursor t1 - 1\<rparr>
      else let t1 = tty_putc font (t\<lparr>cursor := cursor t - 1\<rparr>) (ascii CHR '' '') in
           t1\<lparr>cursor := cursor t1 - 1\<rparr>)"

section \<open>Lemmas\<close>

lemma wrap_cursor_bounds: "cursor (wrap_cursor t) < 80" "line (wrap_cursor t) < 25"
  by (simp_all add: wrap_cursor_def clear_screen_def set_cursor_def Let_def not_le)

lemma put_pixel_fields [simp]:
  "fb_base (put_pixel f x y c) = fb_base f" "fb_pitch (put_pixel f x y c) = fb_pitch f"
  "fb_xres (put_pixel f x y c) = fb_xres f" "fb_yres (put_pixel f x y c) = fb_yres f"
  "fb_init (put_pixel f x y c) = fb_init f" "pixel_addr (put_pixel f x y c) = pixel_addr f"
  by (simp_all add: put_pixel_def pixel_addr_def fun_eq_iff)

lemma unat_small_mult:
  fixes w :: u32
  assumes "w < n" "unat n * k < 2 ^ 32" "0 < k" "k < 2 ^ 32"
  shows "unat (w * of_nat k) = unat w * k"
proof -
  have "unat w * k < 2 ^ 32"
    using assms(1,2) le_less_trans[OF mult_le_mono1[of "unat w" "unat n" k]] by (simp add: word_less_nat_alt less_imp_le)
  moreover have "unat (of_nat k :: u32) = k" using assms(4) by (simp add: unat_of_nat)
  ultimately show ?thesis by (simp add: unat_word_ariths)
qed

lemma glyph_pixels_mem:
  "(x, y, c) \<in> set (glyph_pixels font ch cur ln) \<longleftrightarrow>
     (\<exists>i j. i < 8 \<and> j < 16 \<and> x = uint (cur * 8) + int i \<and> y = uint (ln * 16) + int j
        \<and> c = (if bit (font (32 + sint ch * 16 + int j)) (7 - i) then 0xFFFFFF else 0))"
proof -
  have "(x, y, c) \<in> set (glyph_pixels font ch cur ln) \<longleftrightarrow>
     (\<exists>j \<in> {0..<16}. \<exists>i \<in> {0..<8}. (x, y, c) = (uint (cur * 8) + int i, uint (ln * 16) + int j,
        if bit (font (32 + sint ch * 16 + int j)) (7 - i) then 0xFFFFFF else 0))"
    unfolding glyph_pixels_def by (simp only: set_concat image_image set_map set_upt UN_iff image_iff)
  then show ?thesis by (simp only: Bex_def atLeastLessThan_iff prod.inject) blast
qed

lemma cell_bounds:
  fixes cur ln :: u32
  assumes "cur < 80" "ln < 25"
  shows "uint (cur * 8) = 8 * uint cur" "uint (ln * 16) = 16 * uint ln" "uint cur < 80" "uint ln < 25"
proof -
  have "unat (cur * 8) = unat cur * 8" using unat_small_mult[OF assms(1), of 8] by simp
  then show "uint (cur * 8) = 8 * uint cur" unfolding uint_nat by linarith
  have "unat (ln * 16) = unat ln * 16" using unat_small_mult[OF assms(2), of 16] by simp
  then show "uint (ln * 16) = 16 * uint ln" unfolding uint_nat by linarith
  show "uint cur < 80" "uint ln < 25" using assms by (simp_all add: word_less_def)
qed

lemma glyph_pixels_bounds:
  assumes "(x, y, c) \<in> set (glyph_pixels font ch cur ln)" "cur < 80" "ln < 25"
  shows "0 \<le> x \<and> x < 640 \<and> 0 \<le> y \<and> y < 400"
proof -
  from assms(1) obtain i j where "i < (8::nat)" "j < (16::nat)" "x = uint (cur * 8) + int i" "y = uint (ln * 16) + int j"
    unfolding glyph_pixels_mem by blast
  moreover have "0 \<le> uint cur" "0 \<le> uint ln" by simp_all
  ultimately show ?thesis using cell_bounds[OF assms(2,3)] by linarith
qed

text \<open>What a sequence of pixel writes leaves behind: the last write to each address.\<close>

lemma foldl_put_pixel_other:
  "(\<And>x y c. (x, y, c) \<in> set ps \<Longrightarrow> pixel_addr f x y \<noteq> a) \<Longrightarrow>
     pixels (foldl (\<lambda>f (x, y, c). put_pixel f x y c) f ps) a = pixels f a"
proof (induction ps arbitrary: f)
  case (Cons p ps)
  obtain x y c where p: "p = (x, y, c)" by (cases p)
  have "pixels (foldl (\<lambda>f (x, y, c). put_pixel f x y c) (put_pixel f x y c) ps) a = pixels (put_pixel f x y c) a"
    using Cons.prems by (intro Cons.IH) auto
  then show ?case using Cons.prems[of x y c] by (auto simp: p put_pixel_def)
qed simp

text \<open>A framebuffer of at least 640 by 400 pixels that does not wrap.\<close>

definition fb_ok :: "fb \<Rightarrow> bool" where
  "fb_ok f \<longleftrightarrow> fb_init f \<and> 4 * 640 \<le> unat (fb_pitch f) \<and> 400 * unat (fb_pitch f) < 2 ^ 32
     \<and> unat (fb_base f) + 400 * unat (fb_pitch f) < 2 ^ 64"

text \<open>The address of a pixel of an area whose lines fit the pitch and whose bytes fit 32 bits.\<close>

lemma pixel_offset_less:
  assumes "4 * w \<le> unat (fb_pitch f)" "0 \<le> x" "nat x < w" "0 \<le> y" "nat y < h"
  shows "unat (fb_pitch f) * nat y + 4 * nat x < h * unat (fb_pitch f)"
proof -
  let ?p = "unat (fb_pitch f)"
  obtain k where k: "h = Suc k" using assms(5) by (cases h) auto
  have "?p * nat y \<le> ?p * k" using assms(5) k by (intro mult_le_mono2) simp
  moreover have "4 * nat x < ?p" using assms(1,3) by simp
  moreover have "h * ?p = ?p * k + ?p" by (simp add: k)
  ultimately show ?thesis by linarith
qed

lemma pixel_addr_offset:
  assumes "4 * w \<le> unat (fb_pitch f)" "h * unat (fb_pitch f) < 2 ^ 32" "unat (fb_base f) + h * unat (fb_pitch f) < 2 ^ 64"
    and "0 \<le> x" "nat x < w" "0 \<le> y" "nat y < h"
  shows "unat (pixel_addr f x y) = unat (fb_base f) + unat (fb_pitch f) * nat y + 4 * nat x"
proof -
  let ?p = "unat (fb_pitch f)"
  have py: "?p * nat y + 4 * nat x < h * ?p" using pixel_offset_less[OF assms(1,4-7)] .
  have "0 < ?p" using assms(1,5) by linarith
  then have "nat y < h * ?p" using assms(7) by (cases ?p) auto
  then have "unat (word_of_int y :: u32) = nat y" using assms(2,6) by (intro unat_word_of_int) simp_all
  then have m: "unat (fb_pitch f * word_of_int y) = ?p * nat y" using py assms(2) by (simp add: unat_word_ariths)
  have "word_of_int (4 * x) = (of_nat (4 * nat x) :: u64)"
    using assms(4) by (metis of_int_of_nat_eq of_nat_mult of_nat_numeral int_nat_eq)
  then have "pixel_addr f x y = fb_base f + of_nat (?p * nat y + 4 * nat x)"
    by (simp add: pixel_addr_def m[symmetric] of_nat_add add.assoc)
  then show ?thesis using unat_add_of_nat[of "fb_base f" "?p * nat y + 4 * nat x"] py assms(3) by simp
qed

lemma pixel_addr_unat:
  assumes "fb_ok f" "0 \<le> x" "x < 640" "0 \<le> y" "y < 400"
  shows "unat (pixel_addr f x y) = unat (fb_base f) + unat (fb_pitch f) * nat y + 4 * nat x"
  using assms by (intro pixel_addr_offset[of 640 f 400]) (simp_all add: fb_ok_def)

text \<open>Distinct positions on the 640 by 400 area have distinct addresses.\<close>

lemma pixel_addr_inj:
  assumes "fb_ok f" "0 \<le> x" "x < 640" "0 \<le> y" "y < 400" "0 \<le> x'" "x' < 640" "0 \<le> y'" "y' < 400"
  shows "pixel_addr f x y = pixel_addr f x' y' \<longleftrightarrow> x = x' \<and> y = y'"
proof
  let ?p = "unat (fb_pitch f)"
  assume "pixel_addr f x y = pixel_addr f x' y'"
  then have e: "4 * nat x + nat y * ?p = 4 * nat x' + nat y' * ?p"
    using pixel_addr_unat[OF assms(1-5)] pixel_addr_unat[OF assms(1) assms(6-9)]
    by (simp only: add.assoc add_left_cancel add.commute mult.commute)
  have l: "4 * nat x < ?p" "4 * nat x' < ?p" using assms(1-3,6,7) unfolding fb_ok_def by linarith+
  have "nat y = nat y'" using arg_cong[OF e, of "\<lambda>n. n div ?p"] l by simp
  moreover from this have "nat x = nat x'" using e by simp
  ultimately show "x = x' \<and> y = y'" using assms(2,4,6,8) by (metis int_nat_eq)
qed simp

lemma foldl_put_pixel_fields [simp]:
  "fb_base (foldl (\<lambda>f (x, y, c). put_pixel f x y c) f ps) = fb_base f"
  "fb_pitch (foldl (\<lambda>f (x, y, c). put_pixel f x y c) f ps) = fb_pitch f"
  "fb_init (foldl (\<lambda>f (x, y, c). put_pixel f x y c) f ps) = fb_init f"
  by (induction ps arbitrary: f) auto

text \<open>When no two writes of different colours share an address, every write is kept.\<close>

lemma foldl_put_pixel_at:
  assumes "(x, y, c) \<in> set ps" "pixel_addr f x y = a" "fb_init f"
    "\<And>x' y' c'. (x', y', c') \<in> set ps \<Longrightarrow> pixel_addr f x' y' = a \<Longrightarrow> c' = c"
  shows "pixels (foldl (\<lambda>f (x, y, c). put_pixel f x y c) f ps) a = c"
  using assms
proof (induction ps arbitrary: f x y)
  case (Cons p ps)
  obtain px py pc where p: "p = (px, py, pc)" by (cases p)
  let ?g = "put_pixel f px py pc"
  show ?case
  proof (cases "\<exists>x' y' c'. (x', y', c') \<in> set ps \<and> pixel_addr f x' y' = a")
    case True
    then obtain x' y' c' where m: "(x', y', c') \<in> set ps" "pixel_addr f x' y' = a" by blast
    then have "c' = c" using Cons.prems(4)[of x' y' c'] by simp
    then have "(x', y', c) \<in> set ps" using m(1) by simp
    then have "pixels (foldl (\<lambda>f (x, y, c). put_pixel f x y c) ?g ps) a = c"
      using m(2) Cons.prems(3,4) by (intro Cons.IH[of x' y' ?g]) (auto simp del: foldl.simps)
    then show ?thesis by (simp only: p foldl.simps prod.case)
  next
    case False
    then have "pixels (foldl (\<lambda>f (x, y, c). put_pixel f x y c) ?g ps) a = pixels ?g a"
      by (intro foldl_put_pixel_other) auto
    moreover have "p = (x, y, c)" using Cons.prems(1,2) False by auto
    ultimately show ?thesis using Cons.prems(2,3) by (simp add: p put_pixel_def)
  qed
qed simp

lemma foldl_keeps: "(\<And>g p. k (h g p) = k g) \<Longrightarrow> k (foldl h f ps) = k f"
  by (induction ps arbitrary: f) simp_all

lemma fill_fields [simp]:
  "fb_base (fill f sx sy w h c) = fb_base f" "fb_pitch (fill f sx sy w h c) = fb_pitch f"
  "fb_init (fill f sx sy w h c) = fb_init f"
  unfolding fill_def by (simp_all add: foldl_keeps[where k = fb_base] foldl_keeps[where k = fb_pitch]
      foldl_keeps[where k = fb_init] split_beta)

lemma wrap_cursor_fb [simp]:
  "fb_base (screen (wrap_cursor t)) = fb_base (screen t)" "fb_pitch (screen (wrap_cursor t)) = fb_pitch (screen t)"
  "fb_init (screen (wrap_cursor t)) = fb_init (screen t)"
  by (simp_all add: wrap_cursor_def clear_screen_def set_cursor_def Let_def)

lemma wrap_cursor_addr [simp]: "pixel_addr (screen (wrap_cursor t)) = pixel_addr (screen t)"
  by (simp add: pixel_addr_def fun_eq_iff)

lemma wrap_cursor_ok [simp]: "fb_ok (screen (wrap_cursor t)) = fb_ok (screen t)"
  by (simp add: fb_ok_def)

section \<open>What a character does to the screen\<close>

text \<open>The whole effect of a printed character on one pixel of the console area.\<close>

lemma putc_effect:
  assumes "fb_ok (screen t)" "ch \<noteq> 10" "ch \<noteq> 9" "0 \<le> x" "x < 640" "0 \<le> y" "y < 400"
  shows "let w = wrap_cursor t; t' = tty_putc font t ch in
     cursor w < 80 \<and> line w < 25 \<and> cursor t' = cursor w + 1 \<and> line t' = line w \<and>
     pixels (screen t') (pixel_addr (screen t) x y) =
       (if x div 8 = uint (cursor w) \<and> y div 16 = uint (line w)
        then if bit (font (32 + sint ch * 16 + y mod 16)) (7 - nat (x mod 8)) then 0xFFFFFF else 0
        else pixels (screen w) (pixel_addr (screen t) x y))"
proof -
  let ?w = "wrap_cursor t"
  let ?ps = "glyph_pixels font ch (cursor ?w) (line ?w)"
  let ?a = "pixel_addr (screen t) x y"
  let ?col = "if bit (font (32 + sint ch * 16 + y mod 16)) (7 - nat (x mod 8)) then 0xFFFFFF else (0::u32)"
  note b = wrap_cursor_bounds[of t] and cb = cell_bounds[OF wrap_cursor_bounds[of t]]
  have mem: "c = ?col \<and> x div 8 = uint (cursor ?w) \<and> y div 16 = uint (line ?w)"
    if "(x', y', c) \<in> set ?ps" "pixel_addr (screen t) x' y' = ?a" for x' y' c
  proof -
    have "x' = x \<and> y' = y" using that glyph_pixels_bounds[OF that(1) b] pixel_addr_inj[OF assms(1)] assms(4-7) by blast
    with that(1) obtain i j where ij: "i < (8::nat)" "j < (16::nat)" "x = 8 * uint (cursor ?w) + int i"
      "y = 16 * uint (line ?w) + int j" "c = (if bit (font (32 + sint ch * 16 + int j)) (7 - i) then 0xFFFFFF else 0)"
      unfolding glyph_pixels_mem cb(1,2) by blast
    then have "x div 8 = uint (cursor ?w)" "y div 16 = uint (line ?w)" "y mod 16 = int j" "nat (x mod 8) = i" by simp_all
    then show ?thesis using ij(5) by simp
  qed
  have cell: "(x, y, ?col) \<in> set ?ps" if "x div 8 = uint (cursor ?w)" "y div 16 = uint (line ?w)"
    unfolding glyph_pixels_mem cb(1,2)
  proof (rule exI[of _ "nat (x mod 8)"], rule exI[of _ "nat (y mod 16)"], intro conjI)
    show "x = 8 * uint (cursor ?w) + int (nat (x mod 8))" using that(1) mult_div_mod_eq[of 8 x] by simp
    show "y = 16 * uint (line ?w) + int (nat (y mod 16))" using that(2) mult_div_mod_eq[of 16 y] by simp
  qed simp_all
  have "pixels (screen (tty_putc font t ch)) ?a =
      (if x div 8 = uint (cursor ?w) \<and> y div 16 = uint (line ?w) then ?col else pixels (screen ?w) ?a)"
  proof (cases "x div 8 = uint (cursor ?w) \<and> y div 16 = uint (line ?w)")
    case True
    have "pixels (foldl (\<lambda>f (x, y, c). put_pixel f x y c) (screen ?w) ?ps) ?a = ?col"
    proof (rule foldl_put_pixel_at)
      show "(x, y, ?col) \<in> set ?ps" using cell True by blast
      show "pixel_addr (screen ?w) x y = ?a" "fb_init (screen ?w)" using assms(1) by (simp_all add: fb_ok_def)
      show "c' = ?col" if "(x', y', c') \<in> set ?ps" "pixel_addr (screen ?w) x' y' = ?a" for x' y' c'
        using mem[OF that(1)] that(2) by simp
    qed
    then show ?thesis using True assms(2,3) by (simp only: tty_putc_def draw_glyph_def Let_def if_False simp_thms) simp
  next
    case False
    have "pixels (foldl (\<lambda>f (x, y, c). put_pixel f x y c) (screen ?w) ?ps) ?a = pixels (screen ?w) ?a"
      using False mem by (intro foldl_put_pixel_other) auto
    then show ?thesis using False assms(2,3) by (simp only: tty_putc_def draw_glyph_def Let_def if_False simp_thms) simp
  qed
  then show ?thesis using b assms(2,3) by (simp add: Let_def tty_putc_def draw_glyph_def)
qed


definition demo_tty :: tty where
  "demo_tty = \<lparr>cursor = 80, line = 1,
     screen = \<lparr>fb_base = 0xFD000000, fb_pitch = 4096, fb_yres = 768, fb_xres = 1024, fb_init = True, pixels = \<lambda>_. 7\<rparr>\<rparr>"


lemma wrap_cursor_inside [simp]: "cursor t < 80 \<Longrightarrow> line t < 25 \<Longrightarrow> wrap_cursor t = t"
  by (simp add: wrap_cursor_def Let_def not_le[symmetric])

text \<open>Backspace after a character printed inside the grid: the cursor is back in the cell of that
  character, and every pixel of the cell is the one of the blank glyph.\<close>

theorem tty_delc_undoes_putc:
  assumes "fb_ok (screen t)" "ch \<noteq> 10" "ch \<noteq> 9" "cursor t < 80" "line t < 25"
    "0 \<le> x" "x < 640" "0 \<le> y" "y < 400" "x div 8 = uint (cursor t)" "y div 16 = uint (line t)"
  shows "let t' = tty_delc font (tty_putc font t ch) in
     cursor t' = cursor t \<and> line t' = line t \<and>
     pixels (screen t') (pixel_addr (screen t) x y) =
       (if bit (font (32 + 32 * 16 + y mod 16)) (7 - nat (x mod 8)) then 0xFFFFFF else 0)"
proof -
  let ?p = "tty_putc font t ch" and ?sp = "ascii CHR '' ''"
  let ?q = "?p\<lparr>cursor := cursor t\<rparr>"
  have p: "cursor ?p = cursor t + 1" "line ?p = line t"
    using putc_effect[OF assms(1-3), of 0 0 font] assms(4,5) by (simp_all add: Let_def)
  have ne: "cursor t + 1 \<noteq> 0" using assms(4) by (auto simp: eq_neg_iff_add_eq_0[symmetric])
  have d: "tty_delc font ?p = (tty_putc font ?q ?sp)\<lparr>cursor := cursor (tty_putc font ?q ?sp) - 1\<rparr>"
    by (simp only: tty_delc_def p ne if_False Let_def add_diff_cancel_right')
  have f: "fb_base (screen ?p) = fb_base (screen t)" "fb_pitch (screen ?p) = fb_pitch (screen t)"
    "fb_init (screen ?p) = fb_init (screen t)"
    using assms(2-5) by (simp_all add: tty_putc_def draw_glyph_def Let_def)
  have ok: "fb_ok (screen ?q)" using assms(1) f by (simp add: fb_ok_def)
  have a: "pixel_addr (screen ?q) = pixel_addr (screen t)" using f by (simp add: pixel_addr_def fun_eq_iff)
  have sp: "?sp \<noteq> 10" "?sp \<noteq> 9" "sint ?sp = 32" by (simp_all add: ascii_def)
  show ?thesis
    using putc_effect[OF ok sp(1,2) assms(6-9), of font] assms(4,5,10,11) p
    by (simp only: Let_def d a sp(3)) simp
qed

theorem tty_delc_undoes_putc_witness:
  "pixels (screen (tty_delc (\<lambda>a. if a = 545 then 1 else 0) (tty_putc (\<lambda>a. if a = 545 then 1 else 0) (set_cursor demo_tty 1 1) 65)))
     (pixel_addr (screen demo_tty) 15 17) = 0xFFFFFF"
proof -
  have "fb_ok (screen (set_cursor demo_tty 1 1))" by (simp add: demo_tty_def fb_ok_def set_cursor_def)
  then show ?thesis
    using tty_delc_undoes_putc[of "set_cursor demo_tty 1 1" 65 15 17 "\<lambda>a. if a = 545 then 1 else 0"]
    by (simp add: Let_def set_cursor_def)
qed

end
