(* ===== verification/Keyboard.thy ===== *)
theory Keyboard
  imports Prelude
begin

text \<open>
  The PS/2 keyboard: \<^verbatim>\<open>lethe-kernel/misc/keyboard.c\<close> and the tables of
  \<^verbatim>\<open>lethe-kernel/include/scancodes.h\<close>. The state is the table of pressed keys. The port reads and the
  sleeps of \<^verbatim>\<open>getch\<close> and \<^verbatim>\<open>naive_key_released\<close>, during which the interrupt handler may change that
  table, are arguments. \<^verbatim>\<open>char\<close> is signed, so characters are compared through \<^term>\<open>sint\<close>.
\<close>

section \<open>Tables\<close>

definition SC1_LOWER_CHARS :: "u8 list" where
  "SC1_LOWER_CHARS = [0, 0, 49, 50, 51, 52, 53, 54, 55, 56, 57, 48, 45, 61, 8, 9, 113, 119, 101, 114, 116, 121,
    117, 105, 111, 112, 91, 93, 10, 0, 97, 115, 100, 102, 103, 104, 106, 107, 108, 59, 39, 96,
    0, 92, 122, 120, 99, 118, 98, 110, 109, 44, 46, 47, 0, 42, 0, 32]"

definition SC1_UPPER_CHARS :: "u8 list" where
  "SC1_UPPER_CHARS = [0, 0, 33, 64, 35, 36, 37, 94, 38, 42, 40, 41, 95, 43, 8, 9, 81, 87, 69, 82, 84, 89, 85, 73,
    79, 80, 123, 125, 10, 0, 65, 83, 68, 70, 71, 72, 74, 75, 76, 58, 34, 126, 0, 124, 90, 88,
    67, 86, 66, 78, 77, 60, 62, 63, 0, 42, 0, 32]"

definition ASCII_SCANCODE_1 :: "u8 list" where
  "ASCII_SCANCODE_1 = [0, 0, 0, 0, 0, 0, 0, 0, 0, 0, 0, 0, 0, 0, 0, 0, 0, 0, 0, 0, 0, 0, 0, 0, 0, 0, 0, 0, 0, 0, 0,
    0, 57, 2, 40, 4, 5, 6, 8, 40, 10, 11, 9, 13, 51, 12, 52, 53, 11, 2, 3, 4, 5, 6, 7, 8, 9, 10,
    39, 39, 51, 13, 52, 53, 3, 30, 48, 46, 32, 18, 33, 34, 35, 23, 36, 37, 38, 50, 49, 24, 25,
    16, 19, 31, 20, 22, 47, 17, 45, 21, 44, 26, 43, 27, 7, 12, 41]"

section \<open>Key state\<close>

definition kb_init :: "u8 list" where
  "kb_init = replicate 88 0"

definition scancode_to_char :: "u8 list \<Rightarrow> u8 \<Rightarrow> u8 res" where
  "scancode_to_char st byte =
     bindE (readE st 0x36) (\<lambda>r. bindE (readE st 0x2A) (\<lambda>l.
       if byte < 58 then if r OR l = 1 then readE SC1_UPPER_CHARS (uint byte) else readE SC1_LOWER_CHARS (uint byte)
       else Inr 0))"

text \<open>The update of the key table in \<^verbatim>\<open>kb_handle_key\<close>: a make code sets its entry, a break code clears
  the entry of the make code, anything above is left alone.\<close>

definition kb_update :: "u8 list \<Rightarrow> u8 \<Rightarrow> u8 list res" where
  "kb_update st byte =
     (if byte \<le> 0x58 then writeE st (uint byte) 1
      else if byte > 0x58 \<and> byte \<le> 0xD8 then writeE st (uint byte - 0x80) 0
      else Inr st)"

definition is_key_pressed :: "u8 list \<Rightarrow> u8 \<Rightarrow> u8 res" where
  "is_key_pressed st ascii_key =
     (if sint ascii_key < 32 \<or> sint ascii_key > 96 then Inr 0
      else bindE (readE ASCII_SCANCODE_1 (sint ascii_key)) (\<lambda>scancode. readE st (uint scancode)))"

text \<open>The fifty reads of the release loop: \<open>later i\<close> is the key table after the i-th sleep.\<close>

fun released_loop :: "(nat \<Rightarrow> u8 list) \<Rightarrow> u8 \<Rightarrow> nat \<Rightarrow> nat \<Rightarrow> u8 res" where
  "released_loop later scancode i 0 = Inr 0"
| "released_loop later scancode i (Suc n) =
     bindE (readE (later i) (uint scancode)) (\<lambda>second_read.
       if second_read = 0 then Inr 1 else released_loop later scancode (Suc i) n)"

definition naive_key_released :: "u8 list \<Rightarrow> (nat \<Rightarrow> u8 list) \<Rightarrow> u8 \<Rightarrow> u8 res" where
  "naive_key_released st later ascii_key =
     (if sint ascii_key < 32 \<or> sint ascii_key > 96 then Inr 0
      else bindE (readE ASCII_SCANCODE_1 (sint ascii_key)) (\<lambda>scancode.
        bindE (readE st (uint scancode)) (\<lambda>first_read.
          if first_read = 0 then Inr 0 else released_loop later scancode 0 50)))"

text \<open>
  \<^verbatim>\<open>getch\<close> polls the controller until a byte is there, and starts again after a sleep when the byte has
  no character. The machine \<open>w\<close> gives the port reads and the effect of a sleep; \<open>status\<close> reads the
  key table out of it.
\<close>

partial_function (option) wait_output ::
    "('w \<Rightarrow> u16 \<Rightarrow> u8 \<times> 'w) \<Rightarrow> 'w \<Rightarrow> 'w option" where
  "wait_output inb w =
     (case inb w 0x64 of (status, w1) \<Rightarrow> if status AND 1 = 0 then wait_output inb w1 else Some w1)"

partial_function (option) getch ::
    "('w \<Rightarrow> u16 \<Rightarrow> u8 \<times> 'w) \<Rightarrow> ('w \<Rightarrow> u8 list) \<Rightarrow> ('w \<Rightarrow> 'w) \<Rightarrow> 'w \<Rightarrow> (u8 \<times> 'w) run" where
  "getch inb kb_status sleep w =
     Option.bind (wait_output inb w) (\<lambda>w1.
       case inb w1 0x60 of (byte, w2) \<Rightarrow>
         (case scancode_to_char (kb_status w2) byte of
            Inl e \<Rightarrow> Some (Inl e)
          | Inr ch \<Rightarrow> if ch = 0 then getch inb kb_status sleep (sleep w2) else Some (Inr (ch, w2))))"

section \<open>Lemmas\<close>

lemma table_lengths [simp]:
  "length SC1_LOWER_CHARS = 58" "length SC1_UPPER_CHARS = 58" "length ASCII_SCANCODE_1 = 97"
  by (simp_all add: SC1_LOWER_CHARS_def SC1_UPPER_CHARS_def ASCII_SCANCODE_1_def)

lemma kb_init_length [simp]: "length kb_init = 88" by (simp add: kb_init_def)

lemma scancode_to_char_ok: "length st = 88 \<Longrightarrow> is_ok (scancode_to_char st byte)"
  by (simp add: scancode_to_char_def readE_def word_less_def)

text \<open>What the table of scancodes says of the characters it covers, by evaluation.\<close>

lemma scancode_table_checked:
  "list_all (\<lambda>c. ASCII_SCANCODE_1 ! c < 58 \<and>
      (SC1_LOWER_CHARS ! unat (ASCII_SCANCODE_1 ! c) = of_nat c \<or> SC1_UPPER_CHARS ! unat (ASCII_SCANCODE_1 ! c) = of_nat c))
     [32..<97]"
  by code_simp

lemma scancode_entry:
  fixes c :: u8
  assumes "32 \<le> c" "c \<le> 96"
  defines "s \<equiv> ASCII_SCANCODE_1 ! unat c"
  shows "s < 58" "SC1_LOWER_CHARS ! unat s = c \<or> SC1_UPPER_CHARS ! unat s = c"
    "sint c = uint c" "uint c < 97" "32 \<le> uint c"
proof -
  show b: "uint c < 97" "32 \<le> uint c" using assms(1,2) by (simp_all add: word_le_def)
  then have "unat c < 97" "32 \<le> unat c" unfolding uint_nat by linarith+
  then have "unat c \<in> set [32..<97]" by (simp only: set_upt atLeastLessThan_iff simp_thms)
  then show "s < 58" "SC1_LOWER_CHARS ! unat s = c \<or> SC1_UPPER_CHARS ! unat s = c"
    using scancode_table_checked unfolding list_all_iff s_def by fastforce+
  show "sint c = uint c" using b by (simp add: sint_uint signed_take_bit_int_eq_self)
qed

lemma is_key_pressed_entry:
  assumes "32 \<le> c" "c \<le> 96"
  shows "is_key_pressed st c = readE st (uint (ASCII_SCANCODE_1 ! unat c))"
  using scancode_entry[OF assms] by (simp add: is_key_pressed_def readE_def[of ASCII_SCANCODE_1])

text \<open>A make code of the table and its break code, on a table of the declared size.\<close>

lemma kb_update_make: "length st = 88 \<Longrightarrow> s < 0x58 \<Longrightarrow> kb_update st s = Inr (st[unat s := 1])"
  by (simp add: kb_update_def writeE_def word_less_def word_le_def)

lemma kb_update_break:
  assumes "length st = 88" "s < 0x58"
  shows "kb_update st (s + 0x80) = Inr (st[unat s := 0])"
proof -
  have s: "unat s < 88" using assms(2) by (simp add: word_less_nat_alt)
  then have u: "unat (s + 0x80) = unat s + 128" using unat_add_of_nat[of s 128] by simp
  then have "uint (s + 0x80) - 0x80 = uint s" unfolding uint_nat by linarith
  moreover have "\<not> s + 0x80 \<le> 0x58" "s + 0x80 > 0x58" "s + 0x80 \<le> 0xD8"
    using s by (simp_all add: word_le_nat_alt word_less_nat_alt u)
  moreover have "uint s < 88" using assms(2) by (simp add: word_less_def)
  ultimately show ?thesis using assms(1) by (simp add: kb_update_def writeE_def)
qed

lemma kb_update_ok_iff:
  assumes "length st = 88"
  shows "is_ok (kb_update st byte) \<longleftrightarrow> byte < 0x58 \<or> (0x80 \<le> byte \<and> byte \<noteq> 0xD8)"
  using assms unsigned_less[of byte, where 'a = int]
  by (auto simp: kb_update_def writeE_def word_less_def word_le_def word_uint_eq_iff)

section \<open>Properties of the keyboard\<close>

text \<open>The key table is written inside its 88 entries exactly on the make codes below 0x58, on the
  break codes from 0x80 and on the codes above the break codes: the make code 0x58 and its break code
  0xD8 are one past the end, and the codes 0x59 to 0x7F, taken for break codes, are before the start.\<close>

theorem kb_update_in_bounds:
  assumes "length st = 88"
  shows "is_ok (kb_update st byte) \<longleftrightarrow> byte < 0x58 \<or> (0x80 \<le> byte \<and> byte \<noteq> 0xD8)"
  using assms by (rule kb_update_ok_iff)

theorem kb_update_in_bounds_witness:
  "\<not> is_ok (kb_update kb_init 0x58) \<and> \<not> is_ok (kb_update kb_init 0x60) \<and> is_ok (kb_update kb_init 0x80)"
  using kb_update_in_bounds[OF kb_init_length, of "0x58"] kb_update_in_bounds[OF kb_init_length, of "0x60"]
    kb_update_in_bounds[OF kb_init_length, of "0x80"] by simp

text \<open>For every character from the space to the backquote, its entry in the scancode table is the key
  that types it (with or without shift); the key reads as pressed after its make code and as not
  pressed after its break code, and no key with another scancode is touched by either.\<close>

theorem key_press_release:
  assumes "32 \<le> c" "c \<le> 96" "length st = 88"
  shows "let s = ASCII_SCANCODE_1 ! unat c; pressed = st[unat s := 1]; released = st[unat s := 0] in
     kb_update st s = Inr pressed \<and> kb_update pressed (s + 0x80) = Inr released \<and>
     is_key_pressed pressed c = Inr 1 \<and> is_key_pressed released c = Inr 0 \<and>
     (scancode_to_char kb_init s = Inr c \<or> scancode_to_char (kb_init[0x2A := 1]) s = Inr c)"
proof -
  define s where "s = ASCII_SCANCODE_1 ! unat c"
  note e = scancode_entry[OF assms(1,2), folded s_def]
  have s: "s < 0x58" "unat s < 58" using e(1) by (simp_all add: word_less_nat_alt)
  have "uint s < 58" using e(1) by (simp add: word_less_def)
  note s = s this
  have "scancode_to_char kb_init s = Inr (SC1_LOWER_CHARS ! unat s)"
    "scancode_to_char (kb_init[0x2A := 1]) s = Inr (SC1_UPPER_CHARS ! unat s)"
    using s(2) e(1) by (simp_all add: scancode_to_char_def readE_def kb_init_def word_less_def)
  then show ?thesis
    using e(2) s assms is_key_pressed_entry[OF assms(1,2), folded s_def]
    by (auto simp: Let_def s_def[symmetric] kb_update_make kb_update_break readE_def)
qed

theorem key_press_release_witness:
  "kb_update kb_init 0x1E = Inr (kb_init[30 := 1]) \<and> is_key_pressed (kb_init[30 := 1]) 65 = Inr 1"
  using key_press_release[of 65 kb_init] by (simp add: Let_def ASCII_SCANCODE_1_def)

lemma released_loop_eq:
  assumes "\<And>i. length (later i) = 88" "uint scancode < 88"
  shows "released_loop later scancode i n = Inr (if \<exists>k<n. later (i + k) ! unat scancode = 0 then 1 else 0)"
proof (induction n arbitrary: i)
  case (Suc n)
  show ?case using Suc.IH[of "Suc i"] assms by (simp add: readE_def Ex_less_Suc2)
qed simp

text \<open>A key of the table counts as released exactly when it is down at the first read and some read of
  the fifty that follow finds it up.\<close>

theorem naive_key_released_iff:
  assumes "32 \<le> c" "c \<le> 96" "length st = 88" "\<And>i. length (later i) = 88"
  shows "naive_key_released st later c =
     Inr (if st ! unat (ASCII_SCANCODE_1 ! unat c) \<noteq> 0
             \<and> list_ex (\<lambda>i. later i ! unat (ASCII_SCANCODE_1 ! unat c) = 0) [0..<50] then 1 else 0)"
proof -
  let ?s = "ASCII_SCANCODE_1 ! unat c"
  note e = scancode_entry[OF assms(1,2)]
  have s: "uint ?s < 88" using e(1) by (simp add: word_less_def)
  have "naive_key_released st later c = (if st ! unat ?s = 0 then Inr 0 else released_loop later ?s 0 50)"
    using e(3-5) s assms(3) by (simp add: naive_key_released_def readE_def)
  moreover have "list_ex (\<lambda>i. later i ! unat ?s = 0) [0..<50] \<longleftrightarrow> (\<exists>i<50. later i ! unat ?s = 0)"
    unfolding list_ex_iff set_upt by auto
  ultimately show ?thesis using released_loop_eq[of later ?s 0 50] s assms(4) by (simp only: add_0) simp
qed

theorem naive_key_released_iff_witness:
  "naive_key_released (kb_init[57 := 1]) (\<lambda>i. if i < 3 then kb_init[57 := 1] else kb_init) 32 = Inr 1"
  using naive_key_released_iff[of 32 "kb_init[57 := 1]" "\<lambda>i. if i < 3 then kb_init[57 := 1] else kb_init"]
  by (simp add: ASCII_SCANCODE_1_def kb_init_def list_ex_iff del: upt_rec_numeral) force

end
