(* ===== verification/Shell.thy ===== *)
theory Shell
  imports Keyboard
begin

text \<open>
  The kernel shell: \<^verbatim>\<open>lethe-kernel/misc/shell.c\<close>, and the interrupt handler of
  \<^verbatim>\<open>lethe-kernel/misc/keyboard.c\<close> that feeds it. The command buffer is a list of bytes that may not have
  been written yet (\<open>None\<close>), inside an option for the null pointer. What the shell does to the outside
  (characters printed and deleted, lines logged, without the source location in front, functions called, the dump of
  function names) is a list of events.
  Arguments: \<open>avail n\<close>, whether the heap can give n bytes, and \<open>resolve\<close>, the address
  \<^verbatim>\<open>resolve_function_address\<close> finds for a name.
\<close>

section \<open>State\<close>

datatype shell_out = PutChar u8 | DelChar | Klog "u8 list" | CallFunction u64 | DumpNames

record shell =
  shell_cmd :: "u8 option list option"
  shell_size :: int
  shell_cur :: int
  enabled :: bool
  out :: "shell_out list"

definition emit :: "shell_out \<Rightarrow> shell \<Rightarrow> shell" where
  "emit e s = s\<lparr>out := out s @ [e]\<rparr>"

text \<open>The buffer operations the shell uses: a store through the pointer, \<^verbatim>\<open>krealloc\<close>, \<^verbatim>\<open>memset\<close>, and
  reading a C string out of it.\<close>

definition store_cmd :: "u8 option list option \<Rightarrow> int \<Rightarrow> u8 \<Rightarrow> u8 option list option res" where
  "store_cmd p i v =
     (case p of None \<Rightarrow> Inl NullDeref | Some bs \<Rightarrow> bindE (writeE bs i (Some v)) (\<lambda>bs'. Inr (Some bs')))"

definition krealloc_cmd :: "(int \<Rightarrow> bool) \<Rightarrow> u8 option list option \<Rightarrow> int \<Rightarrow> u8 option list option" where
  "krealloc_cmd avail p n =
     (if avail n
      then let bs = (case p of None \<Rightarrow> [] | Some bs \<Rightarrow> bs)
           in Some (take (nat n) bs @ replicate (nat n - length bs) None)
      else None)"

definition memset_cmd :: "u8 option list option \<Rightarrow> int \<Rightarrow> u8 option list option res" where
  "memset_cmd p n =
     (case p of
        None \<Rightarrow> if n \<le> 0 then Inr None else Inl NullDeref
      | Some bs \<Rightarrow> if n \<le> int (length bs) then Inr (Some (replicate (nat n) (Some 0) @ drop (nat n) bs))
                  else Inl OutOfBounds)"

fun read_cstr :: "u8 option list \<Rightarrow> u8 list res" where
  "read_cstr [] = Inl OutOfBounds"
| "read_cstr (None # bs) = Inl Uninitialised"
| "read_cstr (Some b # bs) = (if b = 0 then Inr [] else bindE (read_cstr bs) (\<lambda>cs. Inr (b # cs)))"

section \<open>Editing the line\<close>

definition push_char :: "(int \<Rightarrow> bool) \<Rightarrow> shell \<Rightarrow> u8 \<Rightarrow> shell res" where
  "push_char avail s ch =
     bindE (if shell_cur s \<ge> shell_size s
            then bindE (guardE SignedOverflow (shell_size s + 80 \<le> INT_MAX)) (\<lambda>_.
              Inr (s\<lparr>shell_size := shell_size s + 80, shell_cmd := krealloc_cmd avail (shell_cmd s) (shell_size s + 80)\<rparr>))
            else Inr s) (\<lambda>s1.
     bindE (store_cmd (shell_cmd s1) (shell_cur s1) ch) (\<lambda>cmd.
       Inr (emit (PutChar ch) (s1\<lparr>shell_cmd := cmd, shell_cur := shell_cur s1 + 1\<rparr>))))"

definition del_char :: "shell \<Rightarrow> shell res" where
  "del_char s =
     bindE (store_cmd (shell_cmd s) (shell_cur s - 1) 0) (\<lambda>cmd.
       Inr (emit DelChar (s\<lparr>shell_cmd := cmd, shell_cur := shell_cur s - 1\<rparr>)))"

definition init_shell :: "(int \<Rightarrow> bool) \<Rightarrow> shell \<Rightarrow> shell" where
  "init_shell avail s =
     emit (PutChar (ascii CHR ''>''))
       (s\<lparr>enabled := True, shell_cur := 0, shell_size := 80, shell_cmd := krealloc_cmd avail None 80\<rparr>)"

definition boot_shell :: shell where
  "boot_shell = \<lparr>shell_cmd = None, shell_size = 0, shell_cur = 0, enabled = False, out = []\<rparr>"

section \<open>Running a command\<close>

definition reset_cmd :: "shell \<Rightarrow> shell res" where
  "reset_cmd s = bindE (memset_cmd (shell_cmd s) (shell_size s)) (\<lambda>cmd. Inr (s\<lparr>shell_cur := 0, shell_cmd := cmd\<rparr>))"

definition execute_command :: "(u8 list \<Rightarrow> u64) \<Rightarrow> shell \<Rightarrow> shell res" where
  "execute_command resolve s =
     (if \<not> enabled s then reset_cmd s
      else let s0 = emit (PutChar 10) s in
        bindE (if shell_cur s0 = 0 then Inr s0
               else bindE (store_cmd (shell_cmd s0) (shell_cur s0) 0) (\<lambda>cmd.
                 let s1 = s0\<lparr>shell_cmd := cmd, shell_cur := shell_cur s0 + 1\<rparr> in
                 bindE (case cmd of None \<Rightarrow> Inl NullDeref | Some bs \<Rightarrow> read_cstr bs) (\<lambda>name.
                   Inr (emit (if resolve name \<noteq> 0 then CallFunction (resolve name) else DumpNames)
                     (emit (Klog ([39] @ name @ [39, 10])) s1))))) (\<lambda>s2.
        bindE (reset_cmd s2) (\<lambda>s3. Inr (emit (PutChar (ascii CHR ''>'')) s3))))"

text \<open>The handler of the keyboard interrupt: the output buffer flag, the key table, then the shell.\<close>

definition kb_handle_key ::
    "(int \<Rightarrow> bool) \<Rightarrow> (u8 list \<Rightarrow> u64) \<Rightarrow> u8 \<Rightarrow> u8 \<Rightarrow> u8 list \<times> shell \<Rightarrow> (u8 list \<times> shell) res" where
  "kb_handle_key avail resolve status byte = (\<lambda>(st, s).
     if status AND 1 \<noteq> 1 then Inr (st, s)
     else bindE (kb_update st byte) (\<lambda>st'.
       bindE (scancode_to_char st' byte) (\<lambda>ch.
         if ch = 0 then Inr (st', s)
         else bindE (if ch = 10 then execute_command resolve s
                     else if ch = 8 then del_char s
                     else push_char avail s ch) (\<lambda>s'. Inr (st', s')))))"

section \<open>Prompts\<close>

definition is_digit16 :: "u8 \<Rightarrow> bool" where
  "is_digit16 c \<longleftrightarrow> (48 \<le> sint c \<and> sint c \<le> 57) \<or> (65 \<le> sint c \<and> sint c \<le> 70) \<or> (97 \<le> sint c \<and> sint c \<le> 102)"

text \<open>\<open>~('a' ^ 'A')\<close> is the \<^verbatim>\<open>int\<close> with every bit but 5.\<close>

fun naive_atoi16 :: "u8 option list \<Rightarrow> nat \<Rightarrow> u64 \<Rightarrow> u64 res" where
  "naive_atoi16 str 0 value = Inr value"
| "naive_atoi16 [] (Suc n) value = Inl OutOfBounds"
| "naive_atoi16 (None # str) (Suc n) value = Inl Uninitialised"
| "naive_atoi16 (Some c # str) (Suc n) value =
     (if c = 0 \<or> \<not> is_digit16 c then Inr value
      else let v1 = (if sint c \<le> 57 then value * 16 + word_of_int (sint c - 48) else value);
               v2 = (if sint c \<ge> 65 then v1 * 16 + word_of_int (((sint c - 65) AND NOT 32) + 10) else v1)
           in naive_atoi16 str n v2)"

text \<open>The four reads of \<^verbatim>\<open>shell_prompt_hex\<close>, from the characters \<^verbatim>\<open>getch\<close> returns (\<open>None\<close> while it
  waits for more); the entries of the array from a newline on are never written. The message it prints first is left out.\<close>

fun prompt_input :: "u8 list \<Rightarrow> nat \<Rightarrow> u8 option list option" where
  "prompt_input chs 0 = Some []"
| "prompt_input [] (Suc n) = None"
| "prompt_input (ch # chs) (Suc n) =
     (if ch = 10 then Some (replicate (Suc n) None) else map_option ((#) (Some ch)) (prompt_input chs n))"

definition shell_prompt_hex :: "u8 list \<Rightarrow> int run" where
  "shell_prompt_hex chs =
     map_option (\<lambda>input. bindE (naive_atoi16 input 4 0) (\<lambda>value. Inr (sint (ucast value :: u32)))) (prompt_input chs 4)"

text \<open>\<^verbatim>\<open>checkpoint\<close> polls the key table for the letter y; \<open>now i\<close> is the table at the i-th poll.\<close>

partial_function (option) checkpoint_loop :: "(nat \<Rightarrow> u8 list) \<Rightarrow> nat \<Rightarrow> shell \<Rightarrow> shell run" where
  "checkpoint_loop now i s =
     (case is_key_pressed (now i) (ascii CHR ''y'') of
        Inl e \<Rightarrow> Some (Inl e)
      | Inr b \<Rightarrow> if b \<noteq> 0 then Some (Inr (emit (PutChar 10) (emit DelChar s))) else checkpoint_loop now (Suc i) s)"

definition checkpoint :: "u8 list \<Rightarrow> (nat \<Rightarrow> u8 list) \<Rightarrow> shell \<Rightarrow> shell run" where
  "checkpoint name now s = checkpoint_loop now 0 (emit (Klog (lit ''CHECKPOINT '' @ name @ lit '' [yN]'')) s)"

section \<open>The line the buffer holds\<close>

definition line_of :: "shell \<Rightarrow> u8 list \<Rightarrow> bool" where
  "line_of s xs \<longleftrightarrow> (\<exists>bs. shell_cmd s = Some bs \<and> shell_size s = int (length bs) \<and> shell_cur s = int (length xs)
     \<and> length xs \<le> length bs \<and> take (length xs) bs = map Some xs)"

lemma line_ofE:
  assumes "line_of s xs"
  obtains bs where "shell_cmd s = Some bs" "shell_size s = int (length bs)" "shell_cur s = int (length xs)"
    "length xs \<le> length bs" "take (length xs) bs = map Some xs"
  using assms by (auto simp: line_of_def)

lemma take_Suc_update: "length xs < length bs \<Longrightarrow> take (Suc (length xs)) (bs[length xs := v]) = take (length xs) bs @ [v]"
  by (simp add: take_Suc_conv_app_nth)

lemma push_char_line:
  assumes "line_of s xs" "avail (shell_size s + 80)" "shell_size s + 80 \<le> INT_MAX"
  shows "\<exists>s'. push_char avail s ch = Inr s' \<and> line_of s' (xs @ [ch]) \<and> enabled s' = enabled s
     \<and> shell_size s' = (if shell_cur s < shell_size s then shell_size s else shell_size s + 80)
     \<and> out s' = out s @ [PutChar ch]"
proof -
  obtain bs where bs: "shell_cmd s = Some bs" "shell_size s = int (length bs)" "shell_cur s = int (length xs)"
    "length xs \<le> length bs" "take (length xs) bs = map Some xs" using assms(1) by (rule line_ofE)
  show ?thesis
  proof (cases "length xs < length bs")
    case True
    then show ?thesis using bs
      by (auto simp: push_char_def store_cmd_def writeE_def emit_def line_of_def take_Suc_update)
  next
    case False
    then have e: "length xs = length bs" "bs = map Some xs" using bs(4,5) by auto
    let ?b = "bs @ replicate 80 None"
    have k: "krealloc_cmd avail (Some bs) (int (length bs) + 80) = Some ?b"
      using assms(2) bs(2) by (simp add: krealloc_cmd_def nat_add_distrib)
    have "take (Suc (length bs)) (?b[length bs := Some ch]) = map Some (xs @ [ch])"
      using e(2) by (simp add: take_Suc_conv_app_nth nth_append)
    then show ?thesis using bs(1-3) e(1) assms(3) k
      by (simp add: push_char_def store_cmd_def writeE_def emit_def line_of_def)
  qed
qed

lemma del_char_line:
  assumes "line_of s xs"
  shows "if xs = [] then del_char s = Inl OutOfBounds
     else \<exists>s'. del_char s = Inr s' \<and> line_of s' (butlast xs) \<and> enabled s' = enabled s
        \<and> shell_size s' = shell_size s \<and> out s' = out s @ [DelChar]"
proof -
  obtain bs where bs: "shell_cmd s = Some bs" "shell_size s = int (length bs)" "shell_cur s = int (length xs)"
    "length xs \<le> length bs" "take (length xs) bs = map Some xs" using assms(1) by (rule line_ofE)
  show ?thesis
  proof (cases "xs = []")
    case False
    then obtain n where n: "length xs = Suc n" by (cases xs) auto
    have "take n (bs[n := Some 0]) = map Some (butlast xs)"
      using bs(5) n by (metis butlast_conv_take diff_Suc_1 length_map map_butlast take_update_cancel take_take
          min.absorb1 le_SucI order_refl)
    then show ?thesis using bs n False
      by (auto simp: del_char_def store_cmd_def writeE_def emit_def line_of_def)
  qed (use bs in \<open>simp add: del_char_def store_cmd_def writeE_def\<close>)
qed

lemma read_cstr_line: "0 \<notin> set xs \<Longrightarrow> read_cstr (map Some xs @ Some 0 # bs) = Inr xs"
  by (induction xs) auto

lemma reset_cmd_line:
  assumes "shell_cmd s = Some bs" "shell_size s = int (length bs)"
  shows "\<exists>s'. reset_cmd s = Inr s' \<and> line_of s' [] \<and> enabled s' = enabled s \<and> shell_size s' = shell_size s \<and> out s' = out s"
  using assms by (simp add: reset_cmd_def memset_cmd_def line_of_def)

text \<open>What a command line does when it is entered: the events it adds, or the stray store.\<close>

definition command_events :: "(u8 list \<Rightarrow> u64) \<Rightarrow> u8 list \<Rightarrow> shell_out list" where
  "command_events resolve xs =
     [PutChar 10] @ (if xs = [] then [] else [Klog ([39] @ xs @ [39, 10]), if resolve xs \<noteq> 0 then CallFunction (resolve xs) else DumpNames])
       @ [PutChar (ascii CHR ''>'')]"

lemma execute_command_line:
  assumes "line_of s xs" "0 \<notin> set xs" "enabled s"
  shows "if xs \<noteq> [] \<and> int (length xs) = shell_size s then execute_command resolve s = Inl OutOfBounds
     else \<exists>s'. execute_command resolve s = Inr s' \<and> line_of s' [] \<and> enabled s' \<and> shell_size s' = shell_size s
        \<and> out s' = out s @ command_events resolve xs"
proof -
  obtain bs where bs: "shell_cmd s = Some bs" "shell_size s = int (length bs)" "shell_cur s = int (length xs)"
    "length xs \<le> length bs" "take (length xs) bs = map Some xs" using assms(1) by (rule line_ofE)
  consider "xs = []" | "xs \<noteq> []" "length xs = length bs" | "xs \<noteq> []" "length xs < length bs" using bs(4) by linarith
  then show ?thesis
  proof cases
    case 1
    let ?s0 = "emit (PutChar 10) s"
    obtain s' where s': "reset_cmd ?s0 = Inr s'" "line_of s' []" "enabled s' = enabled ?s0"
      "shell_size s' = shell_size ?s0" "out s' = out ?s0"
      using reset_cmd_line[of ?s0 bs] bs(1,2) by (auto simp: emit_def)
    then show ?thesis using 1 assms(3) bs(3)
      by (simp add: execute_command_def Let_def emit_def line_of_def command_events_def)
  next
    case 2
    then show ?thesis using assms(3) bs by (simp add: execute_command_def Let_def emit_def store_cmd_def writeE_def)
  next
    case 3
    let ?n = "length xs"
    let ?b = "bs[?n := Some 0]"
    have "?b = map Some xs @ Some 0 # drop (Suc ?n) bs"
      using 3(2) bs(5) by (simp add: upd_conv_take_nth_drop)
    then have r: "read_cstr ?b = Inr xs" using read_cstr_line[OF assms(2)] by simp
    let ?e = "if resolve xs \<noteq> 0 then CallFunction (resolve xs) else DumpNames"
    let ?s2 = "emit ?e (emit (Klog ([39] @ xs @ [39, 10])) ((emit (PutChar 10) s)\<lparr>shell_cmd := Some ?b, shell_cur := int ?n + 1\<rparr>))"
    obtain s' where s': "reset_cmd ?s2 = Inr s'" "line_of s' []" "enabled s' = enabled ?s2"
      "shell_size s' = shell_size ?s2" "out s' = out ?s2"
      using reset_cmd_line[of ?s2 ?b] bs(1,2) by (auto simp: emit_def)
    have "execute_command resolve s = Inr (emit (PutChar (ascii CHR ''>'')) s')"
      using 3 assms(3) bs(1-3) r s'(1)
      by (simp add: execute_command_def Let_def emit_def store_cmd_def writeE_def)
    then show ?thesis using 3 assms(3) s' bs(2) by (simp add: emit_def line_of_def command_events_def)
  qed
qed

text \<open>The line and the buffer size after typing onto a fresh shell.\<close>

definition buffer_size :: "nat \<Rightarrow> int" where
  "buffer_size n = (if n = 0 then 80 else 80 * int ((n + 79) div 80))"

lemma buffer_size_cases:
  obtains q where "buffer_size n = 80 * int q" "n \<le> 80 * q" "80 * q < n + 80 \<or> n = 0 \<and> q = 1"
proof (cases "n = 0")
  case True
  then show ?thesis using that[of 1] by (simp add: buffer_size_def)
next
  case False
  have "(n + 79) mod 80 < 80" by simp
  then have "n \<le> 80 * ((n + 79) div 80)" "80 * ((n + 79) div 80) < n + 80"
    using mult_div_mod_eq[of 80 "n + 79"] by linarith+
  then show ?thesis using that[of "(n + 79) div 80"] False by (simp add: buffer_size_def)
qed

lemma buffer_size_step: "(if int n < buffer_size n then buffer_size n else buffer_size n + 80) = buffer_size (Suc n)"
proof -
  obtain q where q: "buffer_size n = 80 * int q" "n \<le> 80 * q" "80 * q < n + 80 \<or> n = 0 \<and> q = 1"
    by (rule buffer_size_cases)
  obtain q' where q': "buffer_size (Suc n) = 80 * int q'" "Suc n \<le> 80 * q'" "80 * q' < Suc n + 80 \<or> Suc n = 0 \<and> q' = 1"
    by (rule buffer_size_cases)
  show ?thesis using q q' by (cases "n < 80 * q") (auto, presburger+)
qed

lemma buffer_size_full: "n > 0 \<Longrightarrow> int n = buffer_size n \<longleftrightarrow> n mod 80 = 0"
proof -
  assume n: "n > 0"
  obtain q where q: "buffer_size n = 80 * int q" "n \<le> 80 * q" "80 * q < n + 80 \<or> n = 0 \<and> q = 1"
    by (rule buffer_size_cases)
  have "n = 80 * q \<longleftrightarrow> n mod 80 = 0" using q(2,3) n mult_div_mod_eq[of 80 n] by auto
  then show ?thesis using q(1) by linarith
qed

lemma typed_line:
  assumes "\<And>n. avail n" "int (length xs) + 160 \<le> INT_MAX"
  shows "\<exists>s'. foldE (push_char avail) xs (init_shell avail boot_shell) = Inr s' \<and> line_of s' xs \<and> enabled s'
     \<and> shell_size s' = buffer_size (length xs) \<and> out s' = PutChar (ascii CHR ''>'') # map PutChar xs"
  using assms(2)
proof (induction xs rule: rev_induct)
  case Nil
  then show ?case using assms(1)
    by (simp add: init_shell_def boot_shell_def emit_def line_of_def krealloc_cmd_def buffer_size_def)
next
  case (snoc ch xs)
  then obtain s1 where s1: "foldE (push_char avail) xs (init_shell avail boot_shell) = Inr s1" "line_of s1 xs" "enabled s1"
    "shell_size s1 = buffer_size (length xs)" "out s1 = PutChar (ascii CHR ''>'') # map PutChar xs" by auto
  obtain q where "buffer_size (length xs) = 80 * int q" "length xs \<le> 80 * q"
    "80 * q < length xs + 80 \<or> length xs = 0 \<and> q = 1" by (rule buffer_size_cases)
  then have "shell_size s1 + 80 \<le> INT_MAX" using s1(4) snoc.prems by auto
  then obtain s2 where s2: "push_char avail s1 ch = Inr s2" "line_of s2 (xs @ [ch])" "enabled s2 = enabled s1"
     "shell_size s2 = (if shell_cur s1 < shell_size s1 then shell_size s1 else shell_size s1 + 80)"
     "out s2 = out s1 @ [PutChar ch]" using push_char_line[of s1 xs avail ch] s1(2) assms(1) by blast
  have "shell_cur s1 = int (length xs)" using s1(2) by (auto simp: line_of_def)
  then have "shell_size s2 = buffer_size (Suc (length xs))" using s2(4) s1(4) buffer_size_step[of "length xs"] by (simp only:)
  then show ?case using s1 s2 by (simp add: foldE_append)
qed

text \<open>One keyboard interrupt, with everything it keeps.\<close>

lemma kb_handle_key_line:
  assumes "length st = 88" "kb_update st byte = Inr st'" "scancode_to_char st' byte = Inr ch" "status AND 1 = 1"
    "line_of s xs" "0 \<notin> set xs" "enabled s" "avail (shell_size s + 80)" "shell_size s + 80 \<le> INT_MAX"
  shows "if ch = 8 \<and> xs = [] \<or> ch = 10 \<and> xs \<noteq> [] \<and> int (length xs) = shell_size s
    then kb_handle_key avail resolve status byte (st, s) = Inl OutOfBounds
    else \<exists>s'. kb_handle_key avail resolve status byte (st, s) = Inr (st', s') \<and> enabled s' \<and>
      shell_size s' = (if ch \<in> {0, 8, 10} \<or> int (length xs) < shell_size s then shell_size s else shell_size s + 80) \<and>
      line_of s' (if ch = 0 then xs else if ch = 10 then [] else if ch = 8 then butlast xs else xs @ [ch]) \<and>
      out s' = out s @ (if ch = 0 then [] else if ch = 10 then command_events resolve xs
                        else if ch = 8 then [DelChar] else [PutChar ch])"
proof -
  have k: "kb_handle_key avail resolve status byte (st, s) =
      (if ch = 0 then Inr (st', s)
       else bindE (if ch = 10 then execute_command resolve s else if ch = 8 then del_char s else push_char avail s ch)
              (\<lambda>s'. Inr (st', s')))"
    using assms(2-4) by (simp add: kb_handle_key_def)
  have "shell_cur s = int (length xs)" using assms(5) by (auto simp: line_of_def)
  then show ?thesis
    using execute_command_line[OF assms(5-7), of resolve] del_char_line[OF assms(5)]
      push_char_line[OF assms(5), of avail ch, OF assms(8,9)] assms(5,7) unfolding k
    by (auto split: if_splits)
qed

section \<open>Properties of the shell\<close>

text \<open>The keyboard interrupt, for a scancode the key table has room for: the handler follows the
  scancode tables, and a line editor describes what it does to the command line (a character is
  appended, backspace removes the last one, enter runs the line and empties it, a key without a
  character changes nothing). It faults in exactly two cases: backspace on an empty line and enter on
  a line that fills the buffer, which both store outside the buffer.\<close>

theorem kb_handle_key_edits_line:
  assumes "length st = 88" "byte < 0x58 \<or> (0x80 \<le> byte \<and> byte \<noteq> 0xD8)" "status AND 1 = 1"
    "line_of s xs" "0 \<notin> set xs" "enabled s" "avail (shell_size s + 80)" "shell_size s + 80 \<le> INT_MAX"
  shows "\<exists>st' ch. kb_update st byte = Inr st' \<and> scancode_to_char st' byte = Inr ch \<and>
     (if ch = 8 \<and> xs = [] \<or> ch = 10 \<and> xs \<noteq> [] \<and> int (length xs) = shell_size s
      then kb_handle_key avail resolve status byte (st, s) = Inl OutOfBounds
      else \<exists>s'. kb_handle_key avail resolve status byte (st, s) = Inr (st', s') \<and>
        line_of s' (if ch = 0 then xs else if ch = 10 then [] else if ch = 8 then butlast xs else xs @ [ch]) \<and>
        out s' = out s @ (if ch = 0 then [] else if ch = 10 then command_events resolve xs
                          else if ch = 8 then [DelChar] else [PutChar ch]))"
proof -
  obtain st' where u: "kb_update st byte = Inr st'"
    using kb_update_ok_iff[OF assms(1), of byte] assms(2) by (auto simp: is_ok_iff)
  then have l: "length st' = 88" using assms(1) by (auto simp: kb_update_def writeE_def split: if_splits)
  obtain ch where c: "scancode_to_char st' byte = Inr ch"
    using scancode_to_char_ok[OF l, of byte] by (auto simp: is_ok_iff)
  show ?thesis
    using kb_handle_key_line[where avail = avail and resolve = resolve, OF assms(1) u c assms(3-8)] u c
    by (intro exI[of _ st'] exI[of _ ch]) (auto split: if_splits)
qed

theorem kb_handle_key_edits_line_witness:
  "\<exists>s'. kb_handle_key (\<lambda>_. True) (\<lambda>_. 0) 1 0x1E (kb_init, init_shell (\<lambda>_. True) boot_shell) = Inr (kb_init[30 := 1], s')
     \<and> line_of s' [97]"
proof -
  let ?s = "init_shell (\<lambda>_. True) boot_shell"
  have l: "line_of ?s []" "enabled ?s" "shell_size ?s = 80"
    by (simp_all add: init_shell_def boot_shell_def emit_def line_of_def krealloc_cmd_def)
  have u: "kb_update kb_init 0x1E = Inr (kb_init[30 := 1])"
    by (simp add: kb_update_make)
  have c: "scancode_to_char (kb_init[30 := 1]) 0x1E = Inr 97"
    by (simp add: scancode_to_char_def readE_def kb_init_def SC1_LOWER_CHARS_def)
  show ?thesis
    using kb_handle_key_edits_line[of kb_init "0x1E" 1 ?s "[]" "\<lambda>_. True" "\<lambda>_. 0"] l
    by (simp add: u c INT_MAX_def) metis
qed

text \<open>A command typed into a fresh shell: \<^verbatim>\<open>resolve_function_address\<close> gets exactly the characters typed,
  and the function found is called; but on a line of 80 characters, or any multiple of 80, the
  terminator is stored one past the end of the buffer.\<close>

theorem typed_command_runs:
  assumes "\<And>n. avail n" "int (length xs) + 160 \<le> INT_MAX" "0 \<notin> set xs" "xs \<noteq> []"
  shows "let r = bindE (foldE (push_char avail) xs (init_shell avail boot_shell)) (execute_command resolve) in
     if length xs mod 80 = 0 then r = Inl OutOfBounds
     else \<exists>s'. r = Inr s' \<and> line_of s' [] \<and>
       out s' = PutChar (ascii CHR ''>'') # map PutChar xs @ command_events resolve xs"
proof -
  obtain s1 where s1: "foldE (push_char avail) xs (init_shell avail boot_shell) = Inr s1" "line_of s1 xs" "enabled s1"
    "shell_size s1 = buffer_size (length xs)" "out s1 = PutChar (ascii CHR ''>'') # map PutChar xs"
    using typed_line[of avail xs] assms(1,2) by blast
  show ?thesis
    using execute_command_line[OF s1(2) assms(3) s1(3), of resolve] assms(4) buffer_size_full[of "length xs"] s1
    by (auto simp: Let_def)
qed

theorem typed_command_runs_witness:
  "bindE (foldE (push_char (\<lambda>_. True)) (replicate 80 97) (init_shell (\<lambda>_. True) boot_shell)) (execute_command (\<lambda>_. 0))
     = Inl OutOfBounds"
  using typed_command_runs[of "\<lambda>_. True" "replicate 80 97" "\<lambda>_. 0"]
  by (simp add: Let_def INT_MAX_def)

section \<open>Hexadecimal input\<close>

definition hex_value :: "u8 \<Rightarrow> u64" where
  "hex_value c = (if c \<le> 57 then ucast c - 48 else if c \<le> 70 then ucast c - 55 else ucast c - 87)"

lemma hex_digits_checked:
  "list_all (\<lambda>n. let c = of_nat n :: u8 in \<not> is_digit16 c \<or>
     (if sint c \<le> 57 then word_of_int (sint c - 48) = hex_value c \<and> sint c < 65
      else sint c \<ge> 65 \<and> word_of_int (((sint c - 65) AND NOT 32) + 10) = hex_value c)) [0..<256]"
  by code_simp

lemma hex_step:
  assumes "is_digit16 c"
  shows "(let v1 = (if sint c \<le> 57 then v * 16 + word_of_int (sint c - 48) else v) in
     if sint c \<ge> 65 then v1 * 16 + word_of_int (((sint c - 65) AND NOT 32) + 10) else v1) = v * 16 + hex_value c"
proof -
  have "unat c < 256" using unsigned_less[of c, where 'a = nat] by simp
  then have "unat c \<in> set [0..<256]" by (simp only: set_upt atLeastLessThan_iff simp_thms)
  moreover have word_of_nat_unat_c: "of_nat (unat c) = c" by simp
  ultimately have "if sint c \<le> 57 then word_of_int (sint c - 48) = hex_value c \<and> sint c < 65
      else sint c \<ge> 65 \<and> word_of_int (((sint c - 65) AND NOT 32) + 10) = hex_value c"
    using hex_digits_checked assms unfolding list_all_iff Let_def by (metis word_of_nat_unat_c)
  then show ?thesis by (auto simp: Let_def split: if_splits)
qed

definition hex_number :: "u8 list \<Rightarrow> u64" where
  "hex_number cs = foldl (\<lambda>v c. v * 16 + hex_value c) 0 cs"

lemma naive_atoi16_from:
  assumes "n \<le> length cs"
  shows "naive_atoi16 (map Some cs @ rest) n v =
     Inr (foldl (\<lambda>v c. v * 16 + hex_value c) v (takeWhile is_digit16 (take n cs)))"
  using assms
proof (induction cs arbitrary: n v)
  case (Cons c cs)
  show ?case
  proof (cases n)
    case (Suc m)
    have z: "\<not> is_digit16 0" by (simp add: is_digit16_def)
    show ?thesis
    proof (cases "is_digit16 c")
      case True
      then have "c \<noteq> 0" using z by blast
      then show ?thesis using True Cons.IH[of m] Cons.prems hex_step[OF True, of v] Suc
        by (simp add: Let_def)
    qed (simp add: Suc)
  qed simp
qed simp

text \<open>The hexadecimal reader: on a buffer with at least as many characters as it may look at, it
  returns the number written by the hexadecimal digits (either case) at the front, modulo 2^64, and
  stops at the first character that is not a digit.\<close>

theorem naive_atoi16_reads_hex:
  assumes "n \<le> length cs"
  shows "naive_atoi16 (map Some cs) n 0 = Inr (hex_number (takeWhile is_digit16 (take n cs)))"
  using naive_atoi16_from[OF assms, of "[]" 0] by (simp add: hex_number_def)

theorem naive_atoi16_reads_hex_witness:
  "naive_atoi16 (map Some (lit ''1fBg'')) 4 0 = Inr 0x1FB"
  using naive_atoi16_reads_hex[of 4 "lit ''1fBg''"]
  by (simp add: lit_def ascii_def is_digit16_def hex_number_def hex_value_def)

lemma naive_atoi16_uninit:
  "list_all is_digit16 ds \<Longrightarrow> length ds < n \<Longrightarrow> naive_atoi16 (map Some ds @ None # rest) n v = Inl Uninitialised"
proof (induction ds arbitrary: n v)
  case Nil
  then show ?case by (cases n) simp_all
next
  case (Cons c ds)
  then obtain m where n: "n = Suc m" by (cases n) simp_all
  have "c \<noteq> 0" using Cons.prems(1) by (auto simp: is_digit16_def)
  then show ?case using Cons n by (simp add: Let_def)
qed

lemma prompt_input_digits:
  "10 \<notin> set ds \<Longrightarrow> prompt_input ks n = Some r \<Longrightarrow> prompt_input (ds @ ks) (length ds + n) = Some (map Some ds @ r)"
  by (induction ds) simp_all

text \<open>The hexadecimal prompt: four digits give their value; but an answer of fewer than four digits
  ended by a newline makes it read an array entry that was never written, since it passes the size of
  the array and not the number of characters read.\<close>

theorem shell_prompt_hex_behaviour:
  assumes "list_all is_digit16 ds" "length ds \<le> 4"
  shows "shell_prompt_hex (ds @ 10 # ks) =
     (if length ds = 4 then Some (Inr (sint (ucast (hex_number ds) :: u32))) else Some (Inl Uninitialised))"
proof -
  have nl: "10 \<notin> set ds" using assms(1) by (auto simp: list_all_iff is_digit16_def)
  have tw: "takeWhile is_digit16 ds = ds" using assms(1) by (simp add: list_all_iff takeWhile_eq_all_conv)
  show ?thesis
  proof (cases "length ds = 4")
    case True
    then have "prompt_input (ds @ 10 # ks) 4 = Some (map Some ds)"
      using prompt_input_digits[OF nl, of "10 # ks" 0 "[]"] by simp
    then show ?thesis using naive_atoi16_from[of 4 ds "[]" 0] True tw by (simp add: shell_prompt_hex_def hex_number_def)
  next
    case False
    then obtain k where k: "4 = length ds + Suc k" using assms(2) by (metis add_Suc_right le_neq_implies_less less_imp_Suc_add)
    then have "prompt_input (ds @ 10 # ks) 4 = Some (map Some ds @ None # replicate k None)"
      using prompt_input_digits[OF nl, of "10 # ks" "Suc k" "replicate (Suc k) None"] by (simp only: k) simp
    moreover have "length ds < 4" using k by simp
    ultimately show ?thesis using naive_atoi16_uninit[OF assms(1), of 4] False by (simp add: shell_prompt_hex_def)
  qed
qed

theorem shell_prompt_hex_behaviour_witness:
  "shell_prompt_hex (lit ''1F'' @ [10]) = Some (Inl Uninitialised)"
  using shell_prompt_hex_behaviour[of "lit ''1F''" "[]"] by (simp add: lit_def ascii_def is_digit16_def)

text \<open>The checkpoint never returns: it waits for the letter y, a character above the 97 entries of the
  scancode table, which \<^verbatim>\<open>is_key_pressed\<close> answers with 0 whatever the keyboard does.\<close>

theorem checkpoint_never_returns: "checkpoint name now s = None"
proof -
  have y: "is_key_pressed st (ascii CHR ''y'') = Inr 0" for st
    by (simp add: is_key_pressed_def ascii_def)
  have "False" if "checkpoint_loop now i s = Some r" for i s r
    using that
    by (rule checkpoint_loop.raw_induct[where P = "\<lambda>_ _ _ _. False", rotated]) (simp add: y)
  then show ?thesis unfolding checkpoint_def by (meson option.exhaust)
qed

end
