(* ===== verification/Aml.thy ===== *)
theory Aml
  imports Prelude
begin

text \<open>
  The ACPI machine language reader, first half: the code stream, names, the namespace tree and the
  evaluation of integer and data terms, from \<^verbatim>\<open>name.c\<close>, \<^verbatim>\<open>namespace.c\<close> and \<^verbatim>\<open>helpers.c\<close> of
  \<^verbatim>\<open>lethe-aml/aml\<close>.

  A table is a list of bytes and a code pointer a position in it; reading past the table is a fault.
  The source keeps the pointer in the namespace being read (\<^verbatim>\<open>ns->code\<close>); since \<^verbatim>\<open>parse_termlist\<close> saves
  and restores it, it is threaded here as an argument and a result. Namespaces live in a list, a
  pointer to one is its index, and the root has index 0. The two hash maps of a namespace are taken as
  the finite maps they implement (theory \<open>HashMap\<close>), with every allocation successful. Recursion in
  the source follows the code, so the recursive readers carry a bound on their depth; running out of it
  is the value \<open>None\<close>, and the theorems show that the length of the table is always enough.
\<close>

section \<open>Data\<close>

type_synonym hash_key = "u8 list"

abbreviation (input) KEY_LEN :: nat where "KEY_LEN \<equiv> 4"

text \<open>The contents of a variable: the union of \<^verbatim>\<open>aml_variable_t\<close> with its tag.\<close>

datatype aml_data =
    DATA_UNINIT "u8 list"
  | DATA_STR "u8 list"
  | DATA_PKG "aml_data list"
  | DATA_BUF "u8 list"
  | DATA_BYTE u8
  | DATA_SHORT u16
  | DATA_INT u32
  | DATA_LONG u64

record aml_operation_region =
  region_space :: u8
  region_offset :: u64
  region_len :: u64

record aml_field =
  access_type :: u8
  should_lock :: bool
  update_rule :: u8
  field_region :: aml_operation_region

datatype aml_obj =
    TYPE_METHOD (method_flags: u8) (method_len: u64) (method_code: nat) (method_scope: nat)
  | TYPE_REGION aml_operation_region
  | TYPE_NAME aml_data
  | TYPE_FIELD_OFFSET (field_offset: int) (field_len: int) (field_parent: aml_field)
  | TYPE_MUTEX u8
  | TYPE_WORD_FIELD (word_buffer: "u8 list") (word_index: u64)

record aml_namespace =
  ns_parent :: "nat option"
  ns_name :: hash_key
  children :: "hash_key \<Rightarrow> aml_obj option"
  namespaces :: "hash_key \<Rightarrow> nat option"

type_synonym aml_state = "aml_namespace list"

abbreviation (input) root :: nat where "root \<equiv> 0"

text \<open>The machine the interpreter reads: memory by byte, and the three widths of port reads.\<close>

record aml_host =
  host_mem :: "u64 \<Rightarrow> u8"
  host_inb :: "u16 \<Rightarrow> u8"
  host_inw :: "u16 \<Rightarrow> u16"
  host_inl :: "u16 \<Rightarrow> u32"

section \<open>The code stream\<close>

definition fetch :: "u8 list \<Rightarrow> nat \<Rightarrow> u8 res" where
  "fetch code p = (if p < length code then Inr (code ! p) else Inl OutOfBounds)"

definition fetch_block :: "u8 list \<Rightarrow> nat \<Rightarrow> nat \<Rightarrow> u8 list res" where
  "fetch_block code p n = (if p + n \<le> length code then Inr (take n (drop p code)) else Inl OutOfBounds)"

text \<open>Little-endian value of a block, as the source assembles it with shifts.\<close>

definition le_value :: "u8 list \<Rightarrow> u64" where
  "le_value bs = foldr (\<lambda>b v. ucast b OR push_bit 8 v) bs 0"

definition parse_length :: "u8 list \<Rightarrow> nat \<Rightarrow> (u64 \<times> nat) res" where
  "parse_length code p =
     bindE (fetch code p) (\<lambda>lead_byte.
     let byte_count = drop_bit 6 lead_byte AND 3; len = (ucast (lead_byte AND 0x3F) :: u64) in
     if byte_count = 0 then Inr (len, p + 1)
     else bindE (fetch code (p + 1)) (\<lambda>b1.
       let len1 = len OR push_bit 4 (ucast b1) in
       if byte_count = 1 then Inr (len1, p + 2)
       else bindE (fetch code (p + 2)) (\<lambda>b2.
         let len2 = len1 OR push_bit 12 (ucast b2) in
         if byte_count = 2 then Inr (len2, p + 3)
         else bindE (fetch code (p + 3)) (\<lambda>b3. Inr (len2 OR push_bit 20 (ucast b3), p + 4)))))"

section \<open>Names\<close>

definition is_prefix_char :: "u8 \<Rightarrow> bool" where
  "is_prefix_char c \<longleftrightarrow> c = 0x5C \<or> c = 0x5E"

definition parse_namestring :: "u8 list \<Rightarrow> nat \<Rightarrow> (u8 list \<times> nat) res" where
  "parse_namestring code p =
     (let prefixes = takeWhile is_prefix_char (drop p code); q = p + length prefixes in
      bindE (fetch code q) (\<lambda>prefix.
      bindE (if prefix = 0x2E then Inr (2, q + 1)
             else if prefix = 0x2F then bindE (fetch code (q + 1)) (\<lambda>n. Inr (unat n, q + 2))
             else if prefix = 0 then Inr (0, q + 1)
             else Inr (1, q)) (\<lambda>(seg_count, r).
      bindE (fetch_block code r (seg_count * KEY_LEN)) (\<lambda>segs.
        Inr (take 1 prefixes @ segs, r + seg_count * KEY_LEN)))))"

definition valid_char :: "u8 \<Rightarrow> bool" where
  "valid_char c \<longleftrightarrow> \<not> ((sint c < 65 \<or> sint c > 90) \<and> (sint c < 48 \<or> sint c > 57) \<and> c \<noteq> 0x5F)"

definition valid_name :: "u8 list \<Rightarrow> bool" where
  "valid_name name =
     (case name of [] \<Rightarrow> True | c # cs \<Rightarrow> (if is_prefix_char c then True else valid_char c) \<and> list_all valid_char cs)"

definition trim_name :: "u8 list \<Rightarrow> u8 list" where
  "trim_name name = (if length name \<le> KEY_LEN then name else drop (length name - KEY_LEN) name)"

section \<open>Namespaces\<close>

definition new_namespace :: "nat option \<Rightarrow> hash_key \<Rightarrow> aml_namespace" where
  "new_namespace parent name = \<lparr>ns_parent = parent, ns_name = name, children = Map.empty, namespaces = Map.empty\<rparr>"

definition push_namespace :: "aml_state \<Rightarrow> nat \<Rightarrow> hash_key \<Rightarrow> nat \<Rightarrow> aml_state" where
  "push_namespace st parent name this =
     st[parent := (st ! parent)\<lparr>namespaces := (namespaces (st ! parent))(name \<mapsto> this)\<rparr>]"

definition create_namespace :: "aml_state \<Rightarrow> nat option \<Rightarrow> hash_key \<Rightarrow> nat \<times> aml_state" where
  "create_namespace st parent name =
     (let this = length st; st1 = st @ [new_namespace parent name] in
      (this, case parent of None \<Rightarrow> st1 | Some p \<Rightarrow> push_namespace st1 p name this))"

definition add_child_to_namespace :: "aml_state \<Rightarrow> nat \<Rightarrow> hash_key \<Rightarrow> aml_obj \<Rightarrow> aml_state" where
  "add_child_to_namespace st ns key obj =
     st[ns := (st ! ns)\<lparr>children := (children (st ! ns))(key \<mapsto> obj)\<rparr>]"

definition init_aml_namespaces :: aml_state where
  "init_aml_namespaces =
     foldl (\<lambda>st name. snd (create_namespace st (Some root) (lit name)))
       (snd (create_namespace [] None (lit [CHR 0x5C, CHR ''_'', CHR ''_'', CHR ''_''])))
       [''_GPE'', ''_PR_'', ''_SB_'', ''_SI_'', ''_TZ_'']"

text \<open>What a lookup returns: a namespace or an object, according to the flag of the call.\<close>

datatype aml_found = FoundNs nat | FoundObj aml_obj

definition ns_get :: "aml_state \<Rightarrow> nat \<Rightarrow> hash_key \<Rightarrow> bool \<Rightarrow> aml_found option" where
  "ns_get st ns key namespace =
     (if namespace then map_option FoundNs (namespaces (st ! ns) key) else map_option FoundObj (children (st ! ns) key))"

text \<open>The climb to the root, with the number of namespaces as its bound.\<close>

fun stage3 :: "nat \<Rightarrow> aml_state \<Rightarrow> nat \<Rightarrow> hash_key \<Rightarrow> bool \<Rightarrow> aml_found option option" where
  "stage3 0 st ns key namespace = None"
| "stage3 (Suc n) st ns key namespace =
     (case ns_get st ns key namespace of
        Some found \<Rightarrow> Some (Some found)
      | None \<Rightarrow> (case ns_parent (st ! ns) of None \<Rightarrow> Some None | Some up \<Rightarrow> stage3 n st up key namespace))"

fun walk_scope :: "aml_state \<Rightarrow> nat \<Rightarrow> u8 list \<Rightarrow> nat option" where
  "walk_scope st ns (a # b # c # d # rest) =
     Option.bind (namespaces (st ! ns) [a, b, c, d]) (\<lambda>next_ns. walk_scope st next_ns rest)"
| "walk_scope st ns _ = Some ns"

definition resolve_scope :: "aml_state \<Rightarrow> nat \<Rightarrow> u8 list \<Rightarrow> nat option" where
  "resolve_scope st ns key =
     (if length key mod KEY_LEN \<noteq> 0 then None
      else Option.bind (walk_scope st ns key) (\<lambda>next_ns. if next_ns = ns then None else Some next_ns))"

definition stage2 :: "aml_state \<Rightarrow> nat \<Rightarrow> u8 list \<Rightarrow> bool \<Rightarrow> aml_found option res" where
  "stage2 st ns key namespace =
     (if length key = KEY_LEN then Inr (ns_get st ns key namespace)
      else if length key < KEY_LEN then Inl OutOfBounds
      else let scope_len = length key - KEY_LEN in
        Inr (Option.bind (resolve_scope st ns (take scope_len key))
               (\<lambda>scope. ns_get st scope (drop scope_len key) namespace)))"

text \<open>\<^verbatim>\<open>locate_object\<close> also shifts the prefix out of the caller's buffer, which keeps its length and so its
  last byte twice; the second result is the buffer after the call.\<close>

definition shift_key :: "u8 list \<Rightarrow> u8 list" where
  "shift_key key = tl key @ [last key]"

definition locate_object :: "aml_state \<Rightarrow> nat \<Rightarrow> u8 list \<Rightarrow> bool \<Rightarrow> (aml_found option \<times> u8 list) run" where
  "locate_object st ns key namespace =
     (if length key = 1 then Some (Inr (Some (FoundNs root), key))
      else if \<not> valid_name key then Some (Inl Abort)
      else if length key = KEY_LEN
        then map_option (\<lambda>r. Inr (r, key)) (stage3 (Suc (length st)) st ns key namespace)
      else if key = [] then Some (Inl Uninitialised)
      else if hd key = 0x5E then
        (case ns_parent (st ! ns) of
           None \<Rightarrow> Some (Inr (None, key))
         | Some up \<Rightarrow> Some (bindE (stage2 st up (tl key) namespace) (\<lambda>r. Inr (r, shift_key key))))
      else if hd key = 0x5C then Some (bindE (stage2 st root (tl key) namespace) (\<lambda>r. Inr (r, shift_key key)))
      else Some (bindE (stage2 st ns key namespace) (\<lambda>r. Inr (r, key))))"

text \<open>\<^verbatim>\<open>resolve_name\<close>: the names from the root down to the namespace, before the key.\<close>

fun path_names :: "nat \<Rightarrow> aml_state \<Rightarrow> nat \<Rightarrow> u8 list option" where
  "path_names 0 st ns = None"
| "path_names (Suc n) st ns =
     (case ns_parent (st ! ns) of
        None \<Rightarrow> Some []
      | Some up \<Rightarrow> map_option (\<lambda>names. names @ ns_name (st ! ns)) (path_names n st up))"

fun top_of :: "nat \<Rightarrow> aml_state \<Rightarrow> nat \<Rightarrow> nat" where
  "top_of 0 st ns = ns"
| "top_of (Suc n) st ns = (case ns_parent (st ! ns) of None \<Rightarrow> ns | Some up \<Rightarrow> top_of n st up)"

definition resolve_name :: "aml_state \<Rightarrow> nat \<Rightarrow> u8 list \<Rightarrow> u8 list run" where
  "resolve_name st ns key =
     (if key = [] then Some (Inl OutOfBounds)
      else if hd key = 0x5E then Some (Inl AssertFailed)
      else if ns = root \<or> hd key = 0x5C then Some (Inr key)
      else if top_of (length st) st ns \<noteq> root then Some (Inl AssertFailed)
      else map_option (\<lambda>names. Inr (0x5C # names @ key)) (path_names (Suc (length st)) st ns))"

section \<open>Integer terms\<close>

definition read_mem :: "aml_host \<Rightarrow> u64 \<Rightarrow> nat \<Rightarrow> u64 res" where
  "read_mem h address access_len =
     (if access_len \<in> {8, 16, 32, 64}
      then Inr (le_value (map (\<lambda>i. host_mem h (address + of_nat i)) [0..<access_len div 8]))
      else Inl Abort)"

definition read_io :: "aml_host \<Rightarrow> u16 \<Rightarrow> nat \<Rightarrow> u64 res" where
  "read_io h port access_len =
     (if access_len = 8 then Inr (ucast (host_inb h port))
      else if access_len = 16 then Inr (ucast (host_inw h port))
      else if access_len = 32 then Inr (ucast (host_inl h port))
      else Inl Abort)"

definition access_bits :: "u8 \<Rightarrow> nat res" where
  "access_bits t =
     (if t = 0 \<or> t = 1 then Inr 8 else if t = 2 then Inr 16 else if t = 3 then Inr 32
      else if t = 4 then Inr 64 else Inl Abort)"

definition read_field :: "aml_host \<Rightarrow> int \<Rightarrow> aml_field \<Rightarrow> u64 res" where
  "read_field h offset parent =
     bindE (access_bits (access_type parent)) (\<lambda>read_len.
     let region = field_region parent; address = region_offset region + word_of_int offset in
     if region_space region = 0 then read_mem h address read_len
     else if region_space region = 1 then read_io h (ucast address) read_len
     else Inl Abort)"

text \<open>The value of a named object in an integer term. A method, region, mutex or word field counts as 0.\<close>

definition obj_to_int :: "aml_host \<Rightarrow> aml_obj \<Rightarrow> u64 res" where
  "obj_to_int h obj =
     (case obj of
        TYPE_NAME d \<Rightarrow>
          (case d of DATA_BYTE b \<Rightarrow> Inr (ucast b) | DATA_SHORT w \<Rightarrow> Inr (ucast w) | DATA_INT i \<Rightarrow> Inr (ucast i) | _ \<Rightarrow> Inl Abort)
      | TYPE_FIELD_OFFSET offset _ parent \<Rightarrow> read_field h offset parent
      | _ \<Rightarrow> Inr 0)"

definition of_truth :: "bool \<Rightarrow> u64" where
  "of_truth b = (if b then 1 else 0)"

definition logic_op :: "u8 \<Rightarrow> (u64 \<Rightarrow> u64 \<Rightarrow> bool) option" where
  "logic_op op =
     (if op = 0x93 then Some (=) else if op = 0x90 then Some (\<lambda>a b. a \<noteq> 0 \<and> b \<noteq> 0)
      else if op = 0x95 then Some (<) else if op = 0x94 then Some (>) else None)"

definition name_to_int :: "aml_host \<Rightarrow> u8 list \<Rightarrow> aml_state \<Rightarrow> nat \<Rightarrow> nat \<Rightarrow> (u64 \<times> nat) run" where
  "name_to_int h code st ns p =
     bindR (Some (fetch_block code p KEY_LEN)) (\<lambda>name.
     bindR (locate_object st ns name False) (\<lambda>(obj, _).
       case obj of
         Some (FoundObj ob) \<Rightarrow> Some (bindE (obj_to_int h ob) (\<lambda>v. Inr (v, p + KEY_LEN)))
       | _ \<Rightarrow> Some (Inl Abort)))"

fun term_arg_to_int :: "nat \<Rightarrow> aml_host \<Rightarrow> u8 list \<Rightarrow> aml_state \<Rightarrow> nat \<Rightarrow> nat \<Rightarrow> (u64 \<times> nat) run" where
  "term_arg_to_int 0 h code st ns p = None"
| "term_arg_to_int (Suc f) h code st ns p =
     bindR (Some (fetch code p)) (\<lambda>op.
     if op = 0 then Some (Inr (0, p + 1))
     else if op = 1 then Some (Inr (1, p + 1))
     else if op = 0xFF then Some (Inr (- 1, p + 1))
     else if op = 0x0A then Some (bindE (fetch_block code (p + 1) 1) (\<lambda>bs. Inr (le_value bs, p + 2)))
     else if op = 0x0B then Some (bindE (fetch_block code (p + 1) 2) (\<lambda>bs. Inr (le_value bs, p + 3)))
     else if op = 0x0C then Some (bindE (fetch_block code (p + 1) 4) (\<lambda>bs. Inr (le_value bs, p + 5)))
     else if op = 0x92 then
       bindR (term_arg_to_int f h code st ns (p + 1)) (\<lambda>(v, q). Some (Inr (of_truth (v = 0), q)))
     else (case logic_op op of
         Some cmp \<Rightarrow>
           bindR (term_arg_to_int f h code st ns (p + 1)) (\<lambda>(a, q).
           bindR (term_arg_to_int f h code st ns q) (\<lambda>(b, r). Some (Inr (of_truth (cmp a b), r))))
       | None \<Rightarrow> name_to_int h code st ns p))"

definition term_arg_to_buffer :: "u8 list \<Rightarrow> aml_state \<Rightarrow> nat \<Rightarrow> nat \<Rightarrow> (u8 list \<times> nat) run" where
  "term_arg_to_buffer code st ns p =
     bindR (Some (fetch_block code p KEY_LEN)) (\<lambda>name.
     bindR (locate_object st ns name False) (\<lambda>(obj, _).
       case obj of
         None \<Rightarrow> Some (Inl NullDeref)
       | Some (FoundObj (TYPE_NAME (DATA_BUF bs))) \<Rightarrow> Some (Inr (bs, p + KEY_LEN))
       | _ \<Rightarrow> Some (Inl Abort)))"

section \<open>Data objects\<close>

text \<open>An integer term with a bound that is enough for any term of the table, and the element count of a
  package, an octet in the fixed form and a term in the variable one.\<close>

definition term_int :: "aml_host \<Rightarrow> u8 list \<Rightarrow> aml_state \<Rightarrow> nat \<Rightarrow> nat \<Rightarrow> (u64 \<times> nat) run" where
  "term_int h code st ns p = term_arg_to_int (Suc (length code)) h code st ns p"

definition num_elements :: "aml_host \<Rightarrow> u8 list \<Rightarrow> aml_state \<Rightarrow> nat \<Rightarrow> u8 \<Rightarrow> nat \<Rightarrow> (u8 \<times> nat) run" where
  "num_elements h code st ns op q =
     (if op = 0x12 then Some (bindE (fetch code q) (\<lambda>n. Inr (n, q + 1)))
      else bindR (term_int h code st ns q) (\<lambda>(v, r). Some (Inr (ucast v, r))))"

definition parse_string :: "u8 list \<Rightarrow> nat \<Rightarrow> (aml_data \<times> nat) res" where
  "parse_string code p =
     (let s = takeWhile (\<lambda>c. c \<noteq> 0) (drop p code); q = p + length s in
      if q < length code then Inr (DATA_STR (s @ [0]), q + 1) else Inl OutOfBounds)"

function (sequential)
  parse_data_object :: "nat \<Rightarrow> aml_host \<Rightarrow> u8 list \<Rightarrow> aml_state \<Rightarrow> nat \<Rightarrow> nat \<Rightarrow> (aml_data \<times> nat) run"
  and populate_package :: "nat \<Rightarrow> aml_host \<Rightarrow> u8 list \<Rightarrow> aml_state \<Rightarrow> nat \<Rightarrow> nat \<Rightarrow> nat \<Rightarrow> (aml_data list \<times> nat) run"
where
  "parse_data_object 0 h code st ns p = None"
| "parse_data_object (Suc f) h code st ns p =
     bindR (Some (fetch code p)) (\<lambda>op.
     if op = 0 then Some (Inr (DATA_BYTE 0, p + 1))
     else if op = 1 then Some (Inr (DATA_BYTE 1, p + 1))
     else if op = 0xFF then Some (Inr (DATA_BYTE 0xFF, p + 1))
     else if op = 0x0A then Some (bindE (fetch_block code (p + 1) 1) (\<lambda>bs. Inr (DATA_BYTE (ucast (le_value bs)), p + 2)))
     else if op = 0x0B then Some (bindE (fetch_block code (p + 1) 2) (\<lambda>bs. Inr (DATA_SHORT (ucast (le_value bs)), p + 3)))
     else if op = 0x0C then Some (bindE (fetch_block code (p + 1) 4) (\<lambda>bs. Inr (DATA_INT (ucast (le_value bs)), p + 5)))
     else if op = 0x0E then Some (bindE (fetch_block code (p + 1) 8) (\<lambda>bs. Inr (DATA_LONG (le_value bs), p + 9)))
     else if op = 0x0D then Some (parse_string code (p + 1))
     else if op = 0x12 \<or> op = 0x13 then
       bindR (Some (parse_length code (p + 1))) (\<lambda>(_, q).
       bindR (num_elements h code st ns op q) (\<lambda>(n, r).
       bindR (populate_package f h code st ns (unat n) r) (\<lambda>(ds, e). Some (Inr (DATA_PKG ds, e)))))
     else if op = 0x11 then
       bindR (Some (parse_length code (p + 1))) (\<lambda>(_, q).
       bindR (term_int h code st ns q) (\<lambda>(buffer_size, r).
         Some (bindE (fetch_block code r (unat buffer_size)) (\<lambda>bs. Inr (DATA_BUF bs, r + unat buffer_size)))))
     else Some (Inl AssertFailed))"
| "populate_package f h code st ns 0 p = Some (Inr ([], p))"
| "populate_package f h code st ns (Suc n) p =
     bindR (Some (parse_namestring code p)) (\<lambda>(name, q).
     bindR (if \<not> valid_name name \<or> name = [] then parse_data_object f h code st ns p
            else bindR (resolve_name st ns name) (\<lambda>full. Some (Inr (DATA_UNINIT full, q)))) (\<lambda>(d, r).
     bindR (populate_package f h code st ns n r) (\<lambda>(ds, e). Some (Inr (d # ds, e)))))"
  by pat_completeness auto

termination
  by (relation "measures [\<lambda>x. case x of Inl (f, _) \<Rightarrow> f | Inr (f, _) \<Rightarrow> f,
      \<lambda>x. case x of Inl _ \<Rightarrow> 0 | Inr (_, _, _, _, _, n, _) \<Rightarrow> n]") auto

section \<open>Runs that end\<close>

text \<open>\<open>runs P m\<close>: m ends, and when it ends with a value that value satisfies P.\<close>

definition runs :: "('a \<Rightarrow> bool) \<Rightarrow> 'a run \<Rightarrow> bool" where
  "runs P m = (case m of None \<Rightarrow> False | Some (Inl _) \<Rightarrow> True | Some (Inr x) \<Rightarrow> P x)"

lemma runs_simps [simp]: "\<not> runs P None" "runs P (Some (Inl e))" "runs P (Some (Inr x)) = P x"
  by (simp_all add: runs_def)

lemma runs_bind: "runs Q m \<Longrightarrow> (\<And>x. Q x \<Longrightarrow> runs P (f x)) \<Longrightarrow> runs P (bindR m f)"
  by (simp add: runs_def[of Q] bindR_def split: option.splits sum.splits)

lemma runs_bind_res: "(\<And>x. r = Inr x \<Longrightarrow> runs P (f x)) \<Longrightarrow> runs P (bindR (Some r) f)"
  by (cases r) (auto simp: bindR_def)

lemma runs_res: "(\<And>x. r = Inr x \<Longrightarrow> P x) \<Longrightarrow> runs P (Some r)"
  by (cases r) auto

lemma runs_mono: "runs P m \<Longrightarrow> (\<And>x. P x \<Longrightarrow> Q x) \<Longrightarrow> runs Q m"
  by (auto simp: runs_def split: option.splits sum.splits)

lemma runs_iff: "runs P m \<longleftrightarrow> (\<exists>r. m = Some r \<and> (case r of Inl _ \<Rightarrow> True | Inr x \<Rightarrow> P x))"
  by (auto simp: runs_def split: option.splits sum.splits)

section \<open>Progress of the readers\<close>

lemma fetch_Inr_iff [res_iff]: "fetch code p = Inr b \<longleftrightarrow> p < length code \<and> b = code ! p"
  by (auto simp: fetch_def)

lemma fetch_block_Inr_iff [res_iff]:
  "fetch_block code p n = Inr bs \<longleftrightarrow> p + n \<le> length code \<and> bs = take n (drop p code)"
  by (auto simp: fetch_block_def)

lemma parse_length_progress: "parse_length code p = Inr (len, q) \<Longrightarrow> p < q \<and> q \<le> length code"
  by (auto simp: parse_length_def Let_def bindE_Inr_iff fetch_Inr_iff split: if_splits)

lemma parse_namestring_progress: "parse_namestring code p = Inr (name, q) \<Longrightarrow> p < q \<and> q \<le> length code"
  by (auto simp: parse_namestring_def Let_def bindE_Inr_iff fetch_Inr_iff fetch_block_Inr_iff split: if_splits)

lemma parse_string_progress: "parse_string code p = Inr (d, q) \<Longrightarrow> p < q"
  by (auto simp: parse_string_def Let_def split: if_splits)

section \<open>Well-formed namespace trees\<close>

text \<open>Every parent comes before its child, and every registered namespace exists. The first n namespaces are
  closed when these conditions hold among them.\<close>

definition ns_closed :: "nat \<Rightarrow> aml_state \<Rightarrow> bool" where
  "ns_closed n st \<longleftrightarrow> 0 < n \<and> n \<le> length st \<and>
     (\<forall>i < n. (\<forall>up. ns_parent (st ! i) = Some up \<longrightarrow> up < i) \<and> (\<forall>k j. namespaces (st ! i) k = Some j \<longrightarrow> j < n))"

definition ns_wf :: "aml_state \<Rightarrow> bool" where
  "ns_wf st = ns_closed (length st) st"

lemma ns_closed_parent: "ns_closed n st \<Longrightarrow> ns < n \<Longrightarrow> ns_parent (st ! ns) = Some up \<Longrightarrow> up < ns"
  by (simp add: ns_closed_def)

lemma ns_closed_child: "ns_closed n st \<Longrightarrow> ns < n \<Longrightarrow> namespaces (st ! ns) k = Some j \<Longrightarrow> j < n"
  by (auto simp: ns_closed_def)

lemmas ns_wf_parent = ns_closed_parent[of "length st" st for st, folded ns_wf_def]

definition found_ok :: "nat \<Rightarrow> aml_found option \<Rightarrow> bool" where
  "found_ok n f \<longleftrightarrow> (case f of Some (FoundNs i) \<Rightarrow> i < n | _ \<Rightarrow> True)"

lemma ns_get_ok: "ns_closed n st \<Longrightarrow> ns < n \<Longrightarrow> found_ok n (ns_get st ns key b)"
  by (auto simp: found_ok_def ns_get_def split: option.splits dest: ns_closed_child)

lemma stage3_total:
  "ns_closed n st \<Longrightarrow> ns < n \<Longrightarrow> ns < k \<Longrightarrow> \<exists>r. stage3 k st ns key b = Some r \<and> found_ok n r"
proof (induction k arbitrary: ns)
  case (Suc k)
  show ?case
  proof (cases "ns_get st ns key b")
    case None
    show ?thesis
    proof (cases "ns_parent (st ! ns)")
      case (Some up)
      then have "up < ns" using ns_closed_parent Suc.prems by blast
      then show ?thesis using Suc.IH[of up] Suc.prems None Some by simp
    qed (simp add: None found_ok_def)
  qed (use ns_get_ok[OF Suc.prems(1,2), of key b] in simp)
qed simp

lemma walk_scope_ok: "ns_closed n st \<Longrightarrow> ns < n \<Longrightarrow> walk_scope st ns key = Some j \<Longrightarrow> j < n"
  by (induction st ns key rule: walk_scope.induct) (auto simp: bind_eq_Some_conv dest: ns_closed_child)

lemma stage2_ok: "ns_closed n st \<Longrightarrow> ns < n \<Longrightarrow> stage2 st ns key b = Inr r \<Longrightarrow> found_ok n r"
  by (auto simp: stage2_def Let_def resolve_scope_def ns_get_ok bind_eq_Some_conv split: if_splits bind_splits
      dest!: walk_scope_ok intro!: ns_get_ok) (auto simp: found_ok_def)

lemma locate_object_closed:
  assumes "ns_closed n st" "ns < n"
  shows "runs (\<lambda>(r, buf). found_ok n r \<and> length buf = length key) (locate_object st ns key b)"
proof -
  have len: "n \<le> length st" and root: "0 < n" using assms(1) by (auto simp: ns_closed_def)
  obtain r where r: "stage3 (Suc (length st)) st ns key b = Some r" "found_ok n r"
    using stage3_total[OF assms, of "Suc (length st)" key b] assms(2) len by auto
  have up: "up < n" if "ns_parent (st ! ns) = Some up" for up
    using ns_closed_parent[OF assms that] assms(2) by simp
  show ?thesis using r root up assms stage2_ok[OF assms(1)] stage2_ok[OF assms(1) root]
    by (auto simp: locate_object_def found_ok_def[of n None] found_ok_def[of n "Some (FoundNs 0)"] shift_key_def
        bindE_Inr_iff split: option.splits intro!: runs_res)
qed

lemma locate_object_total:
  "ns_wf st \<Longrightarrow> ns < length st \<Longrightarrow>
     runs (\<lambda>(r, buf). found_ok (length st) r \<and> length buf = length key) (locate_object st ns key b)"
  unfolding ns_wf_def by (rule locate_object_closed)

lemma path_names_total: "ns_wf st \<Longrightarrow> ns < length st \<Longrightarrow> ns < n \<Longrightarrow> \<exists>r. path_names n st ns = Some r"
proof (induction n arbitrary: ns)
  case (Suc n)
  show ?case
  proof (cases "ns_parent (st ! ns)")
    case (Some up)
    then have "up < ns" using ns_wf_parent Suc.prems by blast
    then show ?thesis using Suc.IH[of up] Suc.prems Some by auto
  qed simp
qed simp

lemma resolve_name_total: "ns_wf st \<Longrightarrow> ns < length st \<Longrightarrow> runs (\<lambda>_. True) (resolve_name st ns key)"
  using path_names_total[of st ns "Suc (length st)"] by (auto simp: resolve_name_def runs_def)

lemma name_to_int_total:
  assumes "ns_wf st" "ns < length st"
  shows "runs (\<lambda>(v, q). p < q) (name_to_int h code st ns p)"
  unfolding name_to_int_def
  by (intro runs_bind_res runs_bind[OF locate_object_total[OF assms]])
    (auto split: option.splits aml_found.splits simp: bindE_Inr_iff intro!: runs_res)

lemma term_arg_to_int_total:
  assumes "ns_wf st" "ns < length st" "length code - p < f"
  shows "runs (\<lambda>(v, q). p < q) (term_arg_to_int f h code st ns p)"
  using assms(3)
proof (induction f arbitrary: p)
  case (Suc f)
  show ?case
  proof (cases "p < length code")
    case True
    have IH: "runs (\<lambda>(v, r). q < r) (term_arg_to_int f h code st ns q)" if "p < q" for q
      using that Suc True by (intro Suc.IH) linarith
    have one: "runs (\<lambda>(v, q). p < q) (bindR (term_arg_to_int f h code st ns (p + 1)) (\<lambda>(v, q). Some (Inr (g v, q))))" for g
      using IH[of "p + 1"] by (rule runs_bind) auto
    have two: "runs (\<lambda>(v, q). p < q) (bindR (term_arg_to_int f h code st ns (p + 1)) (\<lambda>(a, q).
        bindR (term_arg_to_int f h code st ns q) (\<lambda>(b, r). Some (Inr (g a b, r)))))" for g
    proof (rule runs_bind[OF IH[of "p + 1"]], simp, clarify)
      fix a q assume "p + 1 < q"
      then show "runs (\<lambda>(v, q). p < q) (bindR (term_arg_to_int f h code st ns q) (\<lambda>(b, r). Some (Inr (g a b, r))))"
        using IH[of q] by (intro runs_bind[OF IH[of q]]) auto
    qed
    show ?thesis using name_to_int_total[OF assms(1,2)] one two
      by (auto simp: fetch_def bindR_def[of "Some (Inr (code ! p))"] bindE_Inr_iff split: option.splits intro!: runs_res)
  qed (simp add: fetch_def bindR_def)
qed simp

lemma term_int_total: "ns_wf st \<Longrightarrow> ns < length st \<Longrightarrow> runs (\<lambda>(v, q). p < q) (term_int h code st ns p)"
  unfolding term_int_def by (intro term_arg_to_int_total) simp_all

lemma num_elements_total:
  assumes "ns_wf st" "ns < length st"
  shows "runs (\<lambda>(n, r). q < r) (num_elements h code st ns op q)"
  unfolding num_elements_def
  by (auto intro!: runs_bind[OF term_int_total[OF assms, of q h code]] runs_res simp: bindE_Inr_iff)

lemma populate_package_total:
  assumes "ns_wf st" "ns < length st" "\<And>q. p \<le> q \<Longrightarrow> runs (\<lambda>(d, r). q < r) (parse_data_object f h code st ns q)"
  shows "runs (\<lambda>(ds, q). p \<le> q) (populate_package f h code st ns n p)"
  using assms(3)
proof (induction n arbitrary: p)
  case (Suc n)
  show ?case
  proof (simp only: populate_package.simps, rule runs_bind_res, clarify)
    fix name q assume "parse_namestring code p = Inr (name, q)"
    then have q: "p < q" using parse_namestring_progress by blast
    have e: "runs (\<lambda>(d, r). p < r) (if \<not> valid_name name \<or> name = [] then parse_data_object f h code st ns p
            else bindR (resolve_name st ns name) (\<lambda>full. Some (Inr (DATA_UNINIT full, q))))"
      using Suc.prems[of p] q by (auto intro!: runs_bind[OF resolve_name_total[OF assms(1,2)]])
    show "runs (\<lambda>(ds, q). p \<le> q) (bindR (if \<not> valid_name name \<or> name = [] then parse_data_object f h code st ns p
            else bindR (resolve_name st ns name) (\<lambda>full. Some (Inr (DATA_UNINIT full, q)))) (\<lambda>(d, r).
              bindR (populate_package f h code st ns n r) (\<lambda>(ds, e). Some (Inr (d # ds, e)))))"
    proof (rule runs_bind[OF e], clarify)
      fix d r assume r: "p < r"
      then have "runs (\<lambda>(ds, q). r \<le> q) (populate_package f h code st ns n r)"
        using Suc.prems by (intro Suc.IH) simp
      then show "runs (\<lambda>(ds, q). p \<le> q) (bindR (populate_package f h code st ns n r) (\<lambda>(ds, e). Some (Inr (d # ds, e))))"
        by (rule runs_bind) (use r in auto)
    qed
  qed
qed simp

lemma parse_data_object_total:
  assumes "ns_wf st" "ns < length st" "length code - p < f"
  shows "runs (\<lambda>(d, q). p < q) (parse_data_object f h code st ns p)"
  using assms(3)
proof (induction f arbitrary: p)
  case (Suc f)
  show ?case
  proof (cases "p < length code")
    case True
    have P: "runs (\<lambda>(ds, q). r \<le> q) (populate_package f h code st ns n r)" if "p < r" for n r
      using that Suc True by (intro populate_package_total[OF assms(1,2)] Suc.IH) linarith
    have pkg: "runs (\<lambda>(d, q). p < q) (bindR (Some (parse_length code (p + 1))) (\<lambda>(_, q).
       bindR (num_elements h code st ns op q) (\<lambda>(n, r).
       bindR (populate_package f h code st ns (unat n) r) (\<lambda>(ds, e). Some (Inr (DATA_PKG ds, e))))))" for op
    proof (rule runs_bind_res, clarify, rule runs_bind[OF num_elements_total[OF assms(1,2)]], clarify)
      fix len q and n :: u8 and r
      assume "parse_length code (p + 1) = Inr (len, q)" "q < r"
      then have "p < r" using parse_length_progress[of code "p + 1" len q] by simp
      then show "runs (\<lambda>(d, q). p < q) (bindR (populate_package f h code st ns (unat n) r) (\<lambda>(ds, e). Some (Inr (DATA_PKG ds, e))))"
        by (intro runs_bind[OF P]) auto
    qed
    have buf: "runs (\<lambda>(d, q). p < q) (bindR (Some (parse_length code (p + 1))) (\<lambda>(_, q).
       bindR (term_int h code st ns q) (\<lambda>(buffer_size, r).
         Some (bindE (fetch_block code r (unat buffer_size)) (\<lambda>bs. Inr (DATA_BUF bs, r + unat buffer_size))))))"
      by (rule runs_bind_res, clarify, rule runs_bind[OF term_int_total[OF assms(1,2)]], clarify, rule runs_res)
        (auto simp: bindE_Inr_iff dest: parse_length_progress)
    show ?thesis using pkg buf
      by (simp add: fetch_def bindR_def[of "Some (Inr (code ! p))"])
        (auto simp: bindE_Inr_iff dest: parse_string_progress intro!: runs_res)
  qed (simp add: fetch_def bindR_def)
qed simp

section \<open>Encodings\<close>

text \<open>The package length encoding of the ACPI specification, for lengths below 2^28.\<close>

definition encode_length :: "nat \<Rightarrow> u8 list" where
  "encode_length n =
     (if n < 64 then [of_nat n]
      else if n < 2 ^ 12 then [of_nat (0x40 + n mod 16), of_nat (n div 16)]
      else if n < 2 ^ 20 then [of_nat (0x80 + n mod 16), of_nat (n div 16), of_nat (n div 2 ^ 12)]
      else [of_nat (0xC0 + n mod 16), of_nat (n div 16), of_nat (n div 2 ^ 12), of_nat (n div 2 ^ 20)])"

lemma or_shift_add:
  fixes a b :: u64
  assumes "unat a < 2 ^ k" "unat b < 2 ^ m" "k + m \<le> 64"
  shows "unat (a OR push_bit k b) = unat a + unat b * 2 ^ k"
proof -
  have d: "\<not> bit a n \<or> \<not> bit (push_bit k b) n" for n
  proof (cases "n < k")
    case False
    have "take_bit k (unat a) = unat a" using assms(1) by (simp add: take_bit_nat_eq_self)
    then have "\<not> bit (unat a) n" using False by (metis bit_take_bit_iff)
    then show ?thesis by (simp add: bit_unsigned_iff)
  qed (simp add: bit_simps)
  have "(unat b + 1) * 2 ^ k \<le> (2 ^ m * 2 ^ k :: nat)" using assms(2) by (intro mult_le_mono1) simp
  also have "\<dots> \<le> (2 ^ 64 :: nat)" using assms(3) power_increasing[of "m + k" 64 "2 :: nat"] by (simp add: power_add[symmetric] add.commute)
  finally have l: "unat b * 2 ^ k + 2 ^ k \<le> (2 ^ 64 :: nat)" by simp
  then have "unat b * 2 ^ k < (2 ^ 64 :: nat)" using zero_less_power[of "2 :: nat" k] by linarith
  then have "unat (push_bit k b) = unat b * 2 ^ k"
    by (simp only: unsigned_push_bit_eq) (simp add: take_bit_nat_eq_self push_bit_eq_mult)
  moreover have "unat a + unat b * 2 ^ k < 2 ^ 64" using l assms(1) by linarith
  ultimately show ?thesis
    using d by (simp add: disjunctive_add[symmetric] unat_word_ariths)
qed

lemma lead_byte_checked:
  "list_all (\<lambda>r. drop_bit 6 (of_nat r :: u8) AND 3 = 0 \<and> unat (of_nat r AND 0x3F :: u8) = r) [0..<64]"
  "list_all (\<lambda>r. drop_bit 6 (of_nat (0x40 + r) :: u8) AND 3 = 1 \<and> unat (of_nat (0x40 + r) AND 0x3F :: u8) = r) [0..<16]"
  "list_all (\<lambda>r. drop_bit 6 (of_nat (0x80 + r) :: u8) AND 3 = 2 \<and> unat (of_nat (0x80 + r) AND 0x3F :: u8) = r) [0..<16]"
  "list_all (\<lambda>r. drop_bit 6 (of_nat (0xC0 + r) :: u8) AND 3 = 3 \<and> unat (of_nat (0xC0 + r) AND 0x3F :: u8) = r) [0..<16]"
  by code_simp+

lemma lead_byte:
  "r < 64 \<Longrightarrow> drop_bit 6 (of_nat r :: u8) AND 3 = 0 \<and> unat (of_nat r AND 0x3F :: u8) = r"
  "r < 16 \<Longrightarrow> drop_bit 6 (of_nat (0x40 + r) :: u8) AND 3 = 1 \<and> unat (of_nat (0x40 + r) AND 0x3F :: u8) = r"
  "r < 16 \<Longrightarrow> drop_bit 6 (of_nat (0x80 + r) :: u8) AND 3 = 2 \<and> unat (of_nat (0x80 + r) AND 0x3F :: u8) = r"
  "r < 16 \<Longrightarrow> drop_bit 6 (of_nat (0xC0 + r) :: u8) AND 3 = 3 \<and> unat (of_nat (0xC0 + r) AND 0x3F :: u8) = r"
  using lead_byte_checked unfolding list_all_iff set_upt atLeastLessThan_iff by simp_all

lemma fetch_append [simp]:
  "fetch (pre @ b # post) (length pre) = Inr b" "fetch (pre @ a # b # post) (Suc (length pre)) = Inr b"
  "fetch (pre @ a # a' # b # post) (Suc (Suc (length pre))) = Inr b"
  "fetch (pre @ a # a' # a'' # b # post) (Suc (Suc (Suc (length pre)))) = Inr b"
  "fetch (pre @ a # a' # a'' # b # post) (length pre + 3) = Inr b"
  by (simp_all add: fetch_def nth_append)

lemma parse_length_encoded:
  assumes "n < 2 ^ 28"
  shows "parse_length (pre @ encode_length n @ post) (length pre) = Inr (of_nat n, length pre + length (encode_length n))"
proof -
  have u: "unat (ucast w :: u64) = unat w" for w :: u8 by (simp add: unat_ucast_up)
  have b: "unat (of_nat k :: u8) = k mod 256" for k by (simp add: unat_of_nat)
  have r: "n mod 16 < 16" by simp
  have eq: "w = of_nat n" if "unat w = n" for w :: u64 by (subst that[symmetric]) simp
  have digits: "n mod 16 + n div 16 mod 256 * 2 ^ 4 + n div 2 ^ 12 * 2 ^ 12 = n"
    "n mod 16 + n div 16 mod 256 * 2 ^ 4 + n div 2 ^ 12 mod 256 * 2 ^ 12 + n div 2 ^ 20 * 2 ^ 20 = n"
  proof -
    have d: "n div 2 ^ 12 = n div 16 div 256" "n div 2 ^ 20 = n div 2 ^ 12 div 256"
      by (simp_all add: div_mult2_eq[symmetric])
    have m: "n mod 16 + n div 16 * 16 = n" "n div 16 mod 256 + n div 16 div 256 * 256 = n div 16"
      "n div 2 ^ 12 mod 256 + n div 2 ^ 12 div 256 * 256 = n div 2 ^ 12" by simp_all
    have join4: "a + b * 2 ^ 4 + c * 2 ^ 12 = k" if "a + q * 16 = k" "b + c * 256 = q" for a b c q k :: nat
      using that by simp
    have join12: "a + b * 2 ^ 12 + c * 2 ^ 20 = k" if "a + q * 2 ^ 12 = k" "b + c * 256 = q" for a b c q k :: nat
      using that by simp
    show one: "n mod 16 + n div 16 mod 256 * 2 ^ 4 + n div 2 ^ 12 * 2 ^ 12 = n"
      unfolding d(1) by (rule join4[OF m(1,2)])
    show "n mod 16 + n div 16 mod 256 * 2 ^ 4 + n div 2 ^ 12 mod 256 * 2 ^ 12 + n div 2 ^ 20 * 2 ^ 20 = n"
      unfolding d(2) by (rule join12[OF one m(3)])
  qed
  consider "n < 64" | "64 \<le> n" "n < 2 ^ 12" | "2 ^ 12 \<le> n" "n < 2 ^ 20" | "2 ^ 20 \<le> n" by linarith
  then show ?thesis
  proof cases
    case 1
    then have "ucast (of_nat n AND 0x3F :: u8) = (of_nat n :: u64)" using lead_byte(1)[of n] by (intro eq) (simp add: u)
    then show ?thesis using 1 lead_byte(1)[of n] by (simp add: encode_length_def parse_length_def Let_def)
  next
    case 2
    let ?a = "ucast (of_nat (0x40 + n mod 16) AND 0x3F :: u8) :: u64"
    have a: "unat ?a = n mod 16" using lead_byte(2)[OF r] by (simp only: u)
    have "unat (?a OR push_bit 4 (ucast (of_nat (n div 16) :: u8))) = n mod 16 + (n div 16) * 2 ^ 4"
      using 2 a or_shift_add[of ?a 4 "ucast (of_nat (n div 16) :: u8)" 8] by (simp add: u b)
    then have "?a OR push_bit 4 (ucast (of_nat (n div 16) :: u8)) = of_nat n" by (intro eq) simp
    then show ?thesis using 2 lead_byte(2)[OF r] by (simp add: encode_length_def parse_length_def Let_def)
  next
    case 3
    let ?a = "ucast (of_nat (0x80 + n mod 16) AND 0x3F :: u8) :: u64"
    let ?b = "?a OR push_bit 4 (ucast (of_nat (n div 16) :: u8))"
    have a: "unat ?a = n mod 16" using lead_byte(3)[OF r] by (simp only: u)
    then have b1: "unat ?b = n mod 16 + (n div 16 mod 256) * 2 ^ 4"
      using or_shift_add[of ?a 4 "ucast (of_nat (n div 16) :: u8)" 8] by (simp add: u b)
    have "unat (?b OR push_bit 12 (ucast (of_nat (n div 2 ^ 12) :: u8))) = unat ?b + (n div 2 ^ 12) * 2 ^ 12"
      using 3 b1 or_shift_add[of ?b 12 "ucast (of_nat (n div 2 ^ 12) :: u8)" 8] by (simp add: u b)
    then have "?b OR push_bit 12 (ucast (of_nat (n div 2 ^ 12) :: u8)) = of_nat n"
      using digits b1 by (intro eq) simp
    then show ?thesis using 3 lead_byte(3)[OF r] by (simp add: encode_length_def parse_length_def Let_def)
  next
    case 4
    let ?a = "ucast (of_nat (0xC0 + n mod 16) AND 0x3F :: u8) :: u64"
    let ?b = "?a OR push_bit 4 (ucast (of_nat (n div 16) :: u8))"
    let ?c = "?b OR push_bit 12 (ucast (of_nat (n div 2 ^ 12) :: u8))"
    have a: "unat ?a = n mod 16" using lead_byte(4)[OF r] by (simp only: u)
    then have b1: "unat ?b = n mod 16 + (n div 16 mod 256) * 2 ^ 4"
      using or_shift_add[of ?a 4 "ucast (of_nat (n div 16) :: u8)" 8] by (simp add: u b)
    then have c1: "unat ?c = unat ?b + (n div 2 ^ 12 mod 256) * 2 ^ 12"
      using or_shift_add[of ?b 12 "ucast (of_nat (n div 2 ^ 12) :: u8)" 8] by (simp add: u b)
    have "i + j * 2 ^ 4 + k * 2 ^ 12 < 2 ^ 20" if "i < 16" "j < 256" "k < 256" for i j k :: nat using that by simp
    then have c2: "unat ?c < 2 ^ 20" unfolding c1 b1 by simp
    have hi0: "n div 2 ^ 20 < 256" using assms by (intro less_mult_imp_div_less) simp
    then have hi: "n div 2 ^ 20 mod 256 = n div 2 ^ 20" by (rule mod_less)
    have "unat (?c OR push_bit 20 (ucast (of_nat (n div 2 ^ 20) :: u8))) = unat ?c + (n div 2 ^ 20) * 2 ^ 20"
      using hi0 or_shift_add[OF c2, of "ucast (of_nat (n div 2 ^ 20) :: u8)" 8] by (simp only: u b hi) simp
    then have "?c OR push_bit 20 (ucast (of_nat (n div 2 ^ 20) :: u8)) = of_nat n"
      using digits b1 c1 by (intro eq) simp
    then show ?thesis using 4 lead_byte(4)[OF r] by (simp add: encode_length_def parse_length_def Let_def)
  qed
qed

text \<open>Little-endian constants.\<close>

fun le_bytes :: "nat \<Rightarrow> nat \<Rightarrow> u8 list" where
  "le_bytes 0 v = []"
| "le_bytes (Suc k) v = of_nat v # le_bytes k (v div 256)"

lemma length_le_bytes [simp]: "length (le_bytes k v) = k"
  by (induction k arbitrary: v) simp_all

lemma le_value_Cons:
  assumes "unat (le_value bs) < 2 ^ 56"
  shows "unat (le_value (b # bs)) = unat b + unat (le_value bs) * 256"
proof -
  have "unat (ucast b :: u64) = unat b" by (simp add: unat_ucast_up)
  moreover have "unat b < 2 ^ 8" using unsigned_less[of b, where 'a = nat] by simp
  ultimately show ?thesis using or_shift_add[of "ucast b" 8 "le_value bs" 56] assms
    by (simp add: le_value_def)
qed

lemma le_value_bytes: "k \<le> 8 \<Longrightarrow> v < 256 ^ k \<Longrightarrow> unat (le_value (le_bytes k v)) = v"
proof (induction k arbitrary: v)
  case (Suc k)
  have "v div 256 < 256 ^ k" using Suc.prems(2) by (simp add: less_mult_imp_div_less mult.commute)
  then have IH: "unat (le_value (le_bytes k (v div 256))) = v div 256" using Suc by simp
  have "(256::nat) ^ k \<le> 256 ^ 7" using Suc.prems(1) by (intro power_increasing) simp_all
  then have "unat (le_value (le_bytes k (v div 256))) < 2 ^ 56" using IH \<open>v div 256 < 256 ^ k\<close> by simp
  then show ?case using IH le_value_Cons[of "le_bytes k (v div 256)" "of_nat v"] by (simp add: unat_of_nat)
qed (simp add: le_value_def)

lemma fetch_block_append [simp]:
  "length bs = n \<Longrightarrow> fetch_block (pre @ bs @ post) (length pre) n = Inr bs"
  "length bs = n \<Longrightarrow> fetch_block (pre @ op # bs @ post) (Suc (length pre)) n = Inr bs"
  by (auto simp: fetch_block_def)

text \<open>Integer expressions, their encoding and their value; names are looked up through \<open>env\<close>.\<close>

datatype aml_exp =
    EZero | EOne | EOnes | EByte u8 | EWord u16 | EDWord u32 | EName hash_key
  | ENot aml_exp | EEqual aml_exp aml_exp | EAnd aml_exp aml_exp | ELess aml_exp aml_exp | EGreater aml_exp aml_exp

primrec encode_exp :: "aml_exp \<Rightarrow> u8 list" where
  "encode_exp EZero = [0]"
| "encode_exp EOne = [1]"
| "encode_exp EOnes = [0xFF]"
| "encode_exp (EByte b) = 0x0A # le_bytes 1 (unat b)"
| "encode_exp (EWord w) = 0x0B # le_bytes 2 (unat w)"
| "encode_exp (EDWord d) = 0x0C # le_bytes 4 (unat d)"
| "encode_exp (EName k) = k"
| "encode_exp (ENot e) = 0x92 # encode_exp e"
| "encode_exp (EEqual a b) = 0x93 # encode_exp a @ encode_exp b"
| "encode_exp (EAnd a b) = 0x90 # encode_exp a @ encode_exp b"
| "encode_exp (ELess a b) = 0x95 # encode_exp a @ encode_exp b"
| "encode_exp (EGreater a b) = 0x94 # encode_exp a @ encode_exp b"

definition lift2 :: "(u64 \<Rightarrow> u64 \<Rightarrow> bool) \<Rightarrow> u64 option \<Rightarrow> u64 option \<Rightarrow> u64 option" where
  "lift2 cmp a b = Option.bind a (\<lambda>x. Option.bind b (\<lambda>y. Some (of_truth (cmp x y))))"

primrec eval_exp :: "(hash_key \<Rightarrow> u64 option) \<Rightarrow> aml_exp \<Rightarrow> u64 option" where
  "eval_exp env EZero = Some 0"
| "eval_exp env EOne = Some 1"
| "eval_exp env EOnes = Some (- 1)"
| "eval_exp env (EByte b) = Some (ucast b)"
| "eval_exp env (EWord w) = Some (ucast w)"
| "eval_exp env (EDWord d) = Some (ucast d)"
| "eval_exp env (EName k) = env k"
| "eval_exp env (ENot e) = map_option (\<lambda>v. of_truth (v = 0)) (eval_exp env e)"
| "eval_exp env (EEqual a b) = lift2 (=) (eval_exp env a) (eval_exp env b)"
| "eval_exp env (EAnd a b) = lift2 (\<lambda>x y. x \<noteq> 0 \<and> y \<noteq> 0) (eval_exp env a) (eval_exp env b)"
| "eval_exp env (ELess a b) = lift2 (<) (eval_exp env a) (eval_exp env b)"
| "eval_exp env (EGreater a b) = lift2 (>) (eval_exp env a) (eval_exp env b)"

text \<open>The value of a four-character name seen from a namespace: the nearest enclosing object of that name.\<close>

definition name_value :: "aml_host \<Rightarrow> aml_state \<Rightarrow> nat \<Rightarrow> hash_key \<Rightarrow> u64 option" where
  "name_value h st ns k =
     (if length k = 4 \<and> list_all valid_char k
      then case stage3 (Suc (length st)) st ns k False of
             Some (Some (FoundObj ob)) \<Rightarrow> (case obj_to_int h ob of Inr v \<Rightarrow> Some v | Inl _ \<Rightarrow> None)
           | _ \<Rightarrow> None
      else None)"

lemma valid_char_bounds: "\<not> valid_char c \<or> 0x30 \<le> c \<and> c < 0x60"
proof (rule u8_all[where P = "\<lambda>c. \<not> valid_char c \<or> 0x30 \<le> c \<and> c < 0x60"])
  show "list_all (\<lambda>n. \<not> valid_char (of_nat n) \<or> 0x30 \<le> (of_nat n :: u8) \<and> (of_nat n :: u8) < 0x60) [0..<256]"
    by code_simp
qed

lemma valid_char_op:
  assumes "valid_char c"
  shows "c \<noteq> 0" "c \<noteq> 1" "c \<noteq> 0xFF" "c \<noteq> 0x0A" "c \<noteq> 0x0B" "c \<noteq> 0x0C" "c \<noteq> 0x92" "logic_op c = None" "\<not> is_prefix_char c"
    "c \<noteq> 0x2E" "c \<noteq> 0x2F"
  using assms valid_char_bounds[of c] by (auto simp: logic_op_def is_prefix_char_def valid_char_def)

lemma name_to_int_value:
  assumes "name_value h st ns k = Some v"
  shows "name_to_int h (pre @ k @ post) st ns (length pre) = Some (Inr (v, length pre + 4))"
proof -
  have k: "length k = 4" "list_all valid_char k" using assms by (auto simp: name_value_def split: if_splits)
  then obtain c cs where kc: "k = c # cs" by (cases k) auto
  have "valid_name k" using k(2) by (simp add: kc valid_name_def)
  then show ?thesis using assms k
    by (auto simp: name_to_int_def name_value_def locate_object_def bindR_def
        split: option.splits sum.splits aml_found.splits)
qed

definition reads_exp :: "aml_host \<Rightarrow> aml_state \<Rightarrow> nat \<Rightarrow> aml_exp \<Rightarrow> bool" where
  "reads_exp h st ns e \<longleftrightarrow> (\<forall>pre post f v. eval_exp (name_value h st ns) e = Some v \<longrightarrow> length (encode_exp e) \<le> f \<longrightarrow>
     term_arg_to_int f h (pre @ encode_exp e @ post) st ns (length pre) = Some (Inr (v, length pre + length (encode_exp e))))"

lemma reads_expD:
  "reads_exp h st ns e \<Longrightarrow> eval_exp (name_value h st ns) e = Some v \<Longrightarrow> length (encode_exp e) \<le> f \<Longrightarrow>
     term_arg_to_int f h (pre @ encode_exp e @ post) st ns (length pre) = Some (Inr (v, length pre + length (encode_exp e)))"
  by (simp add: reads_exp_def)

lemma reads_logic:
  assumes "reads_exp h st ns a" "reads_exp h st ns b" "logic_op op = Some cmp" "op \<notin> {0, 1, 0xFF, 0x0A, 0x0B, 0x0C, 0x92}"
    "encode_exp e = op # encode_exp a @ encode_exp b"
    "eval_exp (name_value h st ns) e = lift2 cmp (eval_exp (name_value h st ns) a) (eval_exp (name_value h st ns) b)"
  shows "reads_exp h st ns e"
  unfolding reads_exp_def
proof (intro allI impI)
  fix pre post f v
  assume v: "eval_exp (name_value h st ns) e = Some v" and f: "length (encode_exp e) \<le> f"
  obtain x y where xy: "eval_exp (name_value h st ns) a = Some x" "eval_exp (name_value h st ns) b = Some y"
    "v = of_truth (cmp x y)" using v assms(6) by (auto simp: lift2_def bind_eq_Some_conv)
  obtain g where g: "f = Suc g" using f assms(5) by (cases f) auto
  let ?code = "pre @ encode_exp e @ post"
  have A: "term_arg_to_int g h ?code st ns (Suc (length pre)) = Some (Inr (x, Suc (length pre) + length (encode_exp a)))"
    using reads_expD[OF assms(1) xy(1), of g "pre @ [op]" "encode_exp b @ post"] f assms(5) g by simp
  have B: "term_arg_to_int g h ?code st ns (Suc (length pre + length (encode_exp a))) =
      Some (Inr (y, Suc (length pre + length (encode_exp a)) + length (encode_exp b)))"
    using reads_expD[OF assms(2) xy(2), of g "pre @ op # encode_exp a" post] f assms(5) g by simp
  have "fetch ?code (length pre) = Inr op" by (simp add: assms(5))
  then show "term_arg_to_int f h ?code st ns (length pre) = Some (Inr (v, length pre + length (encode_exp e)))"
    using A B assms(3,4) xy(3) by (simp add: g bindR_def) (simp add: assms(5))
qed

lemma reads_const:
  assumes "encode_exp e = op # le_bytes k n" "eval_exp (name_value h st ns) e = Some v" "unat v = n" "n < 256 ^ k"
    "(op, k) \<in> {(0x0A, 1), (0x0B, 2), (0x0C, 4)}"
  shows "reads_exp h st ns e"
  unfolding reads_exp_def
proof (intro allI impI)
  fix pre post f w
  assume w: "eval_exp (name_value h st ns) e = Some w" and f: "length (encode_exp e) \<le> f"
  then obtain g where g: "f = Suc g" using assms(1) by (cases f) auto
  have len: "length (encode_exp e) = Suc k" by (simp add: assms(1))
  have "unat (le_value (le_bytes k n)) = unat v" using le_value_bytes[of k n] assms(3-5) by auto
  then have "le_value (le_bytes k n) = v" by (simp only: word_unat_eq_iff)
  moreover have "fetch (pre @ encode_exp e @ post) (length pre) = Inr op" by (simp add: assms(1))
  moreover have "fetch_block (pre @ encode_exp e @ post) (Suc (length pre)) k = Inr (le_bytes k n)"
    by (simp add: assms(1))
  ultimately show "term_arg_to_int f h (pre @ encode_exp e @ post) st ns (length pre) =
      Some (Inr (w, length pre + length (encode_exp e)))"
    using assms(2,5) w len by (auto simp: g bindR_def)
qed

lemma reads_name: "reads_exp h st ns (EName k)"
  unfolding reads_exp_def
proof (intro allI impI)
  fix pre post f v
  assume "eval_exp (name_value h st ns) (EName k) = Some v" and f: "length (encode_exp (EName k)) \<le> f"
  then have nv: "name_value h st ns k = Some v" by simp
  then have k: "length k = 4" "list_all valid_char k" by (auto simp: name_value_def split: if_splits)
  then obtain c cs where kc: "k = c # cs" by (cases k) auto
  obtain g where g: "f = Suc g" using f k(1) by (cases f) auto
  have c: "valid_char c" using k(2) kc by simp
  have "fetch (pre @ k @ post) (length pre) = Inr c" by (simp add: kc)
  then show "term_arg_to_int f h (pre @ encode_exp (EName k) @ post) st ns (length pre) =
      Some (Inr (v, length pre + length (encode_exp (EName k))))"
    using valid_char_op[OF c] name_to_int_value[OF nv, of pre post] k(1) by (simp add: g bindR_def)
qed

lemma reads_not:
  assumes "reads_exp h st ns e"
  shows "reads_exp h st ns (ENot e)"
  unfolding reads_exp_def
proof (intro allI impI)
  fix pre post f v
  assume "eval_exp (name_value h st ns) (ENot e) = Some v" and f: "length (encode_exp (ENot e)) \<le> f"
  then obtain x where x: "eval_exp (name_value h st ns) e = Some x" "v = of_truth (x = 0)" by auto
  obtain g where g: "f = Suc g" using f by (cases f) auto
  have "term_arg_to_int g h (pre @ encode_exp (ENot e) @ post) st ns (Suc (length pre)) = Some (Inr (x, Suc (length pre) + length (encode_exp e)))"
    using reads_expD[OF assms x(1), of g "pre @ [0x92]" post] f g by simp
  then show "term_arg_to_int f h (pre @ encode_exp (ENot e) @ post) st ns (length pre) =
      Some (Inr (v, length pre + length (encode_exp (ENot e))))"
    using x(2) by (simp add: g bindR_def logic_op_def)
qed

lemma unat_word_lt: "unat (b :: u8) < 256" "unat (w :: u16) < 256 ^ 2" "unat (d :: u32) < 256 ^ 4"
  using unsigned_less[of b, where 'a = nat] unsigned_less[of w, where 'a = nat] unsigned_less[of d, where 'a = nat]
  by simp_all

lemma reads_all: "reads_exp h st ns e"
proof (induction e)
  case (EByte b)
  show ?case by (rule reads_const[of _ "0x0A" 1 "unat b" _ _ _ "ucast b"]) (simp_all add: unat_ucast_up unat_word_lt)
next
  case (EWord w)
  show ?case by (rule reads_const[of _ "0x0B" 2 "unat w" _ _ _ "ucast w"]) (use unat_word_lt(2)[of w] in \<open>simp_all add: unat_ucast_up\<close>)
next
  case (EDWord d)
  show ?case by (rule reads_const[of _ "0x0C" 4 "unat d" _ _ _ "ucast d"]) (use unat_word_lt(3)[of d] in \<open>simp_all add: unat_ucast_up\<close>)
next
  case (EEqual a b)
  then show ?case by (rule reads_logic[where op = "0x93"]) (simp_all add: logic_op_def)
next
  case (EAnd a b)
  then show ?case by (rule reads_logic[where op = "0x90"]) (simp_all add: logic_op_def)
next
  case (ELess a b)
  then show ?case by (rule reads_logic[where op = "0x95"]) (simp_all add: logic_op_def)
next
  case (EGreater a b)
  then show ?case by (rule reads_logic[where op = "0x94"]) (simp_all add: logic_op_def)
next
  case EZero
  show ?case by (auto simp: reads_exp_def bindR_def gr0_conv_Suc Suc_le_eq)
next
  case EOne
  show ?case by (auto simp: reads_exp_def bindR_def gr0_conv_Suc Suc_le_eq)
next
  case EOnes
  show ?case by (auto simp: reads_exp_def bindR_def gr0_conv_Suc Suc_le_eq)
qed (simp_all add: reads_name reads_not)

section \<open>Properties of the readers\<close>

text \<open>(C16) Package lengths: on the encoding the ACPI specification gives for a length below 2^28, in one to
  four octets, the reader returns that length and stops right after the encoding.\<close>

theorem parse_length_roundtrip:
  assumes "n < 2 ^ 28"
  shows "parse_length (pre @ encode_length n @ post) (length pre) = Inr (of_nat n, length pre + length (encode_length n))"
  using assms by (rule parse_length_encoded)

theorem parse_length_roundtrip_witness:
  "parse_length [0x10, 0x4C, 0x12, 0x5C] 1 = Inr (300, 3)"
  using parse_length_roundtrip[of 300 "[0x10]" "[0x5C]"] by (simp add: encode_length_def)

text \<open>(C14) Integer terms: for every expression over constants, comparisons, logical operators and names of
  integer objects in scope, reading its encoding anywhere in a table returns the value of the
  expression and stops right after it.\<close>

theorem term_int_evaluates:
  assumes "eval_exp (name_value h st ns) e = Some v"
  shows "term_int h (pre @ encode_exp e @ post) st ns (length pre) = Some (Inr (v, length pre + length (encode_exp e)))"
  unfolding term_int_def by (rule reads_expD[OF reads_all assms]) simp

definition demo_host :: aml_host where
  "demo_host = \<lparr>host_mem = \<lambda>_. 0, host_inb = \<lambda>_. 0, host_inw = \<lambda>_. 0, host_inl = \<lambda>_. 0\<rparr>"

theorem term_int_evaluates_witness:
  "term_int demo_host ([0x70] @ [0x95, 0x0A, 5, 0xFF] @ [0]) init_aml_namespaces 0 1 = Some (Inr (1, 5))"
  using term_int_evaluates[of demo_host init_aml_namespaces 0 "ELess (EByte 5) EOnes" 1 "[0x70]" "[0]"]
  by (simp add: lift2_def of_truth_def)

end
