(* ===== verification/AmlDefs.thy ===== *)
theory AmlDefs
  imports Aml
begin

text \<open>
  The ACPI machine language reader, second half: the definitions a term list makes in the namespace
  tree, the dispatch on the opcode, and the entry points, from \<^verbatim>\<open>defs.c\<close>, \<^verbatim>\<open>helpers.c\<close> and
  \<^verbatim>\<open>interface.c\<close> of \<^verbatim>\<open>lethe-aml/aml\<close>. A handler gets the position after its opcode and returns the
  state and the position it leaves in \<^verbatim>\<open>ns->code\<close>. The handlers that read nested term lists take the
  reader of term lists as an argument, and \<open>parse_termlist\<close> closes the recursion.
\<close>

section \<open>Handlers without nested terms\<close>

definition def_method :: "u8 list \<Rightarrow> aml_state \<Rightarrow> nat \<Rightarrow> nat \<Rightarrow> (aml_state \<times> nat) run" where
  "def_method code st ns p =
     bindR (Some (parse_length code p)) (\<lambda>(mlen, q).
     bindR (Some (parse_namestring code q)) (\<lambda>(name, r).
     bindR (Some (fetch code r)) (\<lambda>flags.
     bindR (Some (guardE OutOfBounds (KEY_LEN \<le> length name))) (\<lambda>_.
     let key = drop (length name - KEY_LEN) name in
     case create_namespace st None key of (scope_id, st1) \<Rightarrow>
     bindR (if length name = KEY_LEN \<or> length name = KEY_LEN + 1
            then Some (Inr (if hd name = 0x5C then Some root else if hd name = 0x5E then ns_parent (st1 ! ns) else Some ns))
            else bindR (locate_object st1 ns (take (length name - KEY_LEN) name) True) (\<lambda>(found, _).
              Some (Inr (case found of Some (FoundNs i) \<Rightarrow> Some i | _ \<Rightarrow> None)))) (\<lambda>scope.
     case scope of
       None \<Rightarrow> Some (Inl Abort)
     | Some sc \<Rightarrow>
         let st2 = add_child_to_namespace st1 sc key (TYPE_METHOD flags (mlen - of_nat (r + 1 - p)) (r + 1) scope_id) in
         Some (Inr (st2[scope_id := (st2 ! scope_id)\<lparr>ns_parent := Some sc\<rparr>], p + unat mlen)))))))"

definition def_name :: "aml_host \<Rightarrow> u8 list \<Rightarrow> aml_state \<Rightarrow> nat \<Rightarrow> nat \<Rightarrow> (aml_state \<times> nat) run" where
  "def_name h code st ns p =
     bindR (Some (parse_namestring code p)) (\<lambda>(name, q).
     bindR (Some (guardE AssertFailed (length name = KEY_LEN))) (\<lambda>_.
     bindR (parse_data_object (Suc (length code)) h code st ns q) (\<lambda>(d, r).
       Some (Inr (add_child_to_namespace st ns name (TYPE_NAME d), r)))))"

definition def_op_region :: "aml_host \<Rightarrow> u8 list \<Rightarrow> aml_state \<Rightarrow> nat \<Rightarrow> nat \<Rightarrow> (aml_state \<times> nat) run" where
  "def_op_region h code st ns p =
     bindR (Some (parse_namestring code p)) (\<lambda>(name, q).
     bindR (Some (guardE AssertFailed (length name = KEY_LEN))) (\<lambda>_.
     bindR (Some (fetch code q)) (\<lambda>space.
     bindR (term_int h code st ns (q + 1)) (\<lambda>(offset, r).
     bindR (term_int h code st ns r) (\<lambda>(len, s).
       Some (Inr (add_child_to_namespace st ns name
         (TYPE_REGION \<lparr>region_space = space, region_offset = offset, region_len = len\<rparr>), s)))))))"

text \<open>One element of a field list: the length it reports (none at the end of the list), and the position.\<close>

definition parse_next_field_elem ::
    "u8 list \<Rightarrow> aml_state \<Rightarrow> nat \<Rightarrow> nat \<Rightarrow> int \<Rightarrow> aml_field \<Rightarrow> (u64 option \<times> aml_state \<times> nat) res" where
  "parse_next_field_elem code st ns p offset parent =
     bindE (fetch code p) (\<lambda>op.
     if op = 0 then bindE (parse_length code (p + 1)) (\<lambda>(len, q). Inr (Some len, st, q))
     else if op = 1 then Inr (Some 2, st, p + 3)
     else if op = 2 then Inl Abort
     else if op = 3 then Inr (Some 3, st, p + 4)
     else bindE (fetch_block code p KEY_LEN) (\<lambda>name.
       if \<not> valid_name name then Inr (None, st, p)
       else bindE (parse_length code (p + KEY_LEN)) (\<lambda>(len, q).
         Inr (Some (of_nat (q - p)),
              add_child_to_namespace st ns name (TYPE_FIELD_OFFSET offset (uint len) parent), q))))"

fun field_elems :: "nat \<Rightarrow> u8 list \<Rightarrow> aml_state \<Rightarrow> nat \<Rightarrow> nat \<Rightarrow> int \<Rightarrow> aml_field \<Rightarrow> aml_state run" where
  "field_elems 0 code st ns p offset parent = None"
| "field_elems (Suc f) code st ns p offset parent =
     bindR (Some (parse_next_field_elem code st ns p offset parent)) (\<lambda>(len, st', q).
       case len of
         None \<Rightarrow> Some (Inr st')
       | Some l \<Rightarrow> field_elems f code st' ns q (sint (word_of_int (offset + uint l) :: u32)) parent)"

definition field_of_flags :: "u8 \<Rightarrow> aml_operation_region \<Rightarrow> aml_field" where
  "field_of_flags flags region =
     \<lparr>access_type = flags AND 0xF, should_lock = (flags AND 0x10 \<noteq> 0), update_rule = drop_bit 6 (flags AND 0xC0),
      field_region = region\<rparr>"

definition def_field :: "u8 list \<Rightarrow> aml_state \<Rightarrow> nat \<Rightarrow> nat \<Rightarrow> (aml_state \<times> nat) run" where
  "def_field code st ns p =
     bindR (Some (parse_length code p)) (\<lambda>(field_len, q).
     bindR (Some (parse_namestring code q)) (\<lambda>(name, r).
     bindR (locate_object st ns name False) (\<lambda>(obj, _).
     bindR (Some (fetch code r)) (\<lambda>flags.
       case obj of
         Some (FoundObj (TYPE_REGION region)) \<Rightarrow>
           bindR (Some (guardE AssertFailed (flags AND 0x80 = 0))) (\<lambda>_.
           bindR (field_elems (Suc (length code)) code st ns (r + 1) 0 (field_of_flags flags region)) (\<lambda>st'.
             Some (Inr (st', p + unat field_len))))
       | _ \<Rightarrow> Some (Inl Abort)))))"

definition skip_package :: "u8 list \<Rightarrow> aml_state \<Rightarrow> nat \<Rightarrow> (aml_state \<times> nat) run" where
  "skip_package code st p = bindR (Some (parse_length code p)) (\<lambda>(len, _). Some (Inr (st, p + unat len)))"

definition def_index_field :: "u8 list \<Rightarrow> aml_state \<Rightarrow> nat \<Rightarrow> (aml_state \<times> nat) run" where
  "def_index_field code st p = skip_package code st p"

definition def_alias :: "u8 list \<Rightarrow> aml_state \<Rightarrow> nat \<Rightarrow> nat \<Rightarrow> (aml_state \<times> nat) run" where
  "def_alias code st ns p =
     bindR (Some (parse_namestring code p)) (\<lambda>(source, q).
     bindR (Some (parse_namestring code q)) (\<lambda>(alias, r).
     bindR (Some (guardE AssertFailed (length source = KEY_LEN \<and> length alias = KEY_LEN))) (\<lambda>_.
       case children (st ! ns) source of
         None \<Rightarrow> Some (Inl Abort)
       | Some ob \<Rightarrow> Some (Inr (add_child_to_namespace st ns alias ob, r)))))"

text \<open>
  \<^verbatim>\<open>memcpy(mutex->name, mutex_name + mutex_name->count - KEY_LEN, KEY_LEN)\<close> steps over name records, not
  characters: with a count of 4 it copies the first bytes of the record, which are the count itself.
\<close>

definition mutex_key :: hash_key where
  "mutex_key = [4, 0, 0, 0]"

definition def_mutex :: "u8 list \<Rightarrow> aml_state \<Rightarrow> nat \<Rightarrow> nat \<Rightarrow> (aml_state \<times> nat) run" where
  "def_mutex code st ns p =
     bindR (Some (parse_namestring code p)) (\<lambda>(name, q).
     bindR (Some (guardE AssertFailed (length name = KEY_LEN))) (\<lambda>_.
     bindR (Some (fetch code q)) (\<lambda>sync_flags.
       Some (Inr (add_child_to_namespace st ns mutex_key (TYPE_MUTEX sync_flags), q + 1)))))"

definition def_create_word_field :: "aml_host \<Rightarrow> u8 list \<Rightarrow> aml_state \<Rightarrow> nat \<Rightarrow> nat \<Rightarrow> (aml_state \<times> nat) run" where
  "def_create_word_field h code st ns p =
     bindR (term_arg_to_buffer code st ns p) (\<lambda>(buffer, q).
     bindR (term_int h code st ns q) (\<lambda>(byte_index, r).
     bindR (Some (parse_namestring code r)) (\<lambda>(name, s).
     bindR (Some (guardE AssertFailed (length name = KEY_LEN))) (\<lambda>_.
       Some (Inr (add_child_to_namespace st ns name (TYPE_WORD_FIELD buffer byte_index), s))))))"

section \<open>Handlers with nested terms\<close>

type_synonym termlist = "aml_state \<Rightarrow> nat \<Rightarrow> nat \<Rightarrow> nat \<Rightarrow> aml_state run"

definition def_if_else :: "termlist \<Rightarrow> aml_host \<Rightarrow> u8 list \<Rightarrow> aml_state \<Rightarrow> nat \<Rightarrow> nat \<Rightarrow> (aml_state \<times> nat) run" where
  "def_if_else terms h code st ns p =
     bindR (Some (parse_length code p)) (\<lambda>(if_len, q).
     bindR (term_int h code st ns q) (\<lambda>(pred, r).
     bindR (if pred \<noteq> 0 then bindR (terms st ns p (p + unat if_len)) (\<lambda>st1. Some (Inr (st1, r)))
            else Some (Inr (st, p + unat if_len))) (\<lambda>(st1, s).
     bindR (Some (fetch code s)) (\<lambda>b.
       if b = 0xA1 then
         bindR (Some (parse_length code (s + 1))) (\<lambda>(else_len, _).
         bindR (if pred = 0 then terms st1 ns (s + 1) (s + 1 + unat else_len) else Some (Inr st1)) (\<lambda>st2.
           Some (Inr (st2, s + 1 + unat if_len))))
       else Some (Inr (st1, s))))))"

definition def_scope :: "termlist \<Rightarrow> u8 list \<Rightarrow> aml_state \<Rightarrow> nat \<Rightarrow> nat \<Rightarrow> (aml_state \<times> nat) run" where
  "def_scope terms code st ns p =
     bindR (Some (parse_length code p)) (\<lambda>(scope_len, q).
     bindR (Some (parse_namestring code q)) (\<lambda>(name, r).
     bindR (if name = [] then Some (Inr root)
            else bindR (locate_object st ns name True) (\<lambda>(found, _).
              case found of Some (FoundNs i) \<Rightarrow> Some (Inr i) | _ \<Rightarrow> Some (Inl Abort))) (\<lambda>scope.
     bindR (terms st scope r (p + unat scope_len)) (\<lambda>st1. Some (Inr (st1, p + unat scope_len))))))"

definition def_device :: "termlist \<Rightarrow> u8 list \<Rightarrow> aml_state \<Rightarrow> nat \<Rightarrow> nat \<Rightarrow> (aml_state \<times> nat) run" where
  "def_device terms code st ns p =
     bindR (Some (parse_length code p)) (\<lambda>(device_len, q).
     bindR (Some (parse_namestring code q)) (\<lambda>(name, r).
     bindR (locate_object st ns name True) (\<lambda>(found, buf).
     bindR (case found of
         Some (FoundNs i) \<Rightarrow> Some (Inr (i, st))
       | _ \<Rightarrow>
         bindR (if length buf > KEY_LEN
                then bindR (locate_object st ns (take (length buf - KEY_LEN) buf) True) (\<lambda>(up, _).
                       Some (Inr (case up of Some (FoundNs i) \<Rightarrow> Some i | _ \<Rightarrow> None)))
                else Some (Inr (Some ns))) (\<lambda>parent.
           Some (Inr (create_namespace st parent (take KEY_LEN (trim_name buf)))))) (\<lambda>(device, st1).
     bindR (terms st1 device r (p + unat device_len)) (\<lambda>st2. Some (Inr (st2, p + unat device_len)))))))"

section \<open>Dispatch\<close>

definition fetch_op :: "u8 list \<Rightarrow> nat \<Rightarrow> (u16 \<times> nat) res" where
  "fetch_op code p =
     bindE (fetch code p) (\<lambda>b.
     if b = 0x5B then bindE (fetch code (p + 1)) (\<lambda>c. Inr (0x5B00 OR ucast c, p + 2)) else Inr (ucast b, p + 1))"

definition parse_next :: "termlist \<Rightarrow> aml_host \<Rightarrow> u8 list \<Rightarrow> aml_state \<Rightarrow> nat \<Rightarrow> nat \<Rightarrow> (aml_state \<times> nat) run" where
  "parse_next terms h code st ns p =
     bindR (Some (fetch_op code p)) (\<lambda>(op, q).
     if op = 0xA0 then def_if_else terms h code st ns q
     else if op = 0x08 then def_name h code st ns q
     else if op = 0x14 then def_method code st ns q
     else if op = 0x5B80 then def_op_region h code st ns q
     else if op = 0x5B81 then def_field code st ns q
     else if op = 0x5B86 then def_index_field code st q
     else if op = 0x10 then def_scope terms code st ns q
     else if op = 0x5B82 then def_device terms code st ns q
     else if op = 0x5B01 then def_mutex code st ns q
     else if op = 0x06 then def_alias code st ns q
     else if op = 0x8B then bindR (def_create_word_field h code st ns q) (\<lambda>(st1, r). skip_package code st1 r)
     else if op = 0x5B83 then skip_package code st q
     else Some (Inl Abort))"

fun parse_termlist :: "nat \<Rightarrow> aml_host \<Rightarrow> u8 list \<Rightarrow> termlist" where
  "parse_termlist 0 h code st ns p e = None"
| "parse_termlist (Suc f) h code st ns p e =
     (if p < e
      then bindR (parse_next (parse_termlist f h code) h code st ns p) (\<lambda>(st', q). parse_termlist f h code st' ns q e)
      else Some (Inr st))"

text \<open>\<^verbatim>\<open>populate_children\<close> and \<^verbatim>\<open>parse_table\<close>: the data of a table after its 36-byte header.\<close>

definition parse_table :: "aml_host \<Rightarrow> u8 list \<Rightarrow> u32 \<Rightarrow> aml_state \<Rightarrow> aml_state run" where
  "parse_table h code header_length st =
     parse_termlist (Suc (length code)) h code st root 0 (unat (header_length - 36))"

definition execute_method :: "aml_host \<Rightarrow> u8 list \<Rightarrow> aml_obj \<Rightarrow> aml_state \<Rightarrow> aml_state run" where
  "execute_method h code m st =
     parse_termlist (Suc (length code)) h code st (method_scope m) (method_code m)
       (nat (int (method_code m) + sint (method_len m)))"

section \<open>Sleep states\<close>

definition variable_to_int :: "aml_data \<Rightarrow> u64" where
  "variable_to_int v =
     (case v of DATA_BYTE b \<Rightarrow> ucast b | DATA_INT i \<Rightarrow> ucast i | DATA_SHORT s \<Rightarrow> ucast s | DATA_LONG l \<Rightarrow> l | _ \<Rightarrow> - 1)"

record fadt =
  fadt_flags :: u32
  pm1a_control_block :: u32
  pm1b_control_block :: u32

text \<open>The port writes that put the machine to sleep; \<open>0x2000\<close> is \<^verbatim>\<open>ACPI_SLEEP\<close>.\<close>

definition execute_sleep :: "aml_state \<Rightarrow> fadt \<Rightarrow> int \<Rightarrow> (u16 \<times> u16) list res" where
  "execute_sleep st fadt state =
     (if state \<noteq> 5 then Inl Abort
      else case children (st ! root) (lit ''_S5_'') of
        Some (TYPE_NAME (DATA_PKG ds)) \<Rightarrow>
          bindE (readE ds 0) (\<lambda>a. bindE (readE ds 1) (\<lambda>b.
          let slp_typa = variable_to_int a; slp_typb = variable_to_int b in
          if slp_typa = - 1 \<or> slp_typb = - 1 then Inl Abort
          else bindE (guardE AssertFailed (\<not> bit (fadt_flags fadt) 20)) (\<lambda>_.
            Inr [(ucast (pm1a_control_block fadt), ucast (push_bit 10 slp_typa OR 0x2000)),
                 (ucast (pm1b_control_block fadt), ucast (push_bit 10 slp_typb OR 0x2000))])))
      | _ \<Rightarrow> Inl Abort)"

section \<open>Every reader ends and keeps the tree well-formed\<close>

definition ns_ext :: "aml_state \<Rightarrow> aml_state \<Rightarrow> bool" where
  "ns_ext st st' \<longleftrightarrow> ns_wf st' \<and> length st \<le> length st'"

lemma ns_ext_refl: "ns_wf st \<Longrightarrow> ns_ext st st" by (simp add: ns_ext_def)

lemma ns_ext_trans: "ns_ext st st1 \<Longrightarrow> ns_ext st1 st2 \<Longrightarrow> ns_ext st st2" by (auto simp: ns_ext_def)

lemma add_child_wf [simp]: "ns_wf (add_child_to_namespace st ns key obj) = ns_wf st"
proof (cases "ns < length st")
  case True
  then show ?thesis by (auto simp: ns_wf_def ns_closed_def add_child_to_namespace_def nth_list_update split: if_splits)
qed (simp add: add_child_to_namespace_def list_update_beyond)

lemma length_add_child [simp]: "length (add_child_to_namespace st ns key obj) = length st"
  by (simp add: add_child_to_namespace_def)

lemma add_child_ext: "ns_wf st \<Longrightarrow> ns_ext st (add_child_to_namespace st ns key obj)"
  by (simp add: ns_ext_def)

lemma create_namespace_wf:
  assumes "ns_wf st" "\<And>up. parent = Some up \<Longrightarrow> up < length st" "create_namespace st parent name = (i, st')"
  shows "i = length st \<and> ns_wf st' \<and> length st' = Suc (length st)"
proof (cases parent)
  case None
  then show ?thesis using assms
    by (auto simp: create_namespace_def Let_def ns_wf_def ns_closed_def new_namespace_def nth_append less_Suc_eq)
next
  case (Some up)
  then show ?thesis using assms(1) assms(2)[OF Some] assms(3)
    by (auto simp: create_namespace_def push_namespace_def Let_def ns_wf_def ns_closed_def new_namespace_def nth_append nth_list_update
        less_Suc_eq split: if_splits)
qed

lemma set_parent_wf:
  assumes "ns_wf st" "sc < i" "i < length st"
  shows "ns_wf (st[i := (st ! i)\<lparr>ns_parent := Some sc\<rparr>])"
  using assms by (auto simp: ns_wf_def ns_closed_def nth_list_update split: if_splits)

lemma found_ns: "found_ok n (Some (FoundNs i)) \<Longrightarrow> i < n"
  by (simp add: found_ok_def)

lemma skip_package_total: "ns_wf st \<Longrightarrow> runs (\<lambda>(st', q). p \<le> q \<and> ns_ext st st') (skip_package code st p)"
  unfolding skip_package_def by (rule runs_bind_res) (auto simp: ns_ext_refl)

lemma def_name_total:
  assumes "ns_wf st" "ns < length st"
  shows "runs (\<lambda>(st', q). p \<le> q \<and> ns_ext st st') (def_name h code st ns p)"
  unfolding def_name_def
proof (rule runs_bind_res, clarify, rule runs_bind_res, rule runs_bind[OF parse_data_object_total[OF assms]])
  fix name q and x :: "aml_data \<times> nat"
  assume "parse_namestring code p = Inr (name, q)" "case x of (d, r) \<Rightarrow> q < r"
  then show "runs (\<lambda>(st', q). p \<le> q \<and> ns_ext st st') (case x of (d, r) \<Rightarrow>
      Some (Inr (add_child_to_namespace st ns name (TYPE_NAME d), r)))"
    using parse_namestring_progress[of code p name q] add_child_ext[OF assms(1)] by (cases x) auto
qed simp

lemma def_op_region_total:
  assumes "ns_wf st" "ns < length st"
  shows "runs (\<lambda>(st', q). p \<le> q \<and> ns_ext st st') (def_op_region h code st ns p)"
  unfolding def_op_region_def
proof (rule runs_bind_res, clarify, rule runs_bind_res, rule runs_bind_res,
    rule runs_bind[OF term_int_total[OF assms]], clarify, rule runs_bind[OF term_int_total[OF assms]], clarify)
  fix name q u v and offset :: u64 and r and len :: u64 and s
  assume "parse_namestring code p = Inr (name, q)" "q + 1 < r" "r < s"
  then show "runs (\<lambda>(st', q). p \<le> q \<and> ns_ext st st') (Some (Inr (add_child_to_namespace st ns name
      (TYPE_REGION \<lparr>region_space = v, region_offset = offset, region_len = len\<rparr>), s)))"
    using parse_namestring_progress[of code p name q] add_child_ext[OF assms(1)] by auto
qed

lemma parse_next_field_elem_ok:
  assumes "ns_wf st" "parse_next_field_elem code st ns p offset parent = Inr (len, st', q)"
  shows "ns_ext st st' \<and> p < length code \<and> (len \<noteq> None \<longrightarrow> p < q)"
  using assms
  by (auto simp: parse_next_field_elem_def bindE_Inr_iff fetch_Inr_iff ns_ext_refl add_child_ext split: if_splits
      dest!: parse_length_progress)

lemma field_elems_total:
  "ns_wf st \<Longrightarrow> length code - p < f \<Longrightarrow> runs (ns_ext st) (field_elems f code st ns p offset parent)"
proof (induction f arbitrary: st p offset)
  case (Suc f)
  show ?case
  proof (simp only: field_elems.simps, rule runs_bind_res, clarify)
    fix len st' q assume "parse_next_field_elem code st ns p offset parent = Inr (len, st', q)"
    note ok = parse_next_field_elem_ok[OF Suc.prems(1) this]
    show "runs (ns_ext st) (case len of None \<Rightarrow> Some (Inr st')
       | Some l \<Rightarrow> field_elems f code st' ns q (sint (word_of_int (offset + uint l) :: u32)) parent)"
    proof (cases len)
      case (Some l)
      then have "length code - q < f" using ok Suc.prems(2) by simp linarith
      then have "runs (ns_ext st') (field_elems f code st' ns q (sint (word_of_int (offset + uint l) :: u32)) parent)"
        using ok by (intro Suc.IH) (auto simp: ns_ext_def)
      then show ?thesis using Some ok by (auto elim!: runs_mono intro: ns_ext_trans)
    qed (use ok in simp)
  qed
qed simp

lemma def_field_total:
  assumes "ns_wf st" "ns < length st"
  shows "runs (\<lambda>(st', q). p \<le> q \<and> ns_ext st st') (def_field code st ns p)"
  unfolding def_field_def
proof (rule runs_bind_res, clarify, rule runs_bind_res, clarify, rule runs_bind[OF locate_object_total[OF assms]], clarify,
    rule runs_bind_res)
  fix field_len :: u64 and r and obj and flags
  have "runs (\<lambda>(st', q). p \<le> q \<and> ns_ext st st') (bindR (Some (guardE AssertFailed (flags AND 0x80 = 0))) (\<lambda>_.
           bindR (field_elems (Suc (length code)) code st ns (r + 1) 0 (field_of_flags flags region)) (\<lambda>st'.
             Some (Inr (st', p + unat field_len)))))" for region
    by (rule runs_bind_res, rule runs_bind[OF field_elems_total[OF assms(1)]]) auto
  then show "runs (\<lambda>(st', q). p \<le> q \<and> ns_ext st st') (case obj of
         Some (FoundObj (TYPE_REGION region)) \<Rightarrow>
           bindR (Some (guardE AssertFailed (flags AND 0x80 = 0))) (\<lambda>_.
           bindR (field_elems (Suc (length code)) code st ns (r + 1) 0 (field_of_flags flags region)) (\<lambda>st'.
             Some (Inr (st', p + unat field_len))))
       | _ \<Rightarrow> Some (Inl Abort))"
    by (auto split: option.splits aml_found.splits aml_obj.splits)
qed

lemma def_alias_total:
  assumes "ns_wf st"
  shows "runs (\<lambda>(st', q). p \<le> q \<and> ns_ext st st') (def_alias code st ns p)"
  unfolding def_alias_def
  by (rule runs_bind_res, clarify, rule runs_bind_res, clarify, rule runs_bind_res)
    (auto split: option.splits simp: add_child_ext assms dest!: parse_namestring_progress)

lemma def_mutex_total:
  assumes "ns_wf st"
  shows "runs (\<lambda>(st', q). p \<le> q \<and> ns_ext st st') (def_mutex code st ns p)"
  unfolding def_mutex_def
  by (rule runs_bind_res, clarify, rule runs_bind_res, rule runs_bind_res)
    (auto simp: add_child_ext assms dest!: parse_namestring_progress)

lemma term_arg_to_buffer_total:
  assumes "ns_wf st" "ns < length st"
  shows "runs (\<lambda>(bs, q). p < q) (term_arg_to_buffer code st ns p)"
  unfolding term_arg_to_buffer_def
  by (rule runs_bind_res, rule runs_bind[OF locate_object_total[OF assms]])
    (auto split: option.splits aml_found.splits aml_obj.splits aml_data.splits)

lemma def_create_word_field_total:
  assumes "ns_wf st" "ns < length st"
  shows "runs (\<lambda>(st', q). p \<le> q \<and> ns_ext st st') (def_create_word_field h code st ns p)"
  unfolding def_create_word_field_def
  by (rule runs_bind[OF term_arg_to_buffer_total[OF assms]], clarify, rule runs_bind[OF term_int_total[OF assms]], clarify,
      rule runs_bind_res, clarify, rule runs_bind_res)
    (auto simp: add_child_ext assms dest!: parse_namestring_progress)

lemma def_method_total:
  assumes "ns_wf st" "ns < length st"
  shows "runs (\<lambda>(st', q). p \<le> q \<and> ns_ext st st') (def_method code st ns p)"
  unfolding def_method_def
proof (rule runs_bind_res, clarify, rule runs_bind_res, clarify, rule runs_bind_res, rule runs_bind_res)
  fix mlen :: u64 and q and name :: "u8 list" and r and flags :: u8
  let ?key = "drop (length name - KEY_LEN) name"
  obtain sid st1 where c: "create_namespace st None ?key = (sid, st1)" by fastforce
  have w: "sid = length st" "ns_wf st1" "length st1 = Suc (length st)" using create_namespace_wf[OF assms(1) _ c] by auto
  have keep: "ns_parent (st1 ! ns) = ns_parent (st ! ns)"
    using c assms(2) by (auto simp: create_namespace_def Let_def nth_append)
  have closed: "ns_closed (length st) st1"
    using assms(1) c by (auto simp: ns_wf_def ns_closed_def create_namespace_def Let_def nth_append)
  have sc: "runs (\<lambda>scope. \<forall>sc. scope = Some sc \<longrightarrow> sc < length st)
      (if length name = KEY_LEN \<or> length name = KEY_LEN + 1
       then Some (Inr (if hd name = 0x5C then Some root else if hd name = 0x5E then ns_parent (st1 ! ns) else Some ns))
       else bindR (locate_object st1 ns (take (length name - KEY_LEN) name) True) (\<lambda>(found, _).
              Some (Inr (case found of Some (FoundNs i) \<Rightarrow> Some i | _ \<Rightarrow> None))))"
    using assms ns_closed_parent[OF closed assms(2)]
    by (auto simp: ns_wf_def ns_closed_def intro!: runs_bind[OF locate_object_closed[OF closed assms(2)]]
        split: option.splits aml_found.splits dest: found_ns less_trans)
  show "runs (\<lambda>(st', q). p \<le> q \<and> ns_ext st st') (let key = ?key in
     case create_namespace st None key of (scope_id, st1) \<Rightarrow>
     bindR (if length name = KEY_LEN \<or> length name = KEY_LEN + 1
            then Some (Inr (if hd name = 0x5C then Some root else if hd name = 0x5E then ns_parent (st1 ! ns) else Some ns))
            else bindR (locate_object st1 ns (take (length name - KEY_LEN) name) True) (\<lambda>(found, _).
              Some (Inr (case found of Some (FoundNs i) \<Rightarrow> Some i | _ \<Rightarrow> None)))) (\<lambda>scope.
     case scope of
       None \<Rightarrow> Some (Inl Abort)
     | Some sc \<Rightarrow>
         let st2 = add_child_to_namespace st1 sc key (TYPE_METHOD flags (mlen - of_nat (r + 1 - p)) (r + 1) scope_id) in
         Some (Inr (st2[scope_id := (st2 ! scope_id)\<lparr>ns_parent := Some sc\<rparr>], p + unat mlen))))"
    unfolding Let_def c prod.case
  proof (rule runs_bind[OF sc])
    fix scope assume b: "\<forall>sc. scope = Some sc \<longrightarrow> sc < length st"
    show "runs (\<lambda>(st', q). p \<le> q \<and> ns_ext st st') (case scope of
       None \<Rightarrow> Some (Inl Abort)
     | Some sc \<Rightarrow> Some (Inr ((add_child_to_namespace st1 sc ?key (TYPE_METHOD flags (mlen - of_nat (r + 1 - p)) (r + 1) sid))
          [sid := (add_child_to_namespace st1 sc ?key (TYPE_METHOD flags (mlen - of_nat (r + 1 - p)) (r + 1) sid) ! sid)
             \<lparr>ns_parent := Some sc\<rparr>], p + unat mlen)))"
      using b w by (auto simp: ns_ext_def intro!: set_parent_wf split: option.splits)
  qed
qed

text \<open>What the handlers with nested terms need of the reader of term lists: it ends on every list that
  starts at p or later.\<close>

definition terms_ok :: "nat \<Rightarrow> termlist \<Rightarrow> bool" where
  "terms_ok p terms \<longleftrightarrow> (\<forall>st ns s e. ns_wf st \<longrightarrow> ns < length st \<longrightarrow> p \<le> s \<longrightarrow> runs (ns_ext st) (terms st ns s e))"

lemma terms_okD: "terms_ok p terms \<Longrightarrow> ns_wf st \<Longrightarrow> ns < length st \<Longrightarrow> p \<le> s \<Longrightarrow> runs (ns_ext st) (terms st ns s e)"
  by (simp add: terms_ok_def)

lemma def_if_else_total:
  assumes "ns_wf st" "ns < length st" "terms_ok p terms"
  shows "runs (\<lambda>(st', q). p \<le> q \<and> ns_ext st st') (def_if_else terms h code st ns p)"
  unfolding def_if_else_def
proof (rule runs_bind_res, clarify, rule runs_bind[OF term_int_total[OF assms(1,2)]], clarify)
  fix if_len :: u64 and q and pred :: u64 and r
  assume "parse_length code p = Inr (if_len, q)" "q < r"
  then have r: "p \<le> r" using parse_length_progress[of code p if_len q] by simp
  have body: "runs (\<lambda>(st1, s). p \<le> s \<and> ns_ext st st1)
      (if pred \<noteq> 0 then bindR (terms st ns p (p + unat if_len)) (\<lambda>st1. Some (Inr (st1, r)))
       else Some (Inr (st, p + unat if_len)))"
    using r assms(1) by (auto simp: ns_ext_refl intro!: runs_bind[OF terms_okD[OF assms(3,1,2)]])
  have els: "runs (ns_ext st) (if pred = 0 then terms st1 ns (s + 1) e else Some (Inr st1))"
    if "p \<le> s" "ns_ext st st1" for st1 s e
    using that assms(2) terms_okD[OF assms(3), of st1 ns "s + 1" e]
    by (auto simp: ns_ext_def elim!: runs_mono)
  show "runs (\<lambda>(st', q). p \<le> q \<and> ns_ext st st')
     (bindR (if pred \<noteq> 0 then bindR (terms st ns p (p + unat if_len)) (\<lambda>st1. Some (Inr (st1, r)))
            else Some (Inr (st, p + unat if_len))) (\<lambda>(st1, s).
     bindR (Some (fetch code s)) (\<lambda>b.
       if b = 0xA1 then
         bindR (Some (parse_length code (s + 1))) (\<lambda>(else_len, _).
         bindR (if pred = 0 then terms st1 ns (s + 1) (s + 1 + unat else_len) else Some (Inr st1)) (\<lambda>st2.
           Some (Inr (st2, s + 1 + unat if_len))))
       else Some (Inr (st1, s)))))"
  proof (rule runs_bind[OF body], clarify, rule runs_bind_res)
    fix st1 s b assume s: "p \<le> s" "ns_ext st st1"
    have "runs (\<lambda>(st', q). p \<le> q \<and> ns_ext st st') (bindR (Some (parse_length code (s + 1))) (\<lambda>(else_len, _).
         bindR (if pred = 0 then terms st1 ns (s + 1) (s + 1 + unat else_len) else Some (Inr st1)) (\<lambda>st2.
           Some (Inr (st2, s + 1 + unat if_len)))))"
      by (rule runs_bind_res, clarify, rule runs_bind[OF els[OF s]]) (use s in auto)
    then show "runs (\<lambda>(st', q). p \<le> q \<and> ns_ext st st') (if b = 0xA1 then
         bindR (Some (parse_length code (s + 1))) (\<lambda>(else_len, _).
         bindR (if pred = 0 then terms st1 ns (s + 1) (s + 1 + unat else_len) else Some (Inr st1)) (\<lambda>st2.
           Some (Inr (st2, s + 1 + unat if_len))))
       else Some (Inr (st1, s)))" using s by simp
  qed
qed

lemma def_scope_total:
  assumes "ns_wf st" "ns < length st" "terms_ok p terms"
  shows "runs (\<lambda>(st', q). p \<le> q \<and> ns_ext st st') (def_scope terms code st ns p)"
  unfolding def_scope_def
proof (rule runs_bind_res, clarify, rule runs_bind_res, clarify)
  fix scope_len :: u64 and q name r
  assume "parse_length code p = Inr (scope_len, q)" "parse_namestring code q = Inr (name, r)"
  then have r: "p \<le> r" using parse_length_progress[of code p scope_len q] parse_namestring_progress[of code q name r] by simp
  have sc: "runs (\<lambda>i. i < length st) (if name = [] then Some (Inr root)
            else bindR (locate_object st ns name True) (\<lambda>(found, _).
              case found of Some (FoundNs i) \<Rightarrow> Some (Inr i) | _ \<Rightarrow> Some (Inl Abort)))"
    using assms(2) by (auto intro!: runs_bind[OF locate_object_total[OF assms(1,2)]] split: option.splits aml_found.splits dest: found_ns)
  show "runs (\<lambda>(st', q). p \<le> q \<and> ns_ext st st') (bindR (if name = [] then Some (Inr root)
            else bindR (locate_object st ns name True) (\<lambda>(found, _).
              case found of Some (FoundNs i) \<Rightarrow> Some (Inr i) | _ \<Rightarrow> Some (Inl Abort))) (\<lambda>scope.
     bindR (terms st scope r (p + unat scope_len)) (\<lambda>st1. Some (Inr (st1, p + unat scope_len)))))"
    by (rule runs_bind[OF sc], rule runs_bind[OF terms_okD[OF assms(3,1)]]) (use r in auto)
qed

lemma create_device_total:
  assumes "ns_wf st" "ns < length st"
  shows "runs (\<lambda>(i, st1). i < length st1 \<and> ns_ext st st1)
     (bindR (if length buf > KEY_LEN
             then bindR (locate_object st ns key True) (\<lambda>(up, _).
                    Some (Inr (case up of Some (FoundNs i) \<Rightarrow> Some i | _ \<Rightarrow> None)))
             else Some (Inr (Some ns))) (\<lambda>parent. Some (Inr (create_namespace st parent name))))"
proof -
  have p: "runs (\<lambda>parent. \<forall>up. parent = Some up \<longrightarrow> up < length st)
      (if length buf > KEY_LEN
       then bindR (locate_object st ns key True) (\<lambda>(up, _).
              Some (Inr (case up of Some (FoundNs i) \<Rightarrow> Some i | _ \<Rightarrow> None)))
       else Some (Inr (Some ns)))"
    using assms by (auto intro!: runs_bind[OF locate_object_total[OF assms]] split: option.splits aml_found.splits dest: found_ns)
  show ?thesis
  proof (rule runs_bind[OF p])
    fix parent assume up: "\<forall>up. parent = Some up \<longrightarrow> up < length st"
    obtain i st1 where c: "create_namespace st parent name = (i, st1)" by fastforce
    then show "runs (\<lambda>(i, st1). i < length st1 \<and> ns_ext st st1) (Some (Inr (create_namespace st parent name)))"
      using create_namespace_wf[OF assms(1) _ c] up by (simp add: ns_ext_def)
  qed
qed

lemma def_device_total:
  assumes "ns_wf st" "ns < length st" "terms_ok p terms"
  shows "runs (\<lambda>(st', q). p \<le> q \<and> ns_ext st st') (def_device terms code st ns p)"
  unfolding def_device_def
proof (rule runs_bind_res, clarify, rule runs_bind_res, clarify, rule runs_bind[OF locate_object_total[OF assms(1,2)]], clarify)
  fix device_len :: u64 and q name r found buf
  assume a: "parse_length code p = Inr (device_len, q)" "parse_namestring code q = Inr (name, r)" "found_ok (length st) found"
  then have r: "p \<le> r" using parse_length_progress[of code p device_len q] parse_namestring_progress[of code q name r] by simp
  let ?new = "bindR (if length buf > KEY_LEN
                then bindR (locate_object st ns (take (length buf - KEY_LEN) buf) True) (\<lambda>(up, _).
                       Some (Inr (case up of Some (FoundNs i) \<Rightarrow> Some i | _ \<Rightarrow> None)))
                else Some (Inr (Some ns))) (\<lambda>parent. Some (Inr (create_namespace st parent (take KEY_LEN (trim_name buf)))))"
  have d: "runs (\<lambda>(i, st1). i < length st1 \<and> ns_ext st st1)
      (case found of Some (FoundNs i) \<Rightarrow> Some (Inr (i, st)) | _ \<Rightarrow> ?new)"
  proof (cases "\<exists>i. found = Some (FoundNs i)")
    case True
    then show ?thesis using a(3) assms(1) by (auto simp: ns_ext_refl dest: found_ns)
  next
    case False
    then have "(case found of Some (FoundNs i) \<Rightarrow> A i | _ \<Rightarrow> B) = B" for A :: "nat \<Rightarrow> (nat \<times> aml_state) run" and B
      by (auto split: option.split aml_found.split)
    then show ?thesis using create_device_total[OF assms(1,2), of buf] by (simp only:)
  qed
  show "runs (\<lambda>(st', q). p \<le> q \<and> ns_ext st st')
     (bindR (case found of Some (FoundNs i) \<Rightarrow> Some (Inr (i, st)) | _ \<Rightarrow> ?new) (\<lambda>(device, st1).
     bindR (terms st1 device r (p + unat device_len)) (\<lambda>st2. Some (Inr (st2, p + unat device_len)))))"
  proof (rule runs_bind[OF d], clarify)
    fix device st1 assume "device < length st1" "ns_ext st st1"
    then show "runs (\<lambda>(st', q). p \<le> q \<and> ns_ext st st')
        (bindR (terms st1 device r (p + unat device_len)) (\<lambda>st2. Some (Inr (st2, p + unat device_len))))"
      using r by (intro runs_bind[OF terms_okD[OF assms(3), of st1 device r "p + unat device_len"]]) (auto simp: ns_ext_def)
  qed
qed

lemma parse_next_total:
  assumes "ns_wf st" "ns < length st" "terms_ok (Suc p) terms"
  shows "runs (\<lambda>(st', q). p < q \<and> p < length code \<and> ns_ext st st') (parse_next terms h code st ns p)"
proof -
  have weaken: "runs (\<lambda>(st', r). p < r \<and> p < length code \<and> ns_ext st st') m"
    if "runs (\<lambda>(st', r). q \<le> r \<and> ns_ext st st') m" "p < q" "p < length code" for q m
    using that by (auto elim!: runs_mono)
  have wf: "runs (\<lambda>(st', r). q \<le> r \<and> ns_ext st st') (bindR (def_create_word_field h code st ns q) (\<lambda>(st1, r). skip_package code st1 r))" for q
  proof (rule runs_bind[OF def_create_word_field_total[OF assms(1,2)]], clarify)
    fix st1 r assume "q \<le> r" "ns_ext st st1"
    then show "runs (\<lambda>(st', r). q \<le> r \<and> ns_ext st st') (skip_package code st1 r)"
      using skip_package_total[of st1 r code] by (auto simp: ns_ext_def elim!: runs_mono)
  qed
  show ?thesis
    unfolding parse_next_def
  proof (rule runs_bind_res, clarify)
    fix op q assume "fetch_op code p = Inr (op, q)"
    then have q: "p < q" "p < length code" by (auto simp: fetch_op_def bindE_Inr_iff fetch_Inr_iff split: if_splits)
    have t: "terms_ok q terms" using assms(3) q by (auto simp: terms_ok_def)
    note handlers = def_if_else_total[OF assms(1,2) t] def_name_total[OF assms(1,2)] def_method_total[OF assms(1,2)]
      def_op_region_total[OF assms(1,2)] def_field_total[OF assms(1,2)] skip_package_total[OF assms(1)]
      def_scope_total[OF assms(1,2) t] def_device_total[OF assms(1,2) t] def_mutex_total[OF assms(1)]
      def_alias_total[OF assms(1)] wf
    show "runs (\<lambda>(st', q). p < q \<and> p < length code \<and> ns_ext st st')
     (if op = 0xA0 then def_if_else terms h code st ns q
     else if op = 0x08 then def_name h code st ns q
     else if op = 0x14 then def_method code st ns q
     else if op = 0x5B80 then def_op_region h code st ns q
     else if op = 0x5B81 then def_field code st ns q
     else if op = 0x5B86 then def_index_field code st q
     else if op = 0x10 then def_scope terms code st ns q
     else if op = 0x5B82 then def_device terms code st ns q
     else if op = 0x5B01 then def_mutex code st ns q
     else if op = 0x06 then def_alias code st ns q
     else if op = 0x8B then bindR (def_create_word_field h code st ns q) (\<lambda>(st1, r). skip_package code st1 r)
     else if op = 0x5B83 then skip_package code st q
     else Some (Inl Abort))"
      by (simp add: def_index_field_def weaken[OF _ q] handlers)
  qed
qed

lemma parse_termlist_total:
  "ns_wf st \<Longrightarrow> ns < length st \<Longrightarrow> length code - p < f \<Longrightarrow> runs (ns_ext st) (parse_termlist f h code st ns p e)"
proof (induction f arbitrary: st ns p e)
  case (Suc f)
  show ?case
  proof (cases "p < e")
    case True
    show ?thesis
    proof (cases "p < length code")
      case in_table: True
      have t: "terms_ok (Suc p) (parse_termlist f h code)"
        unfolding terms_ok_def using Suc.IH Suc.prems(3) in_table by auto
      have "runs (ns_ext st) (bindR (parse_next (parse_termlist f h code) h code st ns p) (\<lambda>(st', q). parse_termlist f h code st' ns q e))"
      proof (rule runs_bind[OF parse_next_total[OF Suc.prems(1,2) t]], clarify)
        fix st' q assume q: "p < q" "p < length code" "ns_ext st st'"
        have "runs (ns_ext st') (parse_termlist f h code st' ns q e)"
          using q Suc.prems by (intro Suc.IH) (auto simp: ns_ext_def)
        then show "runs (ns_ext st) (parse_termlist f h code st' ns q e)"
          using q(3) by (auto elim!: runs_mono intro: ns_ext_trans)
      qed
      then show ?thesis using True by simp
    next
      case False
      then show ?thesis using True by (simp add: parse_next_def fetch_op_def fetch_def bindR_def)
    qed
  qed (use Suc.prems in \<open>simp add: ns_ext_refl\<close>)
qed simp

section \<open>Properties of the interpreter\<close>

lemma init_wf: "ns_wf init_aml_namespaces \<and> length init_aml_namespaces = 6"
proof -
  have step: "ns_wf (snd (create_namespace st (Some 0) k)) \<and> length (snd (create_namespace st (Some 0) k)) = Suc (length st)"
    if "ns_wf st" for st k
    using create_namespace_wf[OF that, of "Some 0" k] that
    by (cases "create_namespace st (Some 0) k") (auto simp: ns_wf_def ns_closed_def)
  have "ns_wf (snd (create_namespace [] None k)) \<and> length (snd (create_namespace [] None k)) = 1" for k
    by (simp add: create_namespace_def ns_wf_def ns_closed_def new_namespace_def)
  then show ?thesis unfolding init_aml_namespaces_def by (simp add: step)
qed

text \<open>(C13) Whatever bytes a table holds and whatever its header says its length is, reading it ends: it returns
  a namespace tree or stops in a fault, and a tree it returns is well-formed, every parent older than its
  child and every registered namespace present, with no namespace lost.\<close>

theorem parse_table_total:
  assumes "ns_wf st"
  shows "\<exists>r. parse_table h code header_length st = Some r \<and>
     (case r of Inl _ \<Rightarrow> True | Inr st' \<Rightarrow> ns_wf st' \<and> length st \<le> length st')"
proof -
  have "0 < length st" using assms by (auto simp: ns_wf_def ns_closed_def)
  then have "runs (ns_ext st) (parse_table h code header_length st)"
    unfolding parse_table_def using assms by (intro parse_termlist_total) simp_all
  then have "runs (\<lambda>st'. ns_wf st' \<and> length st \<le> length st') (parse_table h code header_length st)"
    by (rule runs_mono) (simp add: ns_ext_def)
  then show ?thesis by (simp only: runs_iff)
qed

theorem parse_table_total_witness:
  "\<exists>r. parse_table demo_host [0x10, 0x06, 0x5C, 0x5B, 0x82] 41 init_aml_namespaces = Some r \<and>
     (case r of Inl _ \<Rightarrow> True | Inr st' \<Rightarrow> ns_wf st' \<and> 6 \<le> length st')"
  using parse_table_total[OF conjunct1[OF init_wf], of demo_host "[0x10, 0x06, 0x5C, 0x5B, 0x82]" 41]
  unfolding conjunct2[OF init_wf] .

text \<open>Reading a four-character name.\<close>

lemma parse_namestring_name:
  assumes "length k = 4" "list_all valid_char k"
  shows "parse_namestring (pre @ k @ post) (length pre) = Inr (k, length pre + 4)"
proof -
  obtain c cs where kc: "k = c # cs" using assms(1) by (cases k) auto
  have c: "valid_char c" using assms(2) kc by simp
  have t: "takeWhile is_prefix_char (k @ post) = []" using valid_char_op(9)[OF c] by (simp add: kc)
  have f: "fetch (pre @ k @ post) (length pre) = Inr c" by (simp add: kc)
  have b: "fetch_block (pre @ k @ post) (length pre) 4 = Inr k" using assms(1) by simp
  show ?thesis using valid_char_op[OF c] by (simp add: parse_namestring_def t f b Let_def)
qed

text \<open>The integer constants of a data object, with their encoding.\<close>

fun encode_data :: "aml_data \<Rightarrow> u8 list" where
  "encode_data (DATA_BYTE b) = 0x0A # le_bytes 1 (unat b)"
| "encode_data (DATA_SHORT w) = 0x0B # le_bytes 2 (unat w)"
| "encode_data (DATA_INT i) = 0x0C # le_bytes 4 (unat i)"
| "encode_data (DATA_LONG l) = 0x0E # le_bytes 8 (unat l)"
| "encode_data _ = []"

definition is_int_data :: "aml_data \<Rightarrow> bool" where
  "is_int_data d = (case d of DATA_BYTE _ \<Rightarrow> True | DATA_SHORT _ \<Rightarrow> True | DATA_INT _ \<Rightarrow> True | DATA_LONG _ \<Rightarrow> True | _ \<Rightarrow> False)"

lemma ucast_le_value:
  fixes w :: "'l::len word"
  assumes "k \<le> 8" "unat w < 256 ^ k" "LENGTH('l) \<le> 64"
  shows "ucast (le_value (le_bytes k (unat w))) = w"
proof -
  have "unat (le_value (le_bytes k (unat w))) = unat w" using assms(1,2) by (rule le_value_bytes)
  then have "le_value (le_bytes k (unat w)) = ucast w" using assms(3) by (simp add: word_unat_eq_iff unat_ucast_up)
  then show ?thesis using assms(3) by (simp add: ucast_up_down)
qed

lemma parse_data_object_encoded:
  assumes "is_int_data d"
  shows "parse_data_object (Suc f) h (pre @ encode_data d @ post) st ns (length pre) =
     Some (Inr (d, length pre + length (encode_data d)))"
proof -
  have rd: "fetch (pre @ op # bs @ post) (length pre) = Inr op"
    "length bs = n \<Longrightarrow> fetch_block (pre @ op # bs @ post) (Suc (length pre)) n = Inr bs" for op bs n
    by simp_all
  note rd1 = rd(2)[where bs = "le_bytes k v" for k v, OF length_le_bytes]
  have lt: "unat (b :: u8) < 256 ^ 1" "unat (w :: u16) < 256 ^ 2" "unat (i :: u32) < 256 ^ 4" "unat (l :: u64) < 256 ^ 8" for b w i l
    using unat_word_lt(1)[of b] unat_word_lt(2)[of w] unat_word_lt(3)[of i] unsigned_less[of l, where 'a = nat] by simp_all
  show ?thesis
  proof (cases d)
    case (DATA_BYTE b)
    show ?thesis using ucast_le_value[OF _ lt(1), of b] rd1[of "0x0A" 1 "unat b"]
      by (simp add: DATA_BYTE bindR_def rd(1) del: le_bytes.simps)
  next
    case (DATA_SHORT w)
    show ?thesis using ucast_le_value[OF _ lt(2), of w] rd1[of "0x0B" 2 "unat w"]
      by (simp add: DATA_SHORT bindR_def rd(1) del: le_bytes.simps)
  next
    case (DATA_INT i)
    show ?thesis using ucast_le_value[OF _ lt(3), of i] rd1[of "0x0C" 4 "unat i"]
      by (simp add: DATA_INT bindR_def rd(1) del: le_bytes.simps)
  next
    case (DATA_LONG l)
    show ?thesis using ucast_le_value[OF _ lt(4), of l] rd1[of "0x0E" 8 "unat l"]
      by (simp add: DATA_LONG bindR_def rd(1) del: le_bytes.simps)
  qed (use assms in \<open>simp_all add: is_int_data_def\<close>)
qed

lemma fetch_op_single: "b \<noteq> 0x5B \<Longrightarrow> fetch_op (pre @ b # post) (length pre) = Inr (ucast b, Suc (length pre))"
  by (simp add: fetch_op_def)

lemma stage3_here:
  "children (st ! ns) k = Some ob \<Longrightarrow> stage3 (Suc n) st ns k False = Some (Some (FoundObj ob))"
  by (simp add: ns_get_def)



text \<open>A conditional whose predicate is the constant zero and that has no else part is skipped as a whole:
  the state is unchanged and reading goes on right after its body.\<close>

theorem false_if_skips_body:
  assumes "length body + 2 = n" "n < 64" "c \<noteq> 0xA1"
  shows "parse_next terms h (pre @ [0xA0, of_nat n, 0] @ body @ c # post) st ns (length pre) =
     Some (Inr (st, length pre + 3 + length body))"
proof -
  let ?code = "pre @ [0xA0, of_nat n, 0] @ body @ c # post"
  have op: "fetch_op ?code (length pre) = Inr (0xA0, Suc (length pre))" using fetch_op_single[of "0xA0" pre] by simp
  have ln: "parse_length ?code (Suc (length pre)) = Inr (of_nat n, Suc (Suc (length pre)))"
    using parse_length_encoded[of n "pre @ [0xA0]" "0 # body @ c # post"] assms(2) by (simp add: encode_length_def)
  have pd: "term_int h ?code st ns (Suc (Suc (length pre))) = Some (Inr (0, Suc (Suc (Suc (length pre)))))"
    by (simp add: term_int_def bindR_def)
  have u: "Suc (length pre + unat (of_nat n :: u64)) = length pre + 3 + length body" using assms(1,2) by (simp add: unat_of_nat)
  have ft: "fetch ?code (length pre + 3 + length body) = Inr c"
    using fetch_append(1)[of "pre @ [0xA0, of_nat n, 0] @ body" c post] by (simp add: numeral_3_eq_3 add.commute)
  show ?thesis using assms(3)
    by (simp add: parse_next_def op bindR_def def_if_else_def ln pd u ft del: append.simps append_assoc)
qed

theorem false_if_skips_body_witness:
  "parse_next (\<lambda>_ _ _ _. None) demo_host ([] @ [0xA0, of_nat 3, 0] @ [0x77] @ 0x08 # []) init_aml_namespaces 0 0 =
     Some (Inr (init_aml_namespaces, 4))"
  using false_if_skips_body[of "[0x77]" 3 8 "\<lambda>_ _ _ _. None" demo_host "[]" "[]" init_aml_namespaces 0] by simp

lemma small_opcodes:
  "list_all (\<lambda>n. n \<in> {0, 0x06, 0x08, 0x10, 0x14} \<or> (of_nat n :: u8) \<noteq> 0x5B \<and>
     (ucast (of_nat n :: u8) :: u16) \<notin>
       {0xA0, 0x08, 0x14, 0x5B80, 0x5B81, 0x5B86, 0x10, 0x5B82, 0x5B01, 0x06, 0x8B, 0x5B83}) [0..<64]"
  by code_simp

lemma unknown_opcode_aborts:
  assumes "n < 64" "n \<notin> {0, 0x06, 0x08, 0x10, 0x14}"
  shows "parse_next terms h (pre @ of_nat n # post) st ns (length pre) = Some (Inl Abort)"
proof -
  have "n \<in> set [0..<64]" using assms(1) by (simp only: set_upt atLeastLessThan_iff simp_thms)
  then have "(of_nat n :: u8) \<noteq> 0x5B" and ne: "(ucast (of_nat n :: u8) :: u16) \<notin>
       {0xA0, 0x08, 0x14, 0x5B80, 0x5B81, 0x5B86, 0x10, 0x5B82, 0x5B01, 0x06, 0x8B, 0x5B83}"
    using small_opcodes assms(2) unfolding list_all_iff by blast+
  then have "fetch_op (pre @ of_nat n # post) (length pre) = Inr (ucast (of_nat n :: u8), Suc (length pre))"
    by (intro fetch_op_single)
  then show ?thesis using ne by (simp add: parse_next_def bindR_def)
qed

text \<open>A conditional with a true predicate: its body is read from the length octet on instead of from the first
  term after the predicate, so with a one-octet length the interpreter aborts whatever the body is, unless
  that octet happens to be the opcode of a definition.\<close>

theorem true_if_aborts:
  assumes "n < 64" "n \<notin> {0, 0x06, 0x08, 0x10, 0x14}"
  shows "let code = pre @ [0xA0, of_nat n, 1] @ body in
     parse_next (parse_termlist (Suc f) h code) h code st ns (length pre) = Some (Inl Abort)"
proof -
  let ?code = "pre @ [0xA0, of_nat n, 1] @ body"
  have op: "fetch_op ?code (length pre) = Inr (0xA0, Suc (length pre))" using fetch_op_single[of "0xA0" pre] by simp
  have ln: "parse_length ?code (Suc (length pre)) = Inr (of_nat n, Suc (Suc (length pre)))"
    using parse_length_encoded[of n "pre @ [0xA0]" "1 # body"] assms(1) by (simp add: encode_length_def)
  have pd: "term_int h ?code st ns (Suc (Suc (length pre))) = Some (Inr (1, Suc (Suc (Suc (length pre)))))"
    by (simp add: term_int_def bindR_def)
  have u: "unat (of_nat n :: u64) = n" "unat (of_nat n :: u8) = n" using assms(1) by (simp_all add: unat_of_nat)
  have body: "parse_next terms h ?code st ns (Suc (length pre)) = Some (Inl Abort)" for terms
    using unknown_opcode_aborts[OF assms, of terms h "pre @ [0xA0]" "1 # body"] by simp
  have "parse_termlist (Suc f) h ?code st ns (Suc (length pre)) (Suc (length pre) + n) = Some (Inl Abort)"
    using assms(2) by (simp add: body bindR_def del: append.simps)
  then have "parse_next (parse_termlist (Suc f) h ?code) h ?code st ns (length pre) = Some (Inl Abort)"
    by (simp add: parse_next_def[of _ _ _ _ _ "length pre"] op bindR_def def_if_else_def ln pd u
        del: parse_termlist.simps append.simps append_assoc)
  then show ?thesis by (simp only: Let_def)
qed

theorem true_if_aborts_witness:
  "parse_next (parse_termlist (Suc 9) demo_host [0xA0, of_nat 3, 1, 0x00]) demo_host [0xA0, of_nat 3, 1, 0x00]
     init_aml_namespaces 0 0 = Some (Inl Abort)"
  using true_if_aborts[of 3 "[]" "[0x00]" 9 demo_host init_aml_namespaces 0]
  by (simp only: Let_def append.simps list.size) simp

text \<open>Field lists: every named field but the first gets as its offset the number of code octets before it in the
  list, not the sum of the bit widths of the fields before it.\<close>

lemma field_elem_named:
  assumes "length k = 4" "list_all valid_char k" "n < 64"
  shows "parse_next_field_elem (pre @ k @ of_nat n # post) st ns (length pre) offset parent =
     Inr (Some 5, add_child_to_namespace st ns k (TYPE_FIELD_OFFSET offset (int n) parent), length pre + 5)"
proof -
  obtain c cs where kc: "k = c # cs" using assms(1) by (cases k) auto
  have c: "valid_char c" using assms(2) kc by simp
  have f: "fetch (pre @ k @ of_nat n # post) (length pre) = Inr c" by (simp add: kc)
  have b: "fetch_block (pre @ k @ of_nat n # post) (length pre) 4 = Inr k" using assms(1) by simp
  have v: "valid_name k" using assms(2) by (simp add: kc valid_name_def)
  have ln: "parse_length (pre @ k @ of_nat n # post) (length pre + 4) = Inr (of_nat n, length pre + 5)"
    using parse_length_encoded[of n "pre @ k" post] assms(1,3) by (simp add: encode_length_def)
  have u: "uint (of_nat n :: u64) = int n" using assms(3) by (simp add: uint_nat unat_of_nat)
  have "c \<noteq> 2" "c \<noteq> 3" using valid_char_bounds[of c] c by auto
  then show ?thesis using valid_char_op[OF c] by (simp add: parse_next_field_elem_def f b v ln u)
qed

text \<open>Two named fields in a field list that is closed by an opcode: whatever the width of the first, the
  second is placed at offset 5, the size of the encoding of the first.\<close>

theorem field_offsets_count_octets:
  assumes "length k1 = 4" "list_all valid_char k1" "length k2 = 4" "list_all valid_char k2" "k1 \<noteq> k2"
    "n1 < 64" "n2 < 64" "ns < length st" "length post = 3"
  shows "\<exists>st'. field_elems (Suc (Suc (Suc f))) (pre @ k1 @ of_nat n1 # k2 @ of_nat n2 # 0x5B # post) st ns (length pre) 0 parent
       = Some (Inr st') \<and>
     children (st' ! ns) k1 = Some (TYPE_FIELD_OFFSET 0 (int n1) parent) \<and>
     children (st' ! ns) k2 = Some (TYPE_FIELD_OFFSET 5 (int n2) parent)"
proof -
  let ?code = "pre @ k1 @ of_nat n1 # k2 @ of_nat n2 # 0x5B # post"
  let ?st1 = "add_child_to_namespace st ns k1 (TYPE_FIELD_OFFSET 0 (int n1) parent)"
  let ?st2 = "add_child_to_namespace ?st1 ns k2 (TYPE_FIELD_OFFSET 5 (int n2) parent)"
  have e1: "parse_next_field_elem ?code st ns (length pre) 0 parent = Inr (Some 5, ?st1, length pre + 5)"
    using field_elem_named[OF assms(1,2,6)] by simp
  have e2: "parse_next_field_elem ?code ?st1 ns (length pre + 5) 5 parent = Inr (Some 5, ?st2, length pre + 10)"
    using field_elem_named[OF assms(3,4,7), of "pre @ k1 @ [of_nat n1]" "0x5B # post" ?st1 ns 5 parent] assms(1) by simp
  have f: "fetch ?code (length pre + 10) = Inr 0x5B"
    using fetch_append(1)[of "pre @ k1 @ of_nat n1 # k2 @ [of_nat n2]" "0x5B" post] assms(1,3) by simp
  have b: "fetch_block ?code (length pre + 10) 4 = Inr (0x5B # post)"
    using fetch_block_append(1)[of "0x5B # post" 4 "pre @ k1 @ of_nat n1 # k2 @ [of_nat n2]" "[]"] assms(1,3,9) by simp
  have "\<not> valid_name (0x5B # post)" by (simp add: valid_name_def is_prefix_char_def valid_char_def)
  then have e3: "parse_next_field_elem ?code ?st2 ns (length pre + 10) p parent = Inr (None, ?st2, length pre + 10)" for p
    by (simp add: parse_next_field_elem_def f b del: append.simps append_assoc)
  have "field_elems (Suc (Suc (Suc f))) ?code st ns (length pre) 0 parent = Some (Inr ?st2)"
    by (simp add: bindR_def e1 e2 e3 del: append.simps append_assoc)
  then show ?thesis using assms(5,8) by (intro exI[of _ ?st2]) (simp add: add_child_to_namespace_def)
qed

definition demo_field :: aml_field where
  "demo_field = \<lparr>access_type = 1, should_lock = False, update_rule = 0,
     field_region = \<lparr>region_space = 1, region_offset = 0xB000, region_len = 16\<rparr>\<rparr>"

theorem field_offsets_count_octets_witness:
  "\<exists>st'. field_elems (Suc (Suc (Suc 4))) ([] @ lit ''SMBS'' @ of_nat 32 # lit ''SLVA'' @ of_nat 8 # 0x5B # [0x82, 5, 0])
       init_aml_namespaces 0 0 0 demo_field = Some (Inr st') \<and>
     children (st' ! 0) (lit ''SLVA'') = Some (TYPE_FIELD_OFFSET 5 8 demo_field)"
proof -
  have "length (lit ''SMBS'') = 4" "list_all valid_char (lit ''SMBS'')" "length (lit ''SLVA'') = 4"
    "list_all valid_char (lit ''SLVA'')" "lit ''SMBS'' \<noteq> lit ''SLVA''"
    by (simp_all add: lit_def ascii_def valid_char_def)
  from field_offsets_count_octets[OF this, of 32 8 0 init_aml_namespaces "[0x82, 5, 0]" 4 "[]" demo_field]
  show ?thesis using conjunct2[OF init_wf] by (auto simp del: field_elems.simps append_Nil)
qed

text \<open>Mutexes: every mutex of a namespace is registered under the same key, the octets of the number 4, and
  not under its name, so its name stays as it was and a second mutex replaces the first.\<close>

theorem mutex_registered_under_count:
  assumes "length k = 4" "list_all valid_char k" "ns < length st"
  shows "\<exists>st'. parse_next terms h (pre @ [0x5B, 0x01] @ k @ flags # post) st ns (length pre) =
       Some (Inr (st', length pre + 7)) \<and>
     children (st' ! ns) = (children (st ! ns))([4, 0, 0, 0] \<mapsto> TYPE_MUTEX flags) \<and>
     children (st' ! ns) k = children (st ! ns) k"
proof -
  let ?code = "pre @ [0x5B, 0x01] @ k @ flags # post"
  have op: "fetch_op ?code (length pre) = Inr (0x5B01, Suc (Suc (length pre)))"
    by (simp add: fetch_op_def)
  have nm: "parse_namestring ?code (Suc (Suc (length pre))) = Inr (k, length pre + 6)"
    using parse_namestring_name[OF assms(1,2), of "pre @ [0x5B, 1]" "flags # post"] by simp
  have fl: "fetch ?code (length pre + 6) = Inr flags"
    using fetch_append(1)[of "pre @ [0x5B, 1] @ k" flags post] assms(1) by simp
  have ne: "k \<noteq> [4, 0, 0, 0]" using assms(2) by (auto simp: valid_char_def)
  have "parse_next terms h ?code st ns (length pre) =
      Some (Inr (add_child_to_namespace st ns mutex_key (TYPE_MUTEX flags), length pre + 7))"
    using assms(1) by (simp add: parse_next_def op bindR_def def_mutex_def nm fl del: append.simps append_assoc)
  then show ?thesis using assms(3) ne by (simp add: add_child_to_namespace_def mutex_key_def)
qed

theorem mutex_registered_under_count_witness:
  "\<exists>st'. parse_next (\<lambda>_ _ _ _. None) demo_host ([] @ [0x5B, 0x01] @ lit ''MTX0'' @ 0 # []) init_aml_namespaces 0 0 =
       Some (Inr (st', 7)) \<and> children (st' ! 0) [4, 0, 0, 0] = Some (TYPE_MUTEX 0)"
  using mutex_registered_under_count[of "lit ''MTX0''" 0 init_aml_namespaces "\<lambda>_ _ _ _. None" demo_host "[]" 0 "[]"]
    conjunct2[OF init_wf] by (auto simp: lit_def ascii_def valid_char_def)

text \<open>Sleep: when the root holds a package \<^verbatim>\<open>_S5_\<close> that starts with two integer constants and the firmware
  does not ask for the hardware-reduced interface, entering state 5 writes the sleep type of each control
  block with the sleep bit to its port and does nothing else; every other sleep state aborts.\<close>

theorem execute_sleep_writes:
  assumes "children (st ! root) (lit ''_S5_'') = Some (TYPE_NAME (DATA_PKG (DATA_BYTE a # DATA_BYTE b # ds)))"
    "\<not> bit (fadt_flags f) 20"
  shows "execute_sleep st f state =
     (if state = 5
      then Inr [(ucast (pm1a_control_block f), push_bit 10 (ucast a) OR 0x2000),
                (ucast (pm1b_control_block f), push_bit 10 (ucast b) OR 0x2000)]
      else Inl Abort)"
proof -
  have c: "ucast (push_bit 10 (ucast x :: u64) OR 0x2000) = (push_bit 10 (ucast x) OR 0x2000 :: u16)" for x :: u8
    by (rule bit_word_eqI) (auto simp: bit_simps)
  have n: "(ucast x :: u64) \<noteq> - 1" for x :: u8
  proof
    assume "(ucast x :: u64) = - 1"
    then have "unat (ucast x :: u64) = unat (- 1 :: u64)" by simp
    then show False using unsigned_less[of x, where 'a = nat] by (simp add: unat_ucast_up unsigned_minus_1_eq_mask mask_eq_exp_minus_1)
  qed
  show ?thesis using assms by (simp add: execute_sleep_def readE_def Let_def variable_to_int_def c n)
qed

theorem execute_sleep_writes_witness:
  "execute_sleep [(new_namespace None [])\<lparr>children := [lit ''_S5_'' \<mapsto> TYPE_NAME (DATA_PKG [DATA_BYTE 5, DATA_BYTE 0])]\<rparr>]
     \<lparr>fadt_flags = 0, pm1a_control_block = 0x604, pm1b_control_block = 0\<rparr> 5 = Inr [(0x604, 0x3400), (0, 0x2000)]"
  using execute_sleep_writes[of "[(new_namespace None [])\<lparr>children := [lit ''_S5_'' \<mapsto> TYPE_NAME (DATA_PKG [DATA_BYTE 5, DATA_BYTE 0])]\<rparr>]"
      5 0 "[]" "\<lparr>fadt_flags = 0, pm1a_control_block = 0x604, pm1b_control_block = 0\<rparr>" 5]
  by simp

text \<open>A device named by a path from the root that does not exist yet: the lookup has shifted the name in its buffer
  before the handler cuts the parent off it, so the device is created outside the tree and under a wrong
  name.\<close>

theorem rooted_device_is_lost:
  "case parse_table demo_host ([0x5B, 0x82, 0x0B, 0x5C, 0x2E] @ lit ''_SB_PCI0'') 49 init_aml_namespaces of
     Some (Inr st') \<Rightarrow> length st' = 7 \<and> ns_parent (st' ! 6) = None \<and> ns_name (st' ! 6) = lit ''CI00''
       \<and> namespaces (st' ! 3) (lit ''PCI0'') = None
   | _ \<Rightarrow> False"
  by code_simp

end
