(* ===== verification/Interrupts.thy ===== *)
theory Interrupts
  imports Prelude
begin

text \<open>
  Segment and interrupt descriptors and the interrupt dispatch: \<^verbatim>\<open>gdt.c\<close>, \<^verbatim>\<open>tss.c\<close>, \<^verbatim>\<open>idt.c\<close> and
  \<^verbatim>\<open>isr.c\<close> of \<^verbatim>\<open>lethe-kernel/cpu\<close>. Descriptors are records with the fields of the packed structs. The
  handler table holds function addresses; what a handler does to the saved registers and to the machine
  is the argument \<open>call\<close> of the dispatch. The exception messages and the register dump before a halt only
  print and are left out. Loading the tables into the processor (\<^verbatim>\<open>lgdt\<close>, \<^verbatim>\<open>lidt\<close>,
  \<^verbatim>\<open>ltr\<close>) is assembly and not part of the model.
\<close>

section \<open>Segment descriptors\<close>

record gdt_entry_t =
  limit_low :: u16
  base_low :: u16
  base_mid :: u8
  gdt_access :: u8
  flags_and_limit_high :: u8
  base_high :: u8

record gdt_long_entry_t =
  l_limit_low :: u16
  l_base_low :: u16
  base_low_mid :: u8
  l_access :: u8
  l_flags_and_limit_high :: u8
  base_upper_mid :: u8
  l_base_high :: u32
  l_reserved :: u32

record gdt_t =
  gdt_null :: gdt_entry_t
  kernel_code :: gdt_entry_t
  kernel_data :: gdt_entry_t
  user_data :: gdt_entry_t
  user_code :: gdt_entry_t
  gdt_tss :: gdt_long_entry_t

definition gdt_set_long_gate :: "u64 \<Rightarrow> u32 \<Rightarrow> u8 \<Rightarrow> u8 \<Rightarrow> gdt_long_entry_t" where
  "gdt_set_long_gate base limit access flags =
     \<lparr>l_limit_low = ucast (limit AND 0xFFFF), l_base_low = ucast (base AND 0xFFFF),
      base_low_mid = ucast (drop_bit 16 base AND 0xFF), l_access = access,
      l_flags_and_limit_high = (push_bit 4 flags AND 0xF0) OR ucast (drop_bit 16 limit AND 0x0F),
      base_upper_mid = ucast (drop_bit 24 base AND 0xFF), l_base_high = ucast (drop_bit 32 base AND 0xFFFFFFFF),
      l_reserved = 0\<rparr>"

definition gdt_set_gate :: "u32 \<Rightarrow> u32 \<Rightarrow> u8 \<Rightarrow> u8 \<Rightarrow> gdt_entry_t" where
  "gdt_set_gate base limit access flags =
     \<lparr>limit_low = ucast (limit AND 0xFFFF), base_low = ucast (base AND 0xFFFF),
      base_mid = ucast (drop_bit 16 base AND 0xFF), gdt_access = access,
      flags_and_limit_high = ucast (drop_bit 16 limit AND 0xF) OR push_bit 4 flags,
      base_high = ucast (drop_bit 24 base AND 0xFF)\<rparr>"

definition gdt_set_gate_simple :: "u8 \<Rightarrow> u8 \<Rightarrow> gdt_entry_t" where
  "gdt_set_gate_simple access flags = gdt_set_gate 0 0 access flags"

text \<open>\<^verbatim>\<open>sizeof(tss_t)\<close>: 4 + 12 * 8 + 2 + 2 = 104 bytes, packed.\<close>

definition sizeof_tss :: u32 where "sizeof_tss = 104"

record tss_t =
  reserved_1 :: u32
  rsp0 :: u64
  rsp1 :: u64
  rsp2 :: u64
  reserved_2 :: u64
  ist1 :: u64
  ist2 :: u64
  ist3 :: u64
  ist4 :: u64
  ist5 :: u64
  ist6 :: u64
  ist7 :: u64
  reserved_3 :: u64
  reserved_4 :: u16
  iomap_base :: u16

text \<open>All fields 0, as \<^verbatim>\<open>memset\<close> leaves them.\<close>

definition zero_tss :: tss_t where
  "zero_tss = \<lparr>reserved_1 = 0, rsp0 = 0, rsp1 = 0, rsp2 = 0, reserved_2 = 0, ist1 = 0, ist2 = 0, ist3 = 0,
     ist4 = 0, ist5 = 0, ist6 = 0, ist7 = 0, reserved_3 = 0, reserved_4 = 0, iomap_base = 0\<rparr>"

definition gdt_set_tss :: "u64 \<Rightarrow> gdt_t \<Rightarrow> gdt_t" where
  "gdt_set_tss tss g = g\<lparr>gdt_tss := gdt_set_long_gate tss (sizeof_tss - 1) 0x89 0\<rparr>"

definition load_gdt :: gdt_t where
  "load_gdt =
     \<lparr>gdt_null = gdt_set_gate_simple 0 0, kernel_code = gdt_set_gate_simple 0x9A 0xA,
      kernel_data = gdt_set_gate_simple 0x92 0xC, user_data = gdt_set_gate_simple 0xF2 0xC,
      user_code = gdt_set_gate_simple 0xFA 0xA, gdt_tss = gdt_set_long_gate 0 0 0x89 0\<rparr>"

definition init_tss :: "u64 \<Rightarrow> gdt_t \<Rightarrow> tss_t \<times> gdt_t" where
  "init_tss tss_addr g = (zero_tss\<lparr>iomap_base := ucast sizeof_tss\<rparr>, gdt_set_tss tss_addr g)"

definition set_kernel_tss :: "u64 \<Rightarrow> tss_t \<Rightarrow> tss_t" where
  "set_kernel_tss stack t = t\<lparr>rsp0 := stack\<rparr>"

text \<open>The processor's reading of the descriptors: base, limit and flag nibble.\<close>

definition long_base :: "gdt_long_entry_t \<Rightarrow> u64" where
  "long_base e = ucast (l_base_low e) OR push_bit 16 (ucast (base_low_mid e)) OR push_bit 24 (ucast (base_upper_mid e))
     OR push_bit 32 (ucast (l_base_high e))"

definition long_limit :: "gdt_long_entry_t \<Rightarrow> u32" where
  "long_limit e = ucast (l_limit_low e) OR push_bit 16 (ucast (l_flags_and_limit_high e AND 0x0F))"

definition seg_base :: "gdt_entry_t \<Rightarrow> u32" where
  "seg_base e = ucast (base_low e) OR push_bit 16 (ucast (base_mid e)) OR push_bit 24 (ucast (base_high e))"

definition seg_limit :: "gdt_entry_t \<Rightarrow> u32" where
  "seg_limit e = ucast (limit_low e) OR push_bit 16 (ucast (flags_and_limit_high e AND 0x0F))"

section \<open>Interrupt descriptors\<close>

definition IDT_ENTRY_COUNT :: nat where "IDT_ENTRY_COUNT = 256"

record idt_entry_t =
  offset_low :: u16
  segment_selector :: u16
  idt_ist :: u8
  idt_flags :: u8
  offset_mid :: u16
  offset_high :: u32
  reserved_high :: u32

definition idt_gate :: "u64 \<Rightarrow> idt_entry_t" where
  "idt_gate handler =
     \<lparr>offset_low = ucast (handler AND 0xFFFF), segment_selector = 0x08, idt_ist = 0, idt_flags = 0x8E,
      offset_mid = ucast (drop_bit 16 handler AND 0xFFFF), offset_high = ucast (drop_bit 32 handler AND 0xFFFFFFFF),
      reserved_high = 0\<rparr>"

definition idt_offset :: "idt_entry_t \<Rightarrow> u64" where
  "idt_offset e = ucast (offset_low e) OR push_bit 16 (ucast (offset_mid e)) OR push_bit 32 (ucast (offset_high e))"

record idt =
  entries :: "idt_entry_t list"
  isr_handler_table :: "ptr list"

definition set_idt_entry_simple :: "idt \<Rightarrow> u8 \<Rightarrow> u64 \<Rightarrow> idt res" where
  "set_idt_entry_simple t vector handler =
     bindE (writeE (entries t) (uint vector) (idt_gate handler)) (\<lambda>es. Inr (t\<lparr>entries := es\<rparr>))"

definition register_handler :: "idt \<Rightarrow> int \<Rightarrow> ptr \<Rightarrow> idt res" where
  "register_handler t vector handler =
     bindE (writeE (isr_handler_table t) vector handler) (\<lambda>hs. Inr (t\<lparr>isr_handler_table := hs\<rparr>))"

definition unregister_handler :: "idt \<Rightarrow> int \<Rightarrow> idt res" where
  "unregister_handler t vector = register_handler t vector NULL"

text \<open>The loop body of \<^verbatim>\<open>load_idt\<close>, and the loop; \<open>isr_stub_table\<close> is defined in assembly.\<close>

definition load_idt_entry :: "(nat \<Rightarrow> u64) \<Rightarrow> idt \<Rightarrow> nat \<Rightarrow> idt res" where
  "load_idt_entry isr_stub_table t i =
     bindE (set_idt_entry_simple t (of_nat i) (isr_stub_table i)) (\<lambda>t'. register_handler t' (int i) NULL)"

definition load_idt :: "(nat \<Rightarrow> u64) \<Rightarrow> idt \<Rightarrow> idt res" where
  "load_idt isr_stub_table t = foldE (load_idt_entry isr_stub_table) [0..<IDT_ENTRY_COUNT] t"

section \<open>Dispatch\<close>

record isr_stack_t =
  r15 :: u64
  r14 :: u64
  r13 :: u64
  r12 :: u64
  r11 :: u64
  r10 :: u64
  r9 :: u64
  r8 :: u64
  rbp :: u64
  rdi :: u64
  rsi :: u64
  rdx :: u64
  rcx :: u64
  rbx :: u64
  rax :: u64
  isr :: u64
  err :: u64
  rip :: u64
  cs :: u64
  rflags :: u64

text \<open>A handler gets the saved registers and the machine and returns both; \<open>eoi\<close> is \<^verbatim>\<open>lapic_send_eoi\<close>.\<close>

type_synonym 'm handlers = "ptr \<Rightarrow> isr_stack_t \<Rightarrow> 'm \<Rightarrow> (isr_stack_t \<times> 'm) run"

definition interrupt_handler :: "'m handlers \<Rightarrow> ('m \<Rightarrow> 'm) \<Rightarrow> idt \<Rightarrow> isr_stack_t \<Rightarrow> 'm \<Rightarrow> (isr_stack_t \<times> 'm) run" where
  "interrupt_handler call eoi t stack m =
     bindR (Some (readE (isr_handler_table t) (uint (isr stack)))) (\<lambda>h.
     bindR (Some (guardE NullDeref (h \<noteq> NULL))) (\<lambda>_.
     bindR (call h stack m) (\<lambda>(stack', m'). Some (Inr (stack', eoi m')))))"

definition exception_handler :: "'m handlers \<Rightarrow> ('m \<Rightarrow> 'm) \<Rightarrow> idt \<Rightarrow> isr_stack_t \<Rightarrow> 'm \<Rightarrow> (isr_stack_t \<times> 'm) run" where
  "exception_handler call eoi t stack m =
     (if isr stack \<ge> 32 then interrupt_handler call eoi t stack m
      else if isr stack = 2 then Some (Inr (stack, m))
      else Some (Inl Halted))"

section \<open>Lemmas\<close>

definition idt_wf :: "idt \<Rightarrow> bool" where
  "idt_wf t \<longleftrightarrow> length (entries t) = 256 \<and> length (isr_handler_table t) = 256"

text \<open>The masks of the descriptor code select low bits.\<close>

lemma and_masks:
  "x AND 0xFFFF = take_bit 16 (x :: 'a::len word)" "x AND 0xFF = take_bit 8 x" "x AND 0xF = take_bit 4 x"
  "x AND 0xFFFFFFFF = take_bit 32 x" "x AND 0xFFFFF = take_bit 20 x"
  by (simp_all add: take_bit_eq_mask mask_eq_exp_minus_1)

lemma and_high_nibble: "x AND 0xF0 = push_bit 4 (drop_bit 4 (x :: u8))"
proof -
  have "list_all (\<lambda>n. of_nat n AND 0xF0 = push_bit 4 (drop_bit 4 (of_nat n :: u8))) [0..<256]" by code_simp
  then show ?thesis by (rule u8_all[where P = "\<lambda>x. x AND 0xF0 = push_bit 4 (drop_bit 4 x)"])
qed

lemmas descriptor_bits = and_masks and_high_nibble bit_simps

lemma register_handler_iff:
  assumes "idt_wf t"
  shows "register_handler t v h =
     (if 0 \<le> v \<and> v < 256 then Inr (t\<lparr>isr_handler_table := (isr_handler_table t)[nat v := h]\<rparr>) else Inl OutOfBounds)"
  using assms by (simp add: register_handler_def writeE_def idt_wf_def)

text \<open>One round of the loop of \<^verbatim>\<open>load_idt\<close>, and what its first n rounds do.\<close>

lemma load_idt_entry_eq:
  assumes "idt_wf t" "i < 256"
  shows "load_idt_entry stub t i =
     Inr (t\<lparr>entries := (entries t)[i := idt_gate (stub i)], isr_handler_table := (isr_handler_table t)[i := NULL]\<rparr>)"
proof -
  have "uint (of_nat i :: u8) = int i" using assms(2) by (simp add: unsigned_of_nat take_bit_nat_eq_self)
  with assms show ?thesis
    by (simp add: load_idt_entry_def set_idt_entry_simple_def register_handler_def idt_wf_def)
qed

lemma load_idt_prefix:
  assumes "idt_wf t" "n \<le> 256"
  shows "\<exists>t'. foldE (load_idt_entry stub) [0..<n] t = Inr t' \<and> idt_wf t'
       \<and> (\<forall>i<n. entries t' ! i = idt_gate (stub i) \<and> isr_handler_table t' ! i = NULL)"
  using assms(2)
proof (induction n)
  case (Suc n)
  then obtain t1 where t1: "foldE (load_idt_entry stub) [0..<n] t = Inr t1" "idt_wf t1"
      "\<forall>i<n. entries t1 ! i = idt_gate (stub i) \<and> isr_handler_table t1 ! i = NULL" by auto
  have "n < 256" using Suc.prems by simp
  note e = load_idt_entry_eq[OF t1(2) this, of stub]
  from t1 \<open>n < 256\<close> show ?case
    by (simp add: foldE_append e) (auto simp: idt_wf_def nth_list_update less_Suc_eq)
qed (use assms(1) in simp)

lemma load_idt_fold: "load_idt stub t = foldE (load_idt_entry stub) [0..<256] t"
  by (simp only: load_idt_def IDT_ENTRY_COUNT_def)

lemma descriptor_fields:
  shows "long_base (gdt_set_long_gate base limit access flags) = base"
    and "long_limit (gdt_set_long_gate base limit access flags) = limit AND 0xFFFFF"
    and "seg_base (gdt_set_gate b l access flags) = b"
    and "seg_limit (gdt_set_gate b l access flags) = l AND 0xFFFFF"
    and "idt_offset (idt_gate handler) = handler"
proof -
  show "long_base (gdt_set_long_gate base limit access flags) = base"
  proof (rule bit_word_eqI)
    fix n
    assume "n < LENGTH(64)"
    then show "bit (long_base (gdt_set_long_gate base limit access flags)) n \<longleftrightarrow> bit base n"
      by (cases "n < 24"; cases "n < 32") (auto simp: long_base_def gdt_set_long_gate_def descriptor_bits)
  qed
  show "long_limit (gdt_set_long_gate base limit access flags) = limit AND 0xFFFFF"
    by (rule bit_word_eqI) (auto simp: long_limit_def gdt_set_long_gate_def descriptor_bits)
  show "seg_base (gdt_set_gate b l access flags) = b"
  proof (rule bit_word_eqI)
    fix n
    assume "n < LENGTH(32)"
    then show "bit (seg_base (gdt_set_gate b l access flags)) n \<longleftrightarrow> bit b n"
      by (cases "n < 24") (auto simp: seg_base_def gdt_set_gate_def descriptor_bits)
  qed
  show "seg_limit (gdt_set_gate b l access flags) = l AND 0xFFFFF"
    by (rule bit_word_eqI) (auto simp: seg_limit_def gdt_set_gate_def descriptor_bits)
  show "idt_offset (idt_gate handler) = handler"
  proof (rule bit_word_eqI)
    fix n
    assume "n < LENGTH(64)"
    then show "bit (idt_offset (idt_gate handler)) n \<longleftrightarrow> bit handler n"
      by (cases "n < 32") (auto simp: idt_offset_def idt_gate_def descriptor_bits)
  qed
qed

section \<open>Properties\<close>

text \<open>Descriptor layout: the processor reads back from a system segment descriptor the 64-bit base, and
  from a code or data descriptor the 32-bit base, that were put in, and the low 20 bits of the limit; from an
  interrupt gate it reads back the whole handler address.\<close>

theorem descriptor_roundtrip:
  "long_base (gdt_set_long_gate base limit access flags) = base \<and>
   long_limit (gdt_set_long_gate base limit access flags) = limit AND 0xFFFFF \<and>
   seg_base (gdt_set_gate b l access flags) = b \<and>
   seg_limit (gdt_set_gate b l access flags) = l AND 0xFFFFF \<and>
   idt_offset (idt_gate handler) = handler"
  by (intro conjI descriptor_fields)



text \<open>(C17) Interrupt dispatch after boot: once \<^verbatim>\<open>load_idt\<close> has run, every vector's gate leads to its stub; with
  one handler h registered for a vector v between 32 and 255, an interrupt on v runs h on the saved registers
  and then signals the end of the interrupt, an interrupt on any other vector from 32 calls a null handler,
  and an exception other than the NMI halts the machine.\<close>

theorem interrupt_dispatch:
  assumes "idt_wf t" "32 \<le> v" "v < 256" "h \<noteq> NULL"
  shows "\<exists>t'. bindE (load_idt stub t) (\<lambda>t0. register_handler t0 (int v) h) = Inr t' \<and>
     (\<forall>i<256. idt_offset (entries t' ! i) = stub i) \<and>
     (\<forall>st. exception_handler call eoi t' st m =
        (if isr st = 2 then Some (Inr (st, m)) else if isr st < 32 then Some (Inl Halted)
         else if isr st = of_nat v then bindR (call h st m) (\<lambda>(st', m'). Some (Inr (st', eoi m')))
         else if isr st < 256 then Some (Inl NullDeref) else Some (Inl OutOfBounds)))"
proof -
  from load_idt_prefix[OF assms(1) order_refl, of stub] obtain t0 where t0: "load_idt stub t = Inr t0" "idt_wf t0"
    "\<And>i. i < 256 \<Longrightarrow> entries t0 ! i = idt_gate (stub i)" "\<And>i. i < 256 \<Longrightarrow> isr_handler_table t0 ! i = NULL"
    unfolding load_idt_fold by blast
  define t' where "t' = t0\<lparr>isr_handler_table := (isr_handler_table t0)[v := h]\<rparr>"
  have len: "length (isr_handler_table t0) = 256" using t0(2) by (simp add: idt_wf_def)
  have run: "bindE (load_idt stub t) (\<lambda>t0. register_handler t0 (int v) h) = Inr t'"
    using assms(3) by (simp add: t0(1) register_handler_iff[OF t0(2)] t'_def)
  have gates: "idt_offset (entries t' ! i) = stub i" if "i < 256" for i
    using descriptor_fields(5)[of "stub i"] t0(3)[OF that] by (simp add: t'_def)
  have "exception_handler call eoi t' st m =
        (if isr st = 2 then Some (Inr (st, m)) else if isr st < 32 then Some (Inl Halted)
         else if isr st = of_nat v then bindR (call h st m) (\<lambda>(st', m'). Some (Inr (st', eoi m')))
         else if isr st < 256 then Some (Inl NullDeref) else Some (Inl OutOfBounds))" for st
  proof -
    have v: "unat (of_nat v :: u64) = v" using assms(3) by (simp add: unsigned_of_nat take_bit_nat_eq_self)
    have lt: "isr st < 256 \<longleftrightarrow> unat (isr st) < 256" "isr st < 32 \<longleftrightarrow> unat (isr st) < 32" by (simp_all add: word_less_nat_alt)
    have eq: "isr st = of_nat v \<longleftrightarrow> unat (isr st) = v" using v by (simp add: word_unat_eq_iff)
    have u: "uint (isr st) < 256 \<longleftrightarrow> unat (isr st) < 256" unfolding uint_nat by linarith
    have rd: "readE (isr_handler_table t') (uint (isr st)) =
        (if unat (isr st) < 256 then Inr (if unat (isr st) = v then h else NULL) else Inl OutOfBounds)"
      using t0(4)[of "unat (isr st)"] len by (simp add: readE_def t'_def nth_list_update u)
    show ?thesis
      using assms(2-4) unfolding exception_handler_def interrupt_handler_def rd
      by (auto simp: lt eq not_less[symmetric] guardE_def)
  qed
  with run gates show ?thesis by blast
qed

theorem interrupt_dispatch_witness:
  "\<exists>t'. bindE (load_idt (\<lambda>i. 0x1000 + 16 * of_nat i)
         \<lparr>entries = replicate 256 (idt_gate 0), isr_handler_table = replicate 256 7\<rparr>)
       (\<lambda>t0. register_handler t0 33 0x5000) = Inr t' \<and>
     (\<forall>st. isr st = 33 \<longrightarrow> exception_handler (\<lambda>h st n. Some (Inr (st\<lparr>rax := h\<rparr>, n + 1))) (\<lambda>n. n * 10) t' st (1 :: nat)
        = Some (Inr (st\<lparr>rax := 0x5000\<rparr>, 20)))"
proof -
  have "idt_wf \<lparr>entries = replicate 256 (idt_gate 0), isr_handler_table = replicate 256 7\<rparr>" by (simp add: idt_wf_def)
  from interrupt_dispatch[OF this, where v = 33 and h = "0x5000" and stub = "\<lambda>i. 0x1000 + 16 * of_nat i"
      and call = "\<lambda>h st n. Some (Inr (st\<lparr>rax := h\<rparr>, n + 1))" and eoi = "\<lambda>n. n * 10" and m = "1 :: nat"]
  show ?thesis by auto
qed

end
