(* ===== verification/Task.thy ===== *)
theory Task
  imports Queue Interrupts
begin

text \<open>
  The round-robin scheduler of \<^verbatim>\<open>lethe-kernel/cpu/task.c\<close> over the queues of theory Queue and the register
  frames of theory Interrupts. Task and context blocks live in two maps from addresses to records: an address
  the map does not hold is not an allocated block. The addresses that \<^verbatim>\<open>kmalloc\<close> returns, the contents a fresh
  context block happens to have, and the addresses of the functions a context starts at are arguments. The
  register frame an interrupt pushes is a value of its own: it is on the interrupted stack and no task's
  context block.
\<close>

section \<open>State\<close>

record task_t =
  ctx :: ptr
  task_id :: int
  deadline :: u64

record sched =
  current :: ptr
  kernel :: ptr
  TASK_COUNT :: int
  LIVE_QUEUE :: "queue_t option"
  IDLE_QUEUE :: "queue_t option"
  task_at :: "ptr \<Rightarrow> task_t option"
  ctx_at :: "ptr \<Rightarrow> isr_stack_t option"

text \<open>Following a pointer to an allocated block.\<close>

definition deref :: "(ptr \<Rightarrow> 'a option) \<Rightarrow> ptr \<Rightarrow> 'a res" where
  "deref h p = (if p = NULL then Inl NullDeref else case h p of None \<Rightarrow> Inl OutOfBounds | Some x \<Rightarrow> Inr x)"

definition queue_of :: "queue_t option \<Rightarrow> queue_t res" where
  "queue_of q = (case q of None \<Rightarrow> Inl NullDeref | Some q' \<Rightarrow> Inr q')"

section \<open>Operations\<close>

definition get_task_id :: "sched \<Rightarrow> int res" where
  "get_task_id s = bindE (deref (task_at s) (current s)) (\<lambda>t. Inr (task_id t))"

definition copy_ctx :: "isr_stack_t \<Rightarrow> isr_stack_t \<Rightarrow> isr_stack_t" where
  "copy_ctx dest src = dest\<lparr>r15 := r15 src, r14 := r14 src, r13 := r13 src, r12 := r12 src, r11 := r11 src,
     r10 := r10 src, r9 := r9 src, r8 := r8 src, rbp := rbp src, rdi := rdi src, rsi := rsi src, rdx := rdx src,
     rcx := rcx src, rbx := rbx src, rax := rax src, isr := isr src, err := err src, rip := rip src,
     cs := cs src, rflags := rflags src\<rparr>"

text \<open>The kernel task: \<open>pt\<close> and \<open>pc\<close> are the blocks \<^verbatim>\<open>kmalloc\<close> returns, \<open>junk\<close> what the second one holds.\<close>

definition init_tasks :: "(nat \<Rightarrow> bool) \<Rightarrow> ptr \<Rightarrow> u64 \<Rightarrow> ptr \<Rightarrow> ptr \<Rightarrow> isr_stack_t \<Rightarrow> idt \<times> sched \<Rightarrow> (idt \<times> sched) res" where
  "init_tasks alloc_ok task_switch_isr idle pt pc junk ts =
     bindE (register_handler (fst ts) 128 task_switch_isr) (\<lambda>t.
     bindE (new_queue alloc_ok) (\<lambda>live.
     bindE (new_queue alloc_ok) (\<lambda>idleq.
     bindE (guardE NullDeref (pt \<noteq> NULL \<and> pc \<noteq> NULL)) (\<lambda>_.
     let c = junk\<lparr>rip := idle, rflags := 0x202, isr := 2, err := 0, cs := 0x08\<rparr>;
         k = \<lparr>ctx = pc, task_id = 0, deadline = 0\<rparr>;
         s = snd ts
     in Inr (t, s\<lparr>LIVE_QUEUE := Some live, IDLE_QUEUE := Some idleq, TASK_COUNT := 1, kernel := pt, current := pt,
           task_at := (task_at s)(pt \<mapsto> k), ctx_at := (ctx_at s)(pc \<mapsto> c)\<rparr>)))))"

definition switch_task :: "(nat \<Rightarrow> bool) \<Rightarrow> isr_stack_t \<Rightarrow> sched \<Rightarrow> (isr_stack_t \<times> sched) run" where
  "switch_task alloc_ok st s =
     bindR (Some (deref (task_at s) (current s))) (\<lambda>old.
     bindR (Some (deref (ctx_at s) (ctx old))) (\<lambda>c.
     let s1 = s\<lparr>ctx_at := (ctx_at s)(ctx old \<mapsto> copy_ctx c st)\<rparr> in
     bindR (Some (queue_of (LIVE_QUEUE s1))) (\<lambda>q.
     bindR (pop_queue q) (\<lambda>(p, q1).
     bindR (Some (push_queue alloc_ok q1 (current s1))) (\<lambda>q2.
     bindR (Some (deref (task_at s1) p)) (\<lambda>new.
     bindR (Some (deref (ctx_at s1) (ctx new))) (\<lambda>c'.
     Some (Inr (copy_ctx st c', s1\<lparr>current := p, LIVE_QUEUE := Some q2\<rparr>)))))))))"

definition task_switch_isr :: "(nat \<Rightarrow> bool) \<Rightarrow> isr_stack_t \<Rightarrow> sched \<Rightarrow> (isr_stack_t \<times> sched) run" where
  "task_switch_isr alloc_ok st s = switch_task alloc_ok st s"

text \<open>The loop of \<^verbatim>\<open>remove_task\<close> over the cell indices that are left.\<close>

fun remove_loop :: "(ptr \<Rightarrow> task_t option) \<Rightarrow> int \<Rightarrow> nat list \<Rightarrow> queue_t \<Rightarrow> (ptr \<times> queue_t) res" where
  "remove_loop h tid [] q = Inr (NULL, q)"
| "remove_loop h tid (i # is) q =
     bindE (read_cell q (int i)) (\<lambda>p.
     bindE (deref h p) (\<lambda>t.
     if task_id t \<noteq> tid then remove_loop h tid is q
     else Inr (p, q\<lparr>inner := (inner q)[i := Some NULL]\<rparr>)))"

definition remove_task :: "(ptr \<Rightarrow> task_t option) \<Rightarrow> queue_t option \<Rightarrow> int \<Rightarrow> (ptr \<times> queue_t option) res" where
  "remove_task h queue tid =
     (if tid = 0 then Inr (NULL, queue)
      else bindE (queue_of queue) (\<lambda>q.
           bindE (remove_loop h tid [0..<nat (capacity q)] q) (\<lambda>(p, q'). Inr (p, Some q'))))"

definition signal_idle :: "(nat \<Rightarrow> bool) \<Rightarrow> u64 \<Rightarrow> sched \<Rightarrow> sched res" where
  "signal_idle alloc_ok dl s =
     bindE (get_task_id s) (\<lambda>tid.
     bindE (remove_task (task_at s) (LIVE_QUEUE s) tid) (\<lambda>(self, live).
     let s1 = s\<lparr>LIVE_QUEUE := live\<rparr> in
     if self = NULL then Inr s1
     else bindE (deref (task_at s1) self) (\<lambda>t.
          let s2 = s1\<lparr>task_at := (task_at s1)(self \<mapsto> t\<lparr>deadline := dl\<rparr>)\<rparr> in
          bindE (queue_of (IDLE_QUEUE s2)) (\<lambda>iq.
          bindE (push_queue alloc_ok iq self) (\<lambda>iq'. Inr (s2\<lparr>IDLE_QUEUE := Some iq'\<rparr>))))))"

definition signal_live :: "sched \<Rightarrow> sched res" where
  "signal_live s = Inl Abort"

text \<open>The body of a task: the task function is the argument \<open>fn\<close>, applied to its data already.\<close>

definition task_wrapper :: "int \<Rightarrow> (sched \<Rightarrow> sched res) \<Rightarrow> sched \<Rightarrow> sched res" where
  "task_wrapper tid fn s0 =
     bindE (fn s0) (\<lambda>s.
     bindE (remove_task (task_at s) (LIVE_QUEUE s) tid) (\<lambda>(self, live).
     let s1 = s\<lparr>LIVE_QUEUE := live\<rparr> in
     if self = NULL then Inr s1
     else bindE (deref (task_at s1) self) (\<lambda>t.
          Inr (s1\<lparr>ctx_at := (ctx_at s1)(ctx t := None), task_at := (task_at s1)(self := None)\<rparr>))))"

definition create_task :: "(nat \<Rightarrow> bool) \<Rightarrow> u64 \<Rightarrow> ptr \<Rightarrow> ptr \<Rightarrow> isr_stack_t \<Rightarrow> u64 \<Rightarrow> u64 \<Rightarrow> sched \<Rightarrow> sched res" where
  "create_task alloc_ok wrapper pt pc junk fn_addr data s =
     bindE (guardE NullDeref (pt \<noteq> NULL)) (\<lambda>_.
     bindE (guardE SignedOverflow (TASK_COUNT s < INT_MAX)) (\<lambda>_.
     bindE (guardE NullDeref (pc \<noteq> NULL)) (\<lambda>_.
     let tid = TASK_COUNT s;
         c = junk\<lparr>rdi := word_of_int tid, rsi := fn_addr, rdx := data, rip := wrapper, rflags := 0x202, isr := 2,
               err := 0, cs := 0x08\<rparr>;
         s1 = s\<lparr>TASK_COUNT := tid + 1, task_at := (task_at s)(pt \<mapsto> \<lparr>ctx = pc, task_id = tid, deadline = 0\<rparr>),
               ctx_at := (ctx_at s)(pc \<mapsto> c)\<rparr>
     in bindE (queue_of (LIVE_QUEUE s1)) (\<lambda>q.
        bindE (push_queue alloc_ok q pt) (\<lambda>q'. Inr (s1\<lparr>LIVE_QUEUE := Some q'\<rparr>))))))"

text \<open>
  The software interrupt of \<^verbatim>\<open>task_loop\<close>, through the dispatch of theory Interrupts, with \<open>h\<close> the address of
  \<^verbatim>\<open>task_switch_isr\<close> and \<open>other\<close> all other handlers. The machine is the scheduler beside the rest, on which
  the end of interrupt acts.
\<close>

definition int_128 ::
  "(nat \<Rightarrow> bool) \<Rightarrow> ptr \<Rightarrow> (sched \<times> 'l) handlers \<Rightarrow> ('l \<Rightarrow> 'l) \<Rightarrow> idt \<Rightarrow> isr_stack_t \<Rightarrow> sched \<times> 'l \<Rightarrow> (isr_stack_t \<times> sched \<times> 'l) run"
where
  "int_128 alloc_ok h other eoi t st m =
     exception_handler
       (\<lambda>p st (s, l). if p = h then bindR (task_switch_isr alloc_ok st s) (\<lambda>(st', s'). Some (Inr (st', s', l)))
                     else other p st (s, l))
       (\<lambda>(s, l). (s, eoi l)) t (st\<lparr>isr := 128\<rparr>) m"

section \<open>Invariant and abstraction\<close>

definition ctx_of :: "sched \<Rightarrow> ptr \<Rightarrow> ptr" where
  "ctx_of s p = (case task_at s p of None \<Rightarrow> NULL | Some t \<Rightarrow> ctx t)"

definition saved :: "sched \<Rightarrow> ptr \<Rightarrow> isr_stack_t" where
  "saved s p = the (ctx_at s (ctx_of s p))"

definition waiting :: "sched \<Rightarrow> ptr list" where
  "waiting s = (case LIVE_QUEUE s of None \<Rightarrow> [] | Some q \<Rightarrow> contents q)"

definition valid_task :: "sched \<Rightarrow> ptr \<Rightarrow> bool" where
  "valid_task s p \<longleftrightarrow> p \<noteq> NULL \<and> task_at s p \<noteq> None \<and> ctx_of s p \<noteq> NULL \<and> ctx_at s (ctx_of s p) \<noteq> None"

text \<open>The running task and the waiting ones are allocated and have context blocks of their own.\<close>

definition sched_wf :: "sched \<Rightarrow> bool" where
  "sched_wf s \<longleftrightarrow> (case LIVE_QUEUE s of None \<Rightarrow> False | Some q \<Rightarrow> fixed_wf q)
     \<and> list_all (valid_task s) (current s # waiting s) \<and> distinct (map (ctx_of s) (current s # waiting s))"

text \<open>Abstract scheduler: the running task and the waiting ones with their saved registers, at most one of them.\<close>

type_synonym abs_sched = "ptr \<times> (ptr \<times> isr_stack_t) list"

definition abs_of :: "sched \<Rightarrow> abs_sched" where
  "abs_of s = (current s, map (\<lambda>p. (p, saved s p)) (waiting s))"

fun abs_switch :: "isr_stack_t \<Rightarrow> abs_sched \<Rightarrow> (isr_stack_t \<times> abs_sched) option" where
  "abs_switch st (c, []) = None"
| "abs_switch st (c, (p, r) # ws) = Some (r, (p, take 1 (ws @ [(c, st)])))"

section \<open>Lemmas\<close>

lemma copy_ctx_eq [simp]: "copy_ctx d c = c"
  by (simp add: copy_ctx_def)

lemma deref_valid:
  assumes "valid_task s p"
  obtains t c where "task_at s p = Some t" "deref (task_at s) p = Inr t" "ctx_of s p = ctx t"
    "deref (ctx_at s) (ctx t) = Inr c" "saved s p = c" "ctx_at s (ctx t) = Some c"
  using assms by (auto simp: valid_task_def deref_def ctx_of_def saved_def split: option.splits)

text \<open>The laws of the bounded queue, as the scheduler uses them.\<close>

lemma switch_queue:
  assumes "fixed_wf q" "contents q = [p]" "p \<noteq> NULL"
  obtains q1 q2 where "pop_queue q = Some (Inr (p, q1))" "push_queue alloc_ok q1 x = Inr q2" "fixed_wf q2" "contents q2 = [x]"
proof -
  from fixedq.pop_law[OF assms(1)] assms(2,3) obtain q1
    where q1: "pop_queue q = Some (Inr (p, q1))" "fixed_wf q1" "contents q1 = []" by auto
  from fixedq.push_law[OF q1(2), of alloc_ok x] q1(3) obtain q2
    where "push_queue alloc_ok q1 x = Inr q2" "fixed_wf q2" "contents q2 = [x]" by auto
  with q1(1) that show ?thesis by blast
qed

lemma waiting_cases:
  assumes "sched_wf s"
  obtains q where "LIVE_QUEUE s = Some q" "fixed_wf q" "contents q = []" "waiting s = []"
  | q p where "LIVE_QUEUE s = Some q" "fixed_wf q" "contents q = [p]" "waiting s = [p]"
      "valid_task s p" "ctx_of s p \<noteq> ctx_of s (current s)"
proof (cases "LIVE_QUEUE s")
  case None
  then show ?thesis using assms by (simp add: sched_wf_def)
next
  case (Some q)
  with assms have q: "fixed_wf q" "waiting s = contents q" by (simp_all add: sched_wf_def waiting_def)
  with fixedq.elems_bound[OF q(1)] have "length (contents q) \<le> 1" by simp
  then have "contents q = [] \<or> (\<exists>p. contents q = [p])" by (cases "contents q") auto
  then show ?thesis using Some q that assms by (auto simp: sched_wf_def)
qed

lemma switch_alone:
  assumes "sched_wf s" "waiting s = []"
  shows "switch_task alloc_ok st s = Some (Inl NullDeref)"
  using assms(1)
proof (cases rule: waiting_cases)
  case (1 q)
  have "valid_task s (current s)" using assms(1) by (simp add: sched_wf_def)
  then obtain t c where t: "deref (task_at s) (current s) = Inr t" "deref (ctx_at s) (ctx t) = Inr c" by (rule deref_valid)
  from fixedq.pop_law[OF 1(2)] 1(3) obtain q1 where q1: "pop_queue q = Some (Inr (NULL, q1))" "fixed_wf q1" by auto
  from fixedq.push_law[OF q1(2), of alloc_ok "current s"] obtain q2 where "push_queue alloc_ok q1 (current s) = Inr q2" by blast
  with t q1 1 show ?thesis by (simp add: switch_task_def Let_def queue_of_def) (simp add: deref_def)
qed (use assms in simp)

text \<open>With a task waiting, the two change places.\<close>

lemma switch_to_waiting:
  assumes "sched_wf s" "waiting s = [p]"
  shows "\<exists>s'. switch_task alloc_ok st s = Some (Inr (saved s p, s')) \<and> sched_wf s' \<and> current s' = p
     \<and> waiting s' = [current s] \<and> saved s' (current s) = st \<and> saved s' p = saved s p
     \<and> task_at s' = task_at s \<and> TASK_COUNT s' = TASK_COUNT s"
  using assms(1)
proof (cases rule: waiting_cases)
  case (2 q p')
  with assms(2) have [simp]: "p' = p" by simp
  have "valid_task s (current s)" using assms(1) by (simp add: sched_wf_def)
  then obtain t c where t: "task_at s (current s) = Some t" "deref (task_at s) (current s) = Inr t"
    "ctx_of s (current s) = ctx t" "deref (ctx_at s) (ctx t) = Inr c" by (rule deref_valid) auto
  from 2(5) obtain u d where u: "deref (task_at s) p = Inr u" "ctx_of s p = ctx u" "deref (ctx_at s) (ctx u) = Inr d"
    "saved s p = d" "ctx_at s (ctx u) = Some d" "task_at s p = Some u" by (auto elim: deref_valid)
  have "p \<noteq> NULL" using 2(5) by (simp add: valid_task_def)
  from switch_queue[OF 2(2) 2(3), of alloc_ok "current s"] this obtain q1 q2 where q: "pop_queue q = Some (Inr (p, q1))"
    "push_queue alloc_ok q1 (current s) = Inr q2" "fixed_wf q2" "contents q2 = [current s]" by auto
  define s' where "s' = s\<lparr>ctx_at := (ctx_at s)(ctx t \<mapsto> st), current := p, LIVE_QUEUE := Some q2\<rparr>"
  have ne: "ctx u \<noteq> ctx t" using 2(6) t(3) u(2) by simp
  have nn: "ctx u \<noteq> NULL" "ctx t \<noteq> NULL" "current s \<noteq> NULL"
    using 2(5) \<open>valid_task s (current s)\<close> u(2) t(3) by (auto simp: valid_task_def)
  have "deref ((ctx_at s)(ctx t \<mapsto> st)) (ctx u) = Inr d" using u(5) ne nn by (simp add: deref_def)
  with t u q 2(1) have "switch_task alloc_ok st s = Some (Inr (saved s p, s'))"
    by (simp add: switch_task_def Let_def queue_of_def s'_def)
  moreover have c: "ctx_of s' = ctx_of s" by (simp add: ctx_of_def s'_def fun_eq_iff)
  moreover have w: "waiting s' = [current s]" by (simp add: waiting_def s'_def q)
  moreover have "saved s' (current s) = st" "saved s' p = saved s p"
    using ne t(3) u by (simp_all add: saved_def c) (simp_all add: s'_def)
  moreover have "sched_wf s'"
    using nn ne t(1,3) u(2,5,6) \<open>p \<noteq> NULL\<close> q(3) unfolding sched_wf_def w c
    by (simp add: valid_task_def c) (simp add: s'_def)
  ultimately show ?thesis by (auto simp: s'_def)
qed (use assms in simp)

text \<open>Every state the kernel brings the scheduler to, as long as no task ends or idles: \<^verbatim>\<open>kmalloc\<close> returns blocks
  that are not in use.\<close>

inductive sched_reach :: "sched \<Rightarrow> bool" where
  init: "init_tasks (\<lambda>_. True) h idle pt pc junk (t, s) = Inr (t', s') \<Longrightarrow> sched_reach s'"
| create: "sched_reach s \<Longrightarrow> task_at s pt = None \<Longrightarrow> ctx_at s pc = None \<Longrightarrow>
    create_task alloc_ok w pt pc junk f d s = Inr s' \<Longrightarrow> sched_reach s'"
| switch: "sched_reach s \<Longrightarrow> switch_task alloc_ok st s = Some (Inr (st', s')) \<Longrightarrow> sched_reach s'"

definition id_of :: "sched \<Rightarrow> ptr \<Rightarrow> int" where
  "id_of s p = (case task_at s p of None \<Rightarrow> 0 | Some t \<Rightarrow> task_id t)"

definition first_two :: "sched \<Rightarrow> bool" where
  "first_two s \<longleftrightarrow> sched_wf s \<and>
     (if waiting s = [] then TASK_COUNT s = 1 \<and> id_of s (current s) = 0
      else id_of s (current s) \<in> {0, 1} \<and> list_all (\<lambda>p. id_of s p \<in> {0, 1}) (waiting s))"

lemma new_queue_ok:
  "\<exists>q. new_queue (\<lambda>_. True) = Inr q \<and> fixed_wf q \<and> contents q = []"
  using new_queue_fixed[of "\<lambda>_. True"] by (auto simp: new_queue_def)

lemma init_tasks_first_two:
  assumes "init_tasks (\<lambda>_. True) h idle pt pc junk (t, s) = Inr (t', s')"
  shows "first_two s'"
proof -
  obtain q where q: "new_queue (\<lambda>_. True) = Inr q" "fixed_wf q" "contents q = []" using new_queue_ok by blast
  with assms show ?thesis
    by (auto simp: init_tasks_def res_iff Let_def first_two_def sched_wf_def waiting_def valid_task_def ctx_of_def id_of_def)
qed

text \<open>A task that is added leaves the running and the waiting one alone; it waits only if nobody did.\<close>

lemma create_task_wf:
  assumes "sched_wf s" "task_at s pt = None" "ctx_at s pc = None" "create_task alloc_ok w pt pc junk f d s = Inr s'"
  shows "sched_wf s' \<and> current s' = current s \<and> TASK_COUNT s' = TASK_COUNT s + 1
     \<and> waiting s' = (if waiting s = [] then [pt] else waiting s)
     \<and> task_at s' = (task_at s)(pt \<mapsto> \<lparr>ctx = pc, task_id = TASK_COUNT s, deadline = 0\<rparr>)"
proof -
  obtain q where q: "LIVE_QUEUE s = Some q" "fixed_wf q" "waiting s = contents q"
    using assms(1) by (auto simp: sched_wf_def waiting_def split: option.splits)
  have "used q = 0 \<longleftrightarrow> contents q = []" by (simp add: contents_def)
  with fixedq.push_law[OF q(2), of alloc_ok pt] obtain q' where q': "push_queue alloc_ok q pt = Inr q'" "fixed_wf q'"
    "contents q' = (if contents q = [] then [pt] else contents q)" by (auto split: if_splits)
  have nn: "pt \<noteq> NULL" "pc \<noteq> NULL" and s': "LIVE_QUEUE s' = Some q'" "current s' = current s" "TASK_COUNT s' = TASK_COUNT s + 1"
    "task_at s' = (task_at s)(pt \<mapsto> \<lparr>ctx = pc, task_id = TASK_COUNT s, deadline = 0\<rparr>)"
    "\<exists>c. ctx_at s' = (ctx_at s)(pc \<mapsto> c)"
    using assms(4) q(1) q'(1) by (auto simp: create_task_def Let_def queue_of_def res_iff)
  have old: "valid_task s' p \<and> ctx_of s' p = ctx_of s p \<and> p \<noteq> pt \<and> ctx_of s p \<noteq> pc" if "valid_task s p" for p
    using that assms(2,3) s'(4,5) by (auto simp: valid_task_def ctx_of_def split: option.splits)
  have new: "valid_task s' pt" "ctx_of s' pt = pc" using nn s'(4,5) by (auto simp: valid_task_def ctx_of_def)
  have w: "waiting s' = (if waiting s = [] then [pt] else waiting s)" using q'(3) q(3) by (simp add: waiting_def s'(1))
  have cur: "valid_task s (current s)" using assms(1) by (simp add: sched_wf_def)
  have "sched_wf s'"
  proof (cases "waiting s = []")
    case True
    then show ?thesis using old[OF cur] new q'(2) w s'(1,2) by (simp add: sched_wf_def)
  next
    case False
    have "list_all (valid_task s) (current s # waiting s)" using assms(1) by (simp add: sched_wf_def)
    then have "list_all (valid_task s') (current s # waiting s)"
      and "map (ctx_of s') (current s # waiting s) = map (ctx_of s) (current s # waiting s)"
      using old by (auto simp: list_all_iff)
    with False q'(2) assms(1) show ?thesis
      unfolding sched_wf_def by (simp only: w s'(1,2) if_False option.case simp_thms)
  qed
  with w s' show ?thesis by simp
qed

lemma sched_reach_first_two: "sched_reach s \<Longrightarrow> first_two s"
proof (induction rule: sched_reach.induct)
  case (create s pt pc alloc_ok w junk f d s')
  then have wf: "sched_wf s" by (simp add: first_two_def)
  note c = create_task_wf[OF wf create.hyps(2-4)]
  have cur: "current s \<noteq> pt" "list_all (\<lambda>p. p \<noteq> pt) (waiting s)"
    using wf create.hyps(2) by (auto simp: sched_wf_def valid_task_def list_all_iff)
  then have "id_of s' (current s) = id_of s (current s)" "list_all (\<lambda>p. id_of s' p = id_of s p) (waiting s)"
    "id_of s' pt = TASK_COUNT s"
    using c by (auto simp: id_of_def list_all_iff)
  with c create.IH show ?case by (auto simp: first_two_def list_all_iff split: if_splits)
next
  case (switch s alloc_ok st st' s')
  then have wf: "sched_wf s" by (simp add: first_two_def)
  then show ?case
  proof (cases rule: waiting_cases)
    case (1 q)
    then show ?thesis using switch_alone[OF wf, of alloc_ok st] switch.hyps(2) by simp
  next
    case (2 q p)
    from switch_to_waiting[OF wf 2(4), of alloc_ok st] switch.hyps(2) 2(4) switch.IH show ?thesis
      by (auto simp: first_two_def id_of_def)
  qed
qed (rule init_tasks_first_two)

text \<open>Boot, one created task, one switch: the state in which the first task starts to run.\<close>

definition fresh_queue :: queue_t where
  "fresh_queue = \<lparr>inner = replicate 10 None, head = 0, tail = 0, capacity = 10, resizable = False\<rparr>"

lemma new_queue_fresh: "new_queue (\<lambda>_. True) = Inr fresh_queue"
  by (simp add: new_queue_def fresh_queue_def TASK_QUEUE_SIZE_def)

definition first_run :: "(nat \<Rightarrow> bool) \<Rightarrow> u64 \<Rightarrow> (ptr \<times> ptr \<times> isr_stack_t) \<Rightarrow> (ptr \<times> ptr \<times> isr_stack_t) \<Rightarrow> u64 \<Rightarrow> u64 \<Rightarrow> isr_stack_t
    \<Rightarrow> idt \<times> sched \<Rightarrow> (isr_stack_t \<times> sched) run" where
  "first_run alloc_ok w = (\<lambda>(pk, ck, jk) (pt, pc, jt) f d st ts.
     bindR (Some (init_tasks (\<lambda>_. True) 1 2 pk ck jk ts)) (\<lambda>(t, s1).
     bindR (Some (create_task alloc_ok w pt pc jt f d s1)) (\<lambda>s2.
     switch_task alloc_ok st s2)))"

lemma first_run_state:
  assumes "idt_wf (fst ts)" "distinct [NULL, pk, pt]" "distinct [NULL, ck, pc]"
  shows "\<exists>regs s. first_run alloc_ok w (pk, ck, jk) (pt, pc, jt) f d st ts = Some (Inr (regs, s))
     \<and> rip regs = w \<and> rdi regs = 1 \<and> rsi regs = f \<and> rdx regs = d
     \<and> current s = pt \<and> LIVE_QUEUE s = Some (fresh_queue\<lparr>inner := Some pt # Some pk # replicate 8 None, head := 1, tail := 2\<rparr>)
     \<and> IDLE_QUEUE s = Some fresh_queue
     \<and> task_at s pk = Some \<lparr>ctx = ck, task_id = 0, deadline = 0\<rparr> \<and> task_at s pt = Some \<lparr>ctx = pc, task_id = 1, deadline = 0\<rparr>
     \<and> ctx_at s ck = Some st \<and> ctx_at s pc \<noteq> None"
proof -
  have ten: "replicate 10 None = None # None # replicate 8 (None :: ptr option)" by (simp add: eval_nat_numeral)
  have "push_queue alloc_ok fresh_queue pt = Inr (fresh_queue\<lparr>inner := Some pt # None # replicate 8 None, tail := 1\<rparr>)"
    by (simp add: push_queue_def store_tail_def fresh_queue_def ten)
  moreover have "pop_queue (fresh_queue\<lparr>inner := Some pt # None # replicate 8 None, tail := 1\<rparr>) =
      Some (Inr (pt, fresh_queue\<lparr>inner := Some pt # None # replicate 8 None, head := 1, tail := 1\<rparr>))"
    using assms(2) by (subst pop_queue.simps) (simp add: read_cell_def fresh_queue_def)
  moreover have "push_queue alloc_ok (fresh_queue\<lparr>inner := Some pt # None # replicate 8 None, head := 1, tail := 1\<rparr>) pk =
      Inr (fresh_queue\<lparr>inner := Some pt # Some pk # replicate 8 None, head := 1, tail := 2\<rparr>)"
    by (simp add: push_queue_def store_tail_def fresh_queue_def)
  ultimately show ?thesis
    using assms
    by (simp add: first_run_def init_tasks_def register_handler_iff new_queue_fresh create_task_def switch_task_def
        Let_def queue_of_def deref_def INT_MAX_def) blast
qed

text \<open>Example states.\<close>

definition blank_frame :: isr_stack_t where
  "blank_frame = \<lparr>r15 = 0, r14 = 0, r13 = 0, r12 = 0, r11 = 0, r10 = 0, r9 = 0, r8 = 0, rbp = 0, rdi = 0, rsi = 0, rdx = 0,
     rcx = 0, rbx = 0, rax = 0, isr = 0, err = 0, rip = 0, cs = 0, rflags = 0\<rparr>"

definition no_sched :: sched where
  "no_sched = \<lparr>current = NULL, kernel = NULL, TASK_COUNT = 0, LIVE_QUEUE = None, IDLE_QUEUE = None,
     task_at = (\<lambda>_. None), ctx_at = (\<lambda>_. None)\<rparr>"

definition two_tasks :: sched where
  "two_tasks = no_sched\<lparr>current := 16, kernel := 16, TASK_COUNT := 2,
     LIVE_QUEUE := Some \<lparr>inner = [Some 32, None], head = 0, tail = 1, capacity = 2, resizable = False\<rparr>,
     task_at := [16 \<mapsto> \<lparr>ctx = 256, task_id = 0, deadline = 0\<rparr>, 32 \<mapsto> \<lparr>ctx = 512, task_id = 1, deadline = 0\<rparr>],
     ctx_at := [256 \<mapsto> blank_frame, 512 \<mapsto> blank_frame\<lparr>rax := 2\<rparr>]\<rparr>"

lemma two_tasks_wf: "sched_wf two_tasks" "waiting two_tasks = [32]" "saved two_tasks 32 = blank_frame\<lparr>rax := 2\<rparr>"
proof -
  show w: "waiting two_tasks = [32]" by (simp add: waiting_def two_tasks_def queue_defs)
  show "saved two_tasks 32 = blank_frame\<lparr>rax := 2\<rparr>" by (simp add: saved_def ctx_of_def two_tasks_def)
  show "sched_wf two_tasks"
    by (simp add: sched_wf_def w) (simp add: valid_task_def ctx_of_def two_tasks_def queue_defs)
qed

section \<open>Properties\<close>

text \<open>(C10) Round robin: on a well-formed scheduler \<^verbatim>\<open>switch_task\<close> implements the abstract scheduler, in which the
  waiting task gets its saved registers back and the running one waits with the registers of the interrupt;
  with nobody waiting, which is the state \<^verbatim>\<open>init_tasks\<close> leaves, it follows a null pointer.\<close>

theorem switch_task_refines:
  assumes "sched_wf s"
  shows "case abs_switch st (abs_of s) of
      None \<Rightarrow> switch_task alloc_ok st s = Some (Inl NullDeref)
    | Some (regs, a) \<Rightarrow> \<exists>s'. switch_task alloc_ok st s = Some (Inr (regs, s')) \<and> abs_of s' = a \<and> sched_wf s'"
  using assms
proof (cases rule: waiting_cases)
  case (1 q)
  then show ?thesis using switch_alone[OF assms 1(4)] by (simp add: abs_of_def)
next
  case (2 q p)
  then show ?thesis using switch_to_waiting[OF assms 2(4), of alloc_ok st] by (auto simp: abs_of_def)
qed

theorem switch_task_refines_witness:
  "\<exists>s'. switch_task (\<lambda>_. True) blank_frame two_tasks = Some (Inr (blank_frame\<lparr>rax := 2\<rparr>, s')) \<and> abs_of s' = (32, [(16, blank_frame)])"
proof -
  have "abs_switch blank_frame (abs_of two_tasks) = Some (blank_frame\<lparr>rax := 2\<rparr>, (32, [(16, blank_frame)]))"
    using two_tasks_wf by (simp add: abs_of_def) (simp add: two_tasks_def)
  with switch_task_refines[OF two_tasks_wf(1), where st = blank_frame and alloc_ok = "\<lambda>_. True"] show ?thesis by auto
qed

text \<open>(C32) Only the kernel task and the first created task are ever scheduled: in every state reached by creating
  and switching tasks, the running and the waiting tasks have identifiers 0 and 1 and valid contexts of their
  own, because the run queue holds at most one task.\<close>

theorem only_first_two_tasks_run:
  assumes "sched_reach s"
  shows "sched_wf s \<and> list_all (\<lambda>p. id_of s p \<in> {0, 1}) (current s # waiting s) \<and> length (waiting s) \<le> 1"
  using sched_reach_first_two[OF assms] fixedq.elems_bound
  by (auto simp: first_two_def sched_wf_def waiting_def split: if_splits option.splits)

theorem only_first_two_tasks_run_witness:
  "\<exists>s. init_tasks (\<lambda>_. True) 1 2 16 256 blank_frame
       (\<lparr>entries = replicate 256 (idt_gate 0), isr_handler_table = replicate 256 0\<rparr>, no_sched) = Inr s \<and> sched_wf (snd s) \<and> current (snd s) = 16"
proof -
  let ?ts = "(\<lparr>entries = replicate 256 (idt_gate 0), isr_handler_table = replicate 256 0\<rparr>, no_sched)"
  have "idt_wf (fst ?ts)" by (simp add: idt_wf_def)
  then obtain t s where "init_tasks (\<lambda>_. True) 1 2 16 256 blank_frame ?ts = Inr (t, s)" "current s = 16"
    by (auto simp: init_tasks_def register_handler_iff new_queue_fresh Let_def)
  moreover from this have "sched_reach s" using sched_reach.init by blast
  ultimately show ?thesis using only_first_two_tasks_run[of s] by auto
qed

text \<open>A task whose function returns is freed while it is the current task: \<^verbatim>\<open>task_wrapper\<close> finds its stale cell in
  the run queue and releases the blocks, and the next switch follows the released pointer.\<close>

theorem finished_task_stays_current:
  assumes "idt_wf (fst ts)" "distinct [NULL, pk, pt]" "distinct [NULL, ck, pc]"
  shows "\<exists>regs s s'. first_run alloc_ok w (pk, ck, jk) (pt, pc, jt) f d st ts = Some (Inr (regs, s))
     \<and> task_wrapper 1 Inr s = Inr s' \<and> current s' = pt \<and> task_at s' pt = None \<and> ctx_at s' pc = None
     \<and> switch_task alloc_ok st' s' = Some (Inl OutOfBounds)"
proof -
  from first_run_state[OF assms, of alloc_ok w jk jt f d st] obtain regs s where
    r: "first_run alloc_ok w (pk, ck, jk) (pt, pc, jt) f d st ts = Some (Inr (regs, s))" "current s = pt"
      "LIVE_QUEUE s = Some (fresh_queue\<lparr>inner := Some pt # Some pk # replicate 8 None, head := 1, tail := 2\<rparr>)"
      "task_at s pt = Some \<lparr>ctx = pc, task_id = 1, deadline = 0\<rparr>" by blast
  have nn: "pt \<noteq> NULL" using assms(2) by auto
  have "[0..<nat (capacity fresh_queue)] = 0 # [1..<10]" by (simp add: fresh_queue_def upt_rec)
  then have "remove_task (task_at s) (LIVE_QUEUE s) 1 =
      Inr (pt, Some (fresh_queue\<lparr>inner := Some NULL # Some pk # replicate 8 None, head := 1, tail := 2\<rparr>))"
    using r(3,4) nn by (simp add: remove_task_def queue_of_def read_cell_def deref_def)
  then have w: "task_wrapper 1 Inr s = Inr (s\<lparr>LIVE_QUEUE := Some (fresh_queue\<lparr>inner := Some NULL # Some pk # replicate 8 None,
      head := 1, tail := 2\<rparr>), ctx_at := (ctx_at s)(pc := None), task_at := (task_at s)(pt := None)\<rparr>)"
    using r(2,4) nn by (simp add: task_wrapper_def Let_def deref_def)
  then show ?thesis using r(1,2) nn by (auto simp: switch_task_def deref_def)
qed

theorem finished_task_stays_current_witness:
  "\<exists>regs s s'. first_run (\<lambda>_. True) 9 (16, 256, blank_frame) (32, 512, blank_frame) 7 8 blank_frame
       (\<lparr>entries = replicate 256 (idt_gate 0), isr_handler_table = replicate 256 0\<rparr>, no_sched) = Some (Inr (regs, s))
     \<and> task_wrapper 1 Inr s = Inr s' \<and> switch_task (\<lambda>_. True) blank_frame s' = Some (Inl OutOfBounds)"
proof -
  have "idt_wf (fst (\<lparr>entries = replicate 256 (idt_gate 0), isr_handler_table = replicate 256 (0 :: ptr)\<rparr>, no_sched))"
    by (simp add: idt_wf_def)
  moreover have "distinct [NULL, 16, 32]" "distinct [NULL, 256, 512 :: ptr]" by simp_all
  ultimately show ?thesis
    using finished_task_stays_current[where alloc_ok = "\<lambda>_. True" and w = 9 and jk = blank_frame and jt = blank_frame
        and f = 7 and d = 8 and st = blank_frame and st' = blank_frame] by blast
qed

text \<open>Going idle does not take a task off the schedule: \<^verbatim>\<open>signal_idle\<close> clears the stale cell of the running task
  and puts it on the idle queue, but the next switch makes it wait in the run queue as before.\<close>

theorem idle_task_stays_scheduled:
  assumes "idt_wf (fst ts)" "distinct [NULL, pk, pt]" "distinct [NULL, ck, pc]"
  shows "\<exists>regs s s' s''. first_run alloc_ok w (pk, ck, jk) (pt, pc, jt) f d st ts = Some (Inr (regs, s))
     \<and> signal_idle alloc_ok dl s = Inr s' \<and> map_option contents (IDLE_QUEUE s') = Some [pt]
     \<and> switch_task alloc_ok st' s' = Some (Inr (st, s'')) \<and> current s'' = pk \<and> waiting s'' = [pt]"
proof -
  from first_run_state[OF assms, of alloc_ok w jk jt f d st] obtain regs s where
    r: "first_run alloc_ok w (pk, ck, jk) (pt, pc, jt) f d st ts = Some (Inr (regs, s))" "current s = pt"
      "LIVE_QUEUE s = Some (fresh_queue\<lparr>inner := Some pt # Some pk # replicate 8 None, head := 1, tail := 2\<rparr>)"
      "IDLE_QUEUE s = Some fresh_queue"
      "task_at s pk = Some \<lparr>ctx = ck, task_id = 0, deadline = 0\<rparr>" "task_at s pt = Some \<lparr>ctx = pc, task_id = 1, deadline = 0\<rparr>"
      "ctx_at s ck = Some st" "ctx_at s pc \<noteq> None" by blast
  have nn: "pt \<noteq> NULL" "pk \<noteq> NULL" "pc \<noteq> NULL" "ck \<noteq> NULL" "pk \<noteq> pt" "ck \<noteq> pc" using assms(2,3) by auto
  define q where "q = fresh_queue\<lparr>inner := Some NULL # Some pk # replicate 8 None, head := 1, tail := 2\<rparr>"
  define iq where "iq = fresh_queue\<lparr>inner := Some pt # replicate 9 None, tail := 1\<rparr>"
  define s' where "s' = s\<lparr>LIVE_QUEUE := Some q, task_at := (task_at s)(pt \<mapsto> \<lparr>ctx = pc, task_id = 1, deadline = dl\<rparr>),
      IDLE_QUEUE := Some iq\<rparr>"
  have "[0..<nat (capacity fresh_queue)] = 0 # [1..<10]" by (simp add: fresh_queue_def upt_rec)
  then have rem: "remove_task (task_at s) (LIVE_QUEUE s) 1 = Inr (pt, Some q)"
    using r(3,6) nn by (simp add: remove_task_def queue_of_def read_cell_def deref_def q_def)
  have ten: "replicate 10 None = None # replicate 9 (None :: ptr option)" by (simp add: eval_nat_numeral)
  have push: "push_queue alloc_ok fresh_queue pt = Inr iq"
    by (simp add: push_queue_def store_tail_def fresh_queue_def iq_def ten)
  have sig: "signal_idle alloc_ok dl s = Inr s'"
    using r rem push nn by (simp add: signal_idle_def get_task_id_def deref_def Let_def queue_of_def s'_def)
  have iqc: "contents iq = [pt]" by (simp add: iq_def fresh_queue_def contents_def used_def cell_at_def)
  have qc: "fixed_wf q" "contents q = [pk]" by (simp_all add: q_def fresh_queue_def queue_defs)
  have wf: "sched_wf s'"
    using r nn qc by (auto simp: sched_wf_def waiting_def valid_task_def ctx_of_def s'_def)
  have "waiting s' = [pk]" using qc by (simp add: waiting_def s'_def)
  moreover have "saved s' pk = st" using r nn by (simp add: saved_def ctx_of_def s'_def)
  moreover have "current s' = pt" using r(2) by (simp add: s'_def)
  ultimately obtain s'' where "switch_task alloc_ok st' s' = Some (Inr (st, s''))" "current s'' = pk" "waiting s'' = [pt]"
    using switch_to_waiting[OF wf, of pk alloc_ok st'] by auto
  then show ?thesis using r(1) sig iqc by (auto simp: s'_def)
qed

theorem idle_task_stays_scheduled_witness:
  "\<exists>regs s s' s''. first_run (\<lambda>_. True) 9 (16, 256, blank_frame) (32, 512, blank_frame) 7 8 blank_frame
       (\<lparr>entries = replicate 256 (idt_gate 0), isr_handler_table = replicate 256 0\<rparr>, no_sched) = Some (Inr (regs, s))
     \<and> signal_idle (\<lambda>_. True) 100 s = Inr s' \<and> switch_task (\<lambda>_. True) blank_frame s' = Some (Inr (blank_frame, s'')) \<and> waiting s'' = [32]"
proof -
  have "idt_wf (fst (\<lparr>entries = replicate 256 (idt_gate 0), isr_handler_table = replicate 256 (0 :: ptr)\<rparr>, no_sched))"
    by (simp add: idt_wf_def)
  moreover have "distinct [NULL, 16, 32]" "distinct [NULL, 256, 512 :: ptr]" by simp_all
  ultimately show ?thesis
    using idle_task_stays_scheduled[where alloc_ok = "\<lambda>_. True" and w = 9 and jk = blank_frame and jt = blank_frame
        and f = 7 and d = 8 and st = blank_frame and st' = blank_frame and dl = 100] by blast
qed



end
