(* ===== verification/Hardware.thy ===== *)
theory Hardware
  imports Prelude
begin

text \<open>
  The machine below the drivers. Port, memory-mapped and model specific register accesses are events; the
  state of the hardware is the list of the events so far, newest first, and what a read returns is a parameter,
  a function of the events so far and the read: any deterministic device is one. The accessors are the inline
  assembly wrappers of \<^verbatim>\<open>lethe-kernel/include/utils.h\<close> and the volatile accesses of the drivers.
\<close>

datatype io_event =
    Out8 u16 u8 | In8 u16
  | Out32 u16 u32 | In32 u16
  | Write32 u64 u32 | Read32 u64
  | Wrmsr u32 u32 u32 | Rdmsr u32
  | Rdtsc
  | Hlt

type_synonym trace = "io_event list"
type_synonym machine = "trace \<Rightarrow> io_event \<Rightarrow> u64"

definition outb :: "u16 \<Rightarrow> u8 \<Rightarrow> trace \<Rightarrow> trace" where
  "outb port val h = Out8 port val # h"

definition inb :: "machine \<Rightarrow> u16 \<Rightarrow> trace \<Rightarrow> u8 \<times> trace" where
  "inb hw port h = (ucast (hw h (In8 port)), In8 port # h)"

definition outl :: "u16 \<Rightarrow> u32 \<Rightarrow> trace \<Rightarrow> trace" where
  "outl port val h = Out32 port val # h"

definition inl :: "machine \<Rightarrow> u16 \<Rightarrow> trace \<Rightarrow> u32 \<times> trace" where
  "inl hw port h = (ucast (hw h (In32 port)), In32 port # h)"

definition write32 :: "u64 \<Rightarrow> u32 \<Rightarrow> trace \<Rightarrow> trace" where
  "write32 addr val h = Write32 addr val # h"

definition read32 :: "machine \<Rightarrow> u64 \<Rightarrow> trace \<Rightarrow> u32 \<times> trace" where
  "read32 hw addr h = (ucast (hw h (Read32 addr)), Read32 addr # h)"

definition write_msr :: "u32 \<Rightarrow> u32 \<Rightarrow> u32 \<Rightarrow> trace \<Rightarrow> trace" where
  "write_msr msr low high h = Wrmsr msr low high # h"

text \<open>Low and high half of the register.\<close>

definition read_msr :: "machine \<Rightarrow> u32 \<Rightarrow> trace \<Rightarrow> (u32 \<times> u32) \<times> trace" where
  "read_msr hw msr h = (let v = hw h (Rdmsr msr) in ((ucast v, ucast (drop_bit 32 v)), Rdmsr msr # h))"

definition rdtsc :: "machine \<Rightarrow> trace \<Rightarrow> u64 \<times> trace" where
  "rdtsc hw h = (hw h Rdtsc, Rdtsc # h)"

lemmas io_defs = outb_def inb_def outl_def inl_def write32_def read32_def write_msr_def read_msr_def rdtsc_def

end
