(* ===== verification/Pci.thy ===== *)
theory Pci
  imports Hardware Interrupts
begin

text \<open>
  Configuration space access, the device scan, the device search and message signalled interrupts:
  \<^verbatim>\<open>pci.c\<close> and \<^verbatim>\<open>msi.c\<close> of \<^verbatim>\<open>lethe-kernel/pci\<close>. A bus is its number and its device list, a device its
  descriptor and its function list, both newest first as the code links them. The parent links are only
  written and left out. A bus made by \<^verbatim>\<open>check_bus\<close> is linked nowhere; the model computes it and, like the code,
  drops it. The scan recurses from bridge to bridge, without a bound in the code: \<open>check_bus\<close> is a partial
  function. \<^verbatim>\<open>kmalloc\<close> is taken to return a block.
\<close>

section \<open>Configuration space\<close>

definition CONFIG_ADDRESS :: u16 where "CONFIG_ADDRESS = 0xCF8"
definition CONFIG_DATA :: u16 where "CONFIG_DATA = 0xCFC"

definition get_pci_device_address :: "u8 \<Rightarrow> u8 \<Rightarrow> u8 \<Rightarrow> u32 \<Rightarrow> u32" where
  "get_pci_device_address bus device function reg =
     push_bit 16 (ucast bus) OR push_bit 11 (ucast device) OR push_bit 8 (ucast function) OR (reg * 4 AND 0xFC) OR push_bit 31 1"

definition get_pci_device_register :: "machine \<Rightarrow> u8 \<Rightarrow> u8 \<Rightarrow> u8 \<Rightarrow> u32 \<Rightarrow> trace \<Rightarrow> u32 \<times> trace" where
  "get_pci_device_register hw bus device function reg h =
     inl hw CONFIG_DATA (outl CONFIG_ADDRESS (get_pci_device_address bus device function reg) h)"

definition set_pci_device_register :: "machine \<Rightarrow> u8 \<Rightarrow> u8 \<Rightarrow> u8 \<Rightarrow> u32 \<Rightarrow> u32 \<Rightarrow> trace \<Rightarrow> u32 \<times> trace" where
  "set_pci_device_register hw bus device function reg value h =
     (let address = get_pci_device_address bus device function reg
      in inl hw CONFIG_DATA (outl CONFIG_ADDRESS address (outl CONFIG_DATA value (outl CONFIG_ADDRESS address h))))"

section \<open>Devices\<close>

text \<open>A register of the descriptor block that was never stored is \<open>None\<close>.\<close>

record pci_device_descriptor =
  pd_bus :: u8
  pd_device :: u8
  pd_function :: u8
  registers :: "u32 option list"

datatype pci_device = PciDevice (descriptor: pci_device_descriptor) (funcs: "pci_device list")

text \<open>The octets and halves of \<^verbatim>\<open>union pci_register\<close>, little endian.\<close>

definition bits_8_lower_mid :: "u32 \<Rightarrow> u8" where "bits_8_lower_mid r = ucast (drop_bit 8 r)"
definition bits_8_upper_mid :: "u32 \<Rightarrow> u8" where "bits_8_upper_mid r = ucast (drop_bit 16 r)"
definition bits_8_upper :: "u32 \<Rightarrow> u8" where "bits_8_upper r = ucast (drop_bit 24 r)"
definition bits_16_lower :: "u32 \<Rightarrow> u16" where "bits_16_lower r = ucast r"

fun read_registers :: "machine \<Rightarrow> u8 \<Rightarrow> u8 \<Rightarrow> u8 \<Rightarrow> nat list \<Rightarrow> trace \<Rightarrow> u32 list \<times> trace" where
  "read_registers hw bus device function [] h = ([], h)"
| "read_registers hw bus device function (i # is) h =
     (let (v, h1) = get_pci_device_register hw bus device function (of_nat i) h;
          (vs, h2) = read_registers hw bus device function is h1
      in (v # vs, h2))"

definition get_device_descriptor :: "machine \<Rightarrow> u8 \<Rightarrow> u8 \<Rightarrow> u8 \<Rightarrow> trace \<Rightarrow> pci_device_descriptor \<times> trace" where
  "get_device_descriptor hw bus device function h =
     (let (vs, h1) = read_registers hw bus device function [0..<16] h;
          (ws, h2) = (if bits_8_upper_mid (vs ! 3) AND 0x7F = 0x2
                      then let (us, h2) = read_registers hw bus device function [16, 17] h1 in (map Some us, h2)
                      else ([None, None], h1))
      in (\<lparr>pd_bus = bus, pd_device = device, pd_function = function, registers = map Some vs @ ws\<rparr>, h2))"

text \<open>Reading a descriptor register: out of range and never stored are faults.\<close>

definition desc_register :: "pci_device_descriptor \<Rightarrow> int \<Rightarrow> u32 res" where
  "desc_register d i = bindE (readE (registers d) i) (\<lambda>r. case r of None \<Rightarrow> Inl Uninitialised | Some v \<Rightarrow> Inr v)"

section \<open>The scan\<close>

text \<open>
  \<^verbatim>\<open>check_device\<close> and \<^verbatim>\<open>check_function\<close> take \<^verbatim>\<open>check_bus\<close>, which they call, as an argument \<open>rec\<close>;
  \<open>check_bus\<close> closes the circle. A device list is returned with the new devices in front.
\<close>

definition new_device :: "pci_device_descriptor \<Rightarrow> pci_device list \<Rightarrow> pci_device list" where
  "new_device desc dev_list = PciDevice desc [] # dev_list"

definition new_function :: "pci_device_descriptor \<Rightarrow> pci_device \<Rightarrow> pci_device" where
  "new_function desc device = PciDevice (descriptor device) (PciDevice desc [] # funcs device)"

definition check_function :: "(u8 \<times> trace \<Rightarrow> (pci_device list \<times> trace) run) \<Rightarrow> pci_device_descriptor \<Rightarrow> trace \<Rightarrow> trace run" where
  "check_function rec desc h =
     bindR (Some (desc_register desc 2)) (\<lambda>r2.
     if bits_8_upper r2 = 0x6 \<and> bits_8_upper_mid r2 = 0x4
     then bindR (Some (desc_register desc 6)) (\<lambda>r6. bindR (rec (bits_8_lower_mid r6, h)) (\<lambda>(_, h'). Some (Inr h')))
     else Some (Inr h))"

text \<open>One round of the loop over functions 1 to 7 of a device.\<close>

definition check_next_function ::
  "machine \<Rightarrow> (u8 \<times> trace \<Rightarrow> (pci_device list \<times> trace) run) \<Rightarrow> u8 \<Rightarrow> u8 \<Rightarrow> pci_device \<times> trace \<Rightarrow> nat \<Rightarrow> (pci_device \<times> trace) run" where
  "check_next_function hw rec bus device sh function =
     (let (desc, h1) = get_device_descriptor hw bus device (of_nat function) (snd sh) in
      bindR (Some (desc_register desc 0)) (\<lambda>r0.
      if bits_16_lower r0 = 0xFFFF then Some (Inr (fst sh, h1))
      else bindR (check_function rec desc h1) (\<lambda>h2. Some (Inr (new_function desc (fst sh), h2)))))"

definition check_device ::
  "machine \<Rightarrow> (u8 \<times> trace \<Rightarrow> (pci_device list \<times> trace) run) \<Rightarrow> u8 \<Rightarrow> pci_device list \<times> trace \<Rightarrow> nat \<Rightarrow> (pci_device list \<times> trace) run" where
  "check_device hw rec bus dh device =
     (let (register_0, h1) = get_pci_device_register hw bus (of_nat device) 0 0 (snd dh) in
      if register_0 AND 0xFFFF = 0xFFFF then Some (Inr (fst dh, h1))
      else let (desc, h2) = get_device_descriptor hw bus (of_nat device) 0 h1 in
           bindR (check_function rec desc h2) (\<lambda>h3.
           bindR (Some (desc_register desc 3)) (\<lambda>r3.
           bindR (if bits_8_upper_mid r3 AND 0x80 \<noteq> 0
                  then foldR (check_next_function hw rec bus (of_nat device)) [1..<8] (PciDevice desc [], h3)
                  else Some (Inr (PciDevice desc [], h3))) (\<lambda>(self, h4).
           Some (Inr (self # fst dh, h4))))))"

lemma foldR_mono [partial_function_mono]:
  assumes "\<And>s x. mono_option (\<lambda>f. B f s x)"
  shows "mono_option (\<lambda>f. foldR (B f) xs s)"
  using assms
proof (induction xs arbitrary: s)
  case Nil
  then show ?case by (simp add: monotone_def flat_ord_def)
next
  case (Cons x xs)
  have "mono_option (\<lambda>f. bindR (B f s x) (\<lambda>y. foldR (B f) xs y))"
    using Cons by (intro bindR_mono) auto
  then show ?case by simp
qed

lemma check_function_mono [partial_function_mono]:
  assumes "\<And>x. mono_option (\<lambda>f. r f x)"
  shows "mono_option (\<lambda>f. check_function (r f) desc h)"
  unfolding check_function_def case_prod_beta Let_def by (intro partial_function_mono assms)

lemma check_next_function_mono [partial_function_mono]:
  assumes "\<And>x. mono_option (\<lambda>f. r f x)"
  shows "mono_option (\<lambda>f. check_next_function hw (r f) bus device sh n)"
  unfolding check_next_function_def case_prod_beta Let_def by (intro partial_function_mono assms)

lemma check_device_mono [partial_function_mono]:
  assumes "\<And>x. mono_option (\<lambda>f. r f x)"
  shows "mono_option (\<lambda>f. check_device hw (r f) bus dh n)"
  unfolding check_device_def case_prod_beta Let_def by (intro partial_function_mono assms)

partial_function (option) check_bus :: "machine \<Rightarrow> u8 \<times> trace \<Rightarrow> (pci_device list \<times> trace) run" where
  "check_bus hw bh = foldR (check_device hw (\<lambda>y. check_bus hw y) (fst bh)) [0..<32] ([], snd bh)"

text \<open>\<^verbatim>\<open>root_device\<close>: the root bus as a device list; the device is made when the list is empty, from the descriptor of function 0.\<close>

definition root_device :: "machine \<Rightarrow> pci_device list \<times> trace \<Rightarrow> pci_device list \<times> trace" where
  "root_device hw dh =
     (if fst dh = [] then let (d, h) = get_device_descriptor hw 0 0 0 (snd dh) in (new_device d [], h) else dh)"

text \<open>
  The root device and its functions, on the first branch of \<^verbatim>\<open>scan_pci_space\<close>: the device is made when the first
  function needs it, and is then the only one of the root bus. The loop ends at the first absent function.
\<close>

fun scan_functions :: "machine \<Rightarrow> nat list \<Rightarrow> pci_device list \<times> trace \<Rightarrow> (pci_device list \<times> trace) run" where
  "scan_functions hw [] dh = Some (Inr dh)"
| "scan_functions hw (i # is) dh =
     (let (desc, h1) = get_device_descriptor hw 0 0 (of_nat i) (snd dh) in
      bindR (Some (desc_register desc 0)) (\<lambda>r0.
      if bits_16_lower r0 = 0xFFFF then Some (Inr (fst dh, h1))
      else let (devs, h2) = root_device hw (fst dh, h1) in
           bindR (check_bus hw (of_nat i, h2)) (\<lambda>(_, h3).
           scan_functions hw is ([new_function desc (hd devs)], h3))))"

definition scan_pci_space :: "machine \<Rightarrow> trace \<Rightarrow> (pci_device list \<times> trace) run" where
  "scan_pci_space hw h =
     (let (desc, h1) = get_device_descriptor hw 0 0 0 h in
      bindR (Some (desc_register desc 3)) (\<lambda>r3.
      if bits_8_upper_mid r3 AND 0x80 \<noteq> 0 then scan_functions hw [0..<8] ([], h1)
      else foldR (check_device hw (\<lambda>y. check_bus hw y) 0) [0..<32] ([], h1)))"

definition init_pci :: "machine \<Rightarrow> trace \<Rightarrow> (pci_device list \<times> trace) run" where
  "init_pci hw h = scan_pci_space hw h"

section \<open>Search\<close>

function search_bus_for_match :: "pci_device list \<Rightarrow> int \<Rightarrow> u32 \<Rightarrow> u32 \<Rightarrow> u32 \<Rightarrow> (pci_device option \<times> u32) res" where
  "search_bus_for_match [] register_number compare_value register_mask skip_count = Inr (None, skip_count)"
| "search_bus_for_match (device # rest) register_number compare_value register_mask skip_count =
     bindE (desc_register (descriptor device) register_number) (\<lambda>r.
     let hit = (r AND register_mask = compare_value) in
     if hit \<and> skip_count = 0 then Inr (Some device, skip_count)
     else bindE (search_bus_for_match (funcs device) register_number compare_value register_mask
                   (if hit then skip_count - 1 else skip_count)) (\<lambda>(p, skip2).
          if p \<noteq> None \<and> skip2 = 0 then Inr (p, skip2)
          else search_bus_for_match rest register_number compare_value register_mask (if p \<noteq> None then skip2 - 1 else skip2)))"
  by pat_completeness auto
termination
proof (relation "measure (\<lambda>(ds, _). size_list size ds)")
  fix device :: pci_device and rest :: "pci_device list"
  have "size_list size (funcs device) < size device" by (cases device) simp
  then show "((funcs device, rn, cv, rm, sk), device # rest, rn, cv, rm, sc) \<in> measure (\<lambda>(ds, _). size_list size ds)"
    for rn cv rm sk sc by simp
qed auto

text \<open>\<^verbatim>\<open>search_for_match\<close> goes on to \<^verbatim>\<open>bus->next\<close>, which no code sets: a bus list is the list of their device lists.\<close>

fun search_for_match :: "pci_device list list \<Rightarrow> int \<Rightarrow> u32 \<Rightarrow> u32 \<Rightarrow> u32 \<Rightarrow> (pci_device option \<times> u32) res" where
  "search_for_match [] register_number compare_value register_mask skip_count = Inr (None, skip_count)"
| "search_for_match (dev_list # buses) register_number compare_value register_mask skip_count =
     bindE (search_bus_for_match dev_list register_number compare_value register_mask skip_count) (\<lambda>(device, skip).
     if device = None then search_for_match buses register_number compare_value register_mask skip
     else Inr (device, skip))"

definition locate_pci_device :: "pci_device list \<Rightarrow> u32 \<Rightarrow> u32 \<Rightarrow> u32 \<Rightarrow> pci_device option res" where
  "locate_pci_device root_bus class_code sub_class_code skip_count =
     (let register_mask = 0xFFFF0000;
          compare_value = (push_bit 24 class_code OR push_bit 16 sub_class_code) AND register_mask
      in bindE (search_for_match [root_bus] 0x2 compare_value register_mask skip_count) (\<lambda>(device, _). Inr device))"

section \<open>Register access by handle\<close>

definition pci_compare_value :: "pci_device option \<Rightarrow> int \<Rightarrow> u32 \<Rightarrow> u32 \<Rightarrow> bool res" where
  "pci_compare_value handle register_number value msk =
     (case handle of None \<Rightarrow> Inr False
      | Some device \<Rightarrow> bindE (desc_register (descriptor device) register_number) (\<lambda>r. Inr (value = r AND msk)))"

definition set_register_value :: "machine \<Rightarrow> pci_device option \<Rightarrow> int \<Rightarrow> u32 \<Rightarrow> trace \<Rightarrow> int \<times> trace" where
  "set_register_value hw handle register_number value h =
     (case handle of None \<Rightarrow> (0, h)
      | Some device \<Rightarrow>
          (let d = descriptor device;
               (_, h1) = set_pci_device_register hw (pd_bus d) (pd_device d) (pd_function d) (word_of_int register_number) value h
           in (1, h1)))"

definition get_register_value :: "machine \<Rightarrow> pci_device option \<Rightarrow> int \<Rightarrow> trace \<Rightarrow> (u32 \<times> trace) res" where
  "get_register_value hw handle register_number h =
     (case handle of None \<Rightarrow> Inr (0, h)
      | Some device \<Rightarrow>
          (let d = descriptor device in
           if register_number < 0x12 then bindE (desc_register d register_number) (\<lambda>v. Inr (v, h))
           else Inr (get_pci_device_register hw (pd_bus d) (pd_device d) (pd_function d) (word_of_int register_number) h)))"

section \<open>Message signalled interrupts\<close>

partial_function (option) capability_loop :: "machine \<Rightarrow> pci_device option \<Rightarrow> u8 \<Rightarrow> trace \<Rightarrow> (u32 \<times> trace) run" where
  "capability_loop hw handle cap_ptr h =
     (if cap_ptr = 0 then Some (Inr (0, h))
      else bindR (Some (get_register_value hw handle (uint cap_ptr div 4) h)) (\<lambda>y.
           if fst y AND 0xFF = 0x5 \<or> fst y AND 0xFF = 0x11 then Some (Inr (ucast cap_ptr, snd y))
           else capability_loop hw handle (ucast (drop_bit 8 (fst y AND 0xFF00))) (snd y)))"

definition check_msi_capability :: "machine \<Rightarrow> pci_device option \<Rightarrow> trace \<Rightarrow> (u32 \<times> trace) run" where
  "check_msi_capability hw handle h =
     bindR (Some (get_register_value hw handle 0x1 h)) (\<lambda>(status_reg, h1).
     if status_reg AND push_bit 20 1 = 0 then Some (Inr (0, h1))
     else bindR (Some (get_register_value hw handle 0xD h1)) (\<lambda>(cap_reg, h2).
          capability_loop hw handle (ucast (cap_reg AND 0xFC)) h2))"

text \<open>The result, the trace and the handler table; \<open>lapic\<close> is \<^verbatim>\<open>lapic_addr_phys()\<close>.\<close>

definition enable_msi :: "machine \<Rightarrow> u64 \<Rightarrow> pci_device option \<Rightarrow> int \<Rightarrow> ptr \<Rightarrow> idt \<times> trace \<Rightarrow> (int \<times> idt \<times> trace) res" where
  "enable_msi hw lapic handle msi_cap_offset handler th =
     (let msi_cap_reg = word_of_int (msi_cap_offset sdiv 4) :: u8 in
      bindE (get_register_value hw handle (uint msi_cap_reg) (snd th)) (\<lambda>(register_0, h0).
      if register_0 AND 0xFF = 0x11 then Inr (0, fst th, h0)
      else let data_reg = msi_cap_reg + 0x3;
               laddr_reg = msi_cap_reg + 0x1;
               msi_msg_ctrl = drop_bit 16 register_0
           in bindE (guardE Abort (msi_msg_ctrl AND push_bit 7 1 \<noteq> 0)) (\<lambda>_.
              let (_, h1) = set_register_value hw handle (uint data_reg) 0x79 h0;
                  (_, h2) = set_register_value hw handle (uint laddr_reg) (ucast lapic) h1;
                  (_, h3) = set_register_value hw handle (uint laddr_reg + 1) 0 h2;
                  (_, h4) = set_register_value hw handle (uint msi_cap_reg) (push_bit 16 1) h3
              in bindE (register_handler (fst th) 0x79 handler) (\<lambda>t. Inr (1, t, h4)))))"

section \<open>Lemmas\<close>

lemma bit_address:
  "bit (get_pci_device_address b d f r) n \<longleftrightarrow> 16 \<le> n \<and> n < 24 \<and> bit b (n - 16) \<or> 11 \<le> n \<and> n < 19 \<and> bit d (n - 11)
     \<or> 8 \<le> n \<and> n < 16 \<and> bit f (n - 8) \<or> 2 \<le> n \<and> n < 8 \<and> bit r (n - 2) \<or> n = 31"
proof -
  have "(0xFC :: u32) = push_bit 2 (mask 6)" by (simp add: push_bit_eq_mult mask_eq_exp_minus_1)
  moreover have "r * 4 = push_bit 2 r" by (simp add: push_bit_eq_mult)
  ultimately have "r * 4 AND 0xFC = push_bit 2 r AND push_bit 2 (mask 6)" by simp
  then have reg: "r * 4 AND 0xFC = push_bit 2 (take_bit 6 r)" by (simp add: take_bit_eq_mask flip: push_bit_and)
  have one: "bit (push_bit 31 (1 :: u32)) n \<longleftrightarrow> n = 31" by (simp only: bit_push_bit_iff bit_1_iff) auto
  have u8: "bit (x :: u8) k \<Longrightarrow> k < 8" for x k using bit_imp_le_length[of x k] by simp
  show ?thesis
    by (simp only: get_pci_device_address_def bit_or_iff one reg) (auto simp: bit_simps dest: u8)
qed

text \<open>Search: the devices in the order the search visits them.\<close>

function preorder :: "pci_device list \<Rightarrow> pci_device list" where
  "preorder [] = []"
| "preorder (d # ds) = d # preorder (funcs d) @ preorder ds"
  by pat_completeness auto
termination
proof (relation "measure (size_list size)")
  fix d :: pci_device and ds :: "pci_device list"
  have "size_list size (funcs d) < size d" by (cases d) simp
  then show "(funcs d, d # ds) \<in> measure (size_list size)" by simp
qed auto

definition has_register :: "int \<Rightarrow> pci_device \<Rightarrow> bool" where
  "has_register i d = is_ok (desc_register (descriptor d) i)"

definition matches :: "int \<Rightarrow> u32 \<Rightarrow> u32 \<Rightarrow> pci_device \<Rightarrow> bool" where
  "matches i value msk d = (case desc_register (descriptor d) i of Inl _ \<Rightarrow> False | Inr r \<Rightarrow> r AND msk = value)"

lemma search_bus_for_match_nth:
  assumes "list_all (has_register i) (preorder ds)"
  shows "search_bus_for_match ds i cv rm sk =
     (let hits = filter (matches i cv rm) (preorder ds) in
      Inr (if unat sk < length hits then (Some (hits ! unat sk), 0) else (None, sk - of_nat (length hits))))"
  using assms
proof (induction ds i cv rm sk rule: search_bus_for_match.induct)
  case (2 d ds i cv rm sk)
  let ?hits = "\<lambda>xs. filter (matches i cv rm) (preorder xs)"
  from 2(3) have f: "list_all (has_register i) (preorder (funcs d))" and n: "list_all (has_register i) (preorder ds)"
    and "has_register i d" by simp_all
  then obtain r where r: "desc_register (descriptor d) i = Inr r" by (auto simp: has_register_def is_ok_iff)
  define hit where "hit = (r AND rm = cv)"
  have m: "matches i cv rm d = hit" by (simp add: matches_def r hit_def)
  show ?case
  proof (cases "hit \<and> sk = 0")
    case True
    then show ?thesis using r m by (simp add: hit_def)
  next
    case False
    define sk1 where "sk1 = (if hit then sk - 1 else sk)"
    have pos: "unat sk = (if hit then Suc (unat sk1) else unat sk1)"
    proof (cases hit)
      case True
      with False have "sk \<noteq> 0" by simp
      then have "unat (sk - 1) = unat sk - 1" "0 < unat sk" by (simp_all add: unat_minus_one unat_gt_0)
      with True show ?thesis by (simp add: sk1_def)
    qed (simp add: sk1_def)
    have sk1: "sk1 = sk - (if hit then 1 else 0)" by (simp add: sk1_def)
    have ih1: "search_bus_for_match (funcs d) i cv rm sk1 =
        Inr (if unat sk1 < length (?hits (funcs d)) then (Some (?hits (funcs d) ! unat sk1), 0)
             else (None, sk1 - of_nat (length (?hits (funcs d)))))"
      using 2(1)[OF r hit_def False f] by (simp add: sk1_def Let_def)
    show ?thesis
    proof (cases "unat sk1 < length (?hits (funcs d))")
      case True
      then show ?thesis using r False ih1 m pos by (simp add: hit_def[symmetric] sk1_def[symmetric] nth_append Let_def)
    next
      case miss: False
      define sk2 where "sk2 = sk1 - of_nat (length (?hits (funcs d)))"
      have le: "length (?hits (funcs d)) \<le> unat sk1" using miss by simp
      have u: "unat sk2 = unat sk1 - length (?hits (funcs d))"
      proof -
        have "unat (of_nat (length (?hits (funcs d))) :: u32) = length (?hits (funcs d))"
          using le unsigned_less[of sk1, where 'a = nat] by (simp add: unsigned_of_nat take_bit_nat_eq_self)
        then show ?thesis using le by (simp add: sk2_def unat_sub word_le_nat_alt)
      qed
      have ih2: "search_bus_for_match ds i cv rm sk2 =
          Inr (if unat sk2 < length (?hits ds) then (Some (?hits ds ! unat sk2), 0) else (None, sk2 - of_nat (length (?hits ds))))"
        using 2(2)[OF r hit_def False, of "(None, sk2)" None sk2] ih1 miss n by (simp add: sk1_def Let_def sk2_def)
      have step: "search_bus_for_match (d # ds) i cv rm sk = search_bus_for_match ds i cv rm sk2"
        using r False ih1 miss by (auto simp: hit_def[symmetric] sk1_def[symmetric] sk2_def Let_def)
      have k: "unat sk = (if hit then 1 else 0) + length (?hits (funcs d)) + unat sk2" using pos u le by simp
      have hs: "?hits (d # ds) = (if hit then [d] else []) @ ?hits (funcs d) @ ?hits ds" by (simp add: m)
      have "?hits (d # ds) ! unat sk = ?hits ds ! unat sk2" unfolding hs k by (simp add: nth_append)
      moreover have "unat sk < length (?hits (d # ds)) \<longleftrightarrow> unat sk2 < length (?hits ds)" unfolding hs k by simp
      moreover have "sk - of_nat (length (?hits (d # ds))) = sk2 - of_nat (length (?hits ds))"
        unfolding hs by (simp add: sk2_def sk1)
      ultimately show ?thesis unfolding step ih2 by (simp only: Let_def)
    qed
  qed
qed simp

text \<open>
  Configuration mechanism 1: reading the data port right after an address was written gives the register at that
  address, \<open>cfg\<close>.
\<close>

definition config_reads :: "machine \<Rightarrow> (u32 \<Rightarrow> u32) \<Rightarrow> bool" where
  "config_reads hw cfg \<longleftrightarrow> (\<forall>a h. hw (Out32 CONFIG_ADDRESS a # h) (In32 CONFIG_DATA) = ucast (cfg a))"

definition cfg_reg :: "(u32 \<Rightarrow> u32) \<Rightarrow> u8 \<Rightarrow> u8 \<Rightarrow> u8 \<Rightarrow> nat \<Rightarrow> u32" where
  "cfg_reg cfg bus device function i = cfg (get_pci_device_address bus device function (of_nat i))"

definition desc_of :: "(u32 \<Rightarrow> u32) \<Rightarrow> u8 \<Rightarrow> u8 \<Rightarrow> u8 \<Rightarrow> pci_device_descriptor" where
  "desc_of cfg bus device function =
     \<lparr>pd_bus = bus, pd_device = device, pd_function = function,
      registers = map Some (map (cfg_reg cfg bus device function) [0..<16]) @
        (if bits_8_upper_mid (cfg_reg cfg bus device function 3) AND 0x7F = 0x2
         then map Some (map (cfg_reg cfg bus device function) [16, 17]) else [None, None])\<rparr>"

definition present :: "(u32 \<Rightarrow> u32) \<Rightarrow> u8 \<Rightarrow> u8 \<Rightarrow> u8 \<Rightarrow> bool" where
  "present cfg bus device function \<longleftrightarrow> bits_16_lower (cfg_reg cfg bus device function 0) \<noteq> 0xFFFF"

definition is_bridge :: "(u32 \<Rightarrow> u32) \<Rightarrow> u8 \<Rightarrow> u8 \<Rightarrow> u8 \<Rightarrow> bool" where
  "is_bridge cfg bus device function \<longleftrightarrow> bits_8_upper (cfg_reg cfg bus device function 2) = 0x6
     \<and> bits_8_upper_mid (cfg_reg cfg bus device function 2) = 0x4"

definition secondary :: "(u32 \<Rightarrow> u32) \<Rightarrow> u8 \<Rightarrow> u8 \<Rightarrow> u8 \<Rightarrow> u8" where
  "secondary cfg bus device function = bits_8_lower_mid (cfg_reg cfg bus device function 6)"

text \<open>Bridges lead to higher bus numbers, as firmware numbers them.\<close>

definition bridges_up :: "(u32 \<Rightarrow> u32) \<Rightarrow> bool" where
  "bridges_up cfg \<longleftrightarrow> (\<forall>b d f. is_bridge cfg b d f \<longrightarrow> b < secondary cfg b d f)"

definition multi_function :: "(u32 \<Rightarrow> u32) \<Rightarrow> u8 \<Rightarrow> u8 \<Rightarrow> bool" where
  "multi_function cfg bus device \<longleftrightarrow> bits_8_upper_mid (cfg_reg cfg bus device 0 3) AND 0x80 \<noteq> 0"

definition device_of :: "(u32 \<Rightarrow> u32) \<Rightarrow> u8 \<Rightarrow> u8 \<Rightarrow> pci_device" where
  "device_of cfg bus device = PciDevice (desc_of cfg bus device 0)
     (if multi_function cfg bus device
      then rev (map (\<lambda>f. PciDevice (desc_of cfg bus device (of_nat f)) []) (filter (\<lambda>f. present cfg bus device (of_nat f)) [1..<8]))
      else [])"

definition bus_devices :: "(u32 \<Rightarrow> u32) \<Rightarrow> u8 \<Rightarrow> pci_device list" where
  "bus_devices cfg bus = rev (map (\<lambda>d. device_of cfg bus (of_nat d)) (filter (\<lambda>d. present cfg bus (of_nat d) 0) [0..<32]))"

lemma vendor_mask: "(r :: u32) AND 0xFFFF = 0xFFFF \<longleftrightarrow> bits_16_lower r = 0xFFFF"
proof -
  have e: "r AND 0xFFFF = ucast (ucast r :: u16)" by (rule bit_word_eqI) (auto simp: and_masks bit_simps)
  have n: "(0xFFFF :: u32) = ucast (0xFFFF :: u16)" by simp
  show ?thesis unfolding bits_16_lower_def by (subst e, subst n, rule ucast_eq_iff) simp
qed

lemma get_register_cfg:
  assumes "config_reads hw cfg"
  shows "\<exists>h'. get_pci_device_register hw bus device function r h = (cfg (get_pci_device_address bus device function r), h')"
  using assms by (simp add: get_pci_device_register_def io_defs config_reads_def ucast_up_down)

lemma read_registers_cfg:
  assumes "config_reads hw cfg"
  shows "\<exists>h'. read_registers hw bus device function is h = (map (cfg_reg cfg bus device function) is, h')"
proof (induction "is" arbitrary: h)
  case (Cons i "is")
  obtain h1 where "get_pci_device_register hw bus device function (of_nat i) h = (cfg_reg cfg bus device function i, h1)"
    using get_register_cfg[OF assms] by (metis cfg_reg_def)
  moreover obtain h2 where "read_registers hw bus device function is h1 = (map (cfg_reg cfg bus device function) is, h2)"
    using Cons.IH by blast
  ultimately show ?case by simp
qed simp

lemma get_device_descriptor_cfg:
  assumes "config_reads hw cfg"
  shows "\<exists>h'. get_device_descriptor hw bus device function h = (desc_of cfg bus device function, h')"
proof -
  obtain h1 where h1: "read_registers hw bus device function [0..<16] h = (map (cfg_reg cfg bus device function) [0..<16], h1)"
    using read_registers_cfg[OF assms] by blast
  obtain h2 where h2: "read_registers hw bus device function [16, 17] h1 = (map (cfg_reg cfg bus device function) [16, 17], h2)"
    using read_registers_cfg[OF assms] by blast
  have "map (cfg_reg cfg bus device function) [0..<16] ! 3 = cfg_reg cfg bus device function 3" by (subst nth_map) auto
  then show ?thesis unfolding get_device_descriptor_def h1 prod.case Let_def h2 desc_of_def by simp
qed

lemma desc_register_cfg:
  assumes "0 \<le> i" "i < 16"
  shows "desc_register (desc_of cfg bus device function) i = Inr (cfg_reg cfg bus device function (nat i))"
proof -
  have "registers (desc_of cfg bus device function) ! nat i = Some (cfg_reg cfg bus device function (nat i))"
    using assms nat_less_iff[of i 16] unfolding desc_of_def by (simp add: nth_append)
  moreover have "length (registers (desc_of cfg bus device function)) = 18" by (simp add: desc_of_def)
  ultimately show ?thesis using assms by (simp add: desc_register_def)
qed

text \<open>A loop whose rounds do not depend on the trace: its first component is a fold.\<close>

lemma foldR_state:
  assumes "\<And>s h x. x \<in> set xs \<Longrightarrow> \<exists>h'. f (s, h) x = Some (Inr (g s x, h'))"
  shows "\<exists>h'. foldR f xs (s, h) = Some (Inr (foldl g s xs, h'))"
  using assms
proof (induction xs arbitrary: s h)
  case (Cons x xs)
  from Cons.prems[of x s h] obtain h1 where "f (s, h) x = Some (Inr (g s x, h1))" by auto
  moreover from Cons.IH[of "g s x" h1] Cons.prems obtain h2 where "foldR f xs (g s x, h1) = Some (Inr (foldl g (g s x) xs, h2))"
    by auto
  ultimately show ?case by simp
qed simp

lemma foldl_prepend:
  "foldl (\<lambda>ds x. if P x then k x # ds else ds) ds xs = rev (map k (filter P xs)) @ ds"
  by (induction xs arbitrary: ds) auto

lemma foldl_new_function:
  "foldl (\<lambda>s f. if P f then new_function (k f) s else s) s fs =
     PciDevice (descriptor s) (rev (map (\<lambda>f. PciDevice (k f) []) (filter P fs)) @ funcs s)"
proof (induction fs arbitrary: s)
  case Nil
  then show ?case by (cases s) simp
qed (simp add: new_function_def)

text \<open>The scan of a bus, given that the scans of the buses behind its bridges end.\<close>

definition ends :: "(u8 \<times> trace \<Rightarrow> (pci_device list \<times> trace) run) \<Rightarrow> u8 \<Rightarrow> bool" where
  "ends rec b \<longleftrightarrow> (\<forall>h. \<exists>r. rec (b, h) = Some (Inr r))"

lemma check_function_ends:
  assumes "is_bridge cfg b d f \<longrightarrow> ends rec (secondary cfg b d f)"
  shows "\<exists>h'. check_function rec (desc_of cfg b d f) h = Some (Inr h')"
proof (cases "is_bridge cfg b d f")
  case True
  with assms obtain r where "rec (secondary cfg b d f, h) = Some (Inr r)" unfolding ends_def by blast
  with True show ?thesis
    by (cases r) (simp add: check_function_def desc_register_cfg is_bridge_def secondary_def)
next
  case False
  then show ?thesis by (auto simp: check_function_def desc_register_cfg is_bridge_def)
qed

lemma check_next_function_ends:
  assumes "config_reads hw cfg" "is_bridge cfg b d (of_nat f) \<longrightarrow> ends rec (secondary cfg b d (of_nat f))"
  shows "\<exists>h'. check_next_function hw rec b d (s, h) f =
     Some (Inr (if present cfg b d (of_nat f) then new_function (desc_of cfg b d (of_nat f)) s else s, h'))"
proof -
  obtain h1 where h1: "get_device_descriptor hw b d (of_nat f) h = (desc_of cfg b d (of_nat f), h1)"
    using get_device_descriptor_cfg[OF assms(1)] by blast
  obtain h2 where "check_function rec (desc_of cfg b d (of_nat f)) h1 = Some (Inr h2)"
    using check_function_ends[OF assms(2)] by blast
  with h1 show ?thesis by (simp add: check_next_function_def desc_register_cfg present_def)
qed

lemma check_device_ends:
  assumes c: "config_reads hw cfg" and e: "\<And>f. is_bridge cfg b (of_nat d) f \<Longrightarrow> ends rec (secondary cfg b (of_nat d) f)"
  shows "\<exists>h'. check_device hw rec b (ds, h) d =
     Some (Inr (if present cfg b (of_nat d) 0 then device_of cfg b (of_nat d) # ds else ds, h'))"
proof -
  let ?d = "of_nat d :: u8"
  let ?desc = "desc_of cfg b ?d 0"
  obtain h1 where h1: "get_pci_device_register hw b ?d 0 0 h = (cfg_reg cfg b ?d 0 0, h1)"
    using get_register_cfg[OF c, of b ?d 0 0 h] by (auto simp: cfg_reg_def)
  obtain h2 where h2: "get_device_descriptor hw b ?d 0 h1 = (?desc, h2)"
    using get_device_descriptor_cfg[OF c] by blast
  obtain h3 where h3: "check_function rec ?desc h2 = Some (Inr h3)"
    using check_function_ends[of cfg b ?d 0 rec h2] e by blast
  have "\<exists>h'. foldR (check_next_function hw rec b ?d) [1..<8] (PciDevice ?desc [], h3) = Some (Inr (foldl (\<lambda>s f.
      if present cfg b ?d (of_nat f) then new_function (desc_of cfg b ?d (of_nat f)) s else s) (PciDevice ?desc []) [1..<8], h'))"
    by (rule foldR_state) (use check_next_function_ends[OF c] e in blast)
  then obtain h4 where h4: "foldR (check_next_function hw rec b ?d) [1..<8] (PciDevice ?desc [], h3) =
      Some (Inr (PciDevice ?desc (rev (map (\<lambda>f. PciDevice (desc_of cfg b ?d (of_nat f)) [])
        (filter (\<lambda>f. present cfg b ?d (of_nat f)) [1..<8]))), h4))"
    by (auto simp only: foldl_new_function pci_device.sel append_Nil2)
  show ?thesis
    by (simp only: check_device_def h1 h2 h3 h4 desc_register_cfg vendor_mask fst_conv snd_conv Let_def prod.case bindR_simps
        present_def device_of_def multi_function_def if_distrib[of "\<lambda>r. bindR r _"] if_distrib[of "PciDevice _"]) (simp add: desc_register_cfg)
qed

lemma check_devices_end:
  assumes "config_reads hw cfg" "\<And>d f. is_bridge cfg b d f \<Longrightarrow> ends rec (secondary cfg b d f)"
  shows "\<exists>h'. foldR (check_device hw rec b) [0..<32] ([], h) = Some (Inr (bus_devices cfg b, h'))"
proof -
  have "\<exists>h'. foldR (check_device hw rec b) [0..<32] ([], h) = Some (Inr (foldl (\<lambda>ds d. if present cfg b (of_nat d) 0
      then device_of cfg b (of_nat d) # ds else ds) [] [0..<32], h'))"
    by (rule foldR_state) (use check_device_ends[OF assms(1)] assms(2) in blast)
  then show ?thesis by (simp only: foldl_prepend append_Nil2 bus_devices_def)
qed

lemma check_bus_ends:
  assumes "config_reads hw cfg" "bridges_up cfg"
  shows "\<exists>h'. check_bus hw (b, h) = Some (Inr (bus_devices cfg b, h'))"
proof (induction "255 - unat b" arbitrary: b h rule: less_induct)
  case less
  have "ends (check_bus hw) (secondary cfg b d f)" if "is_bridge cfg b d f" for d f
  proof -
    have "unat b < unat (secondary cfg b d f)" using assms(2) that by (simp add: bridges_up_def word_less_nat_alt)
    moreover have "unat (secondary cfg b d f) \<le> 255" using unsigned_less[of "secondary cfg b d f", where 'a = nat] by simp
    ultimately show ?thesis unfolding ends_def using less[of "secondary cfg b d f"] by fastforce
  qed
  from check_devices_end[OF assms(1) this] show ?case by (subst check_bus.simps) simp
qed

text \<open>Whatever the hardware answers, a scanned device of the root bus is on bus 0.\<close>

definition on_bus :: "u8 \<Rightarrow> pci_device list \<Rightarrow> bool" where
  "on_bus b ds \<longleftrightarrow> list_all (\<lambda>d. pd_bus (descriptor d) = b) (preorder ds)"

lemma on_bus_simps [simp]:
  "on_bus b []" "on_bus b (d # ds) \<longleftrightarrow> pd_bus (descriptor d) = b \<and> on_bus b (funcs d) \<and> on_bus b ds"
  by (auto simp: on_bus_def)

lemma get_device_descriptor_bus: "pd_bus (fst (get_device_descriptor hw b d f h)) = b"
  by (simp add: get_device_descriptor_def case_prod_beta Let_def)

lemma foldR_preserves:
  assumes "\<And>s x t. I s \<Longrightarrow> f s x = Some (Inr t) \<Longrightarrow> I t" "I s" "foldR f xs s = Some (Inr t)"
  shows "I t"
  using assms(2,3)
proof (induction xs arbitrary: s)
  case (Cons x xs)
  then obtain u where "f s x = Some (Inr u)" "foldR f xs u = Some (Inr t)" by (auto simp: res_iff)
  with Cons assms(1) show ?case by blast
qed simp

lemma check_next_function_on_bus:
  assumes "check_next_function hw rec b d sh n = Some (Inr th)" "on_bus b [fst sh]"
  shows "on_bus b [fst th]"
  using assms get_device_descriptor_bus[of hw b d "of_nat n" "snd sh"]
  by (auto simp: check_next_function_def case_prod_beta Let_def res_iff new_function_def split: if_splits)

lemma check_device_on_bus:
  assumes "check_device hw rec b dh n = Some (Inr th)" "on_bus b (fst dh)"
  shows "on_bus b (fst th)"
proof -
  let ?desc = "fst (get_device_descriptor hw b (of_nat n) 0 (snd (get_pci_device_register hw b (of_nat n) 0 0 (snd dh))))"
  note d = get_device_descriptor_bus[of hw b "of_nat n" 0 "snd (get_pci_device_register hw b (of_nat n) 0 0 (snd dh))"]
  have fs: "on_bus b [fst th]" if "foldR (check_next_function hw rec b (of_nat n)) fs (PciDevice ?desc [], h) = Some (Inr th)" for fs h th
  proof (rule foldR_preserves[where I = "\<lambda>sh. on_bus b [fst sh]", OF _ _ that])
    show "on_bus b [fst (PciDevice ?desc [], h)]" by (simp only: on_bus_simps fst_conv pci_device.sel d simp_thms)
  qed (rule check_next_function_on_bus)
  show ?thesis
  proof (cases "fst (get_pci_device_register hw b (of_nat n) 0 0 (snd dh)) AND 0xFFFF = 0xFFFF")
    case True
    then show ?thesis using assms by (auto simp: check_device_def case_prod_beta Let_def)
  next
    case False
    then obtain self h4 where "th = (self # fst dh, h4)" and "on_bus b [self]"
      using assms(1) d fs
      by (fastforce simp: check_device_def case_prod_beta Let_def res_iff split: if_splits)
    then show ?thesis using assms(2) by simp
  qed
qed

lemma scan_functions_on_bus:
  assumes "scan_functions hw is dh = Some (Inr th)" "on_bus 0 (fst dh)"
  shows "on_bus 0 (fst th)"
  using assms
proof (induction "is" arbitrary: dh)
  case (Cons i "is")
  let ?g = "get_device_descriptor hw 0 0 (of_nat i) (snd dh)"
  note d = get_device_descriptor_bus[of hw 0 0 "of_nat i" "snd dh"] get_device_descriptor_bus[of hw 0 0 0 "snd ?g"]
  have hd: "pd_bus (descriptor (hd (fst dh))) = 0 \<and> on_bus 0 (funcs (hd (fst dh)))" if "fst dh \<noteq> []"
    using Cons.prems(2) that by (cases "fst dh") auto
  from Cons.prems(1) show ?case
    using Cons.IH Cons.prems(2) d hd
    by (auto simp: case_prod_beta Let_def res_iff new_device_def new_function_def root_device_def split: if_splits)
qed simp

lemma init_pci_on_bus:
  assumes "init_pci hw h = Some (Inr (ds, h'))"
  shows "on_bus 0 ds"
proof -
  let ?h1 = "snd (get_device_descriptor hw 0 0 0 h)"
  from assms consider "scan_functions hw [0..<8] ([], ?h1) = Some (Inr (ds, h'))"
    | "foldR (check_device hw (check_bus hw) 0) [0..<32] ([], ?h1) = Some (Inr (ds, h'))"
    by (auto simp only: init_pci_def scan_pci_space_def case_prod_beta Let_def res_iff split: if_splits)
  then show ?thesis
  proof cases
    case 1
    then show ?thesis using scan_functions_on_bus[of hw "[0..<8]" "([], ?h1)"] by simp
  next
    case 2
    have "on_bus 0 (fst (ds, h'))"
      by (rule foldR_preserves[where I = "\<lambda>dh. on_bus 0 (fst dh)", OF _ _ 2]) (use check_device_on_bus in auto)
    then show ?thesis by simp
  qed
qed

lemma preorder_has_register:
  "list_all (has_register 2) (preorder (bus_devices cfg b))"
proof -
  have leaf: "preorder (map (\<lambda>x. PciDevice (k x) []) xs) = map (\<lambda>x. PciDevice (k x) []) xs" for k :: "nat \<Rightarrow> _" and xs
    by (induction xs) auto
  have dev: "list_all (has_register 2) (preorder [device_of cfg b d])" for d
    by (auto simp: device_of_def has_register_def desc_register_cfg list_all_iff rev_map leaf)
  have app: "preorder (xs @ ys) = preorder xs @ preorder ys" for xs ys
    by (induction xs) auto
  have "list_all (has_register 2) (preorder (map (device_of cfg b) ds))" for ds
  proof (induction ds)
    case (Cons d ds)
    then show ?case using dev[of d] app[of "[device_of cfg b d]" "map (device_of cfg b) ds"] by simp
  qed simp
  from this[of "rev (map of_nat (filter (\<lambda>d. present cfg b (of_nat d) 0) [0..<32]))"] show ?thesis
    by (simp only: bus_devices_def rev_map map_map comp_def)
qed

text \<open>A walk of the capability list: \<open>rd\<close> reads the register of a capability.\<close>

definition msi_id :: "u32 \<Rightarrow> bool" where
  "msi_id r \<longleftrightarrow> r AND 0xFF = 0x5 \<or> r AND 0xFF = 0x11"

definition next_cap :: "u32 \<Rightarrow> u8" where
  "next_cap r = ucast (drop_bit 8 (r AND 0xFF00))"

fun caps_linked :: "(u8 \<Rightarrow> u32) \<Rightarrow> u8 \<Rightarrow> u8 list \<Rightarrow> bool" where
  "caps_linked rd p [] \<longleftrightarrow> p = 0"
| "caps_linked rd p (q # qs) \<longleftrightarrow> p = q \<and> 0x48 \<le> q \<and> caps_linked rd (next_cap (rd q)) qs"

definition cap_reg :: "(u32 \<Rightarrow> u32) \<Rightarrow> u8 \<Rightarrow> u8 \<Rightarrow> u8 \<Rightarrow> u8 \<Rightarrow> u32" where
  "cap_reg cfg b d f p = cfg (get_pci_device_address b d f (word_of_int (uint p div 4)))"

lemma get_register_value_cfg:
  assumes "config_reads hw cfg" "0x48 \<le> p"
  shows "\<exists>h'. get_register_value hw (Some (PciDevice (desc_of cfg b d f) fs)) (uint p div 4) h = Inr (cap_reg cfg b d f p, h')"
proof -
  have "\<not> uint p div 4 < 0x12" using assms(2) by (simp add: word_le_def)
  then show ?thesis
    using get_register_cfg[OF assms(1), of b d f "word_of_int (uint p div 4)" h]
    by (simp add: get_register_value_def desc_of_def Let_def cap_reg_def)
qed

lemma get_register_value_low:
  assumes "0 \<le> i" "i < 16"
  shows "get_register_value hw (Some (PciDevice (desc_of cfg b d f) fs)) i h = Inr (cfg_reg cfg b d f (nat i), h)"
  using assms by (simp add: get_register_value_def desc_register_cfg Let_def)

text \<open>Testing one bit of a register.\<close>

lemma test_bit_mask:
  assumes "bit (r :: u32) n"
  shows "r AND push_bit n 1 \<noteq> 0"
proof
  assume z: "r AND push_bit n 1 = 0"
  have "bit (r AND push_bit n 1) n"
    using assms bit_imp_le_length[OF assms] by (simp only: bit_and_iff bit_push_bit_iff possible_bit_word) simp
  then show False unfolding z by simp
qed

lemma capability_loop_walks:
  assumes c: "config_reads hw cfg" and "caps_linked (cap_reg cfg b d f) p ps"
  shows "\<exists>h'. capability_loop hw (Some (PciDevice (desc_of cfg b d f) fs)) p h =
     Some (Inr (case find (\<lambda>p. msi_id (cap_reg cfg b d f p)) ps of None \<Rightarrow> 0 | Some p \<Rightarrow> ucast p, h'))"
  using assms(2)
proof (induction ps arbitrary: p h)
  case Nil
  then show ?case by (subst capability_loop.simps) simp
next
  case (Cons q qs)
  then have p: "p = q" "0x48 \<le> q" "caps_linked (cap_reg cfg b d f) (next_cap (cap_reg cfg b d f q)) qs" by auto
  then have "q \<noteq> 0" by auto
  from get_register_value_cfg[OF c p(2)] obtain h1
    where "get_register_value hw (Some (PciDevice (desc_of cfg b d f) fs)) (uint q div 4) h = Inr (cap_reg cfg b d f q, h1)" by blast
  with \<open>q \<noteq> 0\<close> p(1) have "capability_loop hw (Some (PciDevice (desc_of cfg b d f) fs)) p h =
      (if msi_id (cap_reg cfg b d f q) then Some (Inr (ucast q, h1))
       else capability_loop hw (Some (PciDevice (desc_of cfg b d f) fs)) (next_cap (cap_reg cfg b d f q)) h1)"
    by (subst capability_loop.simps) (simp add: msi_id_def next_cap_def)
  with Cons.IH[OF p(3), of h1] show ?case by auto
qed

text \<open>The configuration registers a trace writes, in order.\<close>

fun config_writes :: "trace \<Rightarrow> (u32 \<times> u32) list" where
  "config_writes [] = []"
| "config_writes (Out32 port v # Out32 port' a # h) =
     (if port = CONFIG_DATA \<and> port' = CONFIG_ADDRESS then config_writes h @ [(a, v)] else config_writes (Out32 port' a # h))"
| "config_writes (e # h) = config_writes h"

lemma config_writes_address: "config_writes (Out32 CONFIG_ADDRESS a # h) = config_writes h"
proof (cases h)
  case (Cons e k)
  then show ?thesis by (cases e) (simp_all add: CONFIG_ADDRESS_def CONFIG_DATA_def)
qed simp

lemma set_register_value_writes:
  "\<exists>h'. set_register_value hw (Some dev) i v h = (1, h') \<and> config_writes h' = config_writes h @
     [(get_pci_device_address (pd_bus (descriptor dev)) (pd_device (descriptor dev)) (pd_function (descriptor dev)) (word_of_int i), v)]"
  by (simp add: set_register_value_def set_pci_device_register_def io_defs CONFIG_ADDRESS_def CONFIG_DATA_def Let_def)

lemma scan_root_devices:
  assumes "config_reads hw cfg" "bridges_up cfg" "\<not> multi_function cfg 0 0"
  shows "\<exists>h'. init_pci hw h = Some (Inr (bus_devices cfg 0, h'))"
proof -
  obtain h1 where h1: "get_device_descriptor hw 0 0 0 h = (desc_of cfg 0 0 0, h1)"
    using get_device_descriptor_cfg[OF assms(1)] by blast
  have "ends (check_bus hw) (secondary cfg 0 d f)" for d f
    unfolding ends_def using check_bus_ends[OF assms(1,2)] by blast
  from check_devices_end[OF assms(1) this] obtain h' where
    "foldR (check_device hw (check_bus hw) 0) [0..<32] ([], h1) = Some (Inr (bus_devices cfg 0, h'))" by blast
  with assms(3) h1 show ?thesis
    by (simp only: init_pci_def scan_pci_space_def h1 prod.case Let_def desc_register_cfg multi_function_def) (simp add: desc_register_cfg)
qed

text \<open>Example: one SATA controller, device 2 of bus 0.\<close>

definition sata_cfg :: "u32 \<Rightarrow> u32" where
  "sata_cfg a = (if a AND 0xFC = 0 then (if drop_bit 8 (take_bit 24 a) = 0x10 then 0x29228086 else 0xFFFFFFFF)
     else if a AND 0xFC = 8 then 0x01060102 else 0)"

definition sata_machine :: machine where
  "sata_machine h e = (case (h, e) of (Out32 _ a # _, In32 _) \<Rightarrow> ucast (sata_cfg a) | _ \<Rightarrow> 0)"

lemma reg2_address: "get_pci_device_address b d f (of_nat 2) AND 0xFC = 8"
proof -
  have n: "(0xFC :: u32) = push_bit 2 (mask 6)" by (simp add: push_bit_eq_mult mask_eq_exp_minus_1)
  have r: "bit (of_nat 2 :: u32) k \<longleftrightarrow> k = 1" for k
  proof -
    have "(of_nat 2 :: u32) = push_bit 1 1" by simp
    then show ?thesis by (simp only: bit_push_bit_iff bit_1_iff) auto
  qed
  have e: "bit (8 :: u32) k \<longleftrightarrow> k = 3" for k
  proof -
    have "(8 :: u32) = push_bit 3 1" by simp
    then show ?thesis by (simp only: bit_push_bit_iff bit_1_iff) auto
  qed
  show ?thesis
    by (rule bit_word_eqI) (auto simp only: n e r bit_and_iff bit_address bit_push_bit_iff bit_mask_iff possible_bit_word len_num1 len_bit0 len_bit1)
qed

lemma sata_config: "config_reads sata_machine sata_cfg" "bridges_up sata_cfg" "\<not> multi_function sata_cfg 0 0"
proof -
  show "config_reads sata_machine sata_cfg" by (simp add: config_reads_def sata_machine_def)
  have "bits_8_upper (sata_cfg (get_pci_device_address b d f (of_nat 2))) = 1" for b d f
    by (simp only: sata_cfg_def reg2_address) code_simp
  then show "bridges_up sata_cfg" by (simp add: bridges_up_def is_bridge_def cfg_reg_def)
  show "\<not> multi_function sata_cfg 0 0" by code_simp
qed

definition msi_cfg :: "u32 \<Rightarrow> u32" where
  "msi_cfg a = (let r = a AND 0xFC in if r = 4 then 0x00100006 else if r = 0x34 then 0x70 else if r = 0x70 then 0x8001
     else if r = 0x80 then 0x00800005 else 0)"

definition msi_machine :: machine where
  "msi_machine h e = (case (h, e) of (Out32 _ a # _, In32 _) \<Rightarrow> ucast (msi_cfg a) | _ \<Rightarrow> 0)"

lemma msi_config: "config_reads msi_machine msi_cfg"
  by (simp add: config_reads_def msi_machine_def)

section \<open>Properties\<close>

text \<open>Configuration addresses are exact: for device numbers below 32 and function numbers below 8 the address
  holds bus, device, function and the low six bits of the register number in fields of their own, with the
  enable bit set.\<close>

theorem pci_address_fields:
  assumes "device < 32" "function < 8"
  shows "ucast (drop_bit 16 (get_pci_device_address bus device function reg)) = bus
     \<and> ucast (take_bit 5 (drop_bit 11 (get_pci_device_address bus device function reg))) = device
     \<and> ucast (take_bit 3 (drop_bit 8 (get_pci_device_address bus device function reg))) = function
     \<and> take_bit 6 (drop_bit 2 (get_pci_device_address bus device function reg)) = take_bit 6 reg
     \<and> bit (get_pci_device_address bus device function reg) 31"
proof -
  have dv: "bit device n \<Longrightarrow> n < 5" for n
  proof -
    have "take_bit 5 device = device"
      using assms(1) by (simp add: word_unat_eq_iff unsigned_take_bit_eq take_bit_nat_eq_self word_less_nat_alt)
    then show "bit device n \<Longrightarrow> n < 5" by (metis bit_take_bit_iff)
  qed
  have fn: "bit function n \<Longrightarrow> n < 3" for n
  proof -
    have "take_bit 3 function = function"
      using assms(2) by (simp add: word_unat_eq_iff unsigned_take_bit_eq take_bit_nat_eq_self word_less_nat_alt)
    then show "bit function n \<Longrightarrow> n < 3" by (metis bit_take_bit_iff)
  qed
  show ?thesis
  proof (intro conjI)
    show "ucast (drop_bit 16 (get_pci_device_address bus device function reg)) = bus"
      by (rule bit_word_eqI) (auto simp: bit_address bit_simps dest: dv fn)
    show "ucast (take_bit 5 (drop_bit 11 (get_pci_device_address bus device function reg))) = device"
      by (rule bit_word_eqI) (auto simp: bit_address bit_simps dest: dv fn)
    show "ucast (take_bit 3 (drop_bit 8 (get_pci_device_address bus device function reg))) = function"
      by (rule bit_word_eqI) (auto simp: bit_address bit_simps dest: dv fn)
    show "take_bit 6 (drop_bit 2 (get_pci_device_address bus device function reg)) = take_bit 6 reg"
      by (rule bit_word_eqI) (auto simp: bit_address bit_simps dest: dv fn)
    show "bit (get_pci_device_address bus device function reg) 31" by (simp add: bit_address)
  qed
qed

theorem pci_address_fields_witness:
  "ucast (drop_bit 16 (get_pci_device_address 3 31 2 9)) = (3 :: u8) \<and> bit (get_pci_device_address 3 31 2 9) 31"
  using pci_address_fields[of 31 2 3 9] by simp



text \<open>(C19) The device search returns the match with the given number: over a root bus whose devices have register 2,
  the result for skip count n is the n-th device, in the order of the search, functions before the next device,
  whose class and subclass are the ones asked for, and nothing when there are not more than n.\<close>

theorem locate_returns_nth_match:
  assumes "list_all (has_register 2) (preorder ds)"
  shows "locate_pci_device ds class_code sub_class_code n =
     (let hits = filter (matches 2 ((push_bit 24 class_code OR push_bit 16 sub_class_code) AND 0xFFFF0000) 0xFFFF0000) (preorder ds)
      in Inr (if unat n < length hits then Some (hits ! unat n) else None))"
  using search_bus_for_match_nth[OF assms] by (simp add: locate_pci_device_def Let_def)

theorem locate_returns_nth_match_witness:
  "locate_pci_device (bus_devices sata_cfg 0) 1 6 0 = Inr (Some (device_of sata_cfg 0 2))
   \<and> locate_pci_device (bus_devices sata_cfg 0) 1 6 1 = Inr None"
proof -
  have "filter (matches 2 ((push_bit 24 1 OR push_bit 16 6) AND 0xFFFF0000) 0xFFFF0000) (preorder (bus_devices sata_cfg 0))
      = [device_of sata_cfg 0 2]" by code_simp
  then show ?thesis using locate_returns_nth_match[OF preorder_has_register[of sata_cfg 0], of 1 6] by simp
qed

text \<open>(C33) Devices behind bridges are never found: whatever the hardware answers, a device that the search returns
  after the scan is on bus 0, because the buses of the bridges are linked nowhere.\<close>

theorem bridged_devices_not_found:
  assumes "init_pci hw h = Some (Inr (ds, h'))" "list_all (has_register 2) (preorder ds)"
    "locate_pci_device ds class_code sub_class_code n = Inr (Some d)"
  shows "pd_bus (descriptor d) = 0"
proof -
  let ?hits = "filter (matches 2 ((push_bit 24 class_code OR push_bit 16 sub_class_code) AND 0xFFFF0000) 0xFFFF0000) (preorder ds)"
  have "d = ?hits ! unat n" "unat n < length ?hits"
    using assms(3) search_bus_for_match_nth[OF assms(2)] by (auto simp: locate_pci_device_def Let_def split: if_splits)
  then have "d \<in> set (preorder ds)" by (metis nth_mem filter_is_subset subsetD)
  then show ?thesis using init_pci_on_bus[OF assms(1)] by (auto simp: on_bus_def list_all_iff)
qed

theorem bridged_devices_not_found_witness:
  "\<exists>h'. init_pci sata_machine [] = Some (Inr (bus_devices sata_cfg 0, h')) \<and> pd_bus (descriptor (device_of sata_cfg 0 2)) = 0"
proof -
  obtain h' where h': "init_pci sata_machine [] = Some (Inr (bus_devices sata_cfg 0, h'))"
    using scan_root_devices[OF sata_config, of "[]"] by blast
  have "locate_pci_device (bus_devices sata_cfg 0) 1 6 0 = Inr (Some (device_of sata_cfg 0 2))" by code_simp
  from bridged_devices_not_found[OF h' preorder_has_register this] h' show ?thesis by blast
qed

text \<open>The capability walk: for a device whose capability list lies above offset 0x47 and ends, the walk ends and
  gives the offset of the first capability with identifier 5 or 0x11, or 0 when there is none.\<close>

theorem msi_walk_finds_first:
  assumes "config_reads hw cfg" "bit (cfg_reg cfg b d f 1) 20"
    "caps_linked (cap_reg cfg b d f) (ucast (cfg_reg cfg b d f 13 AND 0xFC)) ps"
  shows "\<exists>h'. check_msi_capability hw (Some (PciDevice (desc_of cfg b d f) fs)) h =
     Some (Inr (case find (\<lambda>p. msi_id (cap_reg cfg b d f p)) ps of None \<Rightarrow> 0 | Some p \<Rightarrow> ucast p, h'))"
  using capability_loop_walks[OF assms(1,3), of fs h] test_bit_mask[OF assms(2)]
  by (simp add: check_msi_capability_def get_register_value_low)

theorem msi_walk_finds_first_witness:
  "\<exists>h'. check_msi_capability msi_machine (Some (PciDevice (desc_of msi_cfg 0 2 0) [])) [] = Some (Inr (0x80, h'))"
proof -
  have "caps_linked (cap_reg msi_cfg 0 2 0) (ucast (cfg_reg msi_cfg 0 2 0 13 AND 0xFC)) [0x70, 0x80]"
    "bit (cfg_reg msi_cfg 0 2 0 1) 20"
    "(case find (\<lambda>p. msi_id (cap_reg msi_cfg 0 2 0 p)) [0x70, 0x80] of None \<Rightarrow> 0 | Some p \<Rightarrow> ucast p) = (0x80 :: u32)" by code_simp+
  then show ?thesis using msi_walk_finds_first[OF msi_config, of 0 2 0 "[0x70, 0x80]" "[]" "[]"] by simp
qed

text \<open>A capability at offset 0x40 or 0x44, right behind the standard header, is read from descriptor entries that
  were never stored: the descriptor is used for registers below 0x12 but is filled up to 0xF only, unless the
  header is that of a card bus bridge.\<close>

theorem low_capability_reads_garbage:
  assumes "bit (cfg_reg cfg b d f 1) 20" "cfg_reg cfg b d f 13 AND 0xFC \<in> {0x40, 0x44}"
    "bits_8_upper_mid (cfg_reg cfg b d f 3) AND 0x7F \<noteq> 2"
  shows "check_msi_capability hw (Some (PciDevice (desc_of cfg b d f) fs)) h = Some (Inl Uninitialised)"
proof -
  have "desc_register (desc_of cfg b d f) 16 = Inl Uninitialised" "desc_register (desc_of cfg b d f) 17 = Inl Uninitialised"
    using assms(3) by (simp_all add: desc_register_def desc_of_def nth_append)
  then have "get_register_value hw (Some (PciDevice (desc_of cfg b d f) fs)) 16 h = Inl Uninitialised"
    "get_register_value hw (Some (PciDevice (desc_of cfg b d f) fs)) 17 h = Inl Uninitialised"
    by (simp_all add: get_register_value_def Let_def)
  then show ?thesis using assms(2) test_bit_mask[OF assms(1)]
    by (auto simp: check_msi_capability_def get_register_value_low capability_loop.simps)
qed

theorem low_capability_reads_garbage_witness:
  "check_msi_capability msi_machine (Some (PciDevice (desc_of (msi_cfg(get_pci_device_address 0 2 0 13 := 0x40)) 0 2 0) [])) []
     = Some (Inl Uninitialised)"
  by (rule low_capability_reads_garbage) code_simp+

text \<open>Enabling message signalled interrupts: for a capability above offset 0x47 that is not MSI-X and supports
  64-bit addresses, the handler is entered for vector 0x79 and exactly four configuration registers of the device
  are written, in this order: the message data, the low and the high half of the message address, the control
  word with only the enable bit.\<close>

theorem enable_msi_programs:
  assumes "config_reads hw cfg" "idt_wf t" "0x48 \<le> p" "p \<le> 0xF0"
    "cap_reg cfg b d f p AND 0xFF \<noteq> 0x11" "bit (cap_reg cfg b d f p) 23"
  shows "\<exists>t' h'. enable_msi hw lapic (Some (PciDevice (desc_of cfg b d f) fs)) (uint p) handler (t, h) = Inr (1, t', h')
     \<and> isr_handler_table t' = (isr_handler_table t)[0x79 := handler]
     \<and> config_writes h' = config_writes h @ (let reg = uint p div 4; addr = (\<lambda>i. get_pci_device_address b d f (word_of_int i)) in
         [(addr (reg + 3), 0x79), (addr (reg + 1), ucast lapic), (addr (reg + 2), 0), (addr reg, 0x10000)])"
proof -
  let ?dev = "PciDevice (desc_of cfg b d f) fs"
  define reg where "reg = uint p div 4"
  have p: "0x48 \<le> uint p" "uint p \<le> 0xF0" using assms(3,4) by (simp_all add: word_le_def)
  then have r: "18 \<le> reg" "reg \<le> 60" by (simp_all add: reg_def)
  have u: "uint (word_of_int reg :: u8) = reg" using r by (simp add: uint_word_of_int)
  have u': "uint (word_of_int reg + k :: u8) = reg + uint k" if "k < 4" for k
  proof -
    have "uint k < 4" using that by (simp add: word_less_def)
    then show ?thesis using r u by (simp add: uint_word_ariths)
  qed
  have sd: "uint p sdiv 4 = reg" using p by (auto simp: reg_def signed_divide_int_def)
  obtain h0 where h0: "get_register_value hw (Some ?dev) reg h = Inr (cap_reg cfg b d f p, h0)"
    using get_register_value_cfg[OF assms(1,3)] unfolding reg_def by blast
  have cw: "config_writes h0 = config_writes h"
    using h0 r by (auto simp: get_register_value_def get_pci_device_register_def io_defs Let_def config_writes_address)
  have ctrl: "drop_bit 16 (cap_reg cfg b d f p) AND push_bit 7 1 \<noteq> 0"
    by (rule test_bit_mask) (use assms(6) in \<open>simp add: bit_drop_bit_eq\<close>)
  let ?addr = "\<lambda>i. get_pci_device_address b d f (word_of_int i)"
  have w: "\<exists>h'. set_register_value hw (Some ?dev) i v k = (1, h') \<and> config_writes h' = config_writes k @ [(?addr i, v)]" for i v k
    using set_register_value_writes[of hw ?dev i v k] by (simp add: desc_of_def)
  obtain h1 where h1: "set_register_value hw (Some ?dev) (reg + 3) 0x79 h0 = (1, h1)"
    "config_writes h1 = config_writes h0 @ [(?addr (reg + 3), 0x79)]" using w by blast
  obtain h2 where h2: "set_register_value hw (Some ?dev) (reg + 1) (ucast lapic) h1 = (1, h2)"
    "config_writes h2 = config_writes h1 @ [(?addr (reg + 1), ucast lapic)]" using w by blast
  obtain h3 where h3: "set_register_value hw (Some ?dev) (2 + reg) 0 h2 = (1, h3)"
    "config_writes h3 = config_writes h2 @ [(?addr (2 + reg), 0)]" using w by blast
  obtain h4 where h4: "set_register_value hw (Some ?dev) reg (push_bit 16 1) h3 = (1, h4)"
    "config_writes h4 = config_writes h3 @ [(?addr reg, push_bit 16 1)]" using w by blast
  have "enable_msi hw lapic (Some ?dev) (uint p) handler (t, h) =
      Inr (1, t\<lparr>isr_handler_table := (isr_handler_table t)[0x79 := handler]\<rparr>, h4)"
    using assms(5) ctrl u u'[of 3] u'[of 1] sd h0 h1(1) h2(1) h3(1) h4(1) register_handler_iff[OF assms(2), of 121 handler]
    by (simp add: enable_msi_def Let_def)
  with h1(2) h2(2) h3(2) h4(2) cw show ?thesis by (simp add: reg_def Let_def add.commute[of _ 2])
qed

theorem enable_msi_programs_witness:
  "\<exists>t' h'. enable_msi msi_machine 0xFEE00000 (Some (PciDevice (desc_of msi_cfg 0 2 0) [])) (uint (0x80 :: u8)) 7
       (\<lparr>entries = replicate 256 (idt_gate 0), isr_handler_table = replicate 256 0\<rparr>, []) = Inr (1, t', h') \<and> isr_handler_table t' ! 0x79 = 7"
proof -
  have "cap_reg msi_cfg 0 2 0 0x80 AND 0xFF \<noteq> 0x11" "bit (cap_reg msi_cfg 0 2 0 0x80) 23" by code_simp+
  moreover have "idt_wf \<lparr>entries = replicate 256 (idt_gate 0), isr_handler_table = replicate 256 0\<rparr>" by (simp add: idt_wf_def)
  ultimately show ?thesis
    using enable_msi_programs[OF msi_config, where p = "0x80" and b = 0 and d = 2 and f = 0 and lapic = "0xFEE00000"
        and fs = "[]" and handler = 7 and h = "[]"] by fastforce
qed

end
