(* ===== verification/Acpi.thy ===== *)
theory Acpi
  imports CString Paging Hardware Interrupts
begin

text \<open>
  ACPI tables and interrupt controllers: \<^verbatim>\<open>acpi.c\<close>, \<^verbatim>\<open>madt.c\<close>, \<^verbatim>\<open>ioapic.c\<close>, \<^verbatim>\<open>lapic.c\<close>, \<^verbatim>\<open>mcfg.c\<close>,
  \<^verbatim>\<open>timer.c\<close> of \<^verbatim>\<open>lethe-kernel/acpi\<close>, the interrupt line functions of \<^verbatim>\<open>cpu/idt.c\<close> and the configuration
  record of \<^verbatim>\<open>include/config.h\<close>. The tables are read from a byte memory that the kernel does not change; packed
  structs are offsets into it. The page tables are those of theory Paging, register accesses are the events of
  theory Hardware. The walk over the interrupt controller structures adds a length octet it reads from the
  table and need not end: it is a partial function.
\<close>

section \<open>Configuration\<close>

record timer_subconfig =
  timer_source :: "3 word"
  apic_tsc_deadline :: "1 word"
  tsc_invariant :: "1 word"
  tsc_freq_khz :: u32

record kernel_config =
  kexit :: "1 word"
  interrupts_enabled :: "1 word"
  interrupt_source :: "2 word"
  multitasking_enabled :: "1 word"
  timers :: timer_subconfig
  has_mcfg :: "1 word"

section \<open>Reading packed structs\<close>

text \<open>Offsets of the fields that the code reads: \<^verbatim>\<open>acpi_header_t\<close>, \<^verbatim>\<open>acpi_xsdp_t\<close>, \<^verbatim>\<open>acpi_xsdt_t\<close>,
  \<^verbatim>\<open>acpi_fadt_t\<close>, \<^verbatim>\<open>acpi_madt_t\<close> and \<^verbatim>\<open>acpi_mcfg_t\<close>, all packed.\<close>

definition sizeof_acpi_header :: u64 where "sizeof_acpi_header = 36"
definition hdr_length :: "mem \<Rightarrow> ptr \<Rightarrow> u32" where "hdr_length m sdt = rd32 m (sdt + 4)"
definition xsdp_xsdt :: "mem \<Rightarrow> ptr \<Rightarrow> u64" where "xsdp_xsdt m rsdp = rd64 m (rsdp + 24)"
definition xsdt_table :: "mem \<Rightarrow> ptr \<Rightarrow> nat \<Rightarrow> u64" where "xsdt_table m xsdt i = rd64 m (xsdt + 36 + of_nat (8 * i))"
definition fadt_x_dsdt :: "mem \<Rightarrow> ptr \<Rightarrow> u64" where "fadt_x_dsdt m fadt = rd64 m (fadt + 140)"
definition madt_lapic :: "mem \<Rightarrow> ptr \<Rightarrow> u32" where "madt_lapic m p = rd32 m (p + 36)"
definition madt_flags :: "mem \<Rightarrow> ptr \<Rightarrow> u32" where "madt_flags m p = rd32 m (p + 40)"
definition madt_structure :: "mem \<Rightarrow> ptr \<Rightarrow> u64 \<Rightarrow> u8" where "madt_structure m p i = m (p + 44 + i)"

section \<open>State\<close>

record mcfg_entry =
  base_address :: u64
  group_num :: u16
  bus_start :: u8
  bus_end :: u8

record acpi =
  XSDT :: ptr
  madt :: ptr
  MCFG :: ptr
  mcfg_list :: "mcfg_entry list"
  lapic_addr :: u64
  kconf :: kernel_config
  pages :: mm
  io :: trace

section \<open>Tables\<close>

definition sdt_checksum :: "mem \<Rightarrow> ptr \<Rightarrow> bool res" where
  "sdt_checksum m sdt =
     (let n = unat (hdr_length m sdt) in
      bindE (guardE SignedOverflow (int n \<le> INT_MAX)) (\<lambda>_.
      Inr (foldl (\<lambda>sum i. sum + m (sdt + of_nat i)) 0 [0..<n] = 0)))"

text \<open>\<^verbatim>\<open>strncmp\<close> of theory CString with a literal as its first argument.\<close>

fun strncmp_lit :: "mem \<Rightarrow> u8 list \<Rightarrow> ptr \<Rightarrow> nat \<Rightarrow> int" where
  "strncmp_lit m s p 0 = 0"
| "strncmp_lit m [] p (Suc n) = 0"
| "strncmp_lit m (c # s) p (Suc n) =
     (if c = 0 \<or> m p = 0 then 0 else if sint c < sint (m p) then -1 else if sint c > sint (m p) then 1
      else strncmp_lit m s (p + 1) n)"

fun scan_loop :: "mem \<Rightarrow> u64 \<Rightarrow> ptr \<Rightarrow> u8 list \<Rightarrow> nat \<Rightarrow> nat \<Rightarrow> nat list \<Rightarrow> ptr" where
  "scan_loop m hhdm xsdt sig index current_index [] = NULL"
| "scan_loop m hhdm xsdt sig index current_index (i # is) =
     (let sdt = xsdt_table m xsdt i + hhdm in
      if strncmp_lit m sig sdt 4 = 0
      then if current_index \<noteq> index then scan_loop m hhdm xsdt sig index (current_index + 1) is else sdt
      else scan_loop m hhdm xsdt sig index current_index is)"

definition xsdt_entries :: "mem \<Rightarrow> ptr \<Rightarrow> int" where
  "xsdt_entries m xsdt = sint (ucast ((ucast (hdr_length m xsdt) - sizeof_acpi_header) div 8) :: u32)"

definition scan_xsdt :: "mem \<Rightarrow> u64 \<Rightarrow> ptr \<Rightarrow> u8 list \<Rightarrow> nat \<Rightarrow> ptr res" where
  "scan_xsdt m hhdm xsdt sig index =
     bindE (guardE NullDeref (xsdt \<noteq> NULL)) (\<lambda>_.
     Inr (scan_loop m hhdm xsdt sig index 0 [0..<nat (xsdt_entries m xsdt)]))"

definition scan_tables :: "mem \<Rightarrow> u64 \<Rightarrow> ptr \<Rightarrow> u8 list \<Rightarrow> nat \<Rightarrow> ptr res" where
  "scan_tables m hhdm xsdt sig index =
     (if char_cmp (take 4 sig) (lit ''DSDT'') = 0
      then bindE (scan_xsdt m hhdm xsdt (lit ''FACP'') 0) (\<lambda>fadt.
           bindE (guardE NullDeref (fadt \<noteq> NULL)) (\<lambda>_. Inr (fadt_x_dsdt m fadt + hhdm)))
      else scan_xsdt m hhdm xsdt sig index)"

section \<open>Interrupt controller structures\<close>

definition PIC1_DATA :: u16 where "PIC1_DATA = 0x21"
definition PIC2_DATA :: u16 where "PIC2_DATA = 0xA1"

definition PIC1_COMMAND :: u16 where "PIC1_COMMAND = 0x20"
definition PIC2_COMMAND :: u16 where "PIC2_COMMAND = 0xA0"
definition ICW1_ICW4 :: u8 where "ICW1_ICW4 = 0x01"
definition ICW1_INIT :: u8 where "ICW1_INIT = 0x10"
definition ICW4_8086 :: u8 where "ICW4_8086 = 0x01"
definition CASCADE_IRQ :: nat where "CASCADE_IRQ = 2"

definition io_wait :: "trace \<Rightarrow> trace" where
  "io_wait h = outb 0x80 0 h"

text \<open>Writing the initialisation words, each followed by a delay, then clearing both masks.\<close>

definition start_pic :: "trace \<Rightarrow> trace" where
  "start_pic h =
     outb PIC2_DATA 0 (outb PIC1_DATA 0
       (foldl (\<lambda>h (port, val). io_wait (outb port val h)) h
          [(PIC1_COMMAND, ICW1_INIT OR ICW1_ICW4), (PIC2_COMMAND, ICW1_INIT OR ICW1_ICW4), (PIC1_DATA, 0x20), (PIC2_DATA, 0x28),
           (PIC1_DATA, push_bit CASCADE_IRQ 1), (PIC2_DATA, 2), (PIC1_DATA, ICW4_8086), (PIC2_DATA, ICW4_8086)]))"

definition mask_pic :: "trace \<Rightarrow> trace" where
  "mask_pic h = outb PIC2_DATA 0xFF (outb PIC1_DATA 0xFF h)"

definition madt_init :: "mem \<Rightarrow> u64 \<Rightarrow> acpi \<Rightarrow> acpi res" where
  "madt_init m hhdm s =
     bindE (scan_tables m hhdm (XSDT s) (lit ''APIC'') 0) (\<lambda>p.
     let s1 = s\<lparr>madt := p, kconf := (kconf s)\<lparr>interrupt_source := (if p = NULL then 1 else 2)\<rparr>\<rparr> in
     bindE (guardE NullDeref (p \<noteq> NULL)) (\<lambda>_.
     Inr (if madt_flags m p AND 1 = 1 then s1\<lparr>io := mask_pic (io s1)\<rparr> else s1)))"

text \<open>The bound of \<^verbatim>\<open>MADT_LOOP\<close> is a 32-bit difference; the increment is a signed character.\<close>

definition madt_bound :: "mem \<Rightarrow> ptr \<Rightarrow> u64" where
  "madt_bound m p = ucast (hdr_length m p - 44)"

definition madt_next :: "mem \<Rightarrow> ptr \<Rightarrow> u64 \<Rightarrow> u64" where
  "madt_next m p i = i + scast (madt_structure m p (i + 1))"

partial_function (option) override_loop :: "mem \<Rightarrow> ptr \<Rightarrow> u8 \<Rightarrow> u64 \<Rightarrow> ptr option" where
  "override_loop m p irq i =
     (if i < madt_bound m p
      then if madt_structure m p i \<noteq> 2 then override_loop m p irq (madt_next m p i)
           else if madt_structure m p (i + 3) \<noteq> irq then override_loop m p irq (madt_next m p i)
           else Some (p + 44 + i)
      else Some NULL)"

definition madt_get_override_for_irq :: "mem \<Rightarrow> acpi \<Rightarrow> u8 \<Rightarrow> ptr run" where
  "madt_get_override_for_irq m s irq =
     (if madt s = NULL then Some (Inl NullDeref) else map_option Inr (override_loop m (madt s) irq 0))"

text \<open>\<^verbatim>\<open>MADT_ADDR32\<close>, and the walk of \<^verbatim>\<open>madt_get_ioapic\<close> to the entry it stops at.\<close>

definition madt_addr32 :: "mem \<Rightarrow> ptr \<Rightarrow> u64 \<Rightarrow> u32" where
  "madt_addr32 m p i = rd32 m (p + 44 + i)"

partial_function (option) ioapic_loop :: "mem \<Rightarrow> ptr \<Rightarrow> u32 \<Rightarrow> u64 \<Rightarrow> u64 option option" where
  "ioapic_loop m p gsi i =
     (if i < madt_bound m p
      then if madt_structure m p i \<noteq> 1 then ioapic_loop m p gsi (madt_next m p i)
           else if madt_addr32 m p (i + 8) \<noteq> gsi then ioapic_loop m p gsi (madt_next m p i)
           else Some (Some i)
      else Some None)"

definition madt_get_ioapic :: "mem \<Rightarrow> u64 \<Rightarrow> u32 \<Rightarrow> acpi \<Rightarrow> (u64 \<times> acpi) run" where
  "madt_get_ioapic m hhdm gsi s =
     (if madt s = NULL then Some (Inl NullDeref)
      else case ioapic_loop m (madt s) gsi 0 of
        None \<Rightarrow> None
      | Some None \<Rightarrow> Some (Inl (Panic ''No IO APIC found''))
      | Some (Some i) \<Rightarrow>
          (let address = ucast (madt_addr32 m (madt s) (i + 4)) in
           Some (bindE (if virtual_to_physical (pages s) (address + hhdm) = 0
                        then map_page (pages s) (address + hhdm) address 3 else Inr (pages s)) (\<lambda>pg.
                 Inr (address + hhdm, s\<lparr>pages := pg\<rparr>)))))"

definition madt_get_lapic_addr :: "mem \<Rightarrow> u64 \<Rightarrow> acpi \<Rightarrow> (u64 \<times> acpi) res" where
  "madt_get_lapic_addr m hhdm s =
     bindE (guardE NullDeref (madt s \<noteq> NULL)) (\<lambda>_.
     let phys_addr = ucast (madt_lapic m (madt s)) in
     bindE (map_page (pages s) (phys_addr + hhdm) phys_addr 3) (\<lambda>pg. Inr (phys_addr + hhdm, s\<lparr>pages := pg\<rparr>)))"

section \<open>Local APIC\<close>

definition lapic_write :: "u16 \<Rightarrow> u32 \<Rightarrow> acpi \<Rightarrow> acpi" where
  "lapic_write offset value s = s\<lparr>io := write32 (lapic_addr s + ucast offset) value (io s)\<rparr>"

definition lapic_read :: "machine \<Rightarrow> u16 \<Rightarrow> acpi \<Rightarrow> u32 \<times> acpi" where
  "lapic_read hw offset s = (let (v, h) = read32 hw (lapic_addr s + ucast offset) (io s) in (v, s\<lparr>io := h\<rparr>))"

definition lapic_init :: "mem \<Rightarrow> u64 \<Rightarrow> acpi \<Rightarrow> acpi res" where
  "lapic_init m hhdm s = bindE (madt_get_lapic_addr m hhdm s) (\<lambda>(a, s1). Inr (s1\<lparr>lapic_addr := a\<rparr>))"

definition lapic_addr_phys :: "u64 \<Rightarrow> acpi \<Rightarrow> u64" where
  "lapic_addr_phys hhdm s = lapic_addr s - hhdm"

definition lapic_enable :: "machine \<Rightarrow> acpi \<Rightarrow> acpi" where
  "lapic_enable hw s =
     (let ((low, high), h1) = read_msr hw 0x1B (io s);
          s1 = s\<lparr>io := write_msr 0x1B ((low OR 0x800) AND NOT 0x100) high h1\<rparr>;
          (v, s2) = lapic_read hw 0xF0 s1
      in lapic_write 0xF0 (v OR 0x100) s2)"

definition lapic_disable :: "machine \<Rightarrow> acpi \<Rightarrow> acpi" where
  "lapic_disable hw s = (let (v, s1) = lapic_read hw 0xF0 s in lapic_write 0xF0 (v AND NOT 0x100) s1)"

definition lapic_send_eoi :: "acpi \<Rightarrow> acpi" where
  "lapic_send_eoi s = lapic_write 0xB0 0 s"

text \<open>The TSC-deadline timer of \<^verbatim>\<open>timer.c\<close>.\<close>

definition apic_enable_timer :: "machine \<Rightarrow> acpi \<Rightarrow> acpi" where
  "apic_enable_timer hw s = (let (_, s1) = lapic_read hw 0x320 s in lapic_write 0x320 (32 OR push_bit 18 1) s1)"

section \<open>IO APIC\<close>

record ioapic_redtbl_t =
  pin :: u8
  vector :: u8
  delivery_mode :: "3 word"
  destination_mode :: "1 word"
  delivery_status :: "1 word"
  pin_polarity :: "1 word"
  remote_irr :: "1 word"
  trigger_mode :: "1 word"
  red_mask :: "1 word"
  destination :: u8

definition write_ioapic :: "u64 \<Rightarrow> u8 \<Rightarrow> u32 \<Rightarrow> trace \<Rightarrow> trace" where
  "write_ioapic ioregsel offset value h = write32 (ioregsel + 0x10) value (write32 ioregsel (ucast offset) h)"

definition read_ioapic :: "machine \<Rightarrow> u64 \<Rightarrow> u8 \<Rightarrow> trace \<Rightarrow> u32 \<times> trace" where
  "read_ioapic hw ioregsel offset h = read32 hw (ioregsel + 0x10) (write32 ioregsel (ucast offset) h)"

definition set_redirection_table_entry :: "u64 \<Rightarrow> ioapic_redtbl_t \<Rightarrow> trace \<Rightarrow> trace" where
  "set_redirection_table_entry ioregsel redtbl h =
     write_ioapic ioregsel (pin redtbl + 1) (ucast (push_bit 56 (ucast (destination redtbl) :: u64)))
       (write_ioapic ioregsel (pin redtbl)
          (push_bit 15 (ucast (trigger_mode redtbl)) OR push_bit 13 (ucast (pin_polarity redtbl)) OR
           push_bit 11 (ucast (destination_mode redtbl)) OR push_bit 8 (ucast (delivery_mode redtbl)) OR ucast (vector redtbl)) h)"

text \<open>Fields of \<^verbatim>\<open>madt_interrupt_source_override_t\<close>.\<close>

definition iso_gsi :: "mem \<Rightarrow> ptr \<Rightarrow> u32" where "iso_gsi m p = rd32 m (p + 4)"
definition iso_polarity :: "mem \<Rightarrow> ptr \<Rightarrow> 2 word" where "iso_polarity m p = ucast (m (p + 8))"
definition iso_trigger_mode :: "mem \<Rightarrow> ptr \<Rightarrow> 2 word" where "iso_trigger_mode m p = ucast (drop_bit 2 (m (p + 8)))"

definition ioapic_disable_irq :: "mem \<Rightarrow> u64 \<Rightarrow> int \<Rightarrow> acpi \<Rightarrow> acpi run" where
  "ioapic_disable_irq m hhdm irq s =
     bindR (madt_get_ioapic m hhdm 0 s) (\<lambda>(register_selector, s1).
     bindR (madt_get_override_for_irq m s1 (word_of_int irq)) (\<lambda>ov.
     let p = (if ov \<noteq> NULL then 0x10 + iso_gsi m ov * 2 else word_of_int (0x10 + irq * 2)) in
     Some (Inr (s1\<lparr>io := write_ioapic register_selector (ucast p) (push_bit 16 1) (io s1)\<rparr>))))"

definition ioapic_enable_irq :: "mem \<Rightarrow> u64 \<Rightarrow> int \<Rightarrow> int \<Rightarrow> acpi \<Rightarrow> acpi run" where
  "ioapic_enable_irq m hhdm irq vec s =
     bindR (madt_get_ioapic m hhdm 0 s) (\<lambda>(register_selector, s1).
     bindR (madt_get_override_for_irq m s1 (word_of_int irq)) (\<lambda>ov.
     let redtbl = \<lparr>pin = (if ov \<noteq> NULL then ucast (0x10 + iso_gsi m ov * 2) else word_of_int (0x10 + irq * 2)),
           vector = word_of_int vec, delivery_mode = 0, destination_mode = 0, delivery_status = 0,
           pin_polarity = (if ov \<noteq> NULL then ucast (iso_polarity m ov) else 0), remote_irr = 0,
           trigger_mode = (if ov \<noteq> NULL then ucast (iso_trigger_mode m ov) else 0), red_mask = 0, destination = 0\<rparr>
     in Some (Inr (s1\<lparr>io := set_redirection_table_entry register_selector redtbl (io s1)\<rparr>))))"

text \<open>The two functions of \<^verbatim>\<open>idt.c\<close> that join line and handler.\<close>

definition enable_irq :: "mem \<Rightarrow> u64 \<Rightarrow> int \<Rightarrow> int \<Rightarrow> ptr \<Rightarrow> idt \<times> acpi \<Rightarrow> (idt \<times> acpi) run" where
  "enable_irq m hhdm irq vec handler ts =
     bindR (if interrupt_source (kconf (snd ts)) = 2 then ioapic_enable_irq m hhdm irq vec (snd ts) else Some (Inr (snd ts))) (\<lambda>s1.
     bindR (Some (register_handler (fst ts) vec handler)) (\<lambda>t1. Some (Inr (t1, s1))))"

definition disable_irq :: "mem \<Rightarrow> u64 \<Rightarrow> int \<Rightarrow> int \<Rightarrow> idt \<times> acpi \<Rightarrow> (idt \<times> acpi) run" where
  "disable_irq m hhdm irq vec ts =
     bindR (if interrupt_source (kconf (snd ts)) = 2 then ioapic_disable_irq m hhdm irq (snd ts) else Some (Inr (snd ts))) (\<lambda>s1.
     bindR (Some (unregister_handler (fst ts) vec)) (\<lambda>t1. Some (Inr (t1, s1))))"

section \<open>Memory-mapped configuration\<close>

text \<open>\<^verbatim>\<open>config_space[i]\<close> of \<^verbatim>\<open>acpi_mcfg_t\<close>, which follows the header.\<close>

definition new_entry :: "mem \<Rightarrow> ptr \<Rightarrow> nat \<Rightarrow> mcfg_entry" where
  "new_entry m p i = (let a = p + 36 + of_nat (16 * i) in
     \<lparr>base_address = rd64 m a, group_num = rd16 m (a + 8), bus_start = m (a + 10), bus_end = m (a + 11)\<rparr>)"

text \<open>A new entry is linked in right after the first one.\<close>

fun insert_second :: "'a list \<Rightarrow> 'a \<Rightarrow> 'a list" where
  "insert_second [] e = [e]"
| "insert_second (x # xs) e = x # e # xs"

definition parse_mcfg :: "mem \<Rightarrow> acpi \<Rightarrow> acpi" where
  "parse_mcfg m s =
     (if MCFG s = NULL then s
      else if mcfg_list s \<noteq> [] then s
      else let config_space_length = hdr_length m (MCFG s) - 44;
               n = unat config_space_length div 16
           in s\<lparr>mcfg_list := foldl insert_second [new_entry m (MCFG s) 0] (map (new_entry m (MCFG s)) [1..<n])\<rparr>)"

definition init_mcfg :: "mem \<Rightarrow> u64 \<Rightarrow> acpi \<Rightarrow> acpi res" where
  "init_mcfg m hhdm s =
     bindE (scan_tables m hhdm (XSDT s) (lit ''MCFG'') 0) (\<lambda>p.
     Inr (if p = NULL then s else parse_mcfg m (s\<lparr>kconf := (kconf s)\<lparr>has_mcfg := 1\<rparr>, MCFG := p\<rparr>)))"

definition get_mmio_ecam_addr :: "u16 \<Rightarrow> u8 \<Rightarrow> acpi \<Rightarrow> ptr res" where
  "get_mmio_ecam_addr grp bus s = Inl (Panic ''dont use this yet'')"

definition acpi_early_init :: "mem \<Rightarrow> u64 \<Rightarrow> ptr \<Rightarrow> acpi \<Rightarrow> acpi res" where
  "acpi_early_init m hhdm rsdp s =
     (let s1 = s\<lparr>XSDT := xsdp_xsdt m rsdp + hhdm\<rparr> in
      bindE (sdt_checksum m (XSDT s1)) (\<lambda>ok.
      bindE (guardE (Panic ''Failed to parse ACPI tables'') ok) (\<lambda>_.
      bindE (madt_init m hhdm s1) (\<lambda>s2.
      bindE (lapic_init m hhdm s2) (\<lambda>s3.
      init_mcfg m hhdm s3)))))"

section \<open>Lemmas\<close>

lemma strncmp_lit_eq:
  "cstr m q s \<Longrightarrow> strncmp_loop m q p n = strncmp_lit m s p n"
proof (induction n arbitrary: q p s)
  case (Suc n)
  then show ?case by (cases s) auto
qed simp

lemma scan_loop_nth:
  assumes "cur \<le> index"
  shows "scan_loop m hhdm xsdt sig index cur is =
     (let hits = filter (\<lambda>sdt. strncmp_lit m sig sdt 4 = 0) (map (\<lambda>i. xsdt_table m xsdt i + hhdm) is) in
      if index - cur < length hits then hits ! (index - cur) else NULL)"
  using assms
proof (induction "is" arbitrary: cur)
  case (Cons i "is")
  let ?hit = "strncmp_lit m sig (xsdt_table m xsdt i + hhdm) 4 = 0"
  show ?case
  proof (cases "?hit \<and> cur \<noteq> index")
    case True
    then have "index - cur = Suc (index - Suc cur)" using Cons.prems by (metis Suc_diff_Suc le_neq_implies_less)
    with True Cons.IH[of "Suc cur"] Cons.prems show ?thesis by (simp add: Let_def)
  next
    case False
    then show ?thesis using Cons by (auto simp: Let_def)
  qed
qed simp

text \<open>The number of tables of a root table whose length is that of n entries.\<close>

lemma xsdt_entries_eq:
  assumes "unat (hdr_length m xsdt) = 36 + 8 * n"
  shows "xsdt_entries m xsdt = int n"
proof -
  have "36 + 8 * n < 2 ^ 32" using assms unsigned_less[of "hdr_length m xsdt", where 'a = nat] by simp
  then have n: "n < 2 ^ 29" by simp
  have len: "(ucast (hdr_length m xsdt) :: u64) = of_nat (36 + 8 * n)"
    using of_nat_unat[of "hdr_length m xsdt", where 'a = u64] assms by simp
  have "(ucast (hdr_length m xsdt) - sizeof_acpi_header) = (of_nat (8 * n) :: u64)"
    unfolding len sizeof_acpi_header_def by simp
  moreover have "(of_nat (8 * n) :: u64) div 8 = of_nat n"
  proof -
    have "unat (of_nat (8 * n) :: u64) = 8 * n" "unat (of_nat n :: u64) = n"
      using n by (simp_all add: unsigned_of_nat take_bit_nat_eq_self del: of_nat_mult)
    then show ?thesis by (simp add: word_unat_eq_iff unat_div_distrib del: of_nat_mult)
  qed
  moreover have "sint (ucast (of_nat n :: u64) :: u32) = int n"
    using n by (simp add: ucast_down_of_nat sint_of_nat_small)
  ultimately show ?thesis by (simp only: xsdt_entries_def)
qed

text \<open>A list of interrupt controller structures as raw entries: \<open>madt_entries\<close> says that they lie in the table from
  offset i to its end, \<open>find_entry\<close> gives the offset of the first one with a property.\<close>

definition entry_ok :: "u8 list \<Rightarrow> bool" where
  "entry_ok e \<longleftrightarrow> 2 \<le> length e \<and> length e \<le> 127 \<and> e ! 1 = of_nat (length e)
     \<and> (e ! 0 = 2 \<longrightarrow> 4 \<le> length e) \<and> (e ! 0 = 1 \<longrightarrow> 12 \<le> length e)"

fun madt_entries :: "mem \<Rightarrow> ptr \<Rightarrow> u64 \<Rightarrow> u8 list list \<Rightarrow> bool" where
  "madt_entries m p i [] \<longleftrightarrow> i = madt_bound m p"
| "madt_entries m p i (e # es) \<longleftrightarrow> i < madt_bound m p \<and> entry_ok e
     \<and> list_all (\<lambda>k. madt_structure m p (i + of_nat k) = e ! k) [0..<length e] \<and> madt_entries m p (i + of_nat (length e)) es"

fun find_entry :: "(u8 list \<Rightarrow> bool) \<Rightarrow> u64 \<Rightarrow> u8 list list \<Rightarrow> u64 option" where
  "find_entry P i [] = None"
| "find_entry P i (e # es) = (if P e then Some i else find_entry P (i + of_nat (length e)) es)"

definition le32 :: "u8 list \<Rightarrow> nat \<Rightarrow> u32" where
  "le32 e k = ucast (e ! k) OR push_bit 8 (ucast (e ! (k + 1))) OR push_bit 16 (ucast (e ! (k + 2))) OR push_bit 24 (ucast (e ! (k + 3)))"

lemma entry_step:
  assumes "madt_entries m p i (e # es)"
  shows "i < madt_bound m p" "madt_next m p i = i + of_nat (length e)" "madt_entries m p (madt_next m p i) es"
    and "\<And>k. k < length e \<Longrightarrow> madt_structure m p (i + of_nat k) = e ! k" "madt_structure m p i = e ! 0"
proof -
  have ok: "entry_ok e" and at: "\<And>k. k < length e \<Longrightarrow> madt_structure m p (i + of_nat k) = e ! k"
    using assms by (auto simp: list_all_iff)
  have "madt_structure m p (i + 1) = of_nat (length e)" using at[of 1] ok by (simp add: entry_ok_def)
  moreover have "(scast (of_nat (length e) :: u8) :: u64) = of_nat (length e)"
  proof -
    have "sint (of_nat (length e) :: u8) = int (length e)" using ok by (simp add: entry_ok_def sint_of_nat_small)
    then show ?thesis by (simp add: scast_eq)
  qed
  ultimately show n: "madt_next m p i = i + of_nat (length e)" by (simp add: madt_next_def)
  show "i < madt_bound m p" "madt_entries m p (madt_next m p i) es" using assms n by auto
  show "k < length e \<Longrightarrow> madt_structure m p (i + of_nat k) = e ! k" for k by (rule at)
  have "0 < length e" using ok unfolding entry_ok_def by linarith
  then show "madt_structure m p i = e ! 0" using at[of 0] by simp
qed

lemma override_loop_finds:
  assumes "madt_entries m p i es"
  shows "override_loop m p irq i =
     Some (case find_entry (\<lambda>e. e ! 0 = 2 \<and> e ! 3 = irq) i es of None \<Rightarrow> NULL | Some j \<Rightarrow> p + 44 + j)"
  using assms
proof (induction es arbitrary: i)
  case Nil
  then show ?case by (subst override_loop.simps) simp
next
  case (Cons e es)
  note st = entry_step[OF Cons.prems]
  have "madt_structure m p (i + 3) = e ! 3" if "e ! 0 = 2"
    using st(4)[of 3] Cons.prems that by (simp add: entry_ok_def)
  then show ?case using st Cons.IH[OF st(3)] by (subst override_loop.simps) (auto simp: st(2))
qed

lemma ioapic_loop_finds:
  assumes "madt_entries m p i es"
  shows "ioapic_loop m p gsi i = Some (find_entry (\<lambda>e. e ! 0 = 1 \<and> le32 e 8 = gsi) i es)"
  using assms
proof (induction es arbitrary: i)
  case Nil
  then show ?case by (subst ioapic_loop.simps) simp
next
  case (Cons e es)
  note st = entry_step[OF Cons.prems]
  have "madt_addr32 m p (i + 8) = le32 e 8" if "e ! 0 = 1"
    using st(4)[of 8] st(4)[of 9] st(4)[of 10] st(4)[of 11] Cons.prems that
    by (simp add: entry_ok_def madt_addr32_def rd32_def le32_def madt_structure_def algebra_simps)
  then show ?case using st Cons.IH[OF st(3)] by (subst ioapic_loop.simps) (auto simp: st(2))
qed

lemma foldl_insert_second: "foldl insert_second (x # ys) es = x # rev es @ ys"
  by (induction es arbitrary: ys) auto

text \<open>The redirection entry of a line: pin register and low word.\<close>

definition irq_pin :: "mem \<Rightarrow> ptr \<Rightarrow> int \<Rightarrow> u8" where
  "irq_pin m ov irq = (if ov \<noteq> NULL then ucast (0x10 + iso_gsi m ov * 2) else word_of_int (0x10 + irq * 2))"

definition irq_low_word :: "mem \<Rightarrow> ptr \<Rightarrow> int \<Rightarrow> u32" where
  "irq_low_word m ov vec =
     (if ov \<noteq> NULL \<and> bit (m (ov + 8)) 2 then push_bit 15 1 else 0) OR
     (if ov \<noteq> NULL \<and> bit (m (ov + 8)) 0 then push_bit 13 1 else 0) OR ucast (word_of_int vec :: u8)"

lemma one_bit_word: "(w :: 1 word) = (if bit w 0 then 1 else 0)"
  by (rule bit_word_eqI) (auto simp: bit_1_iff)

lemma ucast_1_word: "(ucast (w :: 1 word) :: u32) = (if bit w 0 then 1 else 0)"
  by (subst one_bit_word) simp

lemma redirection_low_word:
  "push_bit 15 (ucast (if ov \<noteq> NULL then ucast (iso_trigger_mode m ov) else (0 :: 1 word))) OR
   push_bit 13 (ucast (if ov \<noteq> NULL then ucast (iso_polarity m ov) else (0 :: 1 word))) OR ucast (word_of_int vec :: u8)
   = irq_low_word m ov vec"
  unfolding ucast_1_word irq_low_word_def
  by (simp add: iso_trigger_mode_def iso_polarity_def bit_simps)

text \<open>Example: a root table with an MADT that holds an IO APIC and an override for line 9, and a second table.\<close>

definition acpi_entries :: "u8 list list" where
  "acpi_entries = [[1, 12, 0, 0, 0, 0, 0xC0, 0xFE, 0, 0, 0, 0], [2, 10, 0, 9, 9, 0, 0, 0, 0xD, 0]]"

definition acpi_mem :: mem where
  "acpi_mem a =
     (if a = 0x104 then 52
      else if 0x124 \<le> a \<and> a < 0x134 then [0, 2, 0, 0, 0, 0, 0, 0, 0, 3, 0, 0, 0, 0, 0, 0] ! unat (a - 0x124)
      else if 0x200 \<le> a \<and> a < 0x204 then lit ''APIC'' ! unat (a - 0x200)
      else if a = 0x204 then 66
      else if 0x22C \<le> a \<and> a < 0x242 then concat acpi_entries ! unat (a - 0x22C)
      else if 0x300 \<le> a \<and> a < 0x304 then lit ''HPET'' ! unat (a - 0x300)
      else 0)"

definition acpi_state :: acpi where
  "acpi_state = \<lparr>XSDT = 0x100, madt = 0x200, MCFG = 0, mcfg_list = [], lapic_addr = 0,
     kconf = \<lparr>kexit = 0, interrupts_enabled = 0, interrupt_source = 2, multitasking_enabled = 0,
       timers = \<lparr>timer_source = 0, apic_tsc_deadline = 0, tsc_invariant = 0, tsc_freq_khz = 0\<rparr>, has_mcfg = 0\<rparr>,
     pages = boot_mm, io = []\<rparr>"

section \<open>Properties\<close>



text \<open>(C21) The walk over the interrupt controller structures: when entries of lengths 2 to 127 fill the table exactly,
  the walk ends; the override for a line is the first override entry with that source, and the IO APIC for a
  global interrupt base the first IO APIC entry with that base.\<close>

theorem madt_walk_finds_first:
  assumes "madt s \<noteq> NULL" "madt_entries m (madt s) 0 es"
  shows "madt_get_override_for_irq m s irq =
      Some (Inr (case find_entry (\<lambda>e. e ! 0 = 2 \<and> e ! 3 = irq) 0 es of None \<Rightarrow> NULL | Some j \<Rightarrow> madt s + 44 + j))
    \<and> ioapic_loop m (madt s) gsi 0 = Some (find_entry (\<lambda>e. e ! 0 = 1 \<and> le32 e 8 = gsi) 0 es)"
  using assms override_loop_finds[OF assms(2), of irq] ioapic_loop_finds[OF assms(2), of gsi]
  by (simp add: madt_get_override_for_irq_def)

theorem madt_walk_finds_first_witness:
  "madt_get_override_for_irq acpi_mem acpi_state 9 = Some (Inr (0x200 + 44 + 12))"
proof -
  have "madt_entries acpi_mem (madt acpi_state) 0 acpi_entries"
    "find_entry (\<lambda>e. e ! 0 = 2 \<and> e ! 3 = 9) 0 acpi_entries = Some 12" by code_simp+
  moreover have "madt acpi_state = 0x200" by (simp add: acpi_state_def)
  ultimately show ?thesis using madt_walk_finds_first[of acpi_state acpi_mem acpi_entries 9 0] by simp
qed

text \<open>A structure whose length octet is 0 stops the walk for ever: when the first one is such and is not an
  override, the lookup of an override does not return.\<close>

theorem zero_length_entry_hangs:
  assumes "madt s \<noteq> NULL" "0 < madt_bound m (madt s)" "madt_structure m (madt s) 0 \<noteq> 2" "madt_structure m (madt s) 1 = 0"
  shows "madt_get_override_for_irq m s irq = None"
proof -
  have False if "override_loop m (madt s) irq 0 = Some y" for y
  proof -
    have "\<not> (m = m \<and> madt s = madt s \<and> (0 :: u64) = 0)"
      by (rule override_loop.raw_induct[where P = "\<lambda>m' p' irq' i y. \<not> (m' = m \<and> p' = madt s \<and> i = 0)", OF _ that])
        (use assms(2-4) in \<open>fastforce simp: madt_next_def split: if_splits\<close>)
    then show False by simp
  qed
  then have "override_loop m (madt s) irq 0 = None" by (cases "override_loop m (madt s) irq 0") auto
  with assms(1) show ?thesis by (simp add: madt_get_override_for_irq_def)
qed

theorem zero_length_entry_hangs_witness:
  "madt_get_override_for_irq (\<lambda>a. if a = 0x204 then 60 else 0) acpi_state 1 = None"
  by (rule zero_length_entry_hangs) code_simp+

text \<open>Without an APIC table the initialisation selects the legacy controller and then follows the null table
  pointer.\<close>

theorem missing_madt_faults:
  assumes "scan_tables m hhdm (XSDT s) (lit ''APIC'') 0 = Inr NULL"
  shows "madt_init m hhdm s = Inl NullDeref"
  using assms by (simp add: madt_init_def Let_def)

theorem missing_madt_faults_witness: "madt_init (\<lambda>_. 0) 0 (acpi_state\<lparr>XSDT := 0x100\<rparr>) = Inl NullDeref"
  by (rule missing_madt_faults) code_simp

text \<open>(C22) Routing a line: with an IO APIC for base 0 whose registers are mapped, \<^verbatim>\<open>enable_irq\<close> enters the handler and
  makes exactly four register writes: the pin's low word and its high word, each after selecting it. Pin and flags
  come from the line's override if there is one. The high word is 0 whatever the destination; the polarity and
  trigger bits are the lowest bits of the override's two-bit codes.\<close>

theorem enable_irq_routes:
  assumes "interrupt_source (kconf s) = 2" "madt s \<noteq> NULL" "madt_entries m (madt s) 0 es" "idt_wf t" "0 \<le> vec" "vec < 256"
    "find_entry (\<lambda>e. e ! 0 = 1 \<and> le32 e 8 = 0) 0 es = Some j"
    "sel = ucast (madt_addr32 m (madt s) (j + 4)) + hhdm" "virtual_to_physical (pages s) sel \<noteq> 0"
    "ov = (case find_entry (\<lambda>e. e ! 0 = 2 \<and> e ! 3 = word_of_int irq) 0 es of None \<Rightarrow> NULL | Some k \<Rightarrow> madt s + 44 + k)"
  shows "enable_irq m hhdm irq vec handler (t, s) =
     Some (Inr (t\<lparr>isr_handler_table := (isr_handler_table t)[nat vec := handler]\<rparr>,
       s\<lparr>io := Write32 (sel + 0x10) 0 # Write32 sel (ucast (irq_pin m ov irq + 1)) #
              Write32 (sel + 0x10) (irq_low_word m ov vec) # Write32 sel (ucast (irq_pin m ov irq)) # io s\<rparr>))"
proof -
  have io: "madt_get_ioapic m hhdm 0 s = Some (Inr (sel, s))"
    using assms(2,7,8,9) ioapic_loop_finds[OF assms(3), of 0] by (simp add: madt_get_ioapic_def Let_def)
  have ov: "madt_get_override_for_irq m s (word_of_int irq) = Some (Inr ov)"
    using assms(2,10) override_loop_finds[OF assms(3)] by (simp add: madt_get_override_for_irq_def)
  have "ioapic_enable_irq m hhdm irq vec s = Some (Inr (s\<lparr>io := Write32 (sel + 0x10) 0 # Write32 sel (ucast (irq_pin m ov irq + 1)) #
              Write32 (sel + 0x10) (irq_low_word m ov vec) # Write32 sel (ucast (irq_pin m ov irq)) # io s\<rparr>))"
    unfolding ioapic_enable_irq_def io ov bindR_simps prod.case Let_def set_redirection_table_entry_def
    by (simp only: ioapic_redtbl_t.select_convs redirection_low_word irq_pin_def[symmetric] write_ioapic_def io_defs
        unsigned_0 push_bit_of_0 or.left_neutral)
  then show ?thesis
    using assms(1,5,6) register_handler_iff[OF assms(4), of vec handler] by (simp add: enable_irq_def)
qed

theorem enable_irq_routes_witness:
  "\<exists>t s. enable_irq acpi_mem 0 9 41 7
       (\<lparr>entries = replicate 256 (idt_gate 0), isr_handler_table = replicate 256 0\<rparr>, acpi_state\<lparr>pages := boot_mm\<lparr>phys := \<lambda>_ _. 0x9003\<rparr>\<rparr>)
     = Some (Inr (t, s)) \<and> isr_handler_table t ! 41 = 7
     \<and> io s = [Write32 0xFEC00010 0, Write32 0xFEC00000 0x23, Write32 0xFEC00010 0xA029, Write32 0xFEC00000 0x22]"
proof -
  let ?s = "acpi_state\<lparr>pages := boot_mm\<lparr>phys := \<lambda>_ _. 0x9003\<rparr>\<rparr>"
  let ?t = "\<lparr>entries = replicate 256 (idt_gate 0), isr_handler_table = replicate 256 0\<rparr>"
  have h: "interrupt_source (kconf ?s) = 2" "madt ?s \<noteq> NULL" "madt_entries acpi_mem (madt ?s) 0 acpi_entries"
    "find_entry (\<lambda>e. e ! 0 = 1 \<and> le32 e 8 = 0) 0 acpi_entries = Some 0"
    "(0xFEC00000 :: u64) = ucast (madt_addr32 acpi_mem (madt ?s) (0 + 4)) + 0" "virtual_to_physical (pages ?s) 0xFEC00000 \<noteq> 0"
    "0x238 = (case find_entry (\<lambda>e. e ! 0 = 2 \<and> e ! 3 = word_of_int 9) 0 acpi_entries of None \<Rightarrow> NULL | Some k \<Rightarrow> madt ?s + 44 + k)"
    by code_simp+
  have t: "idt_wf ?t" by (simp add: idt_wf_def)
  have v: "irq_pin acpi_mem 0x238 9 = 0x22" "irq_low_word acpi_mem 0x238 41 = 0xA029" by code_simp+
  have "io ?s = []" by (simp add: acpi_state_def)
  then show ?thesis
    using enable_irq_routes[OF h(1-3) t, of 41 0 "0xFEC00000" 0 "0x238" 9 7, OF _ _ h(4-7)] unfolding v by simp
qed

text \<open>The configuration regions of the MCFG table are all recorded, the first one first and the others last one
  first, but they are read from right behind the header: the record at number i is taken from offset 36 + 16 i of
  the table.\<close>

theorem parse_mcfg_order:
  assumes "MCFG s \<noteq> NULL" "mcfg_list s = []" "unat (hdr_length m (MCFG s)) = 44 + 16 * Suc n"
  shows "mcfg_list (parse_mcfg m s) = new_entry m (MCFG s) 0 # rev (map (new_entry m (MCFG s)) [1..<Suc n])"
proof -
  have "unat (hdr_length m (MCFG s) - 44) = 16 * Suc n"
    using assms(3) by (subst unat_sub) (simp_all add: word_le_nat_alt)
  then show ?thesis using assms(1,2) by (simp add: parse_mcfg_def foldl_insert_second Let_def)
qed

theorem parse_mcfg_order_witness:
  "map bus_start (mcfg_list (parse_mcfg (\<lambda>a. if a = 0x404 then 92 else if 0x404 < a \<and> a < 0x408 then 0 else ucast a) (acpi_state\<lparr>MCFG := 0x400\<rparr>))) = [0x2E, 0x4E, 0x3E]"
proof -
  let ?m = "\<lambda>a :: u64. if a = 0x404 then 92 else if 0x404 < a \<and> a < 0x408 then 0 else ucast a :: u8" and ?s = "acpi_state\<lparr>MCFG := 0x400\<rparr>"
  have "mcfg_list (parse_mcfg ?m ?s) = new_entry ?m (MCFG ?s) 0 # rev (map (new_entry ?m (MCFG ?s)) [1..<Suc 2])"
    by (rule parse_mcfg_order) (simp_all add: acpi_state_def hdr_length_def rd32_def)
  then show ?thesis by (simp add: new_entry_def Let_def acpi_state_def upt_rec)
qed

end
