(* ===== verification/Timers.thy ===== *)
theory Timers
  imports Acpi Task
begin

text \<open>
  Timers and processor configuration: \<^verbatim>\<open>misc/config.c\<close>, \<^verbatim>\<open>cpu/pit.c\<close>, \<^verbatim>\<open>cpu/sleep.c\<close> and \<^verbatim>\<open>cpu/tsc.c\<close> of
  \<^verbatim>\<open>lethe-kernel\<close>. The system state joins the interrupt table, the ACPI state with the configuration, the
  scheduler, the tick counter and the processor's interrupt flag. The interrupts that end the halts of a waiting
  loop are a parameter, a sequence; \<^verbatim>\<open>__get_cpuid\<close> of the vendored \<^verbatim>\<open>cpuid.h\<close> is a parameter too.
\<close>

section \<open>State\<close>

record sys =
  idt_of :: idt
  acpi_of :: acpi
  sched_of :: sched
  ticks :: u64
  IF :: bool

definition conf :: "sys \<Rightarrow> kernel_config" where
  "conf s = kconf (acpi_of s)"

definition set_conf :: "(kernel_config \<Rightarrow> kernel_config) \<Rightarrow> sys \<Rightarrow> sys" where
  "set_conf f s = s\<lparr>acpi_of := (acpi_of s)\<lparr>kconf := f (kconf (acpi_of s))\<rparr>\<rparr>"

definition set_timers :: "(timer_subconfig \<Rightarrow> timer_subconfig) \<Rightarrow> sys \<Rightarrow> sys" where
  "set_timers f = set_conf (\<lambda>c. c\<lparr>timers := f (timers c)\<rparr>)"

definition with_io :: "(trace \<Rightarrow> trace) \<Rightarrow> sys \<Rightarrow> sys" where
  "with_io f s = s\<lparr>acpi_of := (acpi_of s)\<lparr>io := f (io (acpi_of s))\<rparr>\<rparr>"

section \<open>Tick handlers and waiting\<close>

definition apic_timer_isr :: "u64 \<Rightarrow> u64" where
  "apic_timer_isr t = 0"

definition pic_timer_isr :: "u64 \<Rightarrow> u64" where
  "pic_timer_isr t = (if t > 0 then t - 1 else t)"

text \<open>What wakes the processor from a halt.\<close>

datatype wake = PicTimer | ApicTimer | OtherIrq

fun on_wake :: "wake \<Rightarrow> u64 \<Rightarrow> u64" where
  "on_wake PicTimer t = pic_timer_isr t"
| "on_wake ApicTimer t = apic_timer_isr t"
| "on_wake OtherIrq t = t"

text \<open>The loop \<^verbatim>\<open>while (ticks > 0) hlt\<close>: how many halts it makes.\<close>

partial_function (option) wait_ticks :: "(nat \<Rightarrow> wake) \<Rightarrow> nat \<Rightarrow> u64 \<Rightarrow> nat option" where
  "wait_ticks ws n t = (if t > 0 then wait_ticks ws (Suc n) (on_wake (ws n) t) else Some n)"

section \<open>Programmable interval timer\<close>

definition PIT_FREQ :: int where "PIT_FREQ = 1193182"
definition PIT_HZ :: int where "PIT_HZ = 1000"
definition PIT_MODE_COMMAND_REG :: u16 where "PIT_MODE_COMMAND_REG = 0x43"
definition PIT_DATA0 :: u16 where "PIT_DATA0 = 0x40"

definition pit_count :: "machine \<Rightarrow> trace \<Rightarrow> u16 \<times> trace" where
  "pit_count hw h =
     (let (low, h1) = inb hw PIT_DATA0 h; (high, h2) = inb hw PIT_DATA0 h1
      in (push_bit 8 (ucast high) OR ucast low, h2))"

definition pit_program :: "u8 \<Rightarrow> u16 \<Rightarrow> trace \<Rightarrow> trace" where
  "pit_program mode reload h =
     outb PIT_DATA0 (ucast (drop_bit 8 reload)) (outb PIT_DATA0 (ucast (reload AND 0xFF)) (outb PIT_MODE_COMMAND_REG mode h))"

definition pit_init :: "trace \<Rightarrow> trace" where
  "pit_init h = pit_program 0x34 (word_of_int (PIT_FREQ div PIT_HZ)) h"

definition pit_sleep :: "(nat \<Rightarrow> wake) \<Rightarrow> u64 \<Rightarrow> nat option" where
  "pit_sleep ws duration = wait_ticks ws 0 duration"

section \<open>Sleeping\<close>

record kernel_duration_t =
  seconds :: u64
  milliseconds :: u64
  nanoseconds :: u64

definition MS_PER_SECOND :: u64 where "MS_PER_SECOND = 1000"
definition NS_PER_SECOND :: u64 where "NS_PER_SECOND = 1000000000"
definition MS_PER_NS :: u64 where "MS_PER_NS = 1000000"

definition duration_to_ns :: "kernel_duration_t \<Rightarrow> u64" where
  "duration_to_ns d = nanoseconds d + milliseconds d * MS_PER_NS + seconds d * NS_PER_SECOND"

definition duration_to_ms :: "kernel_duration_t \<Rightarrow> u64" where
  "duration_to_ms d = milliseconds d + nanoseconds d div MS_PER_NS + seconds d * MS_PER_SECOND"

definition set_tsc_deadline :: "u64 \<Rightarrow> trace \<Rightarrow> trace" where
  "set_tsc_deadline dl h = write_msr 0x6E0 (ucast (dl AND 0xFFFFFFFF)) (ucast (drop_bit 32 dl)) h"

text \<open>The state before the waiting loop, and the loop; the result is the number of halts.\<close>

definition ksleep_start :: "machine \<Rightarrow> kernel_duration_t \<Rightarrow> sys \<Rightarrow> sys" where
  "ksleep_start hw duration s =
     (let (now, h) = rdtsc hw (io (acpi_of s));
          s1 = with_io (\<lambda>_. h) s
      in if timer_source (timers (conf s1)) AND 2 \<noteq> 0
         then let nanos = duration_to_ns duration;
                  dl = now + nanos * ucast (tsc_freq_khz (timers (conf s1))) div MS_PER_NS
              in with_io (set_tsc_deadline dl) (s1\<lparr>ticks := 1\<rparr>)
         else s1\<lparr>ticks := duration_to_ms duration\<rparr>)"

definition ksleep :: "machine \<Rightarrow> (nat \<Rightarrow> wake) \<Rightarrow> kernel_duration_t \<Rightarrow> sys \<Rightarrow> (nat \<times> sys) option" where
  "ksleep hw ws duration s =
     (let s1 = ksleep_start hw duration s in
      map_option (\<lambda>n. (n, s1\<lparr>ticks := 0\<rparr>)) (wait_ticks ws 0 (ticks s1)))"

section \<open>Calibration\<close>

text \<open>The loop of one pass: \<open>t2\<close> is the last time stamp read, \<open>msb\<close> the last high octet of the counter.\<close>

partial_function (option) pass_loop :: "machine \<Rightarrow> u64 \<Rightarrow> u8 \<Rightarrow> trace \<Rightarrow> (u64 \<times> trace) option" where
  "pass_loop hw t2 msb h =
     (if msb > 0
      then let r = rdtsc hw h; l = inb hw 0x40 (snd r); u = inb hw 0x40 (snd l) in pass_loop hw (fst r) (fst u) (snd u)
      else Some (t2, h))"

definition calibrate_tsc_single_pass :: "machine \<Rightarrow> trace \<Rightarrow> (u64 \<times> trace) option" where
  "calibrate_tsc_single_pass hw h =
     (let h1 = pit_program 0x30 (word_of_int (10 * PIT_FREQ div 1000)) h;
          (t1, h2) = rdtsc hw h1;
          (lsb, h3) = inb hw 0x40 h2;
          (msb, h4) = inb hw 0x40 h3
      in map_option (\<lambda>(t2, h5). ((t2 - t1) div 10, h5)) (pass_loop hw t1 msb h4))"

fun calibrate_loop :: "machine \<Rightarrow> nat \<Rightarrow> u64 \<Rightarrow> u64 \<Rightarrow> trace \<Rightarrow> (u64 \<times> trace) option" where
  "calibrate_loop hw 0 d0 d1 h = calibrate_tsc_single_pass hw h"
| "calibrate_loop hw (Suc n) d0 d1 h =
     (case calibrate_tsc_single_pass hw h of
        None \<Rightarrow> None
      | Some (d, h1) \<Rightarrow>
          if d - d0 < 500 \<and> d - d1 < 500 then Some ((d + d0 + d1) div 3, h1)
          else calibrate_loop hw n d d0 h1)"

text \<open>In \<open>calibrate_loop\<close>, \<open>d0\<close> and \<open>d1\<close> are the results of the last two passes, as they are when a round starts.\<close>

definition calibrate_tsc_slow :: "machine \<Rightarrow> trace \<Rightarrow> (u64 \<times> trace) option" where
  "calibrate_tsc_slow hw h = calibrate_loop hw 500 0 0 h"

section \<open>Configuration\<close>

text \<open>\<open>cpuid leaf\<close> is what \<^verbatim>\<open>__get_cpuid\<close> stores: \<open>None\<close> when the leaf is not supported.\<close>

type_synonym cpuid = "u32 \<Rightarrow> (u32 \<times> u32 \<times> u32 \<times> u32) option"

definition zero_config :: kernel_config where
  "zero_config = \<lparr>kexit = 0, interrupts_enabled = 0, interrupt_source = 0, multitasking_enabled = 0,
     timers = \<lparr>timer_source = 0, apic_tsc_deadline = 0, tsc_invariant = 0, tsc_freq_khz = 0\<rparr>, has_mcfg = 0\<rparr>"

definition init_config_cpuid :: "cpuid \<Rightarrow> kernel_config res" where
  "init_config_cpuid cpuid =
     (case cpuid 1 of
        None \<Rightarrow> Inr zero_config
      | Some (_, _, ecx, _) \<Rightarrow>
          (let t0 = timers zero_config;
               t1 = (if ecx AND push_bit 24 1 \<noteq> 0 then t0\<lparr>apic_tsc_deadline := 1\<rparr> else t0);
               t2 = (case cpuid 0x80000007 of None \<Rightarrow> t1
                     | Some (_, _, _, edx) \<Rightarrow> if edx AND push_bit 8 1 \<noteq> 0 then t1\<lparr>tsc_invariant := 1\<rparr> else t1)
           in bindE (case cpuid 0x15 of None \<Rightarrow> Inr t2
                     | Some (eax, ebx, ecx, _) \<Rightarrow>
                         bindE (guardE DivideError (eax \<noteq> 0)) (\<lambda>_. Inr (t2\<lparr>tsc_freq_khz := (ecx * (ebx div eax)) div 1000\<rparr>))) (\<lambda>t3.
              let t4 = (case cpuid 0x16 of None \<Rightarrow> t3 | Some (eax, _, _, _) \<Rightarrow> t3\<lparr>tsc_freq_khz := eax * 1000\<rparr>)
              in Inr (zero_config\<lparr>timers := t4\<rparr>))))"

definition cli :: "machine \<Rightarrow> sys \<Rightarrow> sys" where
  "cli hw s =
     (let s1 = s\<lparr>IF := False\<rparr> in
      if interrupt_source (conf s1) AND 2 \<noteq> 0 then s1\<lparr>acpi_of := lapic_disable hw (acpi_of s1)\<rparr> else s1)"

definition sti :: "machine \<Rightarrow> sys \<Rightarrow> sys" where
  "sti hw s =
     (let s1 = (if interrupt_source (conf s) AND 2 \<noteq> 0 then s\<lparr>acpi_of := lapic_enable hw (acpi_of s)\<rparr> else s)
      in s1\<lparr>IF := True\<rparr>)"

definition MAYBE_CLI :: "machine \<Rightarrow> sys \<Rightarrow> sys" where
  "MAYBE_CLI hw s = (if interrupts_enabled (conf s) = 1 then cli hw s else s)"

definition MAYBE_STI :: "machine \<Rightarrow> sys \<Rightarrow> sys" where
  "MAYBE_STI hw s = (if interrupts_enabled (conf s) = 1 then sti hw s else s)"

definition enable_interrupts :: "machine \<Rightarrow> sys \<Rightarrow> sys" where
  "enable_interrupts hw s = set_conf (\<lambda>c. c\<lparr>interrupts_enabled := 1\<rparr>) (sti hw s)"

definition enable_tasking :: "machine \<Rightarrow> (nat \<Rightarrow> bool) \<Rightarrow> ptr \<Rightarrow> u64 \<Rightarrow> ptr \<Rightarrow> ptr \<Rightarrow> isr_stack_t \<Rightarrow> sys \<Rightarrow> sys res" where
  "enable_tasking hw alloc_ok isr_addr idle pt pc junk s =
     (let s1 = MAYBE_CLI hw s in
      bindE (init_tasks alloc_ok isr_addr idle pt pc junk (idt_of s1, sched_of s1)) (\<lambda>(t, sc).
      Inr (MAYBE_STI hw (set_conf (\<lambda>c. c\<lparr>multitasking_enabled := 1\<rparr>) (s1\<lparr>idt_of := t, sched_of := sc\<rparr>)))))"

text \<open>Running an operation of theory Acpi on the system.\<close>

definition on_irq :: "(idt \<times> acpi \<Rightarrow> (idt \<times> acpi) run) \<Rightarrow> sys \<Rightarrow> sys run" where
  "on_irq f s = bindR (f (idt_of s, acpi_of s)) (\<lambda>(t, a). Some (Inr (s\<lparr>idt_of := t, acpi_of := a\<rparr>)))"

definition enable_pit :: "machine \<Rightarrow> mem \<Rightarrow> u64 \<Rightarrow> ptr \<Rightarrow> sys \<Rightarrow> sys run" where
  "enable_pit hw m hhdm pic_isr s =
     bindR (on_irq (enable_irq m hhdm 0 34 pic_isr) (with_io pit_init (MAYBE_CLI hw s))) (\<lambda>s2.
     Some (Inr (MAYBE_STI hw (set_timers (\<lambda>t. t\<lparr>timer_source := timer_source t OR 1\<rparr>) s2))))"

text \<open>The part of \<^verbatim>\<open>enable_apic\<close> behind the calibration.\<close>

definition start_apic_timer :: "machine \<Rightarrow> mem \<Rightarrow> u64 \<Rightarrow> ptr \<Rightarrow> sys \<Rightarrow> sys run" where
  "start_apic_timer hw m hhdm apic_isr s =
     bindR (Some (register_handler (idt_of s) 32 apic_isr)) (\<lambda>t.
     let s1 = s\<lparr>idt_of := t, acpi_of := apic_enable_timer hw (acpi_of s)\<rparr> in
     bindR (on_irq (disable_irq m hhdm 0 34) s1) (\<lambda>s2.
     let s3 = set_timers (\<lambda>t. t\<lparr>timer_source := (timer_source t AND NOT 1) OR 2\<rparr>) s2
     in Some (Inr (MAYBE_STI hw s3))))"

definition enable_apic :: "machine \<Rightarrow> mem \<Rightarrow> u64 \<Rightarrow> ptr \<Rightarrow> ptr \<Rightarrow> sys \<Rightarrow> sys run" where
  "enable_apic hw m hhdm pic_isr apic_isr s =
     (let s1 = MAYBE_CLI hw s; tm = timers (conf s1) in
      if tsc_freq_khz tm \<noteq> 0 then start_apic_timer hw m hhdm apic_isr s1
      else if interrupt_source (conf s1) \<noteq> 2 \<or> apic_tsc_deadline tm = 0 \<or> tsc_invariant tm = 0
      then enable_pit hw m hhdm pic_isr s1
      else case calibrate_tsc_slow hw (io (acpi_of s1)) of
             None \<Rightarrow> None
           | Some (frequency, h1) \<Rightarrow>
               (case calibrate_tsc_slow hw h1 of
                  None \<Rightarrow> None
                | Some (f2, h2) \<Rightarrow>
                    (let s2 = with_io (\<lambda>_. h2) s1; error = sint (ucast (frequency - f2) :: u32) in
                     if error > 1500 \<or> error < -1500 then Some (Inr s2)
                     else start_apic_timer hw m hhdm apic_isr
                            (set_timers (\<lambda>t. t\<lparr>tsc_freq_khz := ucast frequency\<rparr>) s2))))"

section \<open>Lemmas\<close>

text \<open>How many of the first n wake-ups are timer interrupts of the interval timer.\<close>

definition pic_count :: "(nat \<Rightarrow> wake) \<Rightarrow> nat \<Rightarrow> nat \<Rightarrow> nat" where
  "pic_count ws n k = length (filter (\<lambda>i. ws (n + i) = PicTimer) [0..<k])"

lemma pic_count_Suc: "pic_count ws n (Suc k) = (if ws n = PicTimer then 1 else 0) + pic_count ws (Suc n) k"
proof -
  have "[0..<Suc k] = 0 # map Suc [0..<k]" by (simp add: map_Suc_upt upt_conv_Cons del: upt_Suc)
  then show ?thesis by (simp add: pic_count_def filter_map o_def)
qed

text \<open>The waiting loop ends with the interrupt that brings the count of timer interrupts to the number of ticks.\<close>

lemma wait_ticks_counts:
  assumes "\<And>i. ws i \<noteq> ApicTimer" "pic_count ws n k = unat t" "\<And>j. j < k \<Longrightarrow> pic_count ws n j < unat t"
  shows "wait_ticks ws n t = Some (n + k)"
  using assms(2,3)
proof (induction k arbitrary: n t)
  case 0
  then have "t = 0" by (simp add: pic_count_def unat_eq_0)
  then show ?case by (subst wait_ticks.simps) simp
next
  case (Suc k)
  have pos: "0 < unat t" using Suc.prems(2)[of 0] by (simp add: pic_count_def)
  have tp: "t > 0" using pos by (simp add: word_gt_0 unat_gt_0)
  have u: "unat (t - 1) = unat t - 1" using pos by (simp add: unat_minus_one unat_gt_0)
  define t' where "t' = on_wake (ws n) t"
  have t': "unat t' = unat t - (if ws n = PicTimer then 1 else 0)"
    using assms(1)[of n] tp u by (cases "ws n") (simp_all add: t'_def pic_timer_isr_def)
  have "pic_count ws (Suc n) k = unat t'" using Suc.prems(1) t' pic_count_Suc[of ws n k] by simp
  moreover have "pic_count ws (Suc n) j < unat t'" if "j < k" for j
    using Suc.prems(2)[of "Suc j"] that t' pos pic_count_Suc[of ws n j] by (auto split: if_splits)
  ultimately have "wait_ticks ws (Suc n) t' = Some (Suc n + k)" by (rule Suc.IH)
  then show ?case using tp by (subst wait_ticks.simps) (simp add: t'_def)
qed

lemma calibrate_three:
  assumes "calibrate_tsc_single_pass hw h = Some (c, h1)" "calibrate_tsc_single_pass hw h1 = Some (c, h2)"
    "calibrate_tsc_single_pass hw h2 = Some (c, h3)" "500 \<le> c" "3 * unat c < 2 ^ 64"
  shows "calibrate_tsc_slow hw h = Some (c, h3)"
proof -
  have "unat (3 * c) = 3 * unat c" using assms(5) by (simp add: unat_word_ariths)
  then have avg: "3 * c div 3 = c" by (simp add: word_unat_eq_iff unat_div_distrib)
  have loop: "calibrate_loop hw (Suc (Suc (Suc n))) 0 0 h = Some (c, h3)" for n
    using leD[OF assms(4)] by (simp add: assms(1-3) avg)
  have "(500 :: nat) = Suc (Suc (Suc 497))" by simp
  then show ?thesis by (simp only: calibrate_tsc_slow_def loop)
qed

lemma kconf_lapic [simp]:
  "kconf (lapic_write off v a) = kconf a" "kconf (snd (lapic_read hw off a)) = kconf a"
  "kconf (lapic_disable hw a) = kconf a" "kconf (lapic_enable hw a) = kconf a"
  by (simp_all add: lapic_write_def lapic_read_def lapic_disable_def lapic_enable_def case_prod_beta Let_def)

lemma conf_cli [simp]: "conf (cli hw s) = conf s" "conf (MAYBE_CLI hw s) = conf s" "conf (sti hw s) = conf s" "conf (MAYBE_STI hw s) = conf s"
  by (simp_all add: cli_def sti_def MAYBE_CLI_def MAYBE_STI_def conf_def Let_def)

text \<open>Examples: a system on the time stamp timer, and a machine with a steady clock: the time stamp counts reads of
  itself, the interval timer runs out at the second one since it was programmed.\<close>

definition tsc_sys :: sys where
  "tsc_sys = \<lparr>idt_of = \<lparr>entries = [], isr_handler_table = []\<rparr>,
     acpi_of = acpi_state\<lparr>kconf := zero_config\<lparr>timers := \<lparr>timer_source = 2, apic_tsc_deadline = 1, tsc_invariant = 1, tsc_freq_khz = 2000000\<rparr>\<rparr>\<rparr>,
     sched_of = no_sched, ticks = 0, IF = True\<rparr>"

fun tsc_reads :: "trace \<Rightarrow> nat" where
  "tsc_reads [] = 0"
| "tsc_reads (e # h) = (if e = Rdtsc then 1 else 0) + tsc_reads h"

fun reads_since_start :: "trace \<Rightarrow> nat" where
  "reads_since_start [] = 0"
| "reads_since_start (Out8 p v # h) = 0"
| "reads_since_start (e # h) = (if e = Rdtsc then 1 else 0) + reads_since_start h"

definition steady_machine :: machine where
  "steady_machine h e = (case e of Rdtsc \<Rightarrow> of_nat (10000 * tsc_reads h) | _ \<Rightarrow> if reads_since_start h < 2 then 1 else 0)"

lemma steady_pass: "\<exists>h'. calibrate_tsc_single_pass steady_machine h = Some (1000, h')"
  by (simp add: calibrate_tsc_single_pass_def pit_program_def io_defs Let_def)
    (simp add: steady_machine_def pass_loop.simps io_defs Let_def)

text \<open>A clock that runs ten times as fast from the fourth pass on.\<close>

fun passes :: "trace \<Rightarrow> nat" where
  "passes [] = 0"
| "passes (e # h) = (case e of Out8 p v \<Rightarrow> if p = PIT_MODE_COMMAND_REG then 1 else 0 | _ \<Rightarrow> 0) + passes h"

definition drifting_machine :: machine where
  "drifting_machine h e = (case e of
     Rdtsc \<Rightarrow> of_nat ((if passes h \<le> 3 then 10000 else 100000) * reads_since_start h)
   | In8 _ \<Rightarrow> if reads_since_start h < 2 then 1 else 0
   | _ \<Rightarrow> 0)"

definition drifting_sys :: sys where
  "drifting_sys = tsc_sys\<lparr>acpi_of := acpi_state\<lparr>kconf := zero_config\<lparr>interrupts_enabled := 1, interrupt_source := 2,
     timers := \<lparr>timer_source = 1, apic_tsc_deadline = 1, tsc_invariant = 1, tsc_freq_khz = 0\<rparr>\<rparr>\<rparr>\<rparr>"

lemma drifting_pass:
  "\<exists>h'. calibrate_tsc_single_pass drifting_machine h = Some (if passes h < 3 then 1000 else 10000, h') \<and> passes h' = Suc (passes h)"
  by (simp add: calibrate_tsc_single_pass_def pit_program_def io_defs Let_def)
    (simp add: drifting_machine_def pass_loop.simps io_defs Let_def PIT_DATA0_def PIT_MODE_COMMAND_REG_def)

lemma drifting_calibration:
  "\<exists>h1 h2. calibrate_tsc_slow drifting_machine (io (acpi_of (cli drifting_machine drifting_sys))) = Some (1000, h1)
     \<and> calibrate_tsc_slow drifting_machine h1 = Some (10000, h2)"
proof -
  have step: "\<exists>h3. calibrate_tsc_slow drifting_machine h = Some (if passes h = 0 then 1000 else 10000, h3) \<and> passes h3 = passes h + 3"
    if "passes h = 0 \<or> 3 \<le> passes h" for h
  proof -
    let ?c = "if passes h = 0 then 1000 else 10000 :: u64"
    have pass: "\<exists>h'. calibrate_tsc_single_pass drifting_machine g = Some (?c, h') \<and> passes h' = Suc (passes g)"
      if "passes g < passes h + 3" "passes h \<le> passes g" for g
    proof -
      have "(passes g < 3) = (passes h = 0)" using that \<open>passes h = 0 \<or> 3 \<le> passes h\<close> by linarith
      then show ?thesis using drifting_pass[of g] by simp
    qed
    obtain h1 where h1: "calibrate_tsc_single_pass drifting_machine h = Some (?c, h1)" "passes h1 = Suc (passes h)"
      using pass[of h] by auto
    obtain h2 where h2: "calibrate_tsc_single_pass drifting_machine h1 = Some (?c, h2)" "passes h2 = Suc (passes h1)"
      using pass[of h1] h1(2) by auto
    obtain h3 where h3: "calibrate_tsc_single_pass drifting_machine h2 = Some (?c, h3)" "passes h3 = Suc (passes h2)"
      using pass[of h2] h1(2) h2(2) by auto
    have "500 \<le> ?c" "3 * unat ?c < 2 ^ 64" by (simp_all add: word_le_nat_alt)
    from calibrate_three[OF h1(1) h2(1) h3(1) this] h1(2) h2(2) h3(2) show ?thesis by simp
  qed
  have "passes (io (acpi_of (cli drifting_machine drifting_sys))) = 0" by code_simp
  from step[of "io (acpi_of (cli drifting_machine drifting_sys))"] this obtain h1 where
    "calibrate_tsc_slow drifting_machine (io (acpi_of (cli drifting_machine drifting_sys))) = Some (1000, h1)" "passes h1 = 3" by auto
  with step[of h1] show ?thesis by auto
qed

section \<open>Properties\<close>



text \<open>The time stamp deadline of a sleep is exact as long as nothing overflows: it is the current time stamp plus
  the duration in nanoseconds times the frequency in kilohertz, divided by a million, written to the deadline
  register in two halves; durations whose product with the frequency reaches 2 to the 64 wrap around.\<close>

theorem ksleep_deadline_exact:
  assumes "timer_source (timers (conf s)) AND 2 \<noteq> 0"
    "unat (nanoseconds d) + unat (milliseconds d) * 1000000 + unat (seconds d) * 1000000000 = ns"
    "ns * unat (tsc_freq_khz (timers (conf s))) < 2 ^ 64"
    "unat (hw (io (acpi_of s)) Rdtsc) + ns * unat (tsc_freq_khz (timers (conf s))) div 1000000 < 2 ^ 64"
  shows "\<exists>dl. unat dl = unat (hw (io (acpi_of s)) Rdtsc) + ns * unat (tsc_freq_khz (timers (conf s))) div 1000000
     \<and> ksleep_start hw d s = with_io (set_tsc_deadline dl) (with_io (\<lambda>_. Rdtsc # io (acpi_of s)) s\<lparr>ticks := 1\<rparr>)"
proof -
  let ?khz = "tsc_freq_khz (timers (conf s))" and ?now = "hw (io (acpi_of s)) Rdtsc"
  define dl where "dl = ?now + duration_to_ns d * ucast ?khz div MS_PER_NS"
  have "duration_to_ns d = of_nat (unat (nanoseconds d) + unat (milliseconds d) * 1000000 + unat (seconds d) * 1000000000)"
    by (simp add: duration_to_ns_def MS_PER_NS_def NS_PER_SECOND_def)
  then have ns: "duration_to_ns d = of_nat ns" using assms(2) by simp
  have "(ucast ?khz :: u64) = of_nat (unat ?khz)" by (simp add: of_nat_unat)
  with ns have prod: "duration_to_ns d * ucast ?khz = of_nat (ns * unat ?khz)" by simp
  have "unat (of_nat (ns * unat ?khz) :: u64) = ns * unat ?khz"
    using assms(3) by (simp add: unsigned_of_nat take_bit_nat_eq_self del: of_nat_mult)
  then have q: "unat (duration_to_ns d * ucast ?khz div MS_PER_NS) = ns * unat ?khz div 1000000"
    unfolding prod MS_PER_NS_def by (simp add: unat_div_distrib del: of_nat_mult)
  have "unat dl = unat ?now + ns * unat ?khz div 1000000"
    using assms(4) unfolding dl_def by (simp add: unat_word_ariths(1) q)
  moreover have "ksleep_start hw d s = with_io (set_tsc_deadline dl) (with_io (\<lambda>_. Rdtsc # io (acpi_of s)) s\<lparr>ticks := 1\<rparr>)"
    using assms(1) by (simp add: ksleep_start_def io_defs Let_def conf_def with_io_def dl_def)
  ultimately show ?thesis by blast
qed

theorem ksleep_deadline_exact_witness:
  "\<exists>dl. unat dl = 1000 + 40000000 * 2000000 div 1000000 \<and>
     ksleep_start (\<lambda>_ _. 1000) \<lparr>seconds = 0, milliseconds = 40, nanoseconds = 0\<rparr> tsc_sys =
       with_io (set_tsc_deadline dl) (with_io (\<lambda>_. Rdtsc # io (acpi_of tsc_sys)) tsc_sys\<lparr>ticks := 1\<rparr>)"
  using ksleep_deadline_exact[of tsc_sys "\<lparr>seconds = 0, milliseconds = 40, nanoseconds = 0\<rparr>" 40000000 "\<lambda>_ _. 1000"]
  by (simp add: tsc_sys_def conf_def)

text \<open>Calibration against a steady clock: when every pass measures the same frequency c, at least 500 and below a
  third of 2 to the 64, the calibration ends after its third pass and returns c.\<close>

theorem calibration_of_steady_clock:
  assumes "\<And>h. \<exists>h'. calibrate_tsc_single_pass hw h = Some (c, h')" "500 \<le> c" "3 * unat c < 2 ^ 64"
  shows "\<exists>h'. calibrate_tsc_slow hw h = Some (c, h')"
proof -
  obtain h1 where h1: "calibrate_tsc_single_pass hw h = Some (c, h1)" using assms(1) by blast
  obtain h2 where h2: "calibrate_tsc_single_pass hw h1 = Some (c, h2)" using assms(1) by blast
  obtain h3 where h3: "calibrate_tsc_single_pass hw h2 = Some (c, h3)" using assms(1) by blast
  from calibrate_three[OF h1 h2 h3 assms(2,3)] show ?thesis by blast
qed

theorem calibration_of_steady_clock_witness: "\<exists>h'. calibrate_tsc_slow steady_machine [] = Some (1000, h')"
  by (rule calibration_of_steady_clock) (use steady_pass in \<open>simp_all add: word_le_nat_alt\<close>)

text \<open>A clock that calibrates unreliably leaves the interrupts off: when the two calibrations differ by more than
  1500, \<^verbatim>\<open>enable_apic\<close> returns with the interrupt flag cleared although interrupts were enabled, and with no timer
  started.\<close>

theorem unreliable_clock_leaves_interrupts_off:
  assumes "interrupts_enabled (conf s) = 1" "tsc_freq_khz (timers (conf s)) = 0" "interrupt_source (conf s) = 2"
    "apic_tsc_deadline (timers (conf s)) = 1" "tsc_invariant (timers (conf s)) = 1"
    "calibrate_tsc_slow hw (io (acpi_of (cli hw s))) = Some (f1, h1)" "calibrate_tsc_slow hw h1 = Some (f2, h2)"
    "1500 < \<bar>sint (ucast (f1 - f2) :: u32)\<bar>"
  shows "\<exists>s'. enable_apic hw m hhdm pic_isr apic_isr s = Some (Inr s') \<and> \<not> IF s' \<and> interrupts_enabled (conf s') = 1
     \<and> idt_of s' = idt_of s \<and> timer_source (timers (conf s')) = timer_source (timers (conf s))"
proof -
  have "MAYBE_CLI hw s = cli hw s" using assms(1) by (simp add: MAYBE_CLI_def)
  moreover have "\<not> IF (cli hw s)" "idt_of (cli hw s) = idt_of s" by (simp_all add: cli_def Let_def)
  moreover have "1500 < sint (ucast (f1 - f2) :: u32) \<or> sint (ucast (f1 - f2) :: u32) < -1500"
    using assms(8) by linarith
  moreover have "conf (with_io (\<lambda>_. h2) (cli hw s)) = conf s"
    using conf_cli(1)[of hw s] by (simp add: with_io_def conf_def)
  ultimately show ?thesis
    using assms(1-7) by (simp add: enable_apic_def Let_def) (simp add: with_io_def)
qed

theorem unreliable_clock_leaves_interrupts_off_witness:
  "\<exists>s'. enable_apic drifting_machine acpi_mem 0 7 8 drifting_sys = Some (Inr s') \<and> \<not> IF s' \<and> IF drifting_sys"
proof -
  obtain h1 h2 where h: "calibrate_tsc_slow drifting_machine (io (acpi_of (cli drifting_machine drifting_sys))) = Some (1000, h1)"
    "calibrate_tsc_slow drifting_machine h1 = Some (10000, h2)" using drifting_calibration by blast
  have c: "interrupts_enabled (conf drifting_sys) = 1" "tsc_freq_khz (timers (conf drifting_sys)) = 0"
    "interrupt_source (conf drifting_sys) = 2" "apic_tsc_deadline (timers (conf drifting_sys)) = 1"
    "tsc_invariant (timers (conf drifting_sys)) = 1" "IF drifting_sys"
    by (simp_all add: drifting_sys_def tsc_sys_def conf_def)
  have "1500 < \<bar>sint (ucast (1000 - 10000 :: u64) :: u32)\<bar>" by code_simp
  from unreliable_clock_leaves_interrupts_off[OF c(1-5) h this] c(6) show ?thesis by blast
qed

text \<open>Reading the processor's frequency: leaf 0x15 with a zero denominator, which a processor reports when it does
  not enumerate the ratio, raises a divide error; otherwise, without leaf 0x16, the frequency is exact when the
  denominator divides the numerator and nothing overflows.\<close>

theorem cpuid_frequency:
  assumes "cpuid 1 = Some r1" "cpuid 0x15 = Some (eax, ebx, ecx, edx)" "cpuid 0x16 = None"
  shows "(eax = 0 \<longrightarrow> init_config_cpuid cpuid = Inl DivideError) \<and>
     (eax \<noteq> 0 \<and> unat eax dvd unat ebx \<and> unat ecx * (unat ebx div unat eax) < 2 ^ 32 \<longrightarrow>
        (\<exists>c. init_config_cpuid cpuid = Inr c \<and> unat (tsc_freq_khz (timers c)) = unat ecx * unat ebx div unat eax div 1000))"
proof -
  obtain a b c d where r1: "r1 = (a, b, c, d)" by (cases r1) auto
  have "unat (ecx * (ebx div eax) div 1000) = unat ecx * unat ebx div unat eax div 1000"
    if "unat eax dvd unat ebx" "unat ecx * (unat ebx div unat eax) < 2 ^ 32"
  proof -
    have "unat ecx * unat ebx div unat eax = unat ecx * (unat ebx div unat eax)"
      using that(1) by (simp add: div_mult_swap)
    moreover have "unat (ecx * (ebx div eax)) = unat ecx * (unat ebx div unat eax)"
      using that(2) by (simp add: unat_word_ariths(2) unat_div_distrib)
    ultimately show ?thesis by (simp add: unat_div_distrib)
  qed
  then show ?thesis using assms r1 by (auto simp: init_config_cpuid_def Let_def)
qed

theorem cpuid_frequency_witness:
  "init_config_cpuid ((\<lambda>_. None)(1 := Some (0, 0, 0, 0), 0x15 := Some (0, 0, 0, 0))) = Inl DivideError \<and>
   (\<exists>c. init_config_cpuid ((\<lambda>_. None)(1 := Some (0, 0, 0, 0), 0x15 := Some (2, 200, 24000000, 0))) = Inr c
      \<and> unat (tsc_freq_khz (timers c)) = 2400000)"
  using cpuid_frequency[of "(\<lambda>_. None)(1 := Some (0, 0, 0, 0), 0x15 := Some (0, 0, 0, 0))" "(0, 0, 0, 0)" 0 0 0 0]
    cpuid_frequency[of "(\<lambda>_. None)(1 := Some (0, 0, 0, 0), 0x15 := Some (2, 200, 24000000, 0))" "(0, 0, 0, 0)" 2 200 24000000 0]
  by simp

end
