(* ===== verification/Symbols.thy ===== *)
theory Symbols
  imports CString
begin

text \<open>
  The kernel's symbol lookup and stack walk, \<^verbatim>\<open>lethe-kernel/misc/trace.c\<close>, over the ELF layout of
  \<^verbatim>\<open>include/elf.h\<close>. The kernel image is a byte memory that does not change; the structs are offsets into it.
  The lazily filled static variables are a record, all null at first. \<^verbatim>\<open>strlen\<close> and the stack walk need not end
  on arbitrary memory: \<open>None\<close> is not returning.
\<close>

section \<open>Layout\<close>

definition e_shoff :: "mem \<Rightarrow> ptr \<Rightarrow> u64" where "e_shoff m h = rd64 m (h + 40)"
definition e_shentsize :: "mem \<Rightarrow> ptr \<Rightarrow> u16" where "e_shentsize m h = rd16 m (h + 58)"
definition e_shnum :: "mem \<Rightarrow> ptr \<Rightarrow> u16" where "e_shnum m h = rd16 m (h + 60)"
definition e_shstrndx :: "mem \<Rightarrow> ptr \<Rightarrow> u16" where "e_shstrndx m h = rd16 m (h + 62)"

record Elf64_Shdr =
  sh_name :: u32
  sh_type :: u32
  sh_offset :: u64
  sh_size :: u64

definition read_shdr :: "mem \<Rightarrow> ptr \<Rightarrow> Elf64_Shdr" where
  "read_shdr m a = \<lparr>sh_name = rd32 m a, sh_type = rd32 m (a + 4), sh_offset = rd64 m (a + 24), sh_size = rd64 m (a + 32)\<rparr>"

definition sizeof_Elf64_Shdr :: nat where "sizeof_Elf64_Shdr = 64"

record Elf64_Sym =
  st_name :: u32
  st_info :: u8
  st_value :: u64

definition read_sym :: "mem \<Rightarrow> ptr \<Rightarrow> Elf64_Sym" where
  "read_sym m a = \<lparr>st_name = rd32 m a, st_info = m (a + 4), st_value = rd64 m (a + 8)\<rparr>"

definition sizeof_Elf64_Sym :: nat where "sizeof_Elf64_Sym = 24"

section \<open>Loading the tables\<close>

record symbols =
  kernel_header :: ptr
  symtab :: ptr
  sym_entries :: int
  strtab :: ptr
  shstrtab :: ptr

definition no_symbols :: symbols where
  "no_symbols = \<lparr>kernel_header = NULL, symtab = NULL, sym_entries = 0, strtab = NULL, shstrtab = NULL\<rparr>"

text \<open>One round of the loop over the sections; \<open>dot_strtab\<close> is where the literal \<^verbatim>\<open>".strtab"\<close> is stored.\<close>

definition load_section :: "mem \<Rightarrow> ptr \<Rightarrow> ptr \<Rightarrow> symbols \<Rightarrow> nat \<Rightarrow> symbols" where
  "load_section m dot_strtab base s i =
     (let sec = read_shdr m (base + e_shoff m base + of_nat (sizeof_Elf64_Shdr * i));
          s1 = (if sh_type sec = 2
                then s\<lparr>symtab := base + sh_offset sec, sym_entries := sint (ucast (sh_size sec div of_nat sizeof_Elf64_Sym) :: u32)\<rparr>
                else s)
      in if sh_type sec = 3 \<and> strncmp m (shstrtab s1 + ucast (sh_name sec)) dot_strtab 7 = 0
         then s1\<lparr>strtab := base + sh_offset sec\<rparr> else s1)"

text \<open>The block that the three lookup functions start with.\<close>

definition load_symbols :: "mem \<Rightarrow> ptr \<Rightarrow> ptr \<Rightarrow> symbols \<Rightarrow> symbols" where
  "load_symbols m dot_strtab base s =
     (if kernel_header s \<noteq> NULL then s
      else let sh = read_shdr m (base + e_shoff m base + word_of_int (uint (e_shstrndx m base) * uint (e_shentsize m base)));
               s1 = s\<lparr>kernel_header := base, shstrtab := base + sh_offset sh\<rparr>
           in foldl (load_section m dot_strtab base) s1 [0..<unat (e_shnum m base)])"

section \<open>Lookup\<close>

definition symbol_at :: "mem \<Rightarrow> symbols \<Rightarrow> nat \<Rightarrow> Elf64_Sym" where
  "symbol_at m s i = read_sym m (symtab s + of_nat (sizeof_Elf64_Sym * i))"

definition is_function :: "Elf64_Sym \<Rightarrow> bool" where
  "is_function symb \<longleftrightarrow> st_info symb AND 0xF = 2"

fun address_loop :: "mem \<Rightarrow> symbols \<Rightarrow> ptr \<Rightarrow> nat list \<Rightarrow> u64 option" where
  "address_loop m s name [] = Some 0"
| "address_loop m s name (i # is) =
     (let symb = symbol_at m s i; p = strtab s + ucast (st_name symb) in
      if \<not> is_function symb then address_loop m s name is
      else case (strlen m p, strlen m name) of
             (Some l1, Some l2) \<Rightarrow>
               if l1 \<noteq> l2 then address_loop m s name is
               else if strncmp m p name l1 = 0 then Some (st_value symb)
               else address_loop m s name is
           | _ \<Rightarrow> None)"

definition resolve_function_address :: "mem \<Rightarrow> ptr \<Rightarrow> ptr \<Rightarrow> ptr \<Rightarrow> symbols \<Rightarrow> (u64 \<times> symbols) option" where
  "resolve_function_address m dot_strtab base name s0 =
     (let s = load_symbols m dot_strtab base s0 in
      if strtab s = NULL \<or> symtab s = NULL then Some (0, s)
      else map_option (\<lambda>a. (a, s)) (address_loop m s name [0..<nat (sym_entries s)]))"

definition better :: "mem \<Rightarrow> symbols \<Rightarrow> u64 \<Rightarrow> Elf64_Sym \<Rightarrow> nat \<Rightarrow> Elf64_Sym" where
  "better m s addr best i =
     (let symb = symbol_at m s i in
      if \<not> is_function symb then best
      else if st_value symb > st_value best \<and> st_value symb \<le> addr then symb else best)"

text \<open>\<open>None\<close> is the literal \<^verbatim>\<open>"???"\<close>, \<open>Some p\<close> a pointer into the string table.\<close>

definition resolve_function_name :: "mem \<Rightarrow> ptr \<Rightarrow> ptr \<Rightarrow> u64 \<Rightarrow> symbols \<Rightarrow> ptr option \<times> symbols" where
  "resolve_function_name m dot_strtab base addr s0 =
     (let s = load_symbols m dot_strtab base s0 in
      if strtab s = NULL \<or> symtab s = NULL then (None, s)
      else let best = foldl (better m s addr) (symbol_at m s 0) [0..<nat (sym_entries s)]
           in (Some (strtab s + ucast (st_name best)), s))"

text \<open>The stack walk: the names it prints, one for each frame, until the null frame pointer.\<close>

partial_function (option) walk_stack :: "mem \<Rightarrow> ptr \<Rightarrow> ptr \<Rightarrow> ptr \<Rightarrow> symbols \<Rightarrow> (u64 \<times> ptr option) list option" where
  "walk_stack m dot_strtab base frame s =
     (if frame = NULL then Some []
      else let ret = rd64 m (frame + 8); r = resolve_function_name m dot_strtab base ret s
           in Option.bind (walk_stack m dot_strtab base (rd64 m frame) (snd r)) (\<lambda>fs. Some ((ret, fst r) # fs)))"

section \<open>Lemmas\<close>

lemma better_fold:
  assumes "st_value b \<le> addr"
  shows "st_value (foldl (better m s addr) b is) \<le> addr
    \<and> st_value b \<le> st_value (foldl (better m s addr) b is)
    \<and> (\<forall>i \<in> set is. is_function (symbol_at m s i) \<and> st_value (symbol_at m s i) \<le> addr
         \<longrightarrow> st_value (symbol_at m s i) \<le> st_value (foldl (better m s addr) b is))
    \<and> (foldl (better m s addr) b is = b \<or> (\<exists>i \<in> set is. is_function (symbol_at m s i) \<and> foldl (better m s addr) b is = symbol_at m s i))"
  using assms
proof (induction "is" arbitrary: b)
  case (Cons i "is")
  define b1 where "b1 = better m s addr b i"
  have b1: "st_value b1 \<le> addr" "st_value b \<le> st_value b1" "b1 = b \<or> is_function (symbol_at m s i) \<and> b1 = symbol_at m s i"
    "is_function (symbol_at m s i) \<and> st_value (symbol_at m s i) \<le> addr \<longrightarrow> st_value (symbol_at m s i) \<le> st_value b1"
    using Cons.prems by (auto simp: b1_def better_def Let_def)
  from Cons.IH[OF b1(1)] b1(2-4) show ?case by (auto simp: b1_def[symmetric] intro: order_trans)
qed simp

lemma address_loop_first:
  assumes "cstr m name n" "length n < 2 ^ 64" "\<And>i. i \<in> set is \<Longrightarrow> cstr m (strtab s + ucast (st_name (symbol_at m s i))) (nm i)"
    "\<And>i. i \<in> set is \<Longrightarrow> length (nm i) < 2 ^ 64"
  shows "address_loop m s name is =
     Some (case find (\<lambda>i. is_function (symbol_at m s i) \<and> nm i = n) is of None \<Rightarrow> 0 | Some i \<Rightarrow> st_value (symbol_at m s i))"
  using assms(3,4)
proof (induction "is")
  case (Cons i "is")
  let ?p = "strtab s + ucast (st_name (symbol_at m s i))"
  have c: "cstr m ?p (nm i)" "length (nm i) < 2 ^ 64" using Cons.prems by auto
  have u: "unat (of_nat (length (nm i)) :: u64) = length (nm i)" "unat (of_nat (length n) :: u64) = length n"
    using c(2) assms(2) by (simp_all add: unsigned_of_nat take_bit_nat_eq_self)
  have len: "(of_nat (length (nm i)) :: u64) = of_nat (length n) \<longleftrightarrow> length (nm i) = length n"
    using u by (metis)
  have "strncmp m ?p name (of_nat (length (nm i))) = 0 \<longleftrightarrow> nm i = n" if "length (nm i) = length n"
    using that strncmp_loop_cstr[OF c(1) assms(1), of "length (nm i)"] u char_cmp_0_iff[of "nm i" n]
    by (simp add: strncmp_def)
  moreover have "address_loop m s name is = Some (case find (\<lambda>i. is_function (symbol_at m s i) \<and> nm i = n) is of
      None \<Rightarrow> 0 | Some i \<Rightarrow> st_value (symbol_at m s i))" using Cons by simp
  ultimately show ?case
    using strlen_cstr[OF c(1)] strlen_cstr[OF assms(1)] len by (auto simp: Let_def)
qed simp

text \<open>Example: a table of a null symbol and two functions.\<close>

definition sym_mem :: mem where
  "sym_mem a =
     (if 0x2000 \<le> a \<and> a < 0x2048
      then (replicate 24 0 @ [1, 0, 0, 0, 2, 0, 0, 0, 0, 1, 0, 0, 0, 0, 0, 0] @ replicate 8 0
            @ [6, 0, 0, 0, 2, 0, 0, 0, 0, 2, 0, 0, 0, 0, 0, 0] @ replicate 8 0) ! unat (a - 0x2000)
      else if 0x3000 \<le> a \<and> a < 0x300B then ([0] @ lit ''main'' @ [0] @ lit ''idle'' @ [0]) ! unat (a - 0x3000)
      else if 0x4000 \<le> a \<and> a < 0x4004 then lit ''idle'' ! unat (a - 0x4000)
      else if 0x5000 \<le> a \<and> a < 0x5010 then [0x20, 0x50, 0, 0, 0, 0, 0, 0, 0x10, 1, 0, 0, 0, 0, 0, 0] ! unat (a - 0x5000)
      else if 0x5020 \<le> a \<and> a < 0x5030 then [0, 0, 0, 0, 0, 0, 0, 0, 0x10, 2, 0, 0, 0, 0, 0, 0] ! unat (a - 0x5020)
      else 0)"

definition sym_tables :: symbols where
  "sym_tables = \<lparr>kernel_header = 0x1000, symtab = 0x2000, sym_entries = 3, strtab = 0x3000, shstrtab = 0x1800\<rparr>"

text \<open>Frames linked by their first word, ending in a null pointer.\<close>

fun frames_linked :: "mem \<Rightarrow> ptr \<Rightarrow> ptr list \<Rightarrow> bool" where
  "frames_linked m f [] \<longleftrightarrow> f = NULL"
| "frames_linked m f (g # gs) \<longleftrightarrow> f = g \<and> g \<noteq> NULL \<and> frames_linked m (rd64 m g) gs"

lemma resolve_function_name_loaded:
  "kernel_header s \<noteq> NULL \<Longrightarrow> snd (resolve_function_name m dot_strtab base addr s) = s"
  by (simp add: resolve_function_name_def load_symbols_def Let_def)

section \<open>Properties\<close>

text \<open>Naming an address: with the tables loaded and a first symbol whose value is not above the address, the result
  is the name of the first symbol or of a function symbol, whose value is at most the address and at least that of
  every function symbol at or below the address.\<close>

theorem resolve_function_name_best:
  assumes "kernel_header s \<noteq> NULL" "strtab s \<noteq> NULL" "symtab s \<noteq> NULL" "st_value (symbol_at m s 0) \<le> addr"
  shows "\<exists>symb. resolve_function_name m dot_strtab base addr s = (Some (strtab s + ucast (st_name symb)), s)
     \<and> st_value symb \<le> addr
     \<and> (symb = symbol_at m s 0 \<or> (\<exists>i<nat (sym_entries s). is_function (symbol_at m s i) \<and> symb = symbol_at m s i))
     \<and> (\<forall>i<nat (sym_entries s). is_function (symbol_at m s i) \<and> st_value (symbol_at m s i) \<le> addr
          \<longrightarrow> st_value (symbol_at m s i) \<le> st_value symb)"
proof -
  let ?best = "foldl (better m s addr) (symbol_at m s 0) [0..<nat (sym_entries s)]"
  have "resolve_function_name m dot_strtab base addr s = (Some (strtab s + ucast (st_name ?best)), s)"
    using assms(1-3) by (simp add: resolve_function_name_def load_symbols_def Let_def)
  with better_fold[OF assms(4), of m s "[0..<nat (sym_entries s)]"] show ?thesis by (intro exI[of _ ?best]) auto
qed

theorem resolve_function_name_best_witness:
  "\<exists>symb :: Elf64_Sym. resolve_function_name sym_mem 0 0 0x1F0 sym_tables = (Some (0x3000 + ucast (st_name symb)), sym_tables) \<and> st_value symb = 0x100"
proof -
  have h: "kernel_header sym_tables \<noteq> NULL" "strtab sym_tables \<noteq> NULL" "symtab sym_tables \<noteq> NULL"
    "st_value (symbol_at sym_mem sym_tables 0) \<le> 0x1F0" by code_simp+
  obtain symb where b: "resolve_function_name sym_mem 0 0 0x1F0 sym_tables = (Some (strtab sym_tables + ucast (st_name symb)), sym_tables)"
    "st_value symb \<le> 0x1F0" "symb = symbol_at sym_mem sym_tables 0 \<or> (\<exists>i<nat (sym_entries sym_tables). symb = symbol_at sym_mem sym_tables i)"
    "\<And>i. i < nat (sym_entries sym_tables) \<Longrightarrow> is_function (symbol_at sym_mem sym_tables i) \<Longrightarrow> st_value (symbol_at sym_mem sym_tables i) \<le> 0x1F0
       \<Longrightarrow> st_value (symbol_at sym_mem sym_tables i) \<le> st_value symb"
    using resolve_function_name_best[OF h, of 0 0] by blast
  have n: "nat (sym_entries sym_tables) = 3" "strtab sym_tables = 0x3000" by (simp_all add: sym_tables_def)
  have v: "st_value (symbol_at sym_mem sym_tables 0) = 0" "st_value (symbol_at sym_mem sym_tables 1) = 0x100"
    "st_value (symbol_at sym_mem sym_tables 2) = 0x200" "is_function (symbol_at sym_mem sym_tables 1)" by code_simp+
  have "symb \<in> {symbol_at sym_mem sym_tables 0, symbol_at sym_mem sym_tables 1, symbol_at sym_mem sym_tables 2}"
    using b(3) n(1) by (auto simp: less_Suc_eq numeral_3_eq_3 numeral_2_eq_2)
  moreover have "0x100 \<le> st_value symb" using b(4)[of 1] v n(1) by simp
  ultimately have "st_value symb = 0x100" using b(2) v by auto
  with b(1) show ?thesis unfolding n(2) by blast
qed

text \<open>Looking up a name: with the tables loaded and all names terminated strings, the result is the value of the
  first function symbol with exactly that name, and 0 when there is none.\<close>

theorem resolve_function_address_first:
  assumes "kernel_header s \<noteq> NULL" "strtab s \<noteq> NULL" "symtab s \<noteq> NULL" "cstr m name n" "length n < 2 ^ 64"
    "\<And>i. i < nat (sym_entries s) \<Longrightarrow> cstr m (strtab s + ucast (st_name (symbol_at m s i))) (nm i) \<and> length (nm i) < 2 ^ 64"
  shows "resolve_function_address m dot_strtab base name s =
     Some (case find (\<lambda>i. is_function (symbol_at m s i) \<and> nm i = n) [0..<nat (sym_entries s)] of
             None \<Rightarrow> 0 | Some i \<Rightarrow> st_value (symbol_at m s i), s)"
  using assms(1-3) address_loop_first[OF assms(4,5), of "[0..<nat (sym_entries s)]" s nm] assms(6)
  by (simp add: resolve_function_address_def load_symbols_def Let_def)

theorem resolve_function_address_first_witness:
  "resolve_function_address sym_mem 0 0 0x4000 sym_tables = Some (0x200, sym_tables)"
proof -
  let ?nm = "\<lambda>i. if i = 1 then lit ''main'' else if i = 2 then lit ''idle'' else []"
  have h: "kernel_header sym_tables \<noteq> NULL" "strtab sym_tables \<noteq> NULL" "symtab sym_tables \<noteq> NULL" "cstr sym_mem 0x4000 (lit ''idle'')"
    by code_simp+
  have n: "nat (sym_entries sym_tables) = 3" by (simp add: sym_tables_def)
  have "list_all (\<lambda>i. cstr sym_mem (strtab sym_tables + ucast (st_name (symbol_at sym_mem sym_tables i))) (?nm i)) [0..<3]"
    by code_simp
  moreover have "length (?nm i) < 2 ^ 64" for i by (simp add: lit_def)
  ultimately have c: "i < nat (sym_entries sym_tables) \<Longrightarrow>
      cstr sym_mem (strtab sym_tables + ucast (st_name (symbol_at sym_mem sym_tables i))) (?nm i) \<and> length (?nm i) < 2 ^ 64" for i
    unfolding n list_all_iff set_upt by (metis atLeastLessThan_iff le0)
  have f: "find (\<lambda>i. is_function (symbol_at sym_mem sym_tables i) \<and> ?nm i = lit ''idle'') [0..<3] = Some 2"
    "st_value (symbol_at sym_mem sym_tables 2) = 0x200" by code_simp+
  have "resolve_function_address sym_mem 0 0 0x4000 sym_tables =
     Some (case find (\<lambda>i. is_function (symbol_at sym_mem sym_tables i) \<and> ?nm i = lit ''idle'') [0..<nat (sym_entries sym_tables)] of
             None \<Rightarrow> 0 | Some i \<Rightarrow> st_value (symbol_at sym_mem sym_tables i), sym_tables)"
    by (rule resolve_function_address_first[OF h(1-4) _ c]) (simp add: lit_def)
  then show ?thesis unfolding n f(1) by (simp add: f(2))
qed

text \<open>The stack walk: for a chain of frames that ends in a null frame pointer the walk ends and prints each frame's
  return address with its name, innermost first.\<close>

theorem walk_stack_prints_chain:
  assumes "kernel_header s \<noteq> NULL" "frames_linked m f fs"
  shows "walk_stack m dot_strtab base f s =
     Some (map (\<lambda>f. (rd64 m (f + 8), fst (resolve_function_name m dot_strtab base (rd64 m (f + 8)) s))) fs)"
  using assms(2)
proof (induction fs arbitrary: f)
  case Nil
  then show ?case by (subst walk_stack.simps) simp
next
  case (Cons g gs)
  then have "walk_stack m dot_strtab base (rd64 m g) s = Some (map (\<lambda>f. (rd64 m (f + 8),
      fst (resolve_function_name m dot_strtab base (rd64 m (f + 8)) s))) gs)" by simp
  then show ?case using Cons.prems resolve_function_name_loaded[OF assms(1)]
    by (subst walk_stack.simps) (simp add: Let_def)
qed

theorem walk_stack_prints_chain_witness:
  "\<exists>xs. walk_stack sym_mem 0 0 0x5000 sym_tables = Some xs \<and> map fst xs = [0x110, 0x210]"
proof -
  have h: "frames_linked sym_mem 0x5000 [0x5000, 0x5020]" "kernel_header sym_tables \<noteq> NULL"
    "map (\<lambda>f. rd64 sym_mem (f + 8)) [0x5000, 0x5020] = [0x110, 0x210]" by code_simp+
  from walk_stack_prints_chain[OF h(2,1), of 0 0] h(3) show ?thesis by simp
qed

end
