(* ===== verification/Cpio.thy ===== *)
theory Cpio
  imports CString
begin

text \<open>
  The archive reader \<^verbatim>\<open>lethe-kernel/memory/cpio.c\<close> and the node list \<^verbatim>\<open>lethe-utils/linked_list.c\<close>. The archive
  is a byte memory that does not change; the header fields are offsets into it. List nodes live in a map from
  addresses to records; the address that \<^verbatim>\<open>calloc\<close> returns is an argument.
\<close>

section \<open>Archive\<close>

definition CPIO_HEADER_SIZE :: u64 where "CPIO_HEADER_SIZE = 26"

definition c_magic :: "mem \<Rightarrow> ptr \<Rightarrow> u16" where "c_magic m h = rd16 m h"
definition c_namesize :: "mem \<Rightarrow> ptr \<Rightarrow> u16" where "c_namesize m h = rd16 m (h + 20)"
definition c_filesize :: "mem \<Rightarrow> ptr \<Rightarrow> nat \<Rightarrow> u16" where "c_filesize m h i = rd16 m (h + 22 + of_nat (2 * i))"

record cpio =
  cpio_address :: ptr
  cpio_eof :: bool

text \<open>The octal constant 0070707.\<close>

definition check_header :: "mem \<Rightarrow> cpio \<Rightarrow> bool" where
  "check_header m s \<longleftrightarrow> c_magic m (cpio_address s) = 0x71C7"

definition file_size :: "mem \<Rightarrow> cpio \<Rightarrow> u32" where
  "file_size m s = push_bit 16 (ucast (c_filesize m (cpio_address s) 0)) + ucast (c_filesize m (cpio_address s) 1)"

text \<open>\<open>trailer\<close> is where the literal \<^verbatim>\<open>"TRAILER!!!"\<close> is stored.\<close>

definition check_eof :: "mem \<Rightarrow> ptr \<Rightarrow> cpio \<Rightarrow> cpio" where
  "check_eof m trailer s =
     (if strncmp m (cpio_address s + CPIO_HEADER_SIZE) trailer (ucast (file_size m s)) \<noteq> 0 then s\<lparr>cpio_eof := True\<rparr> else s)"

definition next_header :: "mem \<Rightarrow> ptr \<Rightarrow> cpio \<Rightarrow> bool \<times> cpio" where
  "next_header m trailer s =
     (if cpio_eof s then (False, s)
      else let s1 = s\<lparr>cpio_address := cpio_address s + CPIO_HEADER_SIZE + ucast (c_namesize m (cpio_address s)) + 1
                        + ucast (file_size m s)\<rparr>;
               s2 = check_eof m trailer s1
           in (check_header m s2, s2))"

definition init_cpio :: "mem \<Rightarrow> ptr \<Rightarrow> cpio \<Rightarrow> cpio res" where
  "init_cpio m addr s =
     (let s1 = s\<lparr>cpio_address := addr\<rparr> in if check_header m s1 then Inr s1 else Inl Abort)"

definition get_file :: "mem \<Rightarrow> ptr \<Rightarrow> cpio \<Rightarrow> (ptr \<times> cpio) res" where
  "get_file m trailer s =
     (let header = cpio_address s in
      if \<not> check_header m s then Inl Abort
      else let (_, s1) = next_header m trailer s
           in Inr (header + CPIO_HEADER_SIZE + ucast (c_namesize m header) + 1, s1))"

section \<open>Node list\<close>

record node =
  nptr :: ptr
  nnext :: ptr
  nroot :: ptr

type_synonym nodes = "ptr \<Rightarrow> node option"

definition node_at :: "nodes \<Rightarrow> ptr \<Rightarrow> node res" where
  "node_at h p = (if p = NULL then Inl NullDeref else case h p of None \<Rightarrow> Inl OutOfBounds | Some n \<Rightarrow> Inr n)"

definition new_node :: "ptr \<Rightarrow> nodes \<Rightarrow> (ptr \<times> nodes) res" where
  "new_node p h = bindE (guardE NullDeref (p \<noteq> NULL)) (\<lambda>_. Inr (p, h(p \<mapsto> \<lparr>nptr = NULL, nnext = NULL, nroot = p\<rparr>)))"

definition append_node :: "ptr \<Rightarrow> ptr \<Rightarrow> ptr \<Rightarrow> nodes \<Rightarrow> (ptr \<times> nodes) res" where
  "append_node p list x h =
     bindE (new_node p h) (\<lambda>(nd, h1).
     bindE (node_at h1 list) (\<lambda>l.
     let h2 = h1(list \<mapsto> l\<lparr>nnext := nd\<rparr>) in
     Inr (nd, h2(nd \<mapsto> \<lparr>nptr = x, nnext = nnext l, nroot = list\<rparr>))))"

text \<open>The pointers that the function is called with, in order.\<close>

partial_function (option) linked_list_foreach :: "nodes \<Rightarrow> ptr \<Rightarrow> ptr list run" where
  "linked_list_foreach h p =
     (if p = NULL then Some (Inr [])
      else bindR (Some (node_at h p)) (\<lambda>n. bindR (linked_list_foreach h (nnext n)) (\<lambda>xs. Some (Inr (nptr n # xs)))))"

section \<open>Lemmas\<close>

text \<open>A chain of nodes from p to a null pointer.\<close>

fun chain :: "nodes \<Rightarrow> ptr \<Rightarrow> ptr list \<Rightarrow> bool" where
  "chain h p [] \<longleftrightarrow> p = NULL"
| "chain h p (q # qs) \<longleftrightarrow> p = q \<and> q \<noteq> NULL \<and> (case h q of None \<Rightarrow> False | Some n \<Rightarrow> chain h (nnext n) qs)"

definition payload :: "nodes \<Rightarrow> ptr \<Rightarrow> ptr" where
  "payload h p = (case h p of None \<Rightarrow> NULL | Some n \<Rightarrow> nptr n)"

lemma chain_update: "chain h p qs \<Longrightarrow> a \<notin> set qs \<Longrightarrow> chain (h(a := v)) p qs"
  by (induction qs arbitrary: p) (auto split: option.splits)

lemma foreach_chain: "chain h p qs \<Longrightarrow> linked_list_foreach h p = Some (Inr (map (payload h) qs))"
proof (induction qs arbitrary: p)
  case Nil
  then show ?case by (subst linked_list_foreach.simps) simp
next
  case (Cons q qs)
  then obtain n where "h q = Some n" "p = q" "q \<noteq> NULL" "chain h (nnext n) qs" by (auto split: option.splits)
  with Cons.IH show ?case by (subst linked_list_foreach.simps) (simp add: node_at_def payload_def)
qed

text \<open>Example: two members of four octets each, with one-letter names, and the trailer literal at 0x800.\<close>

definition cpio_mem :: mem where
  "cpio_mem a =
     (if a = 0x100 \<or> a = 0x121 then 0xC7
      else if a = 0x101 \<or> a = 0x122 then 0x71
      else if a = 0x114 \<or> a = 0x135 then 2
      else if a = 0x118 \<or> a = 0x139 then 4
      else if a = 0x11A then ascii CHR ''a''
      else if a = 0x13B then ascii CHR ''b''
      else if 0x800 \<le> a \<and> a < 0x80A then lit ''TRAILER!!!'' ! unat (a - 0x800)
      else 0)"

section \<open>Properties\<close>

text \<open>Adding to a node list: a new node goes right behind the node it is added to, and the traversal then ends and
  visits the first pointer, the new one and the others in their old order.\<close>

theorem append_node_inserts_second:
  assumes "chain h q (q # qs)" "q \<notin> set qs" "p \<noteq> NULL" "p \<notin> set (q # qs)"
  shows "\<exists>h'. append_node p q x h = Inr (p, h') \<and> chain h' q (q # p # qs)
     \<and> linked_list_foreach h' q = Some (Inr (payload h q # x # map (payload h) qs))"
proof -
  obtain l where l: "h q = Some l" "q \<noteq> NULL" "chain h (nnext l) qs" using assms(1) by (auto split: option.splits)
  define h' where "h' = h(q \<mapsto> l\<lparr>nnext := p\<rparr>, p \<mapsto> \<lparr>nptr = x, nnext = nnext l, nroot = q\<rparr>)"
  have "append_node p q x h = Inr (p, h')"
    using l(1,2) assms(3,4) by (auto simp: append_node_def new_node_def node_at_def h'_def Let_def fun_upd_twist)
  moreover have "chain h' (nnext l) qs" unfolding h'_def using l(3) assms(2,4) by (intro chain_update) auto
  then have c: "chain h' q (q # p # qs)" using l(2) assms(3,4) by (auto simp: h'_def)
  moreover have "map (payload h') qs = map (payload h) qs" using assms(2,4) by (auto simp: h'_def payload_def)
  moreover have "payload h' q = payload h q" "payload h' p = x" using l(1) assms(4) by (auto simp: h'_def payload_def)
  ultimately show ?thesis using foreach_chain[OF c] by auto
qed

theorem append_node_inserts_second_witness:
  "\<exists>h'. append_node 32 16 5 [16 \<mapsto> \<lparr>nptr = 1, nnext = 24, nroot = 16\<rparr>, 24 \<mapsto> \<lparr>nptr = 2, nnext = 0, nroot = 16\<rparr>] = Inr (32, h')
     \<and> linked_list_foreach h' 16 = Some (Inr [1, 5, 2])"
proof -
  let ?h = "[16 \<mapsto> \<lparr>nptr = 1, nnext = 24, nroot = 16\<rparr>, 24 \<mapsto> \<lparr>nptr = 2, nnext = 0, nroot = 16\<rparr>] :: nodes"
  have "chain ?h 16 (16 # [24])" by simp
  from append_node_inserts_second[OF this, of 32 5] show ?thesis by (auto simp: payload_def)
qed

text \<open>The archive reader takes a member for the trailer: it marks the end when the name differs from the trailer's,
  not when it equals it. After advancing to a member whose first file name character is another one and whose file
  is not empty, the reader never advances again.\<close>

theorem cpio_ends_at_second_member:
  assumes "\<not> cpio_eof s" "next_header m trailer s = (ok, s1)" "m (cpio_address s1 + 26) \<noteq> 0" "m trailer \<noteq> 0"
    "m (cpio_address s1 + 26) \<noteq> m trailer" "file_size m s1 \<noteq> 0"
  shows "cpio_eof s1 \<and> next_header m trailer s1 = (False, s1)"
proof -
  define a where "a = cpio_address s + CPIO_HEADER_SIZE + ucast (c_namesize m (cpio_address s)) + 1 + ucast (file_size m s)"
  have s1: "s1 = check_eof m trailer (s\<lparr>cpio_address := a\<rparr>)"
    using assms(1,2) by (simp add: next_header_def Let_def a_def)
  have addr: "cpio_address s1 = a" by (simp add: s1 check_eof_def)
  have fs: "file_size m s1 = file_size m (s\<lparr>cpio_address := a\<rparr>)" by (simp add: file_size_def addr)
  obtain n where n: "unat (ucast (file_size m s1) :: u64) = Suc n"
    using assms(6) by (cases "unat (file_size m s1)") (simp_all add: unat_ucast_up unat_eq_0)
  have ne: "sint (m (a + 26)) \<noteq> sint (m trailer)" using assms(5) unfolding addr by (metis signed_word_eqI)
  have "strncmp m (a + CPIO_HEADER_SIZE) trailer (ucast (file_size m s1)) \<noteq> 0"
    using assms(3,4) ne unfolding strncmp_def n addr CPIO_HEADER_SIZE_def by simp
  then have "strncmp m (a + CPIO_HEADER_SIZE) trailer (ucast (file_size m (s\<lparr>cpio_address := a\<rparr>))) \<noteq> 0" unfolding fs .
  then have "cpio_eof s1" by (simp add: s1 check_eof_def)
  then show ?thesis by (simp add: next_header_def)
qed

theorem cpio_ends_at_second_member_witness:
  "\<exists>s1. next_header cpio_mem 0x800 \<lparr>cpio_address = 0x100, cpio_eof = False\<rparr> = (True, s1) \<and> cpio_eof s1
     \<and> next_header cpio_mem 0x800 s1 = (False, s1)"
proof -
  let ?s = "\<lparr>cpio_address = 0x100, cpio_eof = False\<rparr>" and ?s1 = "\<lparr>cpio_address = 0x121, cpio_eof = True\<rparr>"
  have h: "next_header cpio_mem 0x800 ?s = (True, ?s1)" "cpio_mem (cpio_address ?s1 + 26) \<noteq> 0" "cpio_mem 0x800 \<noteq> 0"
    "cpio_mem (cpio_address ?s1 + 26) \<noteq> cpio_mem 0x800" "file_size cpio_mem ?s1 \<noteq> 0" by code_simp+
  have "\<not> cpio_eof ?s" by simp
  from cpio_ends_at_second_member[OF this h(1-5)] h(1) show ?thesis by blast
qed

text \<open>Reading a file: on a header with the magic number the reader returns the address 27 octets and the name's
  length behind the header and is then at the end of the file's data, so it is right exactly when the name is
  followed by one octet of padding and the file by none.\<close>

theorem get_file_position:
  assumes "check_header m s" "\<not> cpio_eof s"
  shows "\<exists>p s1. get_file m trailer s = Inr (p, s1) \<and> p = cpio_address s + 27 + ucast (c_namesize m (cpio_address s))
     \<and> cpio_address s1 = p + ucast (file_size m s)"
  using assms by (simp add: get_file_def next_header_def check_eof_def CPIO_HEADER_SIZE_def Let_def algebra_simps)

theorem get_file_position_witness:
  "\<exists>s1. get_file cpio_mem 0x800 \<lparr>cpio_address = 0x100, cpio_eof = False\<rparr> = Inr (0x11D, s1) \<and> cpio_address s1 = 0x121"
proof -
  let ?s = "\<lparr>cpio_address = 0x100, cpio_eof = False\<rparr>"
  have "check_header cpio_mem ?s" "cpio_address ?s + 27 + ucast (c_namesize cpio_mem (cpio_address ?s)) = 0x11D"
    "0x11D + ucast (file_size cpio_mem ?s) = (0x121 :: u64)" by code_simp+
  then show ?thesis using get_file_position[of cpio_mem ?s "0x800"] by auto
qed

end
