(* ===== verification/Ahci.thy ===== *)
theory Ahci
  imports Pci Paging CString
begin

text \<open>
  The AHCI driver \<^verbatim>\<open>lethe-kernel/pci/ahci.c\<close> over the configuration space of theory Pci and the page tables of
  theory Paging. Controller registers are memory-mapped: their volatile accesses are events of theory Hardware at
  the offsets of the struct layout, and a read returns whatever the controller answers. Command lists and command
  tables are ordinary memory, a byte memory at virtual addresses. The loops that wait for the controller are
  partial functions.
\<close>

section \<open>Layout\<close>

definition SATA_SIG_ATA :: u32 where "SATA_SIG_ATA = 0x101"
definition FIS_TYPE_REG_H2D :: u8 where "FIS_TYPE_REG_H2D = 0x27"

text \<open>Global registers, at offsets from \<^verbatim>\<open>abar\<close>, and \<^verbatim>\<open>abar->ports[i]\<close>.\<close>

definition ghc_ghc :: u64 where "ghc_ghc = 0x04"
definition ghc_is :: u64 where "ghc_is = 0x08"
definition ghc_pi :: u64 where "ghc_pi = 0x0C"
definition sizeof_ahci_port_t :: nat where "sizeof_ahci_port_t = 128"
definition ports :: "ptr \<Rightarrow> nat \<Rightarrow> ptr" where
  "ports abar i = abar + 0x100 + of_nat (sizeof_ahci_port_t * i)"

text \<open>Port registers.\<close>

definition p_clb :: u64 where "p_clb = 0x00"
definition p_clbu :: u64 where "p_clbu = 0x04"
definition p_fb :: u64 where "p_fb = 0x08"
definition p_fbu :: u64 where "p_fbu = 0x0C"
definition p_is :: u64 where "p_is = 0x10"
definition p_ie :: u64 where "p_ie = 0x14"
definition p_cmd :: u64 where "p_cmd = 0x18"
definition p_tfd :: u64 where "p_tfd = 0x20"
definition p_sig :: u64 where "p_sig = 0x24"
definition p_ssts :: u64 where "p_ssts = 0x28"
definition p_sact :: u64 where "p_sact = 0x34"
definition p_ci :: u64 where "p_ci = 0x38"

text \<open>\<^verbatim>\<open>ahci_cmd_hdr_t\<close>, \<^verbatim>\<open>ahci_fis_h2d_t\<close> and \<^verbatim>\<open>ahci_cmd_tbl_t\<close>.\<close>

definition sizeof_ahci_cmd_hdr_t :: nat where "sizeof_ahci_cmd_hdr_t = 32"
definition sizeof_ahci_fis_h2d_t :: nat where "sizeof_ahci_fis_h2d_t = 20"
definition sizeof_ahci_cmd_tbl_t :: nat where "sizeof_ahci_cmd_tbl_t = 144"

record ahci_dev_t =
  dtype :: u32
  port_number :: u8
  port :: ptr
  command_header :: ptr
  fis_base :: ptr

record ahci =
  apages :: mm
  dram :: mem
  aio :: trace
  device_list :: "ahci_dev_t list"
  abar :: ptr

definition PAGE_ALIGN :: "u64 \<Rightarrow> u64" where
  "PAGE_ALIGN x = x AND NOT 4096"

definition IS_PAGE_ALIGNED :: "u64 \<Rightarrow> bool" where
  "IS_PAGE_ALIGNED x \<longleftrightarrow> x AND 4095 = 0"

text \<open>\<^verbatim>\<open>PAGE_PRESENT | PAGE_WRITABLE | PAGE_CACHE_DISABLE\<close>.\<close>

definition DMA_FLAGS :: u16 where "DMA_FLAGS = 0x13"

text \<open>Volatile accesses.\<close>

definition rreg :: "machine \<Rightarrow> ptr \<Rightarrow> ahci \<Rightarrow> u32 \<times> ahci" where
  "rreg hw a s = (let (v, h) = read32 hw a (aio s) in (v, s\<lparr>aio := h\<rparr>))"

definition wreg :: "ptr \<Rightarrow> u32 \<Rightarrow> ahci \<Rightarrow> ahci" where
  "wreg a v s = s\<lparr>aio := write32 a v (aio s)\<rparr>"

definition upd_reg :: "machine \<Rightarrow> ptr \<Rightarrow> (u32 \<Rightarrow> u32) \<Rightarrow> ahci \<Rightarrow> ahci" where
  "upd_reg hw a f s = (let (v, s1) = rreg hw a s in wreg a (f v) s1)"

section \<open>Commands\<close>

fun slot_loop :: "nat \<Rightarrow> nat \<Rightarrow> u32 \<Rightarrow> int" where
  "slot_loop 0 i slots = -1"
| "slot_loop (Suc n) i slots = (if slots AND 1 = 0 then int i else slot_loop n (Suc i) (drop_bit 1 slots))"

definition find_cmdslot :: "machine \<Rightarrow> ptr \<Rightarrow> ahci \<Rightarrow> int \<times> ahci" where
  "find_cmdslot hw prt s =
     (let (sact, s1) = rreg hw (prt + p_sact) s; (ci, s2) = rreg hw (prt + p_ci) s1
      in (slot_loop 32 0 (sact OR ci), s2))"

definition get_cmd_table :: "u64 \<Rightarrow> ptr \<Rightarrow> ahci \<Rightarrow> (ptr \<times> ahci) res" where
  "get_cmd_table hhdm header s =
     (let physical = ucast (rd32 (dram s) (header + 8)) OR push_bit 32 (ucast (rd32 (dram s) (header + 12)));
          virtual = physical + hhdm
      in bindE (guardE Abort (IS_PAGE_ALIGNED virtual)) (\<lambda>_.
         bindE (if virtual_to_physical (apages s) virtual \<noteq> physical then map_page (apages s) virtual physical DMA_FLAGS
                else Inr (apages s)) (\<lambda>pg.
         Inr (virtual, s\<lparr>apages := pg\<rparr>))))"

partial_function (option) stop_wait :: "machine \<Rightarrow> ptr \<Rightarrow> ahci \<Rightarrow> ahci option" where
  "stop_wait hw prt s =
     (let r1 = rreg hw (prt + p_cmd) s in
      if fst r1 AND push_bit 14 1 \<noteq> 0 then stop_wait hw prt (snd r1)
      else let r2 = rreg hw (prt + p_cmd) (snd r1) in
           if fst r2 AND push_bit 15 1 \<noteq> 0 then stop_wait hw prt (snd r2)
           else Some (snd r2))"

definition stop_cmd :: "machine \<Rightarrow> ptr \<Rightarrow> ahci \<Rightarrow> ahci option" where
  "stop_cmd hw prt s =
     stop_wait hw prt (upd_reg hw (prt + p_cmd) (\<lambda>v. v AND NOT (push_bit 4 1)) (upd_reg hw (prt + p_cmd) (\<lambda>v. v AND NOT 1) s))"

partial_function (option) start_wait :: "machine \<Rightarrow> ptr \<Rightarrow> ahci \<Rightarrow> ahci option" where
  "start_wait hw prt s =
     (let r = rreg hw (prt + p_cmd) s in if fst r AND push_bit 15 1 \<noteq> 0 then start_wait hw prt (snd r) else Some (snd r))"

definition start_cmd :: "machine \<Rightarrow> ptr \<Rightarrow> ahci \<Rightarrow> ahci option" where
  "start_cmd hw prt s =
     map_option (\<lambda>s1. upd_reg hw (prt + p_cmd) (\<lambda>v. v OR 1) (upd_reg hw (prt + p_cmd) (\<lambda>v. v OR push_bit 4 1) s1)) (start_wait hw prt s)"

text \<open>The command header of a slot: length in words, direction, no data regions.\<close>

definition set_header :: "ptr \<Rightarrow> mem \<Rightarrow> mem" where
  "set_header header m =
     m(header := (m header AND NOT 0x1F AND NOT 0x40) OR of_nat (sizeof_ahci_fis_h2d_t div 4), header + 2 := 0, header + 3 := 0)"

text \<open>The command frame at the start of the table: type, command bit, command, device.\<close>

definition set_fis :: "ptr \<Rightarrow> u8 \<Rightarrow> mem \<Rightarrow> mem" where
  "set_fis fis dev m = m(fis := FIS_TYPE_REG_H2D, fis + 1 := m (fis + 1) OR 0x80, fis + 2 := 0xEC, fis + 7 := dev)"

text \<open>\<^verbatim>\<open>while ((tfd & 0x88) && spin < 1000000) spin++\<close>, with \<open>n\<close> rounds left; the result says whether the bound was hit.\<close>

fun busy_wait :: "machine \<Rightarrow> ptr \<Rightarrow> nat \<Rightarrow> ahci \<Rightarrow> bool \<times> ahci" where
  "busy_wait hw prt 0 s = (True, snd (rreg hw (prt + p_tfd) s))"
| "busy_wait hw prt (Suc n) s =
     (let (v, s1) = rreg hw (prt + p_tfd) s in if v AND 0x88 \<noteq> 0 then busy_wait hw prt n s1 else (False, s1))"

partial_function (option) completion_wait :: "machine \<Rightarrow> ptr \<Rightarrow> nat \<Rightarrow> ahci \<Rightarrow> ahci run" where
  "completion_wait hw prt slot s =
     (let r0 = rreg hw (prt + p_is) s; r1 = rreg hw (prt + p_ci) (snd r0) in
      if fst r1 AND push_bit slot 1 = 0 then Some (Inr (snd r1))
      else let r2 = rreg hw (prt + p_is) (snd r1) in
           if fst r2 AND 1 \<noteq> 0 then Some (Inl Halted)
           else completion_wait hw prt slot (snd r2))"

definition send_cmd :: "machine \<Rightarrow> u64 \<Rightarrow> ahci_dev_t \<Rightarrow> u8 \<Rightarrow> ahci \<Rightarrow> ahci run" where
  "send_cmd hw hhdm device command s =
     (let prt = port device in
      case stop_cmd hw prt s of
        None \<Rightarrow> None
      | Some s1 \<Rightarrow>
          (let s2 = wreg (prt + p_ie) 0xFFFFFFFF (wreg (prt + p_is) 0 s1);
               (slot, s3) = find_cmdslot hw prt s2
           in if slot = -1 then Some (Inl Abort)
              else let header = command_header device + of_nat (sizeof_ahci_cmd_hdr_t * nat slot);
                       s4 = s3\<lparr>dram := set_header header (dram s3)\<rparr>
                   in bindR (Some (get_cmd_table hhdm header s4)) (\<lambda>(table, s5).
                      let s6 = s5\<lparr>dram := set_fis table (port_number device) (memset (dram s5) table 0 (of_nat sizeof_ahci_cmd_tbl_t))\<rparr>;
                          (timeout, s7) = busy_wait hw prt 1000000 s6
                      in if timeout then Some (Inl Abort)
                         else let s8 = snd (rreg hw (prt + p_ie) s7)
                              in completion_wait hw prt (nat slot) (wreg (prt + p_ci) (push_bit (nat slot) 1) s8))))"

definition init_sata_drive :: "machine \<Rightarrow> u64 \<Rightarrow> ahci_dev_t \<Rightarrow> ahci \<Rightarrow> ahci run" where
  "init_sata_drive hw hhdm device s = send_cmd hw hhdm device 0 s"

section \<open>Ports\<close>

definition init_port :: "machine \<Rightarrow> u64 \<Rightarrow> ptr \<Rightarrow> nat \<Rightarrow> ahci \<Rightarrow> ahci run" where
  "init_port hw hhdm prt port_num s =
     (let (ssts, s1) = rreg hw (prt + p_ssts) s in
      if ssts AND 7 \<noteq> 3 then Some (Inr s1)
      else let (clb0, s2) = rreg hw (prt + p_clb) s1; (clbu, s3) = rreg hw (prt + p_clbu) s2;
               (fb0, s4) = rreg hw (prt + p_fb) s3; (fbu, s5) = rreg hw (prt + p_fbu) s4;
               clb1 = ucast clb0 OR push_bit 32 (ucast clbu);
               fb1 = ucast fb0 OR push_bit 32 (ucast fbu);
               clb = (if \<not> IS_PAGE_ALIGNED clb1 then PAGE_ALIGN clb1 else clb1);
               fb = (if \<not> IS_PAGE_ALIGNED fb1 then PAGE_ALIGN fb1 else fb1)
           in bindR (Some (map_page (apages s5) (clb + hhdm) clb DMA_FLAGS)) (\<lambda>pg1.
              bindR (Some (map_page pg1 (fb + hhdm) fb DMA_FLAGS)) (\<lambda>pg2.
              let (sig, s6) = rreg hw (prt + p_sig) (s5\<lparr>apages := pg2\<rparr>);
                  device = \<lparr>dtype = sig, port_number = of_nat port_num, port = prt, command_header = clb + hhdm, fis_base = fb + hhdm\<rparr>;
                  s7 = s6\<lparr>device_list := device # device_list s6\<rparr>
              in if sig = SATA_SIG_ATA then init_sata_drive hw hhdm device s7
                 else Some (Inr (snd (rreg hw (prt + p_sig) s7))))))"

definition enumerate_ahci_devices :: "machine \<Rightarrow> u64 \<Rightarrow> ptr \<Rightarrow> ahci \<Rightarrow> ahci run" where
  "enumerate_ahci_devices hw hhdm ab s =
     (let (pi_reg, s1) = rreg hw (ab + ghc_pi) s in
      foldR (\<lambda>s i. if bit pi_reg i then init_port hw hhdm (ports ab i) i s else Some (Inr s)) [0..<32] s1)"

text \<open>Two functions that nothing calls.\<close>

definition enumerate_ahci_controllers :: "int \<Rightarrow> ahci \<Rightarrow> ahci" where
  "enumerate_ahci_controllers max_count s = foldl (\<lambda>s _. s) s [0..<nat max_count]"

definition test_ahci :: "ptr \<Rightarrow> ahci \<Rightarrow> ahci" where
  "test_ahci prt s = wreg (prt + p_ie) 1 (wreg (prt + p_is) 0xFFFFFFFF s)"

section \<open>Interrupts and initialisation\<close>

definition irq_port :: "machine \<Rightarrow> u32 \<Rightarrow> ahci \<Rightarrow> nat \<Rightarrow> ahci res" where
  "irq_port hw status s i =
     (if \<not> bit status i then Inr s
      else let prt = ports (abar s) i; (port_is, s1) = rreg hw (prt + p_is) s
           in if port_is = 0 then Inr s1
              else bindE (guardE (Panic ''error flag set'') (port_is AND push_bit 26 0x1F = 0)) (\<lambda>_.
                   Inr (foldl (\<lambda>s j. snd (rreg hw (prt + p_ci) s)) s1 [0..<32])))"

definition ahci_irq :: "machine \<Rightarrow> isr_stack_t \<Rightarrow> ahci \<Rightarrow> (isr_stack_t \<times> ahci) res" where
  "ahci_irq hw stack s =
     bindE (guardE (Panic ''ABAR uninitialized'') (abar s \<noteq> NULL)) (\<lambda>_.
     let (status, s1) = rreg hw (abar s + ghc_is) s in
     bindE (foldE (irq_port hw status) [0..<32] s1) (\<lambda>s2. Inr (stack, s2)))"

text \<open>The parts of \<^verbatim>\<open>init_ahci\<close> that work on the configuration space: the controller, its message signalled interrupt,
  its base address. The devices are those of the scan.\<close>

definition setup_controller ::
  "machine \<Rightarrow> u64 \<Rightarrow> ptr \<Rightarrow> pci_device \<Rightarrow> idt \<times> ahci \<Rightarrow> (u32 \<times> u32 \<times> idt \<times> ahci) run" where
  "setup_controller hw lapic irq_addr controller ts =
     bindR (check_msi_capability hw (Some controller) (aio (snd ts))) (\<lambda>(msi_cap, h1).
     bindR (if msi_cap \<noteq> 0 then Some (bindE (enable_msi hw lapic (Some controller) (uint msi_cap) irq_addr (fst ts, h1)) (\<lambda>(_, t, h). Inr (t, h)))
            else Some (Inr (fst ts, h1))) (\<lambda>(t1, h2).
     bindR (Some (get_register_value hw (Some controller) 0x9 h2)) (\<lambda>(phys_addr, h3).
     Some (Inr (msi_cap, phys_addr, t1, (snd ts)\<lparr>aio := h3\<rparr>)))))"

definition init_ahci :: "machine \<Rightarrow> u64 \<Rightarrow> u64 \<Rightarrow> ptr \<Rightarrow> pci_device list \<Rightarrow> idt \<times> ahci \<Rightarrow> (idt \<times> ahci) run" where
  "init_ahci hw hhdm lapic irq_addr root_bus ts =
     bindR (Some (locate_pci_device root_bus 0x1 0x6 0)) (\<lambda>found.
     case found of
       None \<Rightarrow> Some (Inr ts)
     | Some controller \<Rightarrow>
         bindR (Some (pci_compare_value found 3 0 0x007F0000)) (\<lambda>plain.
         if \<not> plain
         then bindR (Some (get_register_value hw found 3 (aio (snd ts)))) (\<lambda>(_, h). Some (Inr (fst ts, (snd ts)\<lparr>aio := h\<rparr>)))
         else bindR (setup_controller hw lapic irq_addr controller ts) (\<lambda>(msi_cap, phys_addr, t1, s1).
              bindR (map_page_nearest hhdm (apages s1) (ucast phys_addr + hhdm) (ucast phys_addr) DMA_FLAGS) (\<lambda>(ab, pg).
              let s2 = s1\<lparr>apages := pg, abar := ab\<rparr>;
                  s3 = upd_reg hw (ab + ghc_ghc) (\<lambda>v. v OR push_bit 1 1) (upd_reg hw (ab + ghc_ghc) (\<lambda>v. v OR push_bit 31 1) s2);
                  s4 = snd (rreg hw (ab + ghc_ghc) s3)
              in bindR (enumerate_ahci_devices hw hhdm ab s4) (\<lambda>s5.
                 bindR (Some (get_register_value hw found (uint msi_cap div 4 + 0x14) (aio s5))) (\<lambda>(_, h5).
                 bindR (Some (get_register_value hw found (uint msi_cap div 4 + 0x10) h5)) (\<lambda>(_, h6).
                 Some (Inr (t1, s5\<lparr>aio := h6\<rparr>)))))))))"

section \<open>Lemmas\<close>

lemma slot_loop_find:
  "slot_loop n i slots = (case find (\<lambda>k. \<not> bit slots k) [0..<n] of None \<Rightarrow> -1 | Some k \<Rightarrow> int (i + k))"
proof (induction n arbitrary: i slots)
  case (Suc n)
  have up: "[0..<Suc n] = 0 # map Suc [0..<n]" by (simp add: map_Suc_upt upt_conv_Cons del: upt_Suc)
  have "find P (map Suc xs) = map_option Suc (find (\<lambda>k. P (Suc k)) xs)" for P and xs :: "nat list"
    by (induction xs) auto
  moreover have "bit (drop_bit 1 slots) k = bit slots (Suc k)" for k by (simp add: bit_drop_bit_eq)
  moreover have "slots AND 1 = 0 \<longleftrightarrow> \<not> bit slots 0" by (simp add: bit_0 and_one_eq even_iff_mod_2_eq_zero)
  ultimately show ?case
    unfolding up by (auto simp: Suc.IH split: option.splits simp del: upt_Suc)
qed simp

lemma slot_loop_32: "slot_loop 32 0 slots = (case find (\<lambda>k. \<not> bit slots k) [0..<32] of None \<Rightarrow> -1 | Some k \<Rightarrow> int k)"
  unfolding slot_loop_find add_0 ..

text \<open>A controller whose registers hold still.\<close>

definition quiet :: "machine \<Rightarrow> (ptr \<Rightarrow> u32) \<Rightarrow> bool" where
  "quiet hw regs \<longleftrightarrow> (\<forall>h a. hw h (Read32 a) = ucast (regs a))"

lemma rreg_quiet: "quiet hw regs \<Longrightarrow> rreg hw a s = (regs a, s\<lparr>aio := Read32 a # aio s\<rparr>)"
  by (simp add: rreg_def io_defs quiet_def ucast_up_down)

fun is_write :: "io_event \<Rightarrow> bool" where
  "is_write (Write32 a v) = True"
| "is_write _ = False"

fun is_read :: "io_event \<Rightarrow> bool" where
  "is_read (Read32 a) = True"
| "is_read _ = False"

lemma set_header_table: "rd32 (set_header header m) (header + 8) = rd32 m (header + 8)" "rd32 (set_header header m) (header + 12) = rd32 m (header + 12)"
  by (simp_all add: set_header_def rd32_def)

text \<open>Reads only extend a trace by reads.\<close>

definition reads_more :: "ahci \<Rightarrow> ahci \<Rightarrow> bool" where
  "reads_more s t \<longleftrightarrow> (\<exists>rs. aio t = rs @ aio s \<and> list_all is_read rs) \<and> abar t = abar s \<and> dram t = dram s \<and> apages t = apages s"

lemma reads_more_refl: "reads_more s s"
  by (auto simp: reads_more_def)

lemma reads_more_trans: "reads_more s t \<Longrightarrow> reads_more t u \<Longrightarrow> reads_more s u"
  unfolding reads_more_def by (metis append.assoc list_all_append)

lemma reads_more_rreg: "reads_more s (snd (rreg hw a s))"
  by (auto simp: reads_more_def rreg_def io_defs intro!: exI[of _ "[Read32 a]"])

lemma reads_more_fold: "(\<And>s x. reads_more s (f s x)) \<Longrightarrow> reads_more s (foldl f s xs)"
proof (induction xs arbitrary: s)
  case (Cons x xs)
  then show ?case using reads_more_trans[of s "f s x"] by simp
qed (simp add: reads_more_refl)

lemma irq_port_reads:
  assumes "irq_port hw status s i = Inr t"
  shows "reads_more s t"
proof (cases "bit status i")
  case True
  let ?r = "rreg hw (ports (abar s) i + p_is) s"
  have "reads_more s (snd ?r)" by (rule reads_more_rreg)
  moreover have "reads_more (snd ?r) (foldl (\<lambda>s j. snd (rreg hw (ports (abar s0) i + p_ci) s)) (snd ?r) [0..<32])" for s0
    by (intro reads_more_fold reads_more_rreg)
  ultimately show ?thesis using assms True
    by (auto simp: irq_port_def case_prod_beta Let_def res_iff split: if_splits intro: reads_more_trans)
qed (use assms in \<open>simp add: irq_port_def reads_more_refl\<close>)

lemma irq_ports_read:
  "foldE (irq_port hw status) is s = Inr t \<Longrightarrow> reads_more s t"
proof (induction "is" arbitrary: s)
  case (Cons i "is")
  then show ?case by (auto simp: res_iff intro: reads_more_trans irq_port_reads)
qed (simp add: reads_more_refl)

text \<open>Example: a controller whose registers all read 0, with an empty address space.\<close>

definition still :: machine where
  "still h e = 0"

definition idle_ahci :: ahci where
  "idle_ahci = \<lparr>apages = boot_mm, dram = (\<lambda>_. 0), aio = [], device_list = [], abar = 0x1000\<rparr>"

lemma still_quiet: "quiet still (\<lambda>_. 0)"
  by (simp add: quiet_def still_def)

section \<open>Properties\<close>

text \<open>The command slot: the lowest slot that is neither active nor issued, and -1 when all 32 are taken.\<close>

theorem find_cmdslot_lowest:
  assumes "quiet hw regs"
  shows "fst (find_cmdslot hw prt s) =
     (case find (\<lambda>k. \<not> bit (regs (prt + p_sact) OR regs (prt + p_ci)) k) [0..<32] of None \<Rightarrow> -1 | Some k \<Rightarrow> int k)"
  by (simp add: find_cmdslot_def rreg_quiet[OF assms] slot_loop_32)

theorem find_cmdslot_lowest_witness: "fst (find_cmdslot still 0x1100 idle_ahci) = 0"
proof -
  have "find (\<lambda>k. \<not> bit ((0 :: u32) OR 0) k) [0..<32] = Some 0" by code_simp
  then show ?thesis using find_cmdslot_lowest[OF still_quiet, of "0x1100" idle_ahci] by simp
qed



text \<open>The interrupt handler acknowledges nothing: when it returns it has only read registers, so the status bits
  that raised the interrupt stay set.\<close>

theorem ahci_irq_only_reads:
  assumes "ahci_irq hw stack s = Inr (stack', s')"
  shows "stack' = stack \<and> (\<exists>rs. aio s' = rs @ aio s \<and> list_all is_read rs) \<and> dram s' = dram s"
proof -
  let ?r = "rreg hw (abar s + ghc_is) s"
  have "foldE (irq_port hw (fst ?r)) [0..<32] (snd ?r) = Inr s'" "stack' = stack"
    using assms by (auto simp: ahci_irq_def case_prod_beta Let_def res_iff)
  then show ?thesis
    using reads_more_trans[OF reads_more_rreg irq_ports_read] by (auto simp: reads_more_def)
qed

theorem ahci_irq_only_reads_witness:
  "\<forall>st. \<exists>s'. ahci_irq still st idle_ahci = Inr (st, s') \<and> list_all is_read (aio s')"
proof
  fix st
  have "foldE (irq_port still 0) is t = Inr t" for "is" t by (induction "is") (simp_all add: irq_port_def)
  then obtain s' where s': "ahci_irq still st idle_ahci = Inr (st, s')"
    by (simp add: ahci_irq_def rreg_quiet[OF still_quiet]) (simp add: idle_ahci_def)
  have "aio idle_ahci = []" by (simp add: idle_ahci_def)
  with ahci_irq_only_reads[OF s'] s' show "\<exists>s'. ahci_irq still st idle_ahci = Inr (st, s') \<and> list_all is_read (aio s')" by auto
qed

text \<open>Rounding a command list address down to a page does not round it: on an address that is not page aligned
  \<^verbatim>\<open>PAGE_ALIGN\<close> clears bit 12 only, so the result is not page aligned either, and it is another address exactly
  when bit 12 was set.\<close>

theorem page_align_does_not_align:
  assumes "\<not> IS_PAGE_ALIGNED x"
  shows "\<not> IS_PAGE_ALIGNED (PAGE_ALIGN x) \<and> (PAGE_ALIGN x \<noteq> x \<longleftrightarrow> bit x 12)"
proof
  have e: "(4096 :: u64) = push_bit 12 1" "(4095 :: u64) = mask 12" by (simp_all add: mask_eq_exp_minus_1)
  have b: "bit (PAGE_ALIGN x) n \<longleftrightarrow> bit x n \<and> n \<noteq> 12" for n
    unfolding PAGE_ALIGN_def e by (auto simp only: bit_and_iff bit_not_iff bit_push_bit_iff bit_1_iff possible_bit_word dest: bit_imp_le_length)
  have "x AND 4095 = PAGE_ALIGN x AND 4095"
    unfolding e(2) by (rule bit_word_eqI) (auto simp: bit_simps b)
  then show "\<not> IS_PAGE_ALIGNED (PAGE_ALIGN x)" using assms by (simp add: IS_PAGE_ALIGNED_def)
  show "PAGE_ALIGN x \<noteq> x \<longleftrightarrow> bit x 12"
    using b by (metis bit_word_eqI)
qed

theorem page_align_does_not_align_witness: "\<not> IS_PAGE_ALIGNED (PAGE_ALIGN 0x3400) \<and> PAGE_ALIGN 0x3400 \<noteq> 0x3400"
proof -
  have "\<not> IS_PAGE_ALIGNED 0x3400" "bit (0x3400 :: u64) 12" by code_simp+
  with page_align_does_not_align[of "0x3400"] show ?thesis by simp
qed

end
