(* ===== verification/Boot.thy ===== *)
theory Boot
  imports ListAlloc Terminal Timers
begin

text \<open>
  The start of the kernel: \<^verbatim>\<open>lethe-kernel/kernel.c\<close> and \<^verbatim>\<open>lethe-kernel/kernel_limine.c\<close> up to the point where
  \<^verbatim>\<open>kmain\<close> enables interrupts. This theory joins the components: descriptor tables, processor configuration,
  framebuffer, frame allocator, page tables and heap, interrupt controllers, keyboard line, scheduler and
  timer act on one state, one after the other. The answers of the boot loader are options, \<open>None\<close> for a
  response that is a null pointer. Addresses of code and data, the processor and the devices, the memory that holds
  the ACPI tables, and the blocks that \<^verbatim>\<open>kmalloc\<close> returns while the scheduler is set up are the fields of one
  record, the surroundings of the kernel.
\<close>

section \<open>Boot loader responses\<close>

record limine_framebuffer =
  lf_address :: u64
  lf_width :: u64
  lf_height :: u64
  lf_pitch :: u64
  lf_bpp :: u16

record boot_requests =
  limine_base_revision :: u64
  framebuffer_request :: "limine_framebuffer list option"
  memmap_request :: "memmap_entry list option"
  hhdm_request :: "u64 option"
  rsdp_request :: "ptr option"
  executable_request :: "ptr option"
  tsc_frequency :: "u64 option"

section \<open>State\<close>

record kernel_state =
  gdt_of :: gdt_t
  tss_of :: tss_t
  sys_of :: sys
  hhdm_mapping :: u64
  kernel_file_address :: ptr
  fb_of :: fb
  heap_of :: heap

record surroundings =
  requests :: boot_requests
  hardware :: machine
  tables :: mem
  cpuid_fn :: cpuid
  stub_table :: "nat \<Rightarrow> u64"
  tss_address :: u64
  kernel_end_addr :: u64
  cr3_value :: u64
  task_switch_addr :: ptr
  idle_addr :: u64
  keyboard_addr :: ptr
  pic_timer_addr :: ptr
  apic_timer_addr :: ptr
  kmalloc_ok :: "nat \<Rightarrow> bool"
  task_block :: ptr
  ctx_block :: ptr
  ctx_block_junk :: isr_stack_t

section \<open>Operations\<close>

definition common_init_start :: "surroundings \<Rightarrow> kernel_state \<Rightarrow> kernel_state res" where
  "common_init_start e k =
     bindE (load_idt (stub_table e) (idt_of (sys_of k))) (\<lambda>t.
     let (ts, g) = init_tss (tss_address e) load_gdt in
     bindE (init_config_cpuid (cpuid_fn e)) (\<lambda>c.
     Inr (k\<lparr>gdt_of := g, tss_of := ts, sys_of := set_conf (\<lambda>_. c) ((sys_of k)\<lparr>IF := False, idt_of := t\<rparr>)\<rparr>)))"

text \<open>\<^verbatim>\<open>LIMINE_BASE_REVISION_SUPPORTED\<close>: the boot loader clears the third word.\<close>

definition feature_check :: "boot_requests \<Rightarrow> kernel_state \<Rightarrow> kernel_state res" where
  "feature_check r k =
     bindE (guardE Halted (limine_base_revision r = 0)) (\<lambda>_.
     bindE (guardE Halted (framebuffer_request r \<noteq> None \<and> framebuffer_request r \<noteq> Some [])) (\<lambda>_.
     bindE (guardE Halted (memmap_request r \<noteq> None)) (\<lambda>_.
     let k1 = k\<lparr>hhdm_mapping := (case hhdm_request r of None \<Rightarrow> 0 | Some offset \<Rightarrow> offset)\<rparr> in
     bindE (guardE Halted (lf_bpp (hd (the (framebuffer_request r))) = 32)) (\<lambda>_.
     bindE (guardE Halted (rsdp_request r \<noteq> None)) (\<lambda>_.
     bindE (guardE Halted (executable_request r \<noteq> None)) (\<lambda>_.
     let k2 = (case tsc_frequency r of None \<Rightarrow> k1
               | Some f \<Rightarrow> k1\<lparr>sys_of := set_timers (\<lambda>t. t\<lparr>tsc_freq_khz := ucast (f * 1000)\<rparr>) (sys_of k1)\<rparr>)
     in Inr (k2\<lparr>kernel_file_address := the (executable_request r)\<rparr>)))))))"

text \<open>The heap and the ACPI code work on the same page tables.\<close>

definition bootloader_specific_init :: "surroundings \<Rightarrow> kernel_state \<Rightarrow> kernel_state run" where
  "bootloader_specific_init e k =
     (let r = requests e; f = hd (the (framebuffer_request r)) in
      bindR (Some (feature_check r k)) (\<lambda>k1.
      let k2 = k1\<lparr>fb_of := init_fb (fb_of k1) (lf_address f) (lf_pitch f) (lf_width f) (lf_height f)\<rparr> in
      bindR (setup_allocator (kernel_end_addr e) (cr3_value e) (the (memmap_request r)) (heap_of k2)) (\<lambda>h.
      bindR (Some (acpi_early_init (tables e) (hhdm_mapping k2) (the (rsdp_request r))
                     ((acpi_of (sys_of k2))\<lparr>acpi.pages := vm h\<rparr>))) (\<lambda>a.
      Some (Inr (k2\<lparr>heap_of := h\<lparr>vm := acpi.pages a\<rparr>, sys_of := (sys_of k2)\<lparr>acpi_of := a\<rparr>\<rparr>))))))"

definition on_sys :: "(sys \<Rightarrow> sys run) \<Rightarrow> kernel_state \<Rightarrow> kernel_state run" where
  "on_sys f k =
     bindR (f (sys_of k)) (\<lambda>s. Some (Inr (k\<lparr>sys_of := s, heap_of := (heap_of k)\<lparr>vm := acpi.pages (acpi_of s)\<rparr>\<rparr>)))"

definition init_kb_status :: "surroundings \<Rightarrow> u64 \<Rightarrow> sys \<Rightarrow> sys run" where
  "init_kb_status e hhdm s = on_irq (enable_irq (tables e) hhdm 1 33 (keyboard_addr e)) s"

text \<open>\<^verbatim>\<open>kmain\<close> up to and including \<^verbatim>\<open>enable_interrupts\<close>; the messages are left out.\<close>

definition kmain_start :: "surroundings \<Rightarrow> kernel_state \<Rightarrow> kernel_state run" where
  "kmain_start e k =
     bindR (Some (common_init_start e k)) (\<lambda>k1.
     bindR (bootloader_specific_init e k1) (\<lambda>k2.
     bindR (on_sys (init_kb_status e (hhdm_mapping k2)) k2) (\<lambda>k3.
     bindR (on_sys (\<lambda>s. Some (enable_tasking (hardware e) (kmalloc_ok e) (task_switch_addr e) (idle_addr e)
              (task_block e) (ctx_block e) (ctx_block_junk e) s)) k3) (\<lambda>k4.
     bindR (on_sys (enable_apic (hardware e) (tables e) (hhdm_mapping k4) (pic_timer_addr e) (apic_timer_addr e)) k4) (\<lambda>k5.
     on_sys (\<lambda>s. Some (Inr (enable_interrupts (hardware e) s))) k5)))))"

section \<open>Lemmas\<close>

lemma init_config_shape:
  assumes "init_config_cpuid f = Inr c"
  shows "interrupts_enabled c = 0 \<and> multitasking_enabled c = 0 \<and> timer_source (timers c) = 0"
proof -
  have "\<exists>t. c = zero_config\<lparr>timers := t\<rparr> \<and> timer_source t = 0"
    using assms unfolding init_config_cpuid_def
    by (auto simp: Let_def res_iff zero_config_def split: option.splits prod.splits if_splits)
  then show ?thesis by (auto simp: zero_config_def)
qed

text \<open>What the boot loader has to answer.\<close>

definition responses_ok :: "boot_requests \<Rightarrow> bool" where
  "responses_ok r \<longleftrightarrow> limine_base_revision r = 0 \<and> memmap_request r \<noteq> None \<and> rsdp_request r \<noteq> None
     \<and> executable_request r \<noteq> None
     \<and> (case framebuffer_request r of None \<Rightarrow> False | Some fs \<Rightarrow> fs \<noteq> [] \<and> lf_bpp (hd fs) = 32)"

definition hhdm_offset :: "boot_requests \<Rightarrow> u64" where
  "hhdm_offset r = (case hhdm_request r of None \<Rightarrow> 0 | Some offset \<Rightarrow> offset)"

definition boot_frequency :: "boot_requests \<Rightarrow> kernel_config \<Rightarrow> u32" where
  "boot_frequency r c = (case tsc_frequency r of None \<Rightarrow> tsc_freq_khz (timers c) | Some f \<Rightarrow> ucast (f * 1000))"

lemma feature_check_iff:
  "feature_check r k =
     (if responses_ok r
      then Inr (k\<lparr>hhdm_mapping := hhdm_offset r, kernel_file_address := the (executable_request r),
             sys_of := set_timers (\<lambda>t. t\<lparr>tsc_freq_khz := boot_frequency r (conf (sys_of k))\<rparr>) (sys_of k)\<rparr>)
      else Inl Halted)"
  by (auto simp: feature_check_def responses_ok_def guardE_def Let_def hhdm_offset_def boot_frequency_def set_timers_def
      set_conf_def conf_def split: option.splits)

lemma common_init_start_ok:
  assumes "idt_wf (idt_of (sys_of k))" "init_config_cpuid (cpuid_fn e) = Inr c"
  shows "\<exists>t. common_init_start e k = Inr (k\<lparr>gdt_of := gdt_set_tss (tss_address e) load_gdt,
         tss_of := zero_tss\<lparr>iomap_base := 104\<rparr>, sys_of := set_conf (\<lambda>_. c) ((sys_of k)\<lparr>IF := False, idt_of := t\<rparr>)\<rparr>)
     \<and> idt_wf t \<and> (\<forall>i<256. entries t ! i = idt_gate (stub_table e i) \<and> isr_handler_table t ! i = NULL)"
proof -
  from load_idt_prefix[OF assms(1) order_refl, of "stub_table e"] obtain t where
    "load_idt (stub_table e) (idt_of (sys_of k)) = Inr t" "idt_wf t"
    "\<forall>i<256. entries t ! i = idt_gate (stub_table e i) \<and> isr_handler_table t ! i = NULL"
    unfolding load_idt_fold by blast
  then show ?thesis
    using assms(2) by (auto simp: common_init_start_def init_tss_def sizeof_tss_def Let_def)
qed

definition heap_base :: "surroundings \<Rightarrow> u64" where
  "heap_base e = ALIGN_UP (kernel_end_addr e + 0x10000) (of_nat PAGE_SIZE)"

lemma setup_allocator_ok:
  assumes "init_frame_allocator mmap (vm h) = Inr m" "m1 = init_page_table cr3 m" "pt_inv m1"
    and "132 \<le> length (free_frames m1)" "base = ALIGN_UP (kend + 0x10000) (of_nat PAGE_SIZE)" "unat base + 0x21000 < 2 ^ 64"
    and "\<And>j. j \<le> 32 \<Longrightarrow> \<not> present (leaf m1 (base + pgoff j))"
  shows "\<exists>h'. setup_allocator kend cr3 mmap h = Some (Inr h') \<and> pt_inv (vm h')
     \<and> length (free_frames m1) \<le> length (free_frames (vm h')) + 132
     \<and> (\<forall>j \<le> 32. virtual_to_physical (vm h') (base + pgoff j) \<noteq> 0)
     \<and> (\<forall>w. (\<forall>j \<le> 32. \<not> same_page w (base + pgoff j)) \<longrightarrow> leaf (vm h') w = leaf m1 w)
     \<and> head_next h' = base"
proof -
  have "heap_size = pgoff 32" by (simp add: heap_size_def pgoff_def)
  with back_range_maps[OF assms(3), of 32 base "''Out of Memory''"] assms(4,6,7) obtain m' where
    "back_range ''Out of Memory'' m1 base (base + heap_size) = Some (Inr m')" "pt_inv m'"
    "length (free_frames m1) \<le> length (free_frames m') + 132"
    "\<forall>j \<le> 32. virtual_to_physical m' (base + pgoff j) \<noteq> 0"
    "\<forall>w. (\<forall>j \<le> 32. \<not> same_page w (base + pgoff j)) \<longrightarrow> leaf m' w = leaf m1 w" by auto
  then show ?thesis
    using assms(1) unfolding assms(2,5)
    by (simp add: setup_allocator_def Let_def add_region_def set_heap_end_def)
qed

text \<open>Mapping a device page.\<close>

lemma map_device:
  assumes "pt_inv m" "3 \<le> length (free_frames m)" "\<not> present (leaf m v)"
  shows "\<exists>m'. map_page m v a 3 = Inr m' \<and> pt_inv m' \<and> length (free_frames m) \<le> length (free_frames m') + 3
     \<and> (\<forall>w. leaf m' w = (if same_page w v then set_entry a 3 else leaf m w))"
proof -
  have "bit (3 :: u16) 0" by simp
  from map_page_spec[OF assms(1) this assms(2), of v a] assms(3) show ?thesis by auto
qed

lemma acpi_early_ok:
  assumes "x = xsdp_xsdt m rsdp + hhdm" "sdt_checksum m x = Inr True" "scan_tables m hhdm x (lit ''APIC'') 0 = Inr p" "p \<noteq> NULL"
    and "pt_inv (acpi.pages s)" "3 \<le> length (free_frames (acpi.pages s))"
    and "lap = ucast (madt_lapic m p)" "\<not> present (leaf (acpi.pages s) (lap + hhdm))"
  shows "\<exists>a. acpi_early_init m hhdm rsdp s = Inr a \<and> madt a = p \<and> lapic_addr a = lap + hhdm
     \<and> (\<exists>b. kconf a = (kconf s)\<lparr>interrupt_source := 2, has_mcfg := b\<rparr>) \<and> pt_inv (acpi.pages a)
     \<and> length (free_frames (acpi.pages s)) \<le> length (free_frames (acpi.pages a)) + 3
     \<and> (\<forall>w. leaf (acpi.pages a) w = (if same_page w (lap + hhdm) then set_entry lap 3 else leaf (acpi.pages s) w))"
proof -
  from map_device[OF assms(5,6,8), of lap] obtain pg where pg: "map_page (acpi.pages s) (lap + hhdm) lap 3 = Inr pg" "pt_inv pg"
    "length (free_frames (acpi.pages s)) \<le> length (free_frames pg) + 3"
    "\<forall>w. leaf pg w = (if same_page w (lap + hhdm) then set_entry lap 3 else leaf (acpi.pages s) w)" by blast
  define s1 where "s1 = s\<lparr>XSDT := x, madt := p, kconf := (kconf s)\<lparr>interrupt_source := 2\<rparr>,
      io := (if madt_flags m p AND 1 = 1 then mask_pic (io s) else io s)\<rparr>"
  define s2 where "s2 = s1\<lparr>acpi.pages := pg, lapic_addr := lap + hhdm\<rparr>"
  have 1: "madt_init m hhdm (s\<lparr>XSDT := x\<rparr>) = Inr s1"
    using assms(3,4) by (simp add: madt_init_def s1_def Let_def)
  have 2: "lapic_init m hhdm s1 = Inr s2"
    using pg(1) assms(4,7) by (simp add: lapic_init_def madt_get_lapic_addr_def s1_def s2_def)
  have "x \<noteq> NULL" using assms(3) by (auto simp: scan_tables_def scan_xsdt_def lit_def res_iff split: if_splits)
  moreover have "char_cmp (take 4 (lit ''MCFG'')) (lit ''DSDT'') \<noteq> 0" by code_simp
  ultimately obtain q where q: "scan_tables m hhdm x (lit ''MCFG'') 0 = Inr q"
    by (simp add: scan_tables_def scan_xsdt_def)
  have "\<exists>a. init_mcfg m hhdm s2 = Inr a \<and> madt a = p \<and> lapic_addr a = lap + hhdm \<and> acpi.pages a = pg
     \<and> (\<exists>b. kconf a = (kconf s)\<lparr>interrupt_source := 2, has_mcfg := b\<rparr>)"
    using q by (auto simp: init_mcfg_def s2_def s1_def parse_mcfg_def Let_def intro: exI[of _ "has_mcfg (kconf s)"])
  then show ?thesis
    using assms(1,2) 1 2 pg by (auto simp: acpi_early_init_def Let_def)
qed

text \<open>The IO APIC register page: mapped on its first use, found again later.\<close>

lemma madt_get_ioapic_ok:
  assumes "madt s \<noteq> NULL" "madt_entries m (madt s) 0 es" "find_entry (\<lambda>e. e ! 0 = 1 \<and> le32 e 8 = 0) 0 es = Some j"
    and "addr = ucast (madt_addr32 m (madt s) (j + 4))" "addr \<noteq> 0" "unat addr mod 4096 = 0" "sel = addr + hhdm"
    and "pt_inv (acpi.pages s)"
    and "virtual_to_physical (acpi.pages s) sel \<noteq> 0 \<or> \<not> present (leaf (acpi.pages s) sel) \<and> 3 \<le> length (free_frames (acpi.pages s))"
  shows "\<exists>pg. madt_get_ioapic m hhdm 0 s = Some (Inr (sel, s\<lparr>acpi.pages := pg\<rparr>)) \<and> pt_inv pg
     \<and> virtual_to_physical pg sel \<noteq> 0 \<and> (\<forall>w. \<not> same_page w sel \<longrightarrow> leaf pg w = leaf (acpi.pages s) w)"
proof (cases "virtual_to_physical (acpi.pages s) sel = 0")
  case True
  with assms(9) have "\<not> present (leaf (acpi.pages s) sel)" "3 \<le> length (free_frames (acpi.pages s))" by auto
  from map_device[OF assms(8) this(2,1), of addr] obtain pg where pg: "map_page (acpi.pages s) sel addr 3 = Inr pg" "pt_inv pg"
    "\<forall>w. leaf pg w = (if same_page w sel then set_entry addr 3 else leaf (acpi.pages s) w)" by blast
  have w: "unat (madt_addr32 m (madt s) (j + 4)) < 2 ^ 32" by (rule order_less_le_trans[OF unsigned_less]) simp
  have "unat addr = take_bit 64 (unat (madt_addr32 m (madt s) (j + 4)))" by (simp add: assms(4) unsigned_ucast_eq)
  also have "\<dots> = unat (madt_addr32 m (madt s) (j + 4))" using w by (intro take_bit_nat_eq_self) simp
  finally have "unat addr < 2 ^ 32" using w by simp
  then have "target (set_entry addr 3) = addr" using assms(6) by (intro target_set_entry) simp_all
  with pg(3) assms(5) have "virtual_to_physical pg sel \<noteq> 0" by (simp add: virtual_to_physical_leaf same_page_def)
  then show ?thesis
    using True pg ioapic_loop_finds[OF assms(2), of 0] assms(1,3,4,7) by (auto simp: madt_get_ioapic_def Let_def)
next
  case False
  have "s\<lparr>acpi.pages := acpi.pages s\<rparr> = s" by simp
  with False show ?thesis
    using ioapic_loop_finds[OF assms(2), of 0] assms(1,3,4,7,8)
    by (intro exI[of _ "acpi.pages s"]) (simp add: madt_get_ioapic_def Let_def)
qed

lemma override_found:
  assumes "madt s \<noteq> NULL" "madt_entries m (madt s) 0 es"
  shows "\<exists>ov. madt_get_override_for_irq m s irq = Some (Inr ov)"
  using assms override_loop_finds[OF assms(2)] by (simp add: madt_get_override_for_irq_def)

text \<open>Switching a line on or off changes the handler table, the trace and at most the mapping of the register page.\<close>

lemma irq_ops_ok:
  assumes ioapic: "madt s \<noteq> NULL" "madt_entries m (madt s) 0 es" "find_entry (\<lambda>e. e ! 0 = 1 \<and> le32 e 8 = 0) 0 es = Some j"
      "addr = ucast (madt_addr32 m (madt s) (j + 4))" "addr \<noteq> 0" "unat addr mod 4096 = 0" "sel = addr + hhdm"
      "pt_inv (acpi.pages s)"
      "virtual_to_physical (acpi.pages s) sel \<noteq> 0 \<or> \<not> present (leaf (acpi.pages s) sel) \<and> 3 \<le> length (free_frames (acpi.pages s))"
    and t: "idt_wf t" "0 \<le> vec" "vec < 256" "interrupt_source (kconf s) = 2"
  shows "\<exists>pg tr. enable_irq m hhdm irq vec h (t, s) =
       Some (Inr (t\<lparr>isr_handler_table := (isr_handler_table t)[nat vec := h]\<rparr>, s\<lparr>acpi.pages := pg, io := tr\<rparr>))
     \<and> pt_inv pg \<and> virtual_to_physical pg sel \<noteq> 0 \<and> (\<forall>w. \<not> same_page w sel \<longrightarrow> leaf pg w = leaf (acpi.pages s) w)"
    and "\<exists>pg tr. disable_irq m hhdm irq vec (t, s) =
       Some (Inr (t\<lparr>isr_handler_table := (isr_handler_table t)[nat vec := NULL]\<rparr>, s\<lparr>acpi.pages := pg, io := tr\<rparr>))
     \<and> pt_inv pg \<and> virtual_to_physical pg sel \<noteq> 0 \<and> (\<forall>w. \<not> same_page w sel \<longrightarrow> leaf pg w = leaf (acpi.pages s) w)"
proof -
  from madt_get_ioapic_ok[OF ioapic] obtain pg where pg: "madt_get_ioapic m hhdm 0 s = Some (Inr (sel, s\<lparr>acpi.pages := pg\<rparr>))"
    "pt_inv pg" "virtual_to_physical pg sel \<noteq> 0" "\<forall>w. \<not> same_page w sel \<longrightarrow> leaf pg w = leaf (acpi.pages s) w" by blast
  from override_found[of "s\<lparr>acpi.pages := pg\<rparr>" m es "word_of_int irq"] ioapic(1,2) obtain ov where
    ov: "madt_get_override_for_irq m (s\<lparr>acpi.pages := pg\<rparr>) (word_of_int irq) = Some (Inr ov)" by auto
  have reg: "register_handler t vec g = Inr (t\<lparr>isr_handler_table := (isr_handler_table t)[nat vec := g]\<rparr>)" for g
    using t by (simp add: register_handler_iff)
  obtain tr where en: "ioapic_enable_irq m hhdm irq vec s = Some (Inr (s\<lparr>acpi.pages := pg, io := tr\<rparr>))"
    unfolding ioapic_enable_irq_def pg(1) bindR_simps prod.case ov Let_def by blast
  obtain tr' where dis: "ioapic_disable_irq m hhdm irq s = Some (Inr (s\<lparr>acpi.pages := pg, io := tr'\<rparr>))"
    unfolding ioapic_disable_irq_def pg(1) bindR_simps prod.case ov Let_def by blast
  from en pg(2-4) t(4) show "\<exists>pg tr. enable_irq m hhdm irq vec h (t, s) =
       Some (Inr (t\<lparr>isr_handler_table := (isr_handler_table t)[nat vec := h]\<rparr>, s\<lparr>acpi.pages := pg, io := tr\<rparr>))
     \<and> pt_inv pg \<and> virtual_to_physical pg sel \<noteq> 0 \<and> (\<forall>w. \<not> same_page w sel \<longrightarrow> leaf pg w = leaf (acpi.pages s) w)"
    by (intro exI[of _ pg] exI[of _ tr]) (simp add: enable_irq_def reg)
  from dis pg(2-4) t(4) show "\<exists>pg tr. disable_irq m hhdm irq vec (t, s) =
       Some (Inr (t\<lparr>isr_handler_table := (isr_handler_table t)[nat vec := NULL]\<rparr>, s\<lparr>acpi.pages := pg, io := tr\<rparr>))
     \<and> pt_inv pg \<and> virtual_to_physical pg sel \<noteq> 0 \<and> (\<forall>w. \<not> same_page w sel \<longrightarrow> leaf pg w = leaf (acpi.pages s) w)"
    by (intro exI[of _ pg] exI[of _ tr']) (simp add: disable_irq_def unregister_handler_def reg)
qed

lemma conf_simps [simp]:
  "conf (set_conf f s) = f (conf s)" "idt_of (set_conf f s) = idt_of s" "sched_of (set_conf f s) = sched_of s"
  "IF (set_conf f s) = IF s" "acpi_of (set_conf f s) = (acpi_of s)\<lparr>kconf := f (conf s)\<rparr>"
  "conf (s\<lparr>idt_of := t\<rparr>) = conf s" "conf (s\<lparr>sched_of := sc\<rparr>) = conf s" "conf (s\<lparr>IF := b\<rparr>) = conf s"
  "conf (s\<lparr>acpi_of := a\<rparr>) = kconf a"
  by (simp_all add: set_conf_def conf_def)

lemma enable_tasking_ok:
  assumes "interrupts_enabled (conf s) = 0" "idt_wf (idt_of s)" "pt \<noteq> NULL" "pc \<noteq> NULL"
  shows "\<exists>sc. enable_tasking hw (\<lambda>_. True) ti idle pt pc junk s =
       Inr (set_conf (\<lambda>c. c\<lparr>multitasking_enabled := 1\<rparr>)
         (s\<lparr>idt_of := (idt_of s)\<lparr>isr_handler_table := (isr_handler_table (idt_of s))[128 := ti]\<rparr>, sched_of := sc\<rparr>))
     \<and> sched_wf sc \<and> waiting sc = [] \<and> current sc = pt"
proof -
  obtain t sc where i: "init_tasks (\<lambda>_. True) ti idle pt pc junk (idt_of s, sched_of s) = Inr (t, sc)"
    "t = (idt_of s)\<lparr>isr_handler_table := (isr_handler_table (idt_of s))[128 := ti]\<rparr>" "current sc = pt"
    "waiting sc = []"
    using assms by (simp add: init_tasks_def register_handler_iff new_queue_fresh Let_def)
      (simp add: waiting_def fresh_queue_def contents_def used_def)
  have "sched_wf sc" using init_tasks_first_two[OF i(1)] by (simp add: first_two_def)
  with i assms(1) show ?thesis
    by (intro exI[of _ sc]) (simp add: enable_tasking_def MAYBE_CLI_def MAYBE_STI_def Let_def)
qed

text \<open>The timer and the local APIC only add to the trace.\<close>

lemma lapic_ops_io:
  "\<exists>tr. apic_enable_timer hw a = a\<lparr>io := tr\<rparr>" "\<exists>tr. lapic_enable hw a = a\<lparr>io := tr\<rparr>"
  by (auto simp: apic_enable_timer_def lapic_enable_def lapic_read_def lapic_write_def case_prod_beta Let_def intro: exI)

lemma enable_apic_ok:
  assumes ioapic: "madt (acpi_of s) \<noteq> NULL" "madt_entries m (madt (acpi_of s)) 0 es"
      "find_entry (\<lambda>e. e ! 0 = 1 \<and> le32 e 8 = 0) 0 es = Some j"
      "addr = ucast (madt_addr32 m (madt (acpi_of s)) (j + 4))" "addr \<noteq> 0" "unat addr mod 4096 = 0" "sel = addr + hhdm"
      "pt_inv (acpi.pages (acpi_of s))" "virtual_to_physical (acpi.pages (acpi_of s)) sel \<noteq> 0"
    and conf: "idt_wf (idt_of s)" "interrupts_enabled (conf s) = 0" "interrupt_source (conf s) = 2"
      "tsc_freq_khz (timers (conf s)) \<noteq> 0"
  shows "\<exists>pg tr. enable_apic hw m hhdm pic_isr apic_isr s =
       Some (Inr (set_timers (\<lambda>t. t\<lparr>timer_source := (timer_source t AND NOT 1) OR 2\<rparr>)
         (s\<lparr>idt_of := (idt_of s)\<lparr>isr_handler_table := (isr_handler_table (idt_of s))[32 := apic_isr, 34 := NULL]\<rparr>,
            acpi_of := (acpi_of s)\<lparr>acpi.pages := pg, io := tr\<rparr>\<rparr>)))
     \<and> pt_inv pg \<and> (\<forall>w. \<not> same_page w sel \<longrightarrow> leaf pg w = leaf (acpi.pages (acpi_of s)) w)"
proof -
  obtain tr0 where tr0: "apic_enable_timer hw (acpi_of s) = (acpi_of s)\<lparr>io := tr0\<rparr>" using lapic_ops_io(1) by blast
  let ?t = "(idt_of s)\<lparr>isr_handler_table := (isr_handler_table (idt_of s))[32 := apic_isr]\<rparr>"
  have t: "register_handler (idt_of s) 32 apic_isr = Inr ?t" using conf(1) by (simp add: register_handler_iff)
  have wf: "idt_wf ?t" using conf(1) by (simp add: idt_wf_def)
  from irq_ops_ok(2)[of "(acpi_of s)\<lparr>io := tr0\<rparr>" m es j addr sel hhdm ?t 34 0] ioapic wf conf(3) obtain pg tr where
    d: "disable_irq m hhdm 0 34 (?t, (acpi_of s)\<lparr>io := tr0\<rparr>) =
       Some (Inr (?t\<lparr>isr_handler_table := (isr_handler_table ?t)[nat 34 := NULL]\<rparr>, (acpi_of s)\<lparr>io := tr0, acpi.pages := pg, io := tr\<rparr>))"
    "pt_inv pg" "\<forall>w. \<not> same_page w sel \<longrightarrow> leaf pg w = leaf (acpi.pages (acpi_of s)) w"
    by (auto simp: conf_def)
  have "start_apic_timer hw m hhdm apic_isr s = Some (Inr (set_timers (\<lambda>t. t\<lparr>timer_source := (timer_source t AND NOT 1) OR 2\<rparr>)
         (s\<lparr>idt_of := (idt_of s)\<lparr>isr_handler_table := (isr_handler_table (idt_of s))[32 := apic_isr, 34 := NULL]\<rparr>,
            acpi_of := (acpi_of s)\<lparr>acpi.pages := pg, io := tr\<rparr>\<rparr>)))"
    using conf(2) by (simp add: start_apic_timer_def t tr0 Let_def on_irq_def d(1) MAYBE_STI_def set_timers_def)
      (simp add: conf_def)
  with d conf(2,4) show ?thesis by (auto simp: enable_apic_def MAYBE_CLI_def Let_def)
qed

lemma enable_interrupts_ok:
  assumes "interrupt_source (conf s) = 2"
  shows "\<exists>tr. enable_interrupts hw s = set_conf (\<lambda>c. c\<lparr>interrupts_enabled := 1\<rparr>) (s\<lparr>acpi_of := (acpi_of s)\<lparr>io := tr\<rparr>, IF := True\<rparr>)"
proof -
  obtain tr where "lapic_enable hw (acpi_of s) = (acpi_of s)\<lparr>io := tr\<rparr>" using lapic_ops_io(2) by blast
  then show ?thesis using assms by (auto simp: enable_interrupts_def sti_def Let_def)
qed

text \<open>
  What the surroundings have to offer for the start to succeed, beside the responses. Page tables and frames: \<open>m\<close> are
  the page tables the kernel starts with, with room for the heap and for two device pages. Interrupt controllers: the
  root table is valid and has an APIC table at \<open>p\<close>, filled by the structures \<open>es\<close>, whose entry at offset j is the IO
  APIC for line 0. Device pages: neither of them is mapped, in the heap, or the other one.
\<close>

definition memory_ok :: "surroundings \<Rightarrow> kernel_state \<Rightarrow> mm \<Rightarrow> bool" where
  "memory_ok e k m \<longleftrightarrow>
     (\<exists>m0. init_frame_allocator (the (memmap_request (requests e))) (vm (heap_of k)) = Inr m0 \<and> m = init_page_table (cr3_value e) m0)
     \<and> pt_inv m \<and> 138 \<le> length (free_frames m) \<and> unat (heap_base e) + 0x21000 < 2 ^ 64
     \<and> (\<forall>j \<le> 32. \<not> present (leaf m (heap_base e + pgoff j)))"

definition apic_ok :: "surroundings \<Rightarrow> ptr \<Rightarrow> u8 list list \<Rightarrow> u64 \<Rightarrow> bool" where
  "apic_ok e p es j \<longleftrightarrow>
     (let h = hhdm_offset (requests e); x = xsdp_xsdt (tables e) (the (rsdp_request (requests e))) + h in
      sdt_checksum (tables e) x = Inr True \<and> scan_tables (tables e) h x (lit ''APIC'') 0 = Inr p \<and> p \<noteq> NULL
      \<and> madt_entries (tables e) p 0 es \<and> find_entry (\<lambda>e. e ! 0 = 1 \<and> le32 e 8 = 0) 0 es = Some j)"

definition lapic_phys :: "surroundings \<Rightarrow> ptr \<Rightarrow> u64" where
  "lapic_phys e p = ucast (madt_lapic (tables e) p)"

definition ioapic_phys :: "surroundings \<Rightarrow> ptr \<Rightarrow> u64 \<Rightarrow> u64" where
  "ioapic_phys e p j = ucast (madt_addr32 (tables e) p (j + 4))"

definition device_page_ok :: "surroundings \<Rightarrow> mm \<Rightarrow> u64 \<Rightarrow> bool" where
  "device_page_ok e m v \<longleftrightarrow> \<not> present (leaf m v) \<and> (\<forall>j \<le> 32. \<not> same_page v (heap_base e + pgoff j))"

definition devices_ok :: "surroundings \<Rightarrow> mm \<Rightarrow> ptr \<Rightarrow> u64 \<Rightarrow> bool" where
  "devices_ok e m p j \<longleftrightarrow>
     (let h = hhdm_offset (requests e) in
      device_page_ok e m (lapic_phys e p + h) \<and> device_page_ok e m (ioapic_phys e p j + h)
      \<and> \<not> same_page (ioapic_phys e p j + h) (lapic_phys e p + h)
      \<and> ioapic_phys e p j \<noteq> 0 \<and> unat (ioapic_phys e p j) mod 4096 = 0)"

text \<open>The state in which \<^verbatim>\<open>bootloader_specific_init\<close> leaves the kernel.\<close>

lemma bootloader_ok:
  assumes "responses_ok (requests e)" "memory_ok e k m" "apic_ok e p es j" "devices_ok e m p j"
  defines "h \<equiv> hhdm_offset (requests e)"
  shows "\<exists>k' a. bootloader_specific_init e k = Some (Inr k') \<and> sys_of k' = (sys_of k)\<lparr>acpi_of := a\<rparr>
     \<and> gdt_of k' = gdt_of k \<and> hhdm_mapping k' = h \<and> fb_init (fb_of k') \<and> vm (heap_of k') = acpi.pages a
     \<and> madt a = p \<and> lapic_addr a = lapic_phys e p + h
     \<and> (\<exists>b. kconf a = (conf (sys_of k))\<lparr>interrupt_source := 2, has_mcfg := b,
            timers := (timers (conf (sys_of k)))\<lparr>tsc_freq_khz := boot_frequency (requests e) (conf (sys_of k))\<rparr>\<rparr>)
     \<and> pt_inv (acpi.pages a) \<and> 3 \<le> length (free_frames (acpi.pages a)) \<and> \<not> present (leaf (acpi.pages a) (ioapic_phys e p j + h))
     \<and> (\<forall>i \<le> 32. virtual_to_physical (acpi.pages a) (heap_base e + pgoff i) \<noteq> 0)"
proof -
  from assms(2) obtain m0 where M: "init_frame_allocator (the (memmap_request (requests e))) (vm (heap_of k)) = Inr m0"
      "m = init_page_table (cr3_value e) m0" "pt_inv m" "138 \<le> length (free_frames m)" "unat (heap_base e) + 0x21000 < 2 ^ 64"
      "\<And>j. j \<le> 32 \<Longrightarrow> \<not> present (leaf m (heap_base e + pgoff j))" unfolding memory_ok_def by blast
  let ?lap = "lapic_phys e p + h" and ?ioa = "ioapic_phys e p j + h"
  have D: "\<not> present (leaf m ?lap)" "\<not> present (leaf m ?ioa)" "\<not> same_page ?ioa ?lap"
      "\<forall>i \<le> 32. \<not> same_page ?lap (heap_base e + pgoff i)" "\<forall>i \<le> 32. \<not> same_page ?ioa (heap_base e + pgoff i)"
    using assms(4) by (simp_all add: devices_ok_def device_page_ok_def Let_def h_def)
  have "132 \<le> length (free_frames m)" using M(4) by simp
  from setup_allocator_ok[OF M(1,2,3) this heap_base_def M(5,6)] obtain hp where hp:
    "setup_allocator (kernel_end_addr e) (cr3_value e) (the (memmap_request (requests e))) (heap_of k) = Some (Inr hp)"
    "pt_inv (vm hp)" "length (free_frames m) \<le> length (free_frames (vm hp)) + 132"
    "\<forall>i \<le> 32. virtual_to_physical (vm hp) (heap_base e + pgoff i) \<noteq> 0"
    "\<forall>w. (\<forall>i \<le> 32. \<not> same_page w (heap_base e + pgoff i)) \<longrightarrow> leaf (vm hp) w = leaf m w" by blast
  let ?s = "set_timers (\<lambda>t. t\<lparr>tsc_freq_khz := boot_frequency (requests e) (conf (sys_of k))\<rparr>) (sys_of k)"
  let ?a = "(acpi_of ?s)\<lparr>acpi.pages := vm hp\<rparr>"
  have np: "\<not> present (leaf (acpi.pages ?a) ?lap)" and fr: "6 \<le> length (free_frames (acpi.pages ?a))"
    using hp(3,5) D(1,4) M(4) by simp_all
  have A: "sdt_checksum (tables e) (xsdp_xsdt (tables e) (the (rsdp_request (requests e))) + h) = Inr True"
      "scan_tables (tables e) h (xsdp_xsdt (tables e) (the (rsdp_request (requests e))) + h) (lit ''APIC'') 0 = Inr p" "p \<noteq> NULL"
    using assms(3) by (simp_all add: apic_ok_def Let_def h_def)
  from acpi_early_ok[OF refl A, of ?a] hp(2) fr np obtain a b where a:
    "acpi_early_init (tables e) h (the (rsdp_request (requests e))) ?a = Inr a" "madt a = p" "lapic_addr a = ?lap"
    "kconf a = (kconf ?a)\<lparr>interrupt_source := 2, has_mcfg := b\<rparr>" "pt_inv (acpi.pages a)"
    "length (free_frames (vm hp)) \<le> length (free_frames (acpi.pages a)) + 3"
    "\<forall>w. leaf (acpi.pages a) w = (if same_page w ?lap then set_entry (lapic_phys e p) 3 else leaf (vm hp) w)"
    unfolding lapic_phys_def by auto
  have "leaf (acpi.pages a) ?ioa = leaf m ?ioa" using a(7) hp(5) D(3,5) by simp
  moreover have "virtual_to_physical (acpi.pages a) (heap_base e + pgoff i) \<noteq> 0" if "i \<le> 32" for i
  proof -
    have "\<not> same_page (heap_base e + pgoff i) ?lap" using D(4) that by (auto simp: same_page_def)
    then show ?thesis using a(7) hp(4) that by (simp add: virtual_to_physical_leaf)
  qed
  ultimately show ?thesis
    using assms(1) a(1-6) hp(1) fr D(2)
    by (simp add: bootloader_specific_init_def feature_check_iff Let_def h_def set_timers_def init_fb_def)
      (intro exI[of _ a] exI[of _ b] conjI; simp add: set_conf_def)
qed

lemma pages_conf_update [simp]: "acpi.pages (acpi_of (set_timers f s)) = acpi.pages (acpi_of s)" "idt_of (set_timers f s) = idt_of s"
    "sched_of (set_timers f s) = sched_of s" "IF (set_timers f s) = IF s" "conf (set_timers f s) = (conf s)\<lparr>timers := f (timers (conf s))\<rparr>"
    "lapic_addr (acpi_of (set_timers f s)) = lapic_addr (acpi_of s)"
  by (simp_all add: set_timers_def)

lemma handler_table_order:
  "(replicate 256 NULL)[33 := a, 128 := b, 32 := c, 34 := NULL] = (replicate 256 NULL)[32 := c, 33 := a, 128 := b]"
  by (rule nth_equalityI) (simp_all add: nth_list_update)

lemma init_kb_status_ok:
  assumes ioapic: "madt (acpi_of s) \<noteq> NULL" "madt_entries (tables e) (madt (acpi_of s)) 0 es"
      "find_entry (\<lambda>e. e ! 0 = 1 \<and> le32 e 8 = 0) 0 es = Some j"
      "addr = ucast (madt_addr32 (tables e) (madt (acpi_of s)) (j + 4))" "addr \<noteq> 0" "unat addr mod 4096 = 0" "sel = addr + h"
      "pt_inv (acpi.pages (acpi_of s))" "3 \<le> length (free_frames (acpi.pages (acpi_of s)))" "\<not> present (leaf (acpi.pages (acpi_of s)) sel)"
    and "idt_wf (idt_of s)" "interrupt_source (conf s) = 2"
  shows "\<exists>pg tr. init_kb_status e h s =
       Some (Inr (s\<lparr>idt_of := (idt_of s)\<lparr>isr_handler_table := (isr_handler_table (idt_of s))[33 := keyboard_addr e]\<rparr>,
                    acpi_of := (acpi_of s)\<lparr>acpi.pages := pg, io := tr\<rparr>\<rparr>))
     \<and> pt_inv pg \<and> virtual_to_physical pg sel \<noteq> 0 \<and> (\<forall>w. \<not> same_page w sel \<longrightarrow> leaf pg w = leaf (acpi.pages (acpi_of s)) w)"
proof -
  from irq_ops_ok(1)[OF ioapic(1-8) _ assms(11), of 33 1 "keyboard_addr e"] ioapic(9,10) assms(12) obtain pg tr where
    "enable_irq (tables e) h 1 33 (keyboard_addr e) (idt_of s, acpi_of s) =
       Some (Inr ((idt_of s)\<lparr>isr_handler_table := (isr_handler_table (idt_of s))[33 := keyboard_addr e]\<rparr>, (acpi_of s)\<lparr>acpi.pages := pg, io := tr\<rparr>))"
    "pt_inv pg" "virtual_to_physical pg sel \<noteq> 0" "\<forall>w. \<not> same_page w sel \<longrightarrow> leaf pg w = leaf (acpi.pages (acpi_of s)) w"
    by (auto simp: conf_def)
  then show ?thesis by (intro exI[of _ pg] exI[of _ tr]) (simp add: init_kb_status_def on_irq_def)
qed

text \<open>From the state the boot loader part leaves: keyboard line, scheduler, timer and interrupts. All steps work on
  one \<open>sys\<close> and leave the heap mapped.\<close>

lemma start_services:
  assumes e: "\<forall>n. kmalloc_ok e n" "task_block e \<noteq> NULL" "ctx_block e \<noteq> NULL"
    and wf: "idt_wf (idt_of s)"
    and conf: "interrupts_enabled (conf s) = 0" "interrupt_source (conf s) = 2" "tsc_freq_khz (timers (conf s)) \<noteq> 0"
      "timer_source (timers (conf s)) = 0"
    and ioapic: "madt (acpi_of s) \<noteq> NULL" "madt_entries (tables e) (madt (acpi_of s)) 0 es"
      "find_entry (\<lambda>e. e ! 0 = 1 \<and> le32 e 8 = 0) 0 es = Some j"
      "addr = ucast (madt_addr32 (tables e) (madt (acpi_of s)) (j + 4))" "addr \<noteq> 0" "unat addr mod 4096 = 0" "sel = addr + h"
      "pt_inv (acpi.pages (acpi_of s))" "3 \<le> length (free_frames (acpi.pages (acpi_of s)))" "\<not> present (leaf (acpi.pages (acpi_of s)) sel)"
  shows "\<exists>s1 s2 s3 s4. init_kb_status e h s = Some (Inr s1)
     \<and> enable_tasking (hardware e) (kmalloc_ok e) (task_switch_addr e) (idle_addr e) (task_block e) (ctx_block e) (ctx_block_junk e) s1 = Inr s2
     \<and> enable_apic (hardware e) (tables e) h (pic_timer_addr e) (apic_timer_addr e) s2 = Some (Inr s3)
     \<and> enable_interrupts (hardware e) s3 = s4 \<and> IF s4
     \<and> conf s4 = (conf s)\<lparr>interrupts_enabled := 1, multitasking_enabled := 1, timers := (timers (conf s))\<lparr>timer_source := 2\<rparr>\<rparr>
     \<and> idt_of s4 = (idt_of s)\<lparr>isr_handler_table :=
         (isr_handler_table (idt_of s))[33 := keyboard_addr e, 128 := task_switch_addr e, 32 := apic_timer_addr e, 34 := NULL]\<rparr>
     \<and> sched_wf (sched_of s4) \<and> waiting (sched_of s4) = [] \<and> current (sched_of s4) = task_block e
     \<and> lapic_addr (acpi_of s4) = lapic_addr (acpi_of s) \<and> pt_inv (acpi.pages (acpi_of s4))
     \<and> (\<forall>w. \<not> same_page w sel \<longrightarrow> leaf (acpi.pages (acpi_of s4)) w = leaf (acpi.pages (acpi_of s)) w)"
proof -
  have al: "kmalloc_ok e = (\<lambda>_. True)" using e(1) by auto
  define s1 where "s1 pg tr = s\<lparr>idt_of := (idt_of s)\<lparr>isr_handler_table := (isr_handler_table (idt_of s))[33 := keyboard_addr e]\<rparr>,
     acpi_of := (acpi_of s)\<lparr>acpi.pages := pg, io := tr\<rparr>\<rparr>" for pg tr
  from init_kb_status_ok[OF ioapic wf conf(2)] obtain pg tr where
    kb: "init_kb_status e h s = Some (Inr (s1 pg tr))" "pt_inv pg" "virtual_to_physical pg sel \<noteq> 0"
      "\<forall>w. \<not> same_page w sel \<longrightarrow> leaf pg w = leaf (acpi.pages (acpi_of s)) w" unfolding s1_def by blast
  have c1: "conf (s1 pg tr) = conf s" by (simp add: s1_def conf_def)
  have wf1: "idt_wf (idt_of (s1 pg tr))" using wf by (simp add: s1_def idt_wf_def)
  from enable_tasking_ok[OF _ wf1 e(2,3)] conf(1) obtain sc where sc:
    "enable_tasking (hardware e) (\<lambda>_. True) (task_switch_addr e) (idle_addr e) (task_block e) (ctx_block e) (ctx_block_junk e) (s1 pg tr) =
       Inr (set_conf (\<lambda>c. c\<lparr>multitasking_enabled := 1\<rparr>)
         ((s1 pg tr)\<lparr>idt_of := (idt_of (s1 pg tr))\<lparr>isr_handler_table := (isr_handler_table (idt_of (s1 pg tr)))[128 := task_switch_addr e]\<rparr>, sched_of := sc\<rparr>))"
    "sched_wf sc" "waiting sc = []" "current sc = task_block e" unfolding c1 by blast
  define s2 where "s2 = set_conf (\<lambda>c. c\<lparr>multitasking_enabled := 1\<rparr>)
     ((s1 pg tr)\<lparr>idt_of := (idt_of (s1 pg tr))\<lparr>isr_handler_table := (isr_handler_table (idt_of (s1 pg tr)))[128 := task_switch_addr e]\<rparr>, sched_of := sc\<rparr>)"
  have c2: "conf s2 = (conf s)\<lparr>multitasking_enabled := 1\<rparr>" by (simp add: s2_def c1)
  have wf2: "idt_wf (idt_of s2)" using wf1 by (simp add: s2_def idt_wf_def)
  have a2: "madt (acpi_of s2) = madt (acpi_of s)" "acpi.pages (acpi_of s2) = pg" "lapic_addr (acpi_of s2) = lapic_addr (acpi_of s)"
    by (simp_all add: s2_def s1_def)
  from enable_apic_ok[of s2 "tables e" es j addr sel h "hardware e" "pic_timer_addr e" "apic_timer_addr e"]
    ioapic(1-7) kb(2,3) wf2 conf(1-3) a2 c2 obtain pg' tr' where
    ap: "enable_apic (hardware e) (tables e) h (pic_timer_addr e) (apic_timer_addr e) s2 =
       Some (Inr (set_timers (\<lambda>t. t\<lparr>timer_source := (timer_source t AND NOT 1) OR 2\<rparr>)
         (s2\<lparr>idt_of := (idt_of s2)\<lparr>isr_handler_table := (isr_handler_table (idt_of s2))[32 := apic_timer_addr e, 34 := NULL]\<rparr>,
            acpi_of := (acpi_of s2)\<lparr>acpi.pages := pg', io := tr'\<rparr>\<rparr>)))"
    "pt_inv pg'" "\<forall>w. \<not> same_page w sel \<longrightarrow> leaf pg' w = leaf pg w" by auto
  define s3 where "s3 = set_timers (\<lambda>t. t\<lparr>timer_source := (timer_source t AND NOT 1) OR 2\<rparr>)
         (s2\<lparr>idt_of := (idt_of s2)\<lparr>isr_handler_table := (isr_handler_table (idt_of s2))[32 := apic_timer_addr e, 34 := NULL]\<rparr>,
            acpi_of := (acpi_of s2)\<lparr>acpi.pages := pg', io := tr'\<rparr>\<rparr>)"
  have c3: "conf s3 = (conf s2)\<lparr>timers := (timers (conf s2))\<lparr>timer_source := 2\<rparr>\<rparr>"
    using conf(4) c2 by (simp add: s3_def set_timers_def set_conf_def conf_def)
  from enable_interrupts_ok[of s3 "hardware e"] c2 c3 conf(2) obtain tr'' where
    "enable_interrupts (hardware e) s3 = set_conf (\<lambda>c. c\<lparr>interrupts_enabled := 1\<rparr>) (s3\<lparr>acpi_of := (acpi_of s3)\<lparr>io := tr''\<rparr>, IF := True\<rparr>)" by auto
  moreover have "conf (s3\<lparr>acpi_of := (acpi_of s3)\<lparr>io := tr''\<rparr>, IF := True\<rparr>) = conf s3" by (simp add: conf_def)
  moreover have "idt_of s3 = (idt_of s)\<lparr>isr_handler_table :=
         (isr_handler_table (idt_of s))[33 := keyboard_addr e, 128 := task_switch_addr e, 32 := apic_timer_addr e, 34 := NULL]\<rparr>"
    by (simp add: s3_def s2_def s1_def)
  moreover have "sched_of s3 = sc" "lapic_addr (acpi_of s3) = lapic_addr (acpi_of s)" "acpi.pages (acpi_of s3) = pg'"
    by (simp_all add: s3_def a2) (simp add: s2_def)
  ultimately show ?thesis
    using kb(1) sc ap kb(4) c2 c3 unfolding al s2_def[symmetric] s3_def[symmetric] by auto
qed

text \<open>Example: one usable region, no direct map offset, an MADT with both controllers, a frequency from the boot
  loader.\<close>

definition demo_requests :: boot_requests where
  "demo_requests = \<lparr>limine_base_revision = 0,
     framebuffer_request = Some [\<lparr>lf_address = 0xFD000000, lf_width = 1024, lf_height = 768, lf_pitch = 4096, lf_bpp = 32\<rparr>],
     memmap_request = Some [\<lparr>me_base = 0x10000, me_length = 0xC0000, me_type = 0\<rparr>], hhdm_request = None,
     rsdp_request = Some 0x50, executable_request = Some 0x200000, tsc_frequency = Some 3000\<rparr>"

definition demo_tables :: mem where
  "demo_tables = acpi_mem(0x109 := 199, 0x69 := 1, 0x226 := 0xE0, 0x227 := 0xFE)"

definition demo_env :: surroundings where
  "demo_env = \<lparr>requests = demo_requests, hardware = (\<lambda>_ _. 0), tables = demo_tables, cpuid_fn = (\<lambda>_. None),
     stub_table = (\<lambda>i. 0x1000 + 16 * of_nat i), tss_address = 0x7000, kernel_end_addr = 0x3F0000, cr3_value = 0x9000,
     task_switch_addr = 0x5000, idle_addr = 0x5100, keyboard_addr = 0x5200, pic_timer_addr = 0x5300, apic_timer_addr = 0x5400,
     kmalloc_ok = (\<lambda>_. True), task_block = 0x400100, ctx_block = 0x400200, ctx_block_junk = blank_frame\<rparr>"

definition demo_kernel :: kernel_state where
  "demo_kernel = \<lparr>gdt_of = load_gdt, tss_of = zero_tss,
     sys_of = tsc_sys\<lparr>idt_of := \<lparr>entries = replicate 256 (idt_gate 0), isr_handler_table = replicate 256 7\<rparr>\<rparr>,
     hhdm_mapping = 0, kernel_file_address = 0,
     fb_of = \<lparr>fb_base = 0, fb_pitch = 0, fb_yres = 0, fb_xres = 0, fb_init = False, pixels = (\<lambda>_. 0)\<rparr>,
     heap_of = \<lparr>head_next = 0, node_at = (\<lambda>_. \<lparr>list_node.pages = 0, node_next = 0\<rparr>), heap_end = 0, vm = boot_mm\<rparr>\<rparr>"

definition demo_mm :: mm where
  "demo_mm = big_mm\<lparr>memory_map := [\<lparr>me_base = 0x10000, me_length = 0xC0000, me_type = KERNEL_USED\<rparr>]\<rparr>"

lemma demo_mm_tables: "table_at demo_mm js = table_at big_mm js" "entry_at demo_mm t i = entry_at big_mm t i" "free_frames demo_mm = free_frames big_mm"
proof -
  show e: "entry_at demo_mm t i = entry_at big_mm t i" for t i by (simp add: entry_at_def demo_mm_def)
  show "table_at demo_mm js = table_at big_mm js"
    by (induction js) (auto simp: follow_def e split: option.split, simp add: demo_mm_def)
  show "free_frames demo_mm = free_frames big_mm"
    by (simp add: demo_mm_def free_frames_def big_mm_def boot_mm_def usable_def KERNEL_USED_def LIMINE_MEMMAP_USABLE_def)
qed

lemma demo_inv: "pt_inv demo_mm"
proof -
  have "frames_wf demo_mm" using pt_invD(1)[OF big_inv] unfolding frames_wf_def demo_mm_tables(3)
    by (simp add: demo_mm_def usable_def KERNEL_USED_def LIMINE_MEMMAP_USABLE_def)
  with big_inv show ?thesis unfolding pt_inv_def demo_mm_tables by simp
qed

lemma demo_leaf: "leaf demo_mm v = zero_entry"
  using big_table[of "leaf_path v"]
  by (cases "table_at big_mm (leaf_path v)") (auto simp: leaf_def demo_mm_tables leaf_path_def simp del: table_at.simps)

lemma demo_heap_base: "heap_base demo_env = 0x400000"
  by code_simp

lemma demo_memory_ok: "memory_ok demo_env demo_kernel demo_mm"
proof -
  have "init_frame_allocator (the (memmap_request (requests demo_env))) (vm (heap_of demo_kernel)) = Inr demo_mm"
    by (simp add: init_frame_allocator_def next_usable_def demo_env_def demo_requests_def demo_kernel_def usable_def
        LIMINE_MEMMAP_USABLE_def demo_mm_def big_mm_def boot_mm_def)
  moreover have "init_page_table (cr3_value demo_env) demo_mm = demo_mm"
    by (simp add: init_page_table_def demo_env_def demo_mm_def big_mm_def boot_mm_def)
  ultimately show ?thesis
    unfolding memory_ok_def demo_heap_base using demo_inv
    by (simp add: demo_leaf demo_mm_tables(3) big_frames) (simp add: zero_entry_def)
qed

lemma demo_apic_ok: "apic_ok demo_env 0x200 acpi_entries 0"
  by code_simp

lemma demo_devices_ok: "devices_ok demo_env demo_mm 0x200 0"
proof -
  have dev: "0x400000 + pgoff 0xFEA00 = 0xFEE00000" "0x400000 + pgoff 0xFE800 = 0xFEC00000" by (simp_all add: pgoff_def)
  have "\<not> same_page 0xFEE00000 (0x400000 + pgoff j) \<and> \<not> same_page 0xFEC00000 (0x400000 + pgoff j)" if "j \<le> 32" for j
    using same_page_pgoff[of "0xFEA00" j "0x400000"] same_page_pgoff[of "0xFE800" j "0x400000"] that unfolding dev by simp
  moreover have "lapic_phys demo_env 0x200 = 0xFEE00000" "ioapic_phys demo_env 0x200 0 = 0xFEC00000" "hhdm_offset (requests demo_env) = 0"
    "\<not> same_page 0xFEC00000 0xFEE00000" by code_simp+
  ultimately show ?thesis
    by (simp add: devices_ok_def device_page_ok_def demo_heap_base demo_leaf zero_entry_def)
qed

text \<open>Descriptor tables, processor configuration, framebuffer, memory and interrupt controllers.\<close>

lemma first_stages:
  assumes "responses_ok (requests e)" "memory_ok e k m" "apic_ok e p es j" "devices_ok e m p j"
    and "idt_wf (idt_of (sys_of k))" "init_config_cpuid (cpuid_fn e) = Inr c"
  defines "h \<equiv> hhdm_offset (requests e)"
  shows "\<exists>k1 k2 t a b. common_init_start e k = Inr k1 \<and> bootloader_specific_init e k1 = Some (Inr k2)
     \<and> idt_of (sys_of k2) = t \<and> idt_wf t \<and> (\<forall>i<256. entries t ! i = idt_gate (stub_table e i) \<and> isr_handler_table t ! i = NULL)
     \<and> long_base (gdt_tss (gdt_of k2)) = tss_address e \<and> hhdm_mapping k2 = h \<and> fb_init (fb_of k2)
     \<and> acpi_of (sys_of k2) = a \<and> madt a = p \<and> lapic_addr a = lapic_phys e p + h
     \<and> kconf a = c\<lparr>interrupt_source := 2, has_mcfg := b, timers := (timers c)\<lparr>tsc_freq_khz := boot_frequency (requests e) c\<rparr>\<rparr>
     \<and> pt_inv (acpi.pages a) \<and> 3 \<le> length (free_frames (acpi.pages a)) \<and> \<not> present (leaf (acpi.pages a) (ioapic_phys e p j + h))
     \<and> (\<forall>i \<le> 32. virtual_to_physical (acpi.pages a) (heap_base e + pgoff i) \<noteq> 0)"
proof -
  from common_init_start_ok[OF assms(5,6)] obtain t where t: "common_init_start e k = Inr (k\<lparr>gdt_of := gdt_set_tss (tss_address e) load_gdt,
         tss_of := zero_tss\<lparr>iomap_base := 104\<rparr>, sys_of := set_conf (\<lambda>_. c) ((sys_of k)\<lparr>IF := False, idt_of := t\<rparr>)\<rparr>)"
      "idt_wf t" "\<forall>i<256. entries t ! i = idt_gate (stub_table e i) \<and> isr_handler_table t ! i = NULL" by blast
  define k1 where "k1 = k\<lparr>gdt_of := gdt_set_tss (tss_address e) load_gdt,
         tss_of := zero_tss\<lparr>iomap_base := 104\<rparr>, sys_of := set_conf (\<lambda>_. c) ((sys_of k)\<lparr>IF := False, idt_of := t\<rparr>)\<rparr>"
  have c1: "conf (sys_of k1) = c" "idt_of (sys_of k1) = t" by (simp_all add: k1_def)
  have "memory_ok e k1 m" using assms(2) by (simp add: memory_ok_def k1_def)
  from bootloader_ok[OF assms(1) this assms(3,4)] obtain k2 a b where k2: "bootloader_specific_init e k1 = Some (Inr k2)"
      "sys_of k2 = (sys_of k1)\<lparr>acpi_of := a\<rparr>" "gdt_of k2 = gdt_of k1" "hhdm_mapping k2 = h" "fb_init (fb_of k2)"
      "madt a = p" "lapic_addr a = lapic_phys e p + h"
      "kconf a = c\<lparr>interrupt_source := 2, has_mcfg := b, timers := (timers c)\<lparr>tsc_freq_khz := boot_frequency (requests e) c\<rparr>\<rparr>"
      "pt_inv (acpi.pages a)" "3 \<le> length (free_frames (acpi.pages a))" "\<not> present (leaf (acpi.pages a) (ioapic_phys e p j + h))"
      "\<forall>i \<le> 32. virtual_to_physical (acpi.pages a) (heap_base e + pgoff i) \<noteq> 0" unfolding c1 h_def by blast
  have "long_base (gdt_tss (gdt_of k2)) = tss_address e"
    using descriptor_fields(1) by (simp add: k2(3) k1_def gdt_set_tss_def)
  moreover have "idt_of (sys_of k2) = t" "acpi_of (sys_of k2) = a" by (simp_all add: k2(2) c1(2))
  ultimately show ?thesis using t(1)[folded k1_def] t(2,3) k2(1,4-12) by blast
qed

lemma kmain_start_ok:
  assumes "responses_ok (requests e)" "memory_ok e k m" "apic_ok e p es j" "devices_ok e m p j"
    and "idt_wf (idt_of (sys_of k))" "init_config_cpuid (cpuid_fn e) = Inr c" "boot_frequency (requests e) c \<noteq> 0"
    and "\<forall>n. kmalloc_ok e n" "task_block e \<noteq> NULL" "ctx_block e \<noteq> NULL"
  shows "\<exists>k'. kmain_start e k = Some (Inr k') \<and> IF (sys_of k')
     \<and> interrupts_enabled (conf (sys_of k')) = 1 \<and> multitasking_enabled (conf (sys_of k')) = 1 \<and> interrupt_source (conf (sys_of k')) = 2
     \<and> timer_source (timers (conf (sys_of k'))) = 2 \<and> tsc_freq_khz (timers (conf (sys_of k'))) = boot_frequency (requests e) c
     \<and> (\<forall>i<256. idt_offset (entries (idt_of (sys_of k')) ! i) = stub_table e i)
     \<and> isr_handler_table (idt_of (sys_of k')) =
         (replicate 256 NULL)[32 := apic_timer_addr e, 33 := keyboard_addr e, 128 := task_switch_addr e]
     \<and> sched_wf (sched_of (sys_of k')) \<and> current (sched_of (sys_of k')) = task_block e \<and> waiting (sched_of (sys_of k')) = []
     \<and> long_base (gdt_tss (gdt_of k')) = tss_address e \<and> fb_init (fb_of k')
     \<and> lapic_addr (acpi_of (sys_of k')) = lapic_phys e p + hhdm_offset (requests e)
     \<and> pt_inv (vm (heap_of k')) \<and> (\<forall>i \<le> 32. virtual_to_physical (vm (heap_of k')) (heap_base e + pgoff i) \<noteq> 0)
     \<and> hhdm_mapping k' = hhdm_offset (requests e) \<and> kexit (conf (sys_of k')) = kexit c"
proof -
  let ?h = "hhdm_offset (requests e)"
  from first_stages[OF assms(1-6)] obtain k1 k2 t a b where k2: "common_init_start e k = Inr k1" "bootloader_specific_init e k1 = Some (Inr k2)"
      "idt_of (sys_of k2) = t" "idt_wf t" "\<forall>i<256. entries t ! i = idt_gate (stub_table e i) \<and> isr_handler_table t ! i = NULL"
      "long_base (gdt_tss (gdt_of k2)) = tss_address e" "hhdm_mapping k2 = ?h" "fb_init (fb_of k2)"
      "acpi_of (sys_of k2) = a" "madt a = p" "lapic_addr a = lapic_phys e p + ?h"
      "kconf a = c\<lparr>interrupt_source := 2, has_mcfg := b, timers := (timers c)\<lparr>tsc_freq_khz := boot_frequency (requests e) c\<rparr>\<rparr>"
      "pt_inv (acpi.pages a)" "3 \<le> length (free_frames (acpi.pages a))" "\<not> present (leaf (acpi.pages a) (ioapic_phys e p j + ?h))"
      "\<forall>i \<le> 32. virtual_to_physical (acpi.pages a) (heap_base e + pgoff i) \<noteq> 0" by blast
  have A: "p \<noteq> NULL" "madt_entries (tables e) p 0 es" "find_entry (\<lambda>e. e ! 0 = 1 \<and> le32 e 8 = 0) 0 es = Some j"
    using assms(3) by (simp_all add: apic_ok_def Let_def)
  have D: "ioapic_phys e p j \<noteq> 0" "unat (ioapic_phys e p j) mod 4096 = 0"
      "\<forall>i \<le> 32. \<not> same_page (heap_base e + pgoff i) (ioapic_phys e p j + ?h)"
    using assms(4) by (auto simp: devices_ok_def device_page_ok_def Let_def same_page_def)
  have cf: "conf (sys_of k2) = kconf a" by (simp add: conf_def k2(9))
  note ic = init_config_shape[OF assms(6)]
  from start_services[of e "sys_of k2" es j "ioapic_phys e p j" "ioapic_phys e p j + ?h" ?h] assms(7-10) A D(1,2) k2(3,4,9,10,12-15) cf ic
  obtain x1 x2 x3 x4 where x: "init_kb_status e ?h (sys_of k2) = Some (Inr x1)"
      "enable_tasking (hardware e) (kmalloc_ok e) (task_switch_addr e) (idle_addr e) (task_block e) (ctx_block e) (ctx_block_junk e) x1 = Inr x2"
      "enable_apic (hardware e) (tables e) ?h (pic_timer_addr e) (apic_timer_addr e) x2 = Some (Inr x3)"
      "enable_interrupts (hardware e) x3 = x4" "IF x4"
      "conf x4 = (kconf a)\<lparr>interrupts_enabled := 1, multitasking_enabled := 1, timers := (timers (kconf a))\<lparr>timer_source := 2\<rparr>\<rparr>"
      "idt_of x4 = t\<lparr>isr_handler_table :=
         (isr_handler_table t)[33 := keyboard_addr e, 128 := task_switch_addr e, 32 := apic_timer_addr e, 34 := NULL]\<rparr>"
      "sched_wf (sched_of x4)" "waiting (sched_of x4) = []" "current (sched_of x4) = task_block e"
      "lapic_addr (acpi_of x4) = lapic_addr a" "pt_inv (acpi.pages (acpi_of x4))"
      "\<forall>w. \<not> same_page w (ioapic_phys e p j + ?h) \<longrightarrow> leaf (acpi.pages (acpi_of x4)) w = leaf (acpi.pages a) w"
    by (auto simp: ioapic_phys_def)
  have tbl: "isr_handler_table t = replicate 256 NULL" using k2(4,5) by (intro nth_equalityI) (simp_all add: idt_wf_def)
  with x(7) have handlers: "idt_of x4 = t\<lparr>isr_handler_table :=
      (replicate 256 NULL)[32 := apic_timer_addr e, 33 := keyboard_addr e, 128 := task_switch_addr e]\<rparr>" by (simp add: handler_table_order)
  have gates: "\<forall>i<256. idt_offset (entries t ! i) = stub_table e i" using k2(5) descriptor_fields(5) by simp
  have heap: "\<forall>i \<le> 32. virtual_to_physical (acpi.pages (acpi_of x4)) (heap_base e + pgoff i) \<noteq> 0"
    using x(13) D(3) k2(16) by (simp add: virtual_to_physical_leaf)
  have "kmain_start e k = Some (Inr (k2\<lparr>sys_of := x4, heap_of := (heap_of k2)\<lparr>vm := acpi.pages (acpi_of x4)\<rparr>\<rparr>))"
    using x(1-4) by (simp add: kmain_start_def k2(1,2,7) on_sys_def)
  then show ?thesis
    using x(5,6,8-12) gates heap k2(6-8,11,12) by (simp add: handlers)
qed

section \<open>Properties\<close>

text \<open>(C4) The kernel starts: when the boot loader answers, the memory and the interrupt controllers are as described above and
  the frequency of the time stamp counter is known, \<^verbatim>\<open>kmain\<close> comes to the point where interrupts are enabled.
  Every gate then leads to its stub, exactly the keyboard, the scheduler and the timer have handlers, on vectors 33, 128
  and 32, the scheduler runs the kernel task with nobody waiting, the task segment descriptor points to the task segment, the
  framebuffer is in use, and all pages of the heap, both ends included, are mapped in the page tables the kernel goes on with.\<close>

theorem kernel_starts:
  assumes "responses_ok (requests e)" "memory_ok e k m" "apic_ok e p es j" "devices_ok e m p j"
    and "idt_wf (idt_of (sys_of k))" "init_config_cpuid (cpuid_fn e) = Inr c" "boot_frequency (requests e) c \<noteq> 0"
    and "\<forall>n. kmalloc_ok e n" "task_block e \<noteq> NULL" "ctx_block e \<noteq> NULL"
  shows "\<exists>k'. kmain_start e k = Some (Inr k') \<and> IF (sys_of k')
     \<and> interrupts_enabled (conf (sys_of k')) = 1 \<and> multitasking_enabled (conf (sys_of k')) = 1 \<and> interrupt_source (conf (sys_of k')) = 2
     \<and> timer_source (timers (conf (sys_of k'))) = 2 \<and> tsc_freq_khz (timers (conf (sys_of k'))) = boot_frequency (requests e) c
     \<and> (\<forall>i<256. idt_offset (entries (idt_of (sys_of k')) ! i) = stub_table e i)
     \<and> isr_handler_table (idt_of (sys_of k')) =
         (replicate 256 NULL)[32 := apic_timer_addr e, 33 := keyboard_addr e, 128 := task_switch_addr e]
     \<and> sched_wf (sched_of (sys_of k')) \<and> current (sched_of (sys_of k')) = task_block e \<and> waiting (sched_of (sys_of k')) = []
     \<and> long_base (gdt_tss (gdt_of k')) = tss_address e \<and> fb_init (fb_of k')
     \<and> lapic_addr (acpi_of (sys_of k')) = lapic_phys e p + hhdm_offset (requests e)
     \<and> pt_inv (vm (heap_of k')) \<and> (\<forall>i \<le> 32. virtual_to_physical (vm (heap_of k')) (heap_base e + pgoff i) \<noteq> 0)"
  using kmain_start_ok[OF assms] by blast

theorem kernel_starts_witness:
  "\<exists>k'. kmain_start demo_env demo_kernel = Some (Inr k') \<and> IF (sys_of k') \<and> isr_handler_table (idt_of (sys_of k')) ! 33 = 0x5200
     \<and> current (sched_of (sys_of k')) = 0x400100 \<and> virtual_to_physical (vm (heap_of k')) 0x405000 \<noteq> 0"
proof -
  have r: "responses_ok (requests demo_env)" "boot_frequency (requests demo_env) zero_config \<noteq> 0" by code_simp+
  have w: "idt_wf (idt_of (sys_of demo_kernel))" by (simp add: demo_kernel_def idt_wf_def)
  have c: "init_config_cpuid (cpuid_fn demo_env) = Inr zero_config" by (simp add: init_config_cpuid_def demo_env_def)
  have a: "\<forall>n. kmalloc_ok demo_env n" "task_block demo_env \<noteq> NULL" "ctx_block demo_env \<noteq> NULL" by (simp_all add: demo_env_def)
  have v: "0x400000 + pgoff 5 = (0x405000 :: u64)" by (simp add: pgoff_def)
  from kernel_starts[OF r(1) demo_memory_ok demo_apic_ok demo_devices_ok w c r(2) a] obtain k' where k':
      "kmain_start demo_env demo_kernel = Some (Inr k')" "IF (sys_of k')"
      "isr_handler_table (idt_of (sys_of k')) =
         (replicate 256 NULL)[32 := apic_timer_addr demo_env, 33 := keyboard_addr demo_env, 128 := task_switch_addr demo_env]"
      "current (sched_of (sys_of k')) = task_block demo_env"
      "\<forall>i \<le> 32. virtual_to_physical (vm (heap_of k')) (heap_base demo_env + pgoff i) \<noteq> 0" by blast
  from spec[OF k'(5), of 5] have "virtual_to_physical (vm (heap_of k')) 0x405000 \<noteq> 0"
    unfolding demo_heap_base v by simp
  with k'(1-4) show ?thesis by (intro exI[of _ k']) (simp add: demo_env_def)
qed

end
