(* ===== verification/LoaderPages.thy ===== *)
theory LoaderPages
  imports Paging
begin

text \<open>
  The page tables of the UEFI boot loader, \<^verbatim>\<open>lethe-bootloaders/loader/page_table.c\<close>. The loader builds its tables from
  pages the firmware gives it, one by one; the pages that \<^verbatim>\<open>AllocatePages\<close> has left are a list, and when it is empty
  the call fails and leaves the address variable as it was, uninitialised. The memory map of the firmware is a parameter,
  the answers of \<^verbatim>\<open>GetMemoryMap\<close> in the order of the calls. The page size of the firmware is 4096, as UEFI fixes it; the
  virtual base of the kernel, whose definition is commented out in \<^verbatim>\<open>types.h\<close>, is an argument. Invariant and
  entry layout are those of theory Paging, over the same four levels.
\<close>

section \<open>State and operations\<close>

record loader_mem =
  cells :: "u64 \<Rightarrow> u64 \<Rightarrow> u64"
  p4_table :: u64
  pool :: "u64 list"
  cr3 :: u64

definition EFI_PAGE_SIZE :: nat where "EFI_PAGE_SIZE = 4096"

definition ADDR_TO_ENTRY :: "u64 \<Rightarrow> u16 \<Rightarrow> u64" where
  "ADDR_TO_ENTRY addr flag = push_bit 12 (drop_bit 12 addr AND 0xFFFFFFFFFF) OR (1 OR ucast flag)"

definition quick_allocate_page :: "loader_mem \<Rightarrow> (u64 \<times> loader_mem) res" where
  "quick_allocate_page l = (case pool l of [] \<Rightarrow> Inl Uninitialised | a # rest \<Rightarrow> Inr (a, l\<lparr>pool := rest\<rparr>))"

text \<open>The page is cleared before it is compared with NULL, so both returns give the page.\<close>

definition new_page_table :: "loader_mem \<Rightarrow> (u64 \<times> loader_mem) res" where
  "new_page_table l =
     bindE (quick_allocate_page l) (\<lambda>(page, l1). Inr (page, l1\<lparr>cells := (cells l1)(page := \<lambda>_. 0)\<rparr>))"

definition set_cell :: "loader_mem \<Rightarrow> u64 \<Rightarrow> u64 \<Rightarrow> u64 \<Rightarrow> loader_mem" where
  "set_cell l t i w = l\<lparr>cells := (cells l)(t := (cells l t)(i := w))\<rparr>"

text \<open>One of the three blocks of \<^verbatim>\<open>map_pages\<close> that go down a level.\<close>

definition next_table :: "loader_mem \<Rightarrow> u64 \<Rightarrow> u64 \<Rightarrow> u16 \<Rightarrow> (u64 \<times> loader_mem) res" where
  "next_table l t i flags =
     (let entry = cells l t i in
      if entry AND 1 = 0
      then bindE (new_page_table l) (\<lambda>(n, l1). Inr (n, set_cell l1 t i (ADDR_TO_ENTRY n flags)))
      else Inr (entry AND 0x000FFFFFFFFFF000, l))"

text \<open>The body of the loop of \<^verbatim>\<open>map_pages\<close>. Counter and page size are of type int, so their product overflows at page 2 to the 19.\<close>

definition map_one :: "loader_mem \<Rightarrow> u64 \<Rightarrow> u64 \<Rightarrow> u16 \<Rightarrow> loader_mem res" where
  "map_one l page_v_addr page_p_addr flags =
     (let index = drop_bit 12 page_v_addr in
      bindE (next_table l (p4_table l) (drop_bit 27 index AND 0x1FF) flags) (\<lambda>(p3, l1).
      bindE (next_table l1 p3 (drop_bit 18 index AND 0x1FF) flags) (\<lambda>(p2, l2).
      bindE (next_table l2 p2 (drop_bit 9 index AND 0x1FF) flags) (\<lambda>(p1, l3).
      Inr (set_cell l3 p1 (index AND 0x1FF) (ADDR_TO_ENTRY page_p_addr flags))))))"

fun map_pages_loop :: "u64 \<Rightarrow> u64 \<Rightarrow> u16 \<Rightarrow> nat list \<Rightarrow> loader_mem \<Rightarrow> loader_mem res" where
  "map_pages_loop v p flags [] l = Inr l"
| "map_pages_loop v p flags (j # js) l =
     (if unat v mod EFI_PAGE_SIZE \<noteq> 0 then Inr l
      else if unat p mod EFI_PAGE_SIZE \<noteq> 0 then Inr l
      else bindE (guardE SignedOverflow (int (j * EFI_PAGE_SIZE) \<le> INT_MAX)) (\<lambda>_.
           bindE (map_one l (v + of_nat (j * EFI_PAGE_SIZE)) (p + of_nat (j * EFI_PAGE_SIZE)) flags) (map_pages_loop v p flags js)))"

definition map_pages :: "u64 \<Rightarrow> u64 \<Rightarrow> u64 \<Rightarrow> u16 \<Rightarrow> loader_mem \<Rightarrow> loader_mem res" where
  "map_pages v_addr p_addr pages flags l = map_pages_loop v_addr p_addr flags [0..<unat pages] l"

definition copy_existing_pages :: "loader_mem \<Rightarrow> loader_mem res" where
  "copy_existing_pages l =
     bindE (new_page_table l) (\<lambda>(t, l1).
     let l2 = l1\<lparr>p4_table := t\<rparr> in
     Inr (foldl (\<lambda>l i. set_cell l t (of_nat i) (cells l (cr3 l) (of_nat i))) l2 [0..<512]))"

record efi_memory_descriptor_t =
  MemoryType :: u32
  PhysicalStart :: u64
  VirtualStart :: u64
  NumberOfPages :: u64

text \<open>The loop of \<^verbatim>\<open>quick_memory_map\<close>: the n-th call of \<^verbatim>\<open>GetMemoryMap\<close> either fails or gives the map and its key.\<close>

partial_function (option) quick_memory_map :: "(nat \<Rightarrow> 'm option) \<Rightarrow> nat \<Rightarrow> ('m \<times> nat) option" where
  "quick_memory_map get_map n =
     (case get_map n of None \<Rightarrow> quick_memory_map get_map (Suc n) | Some m \<Rightarrow> Some (m, Suc n))"

definition load_page_table :: "loader_mem \<Rightarrow> loader_mem" where
  "load_page_table l = l\<lparr>cr3 := p4_table l\<rparr>"

definition map_descriptor :: "u64 \<Rightarrow> loader_mem \<Rightarrow> efi_memory_descriptor_t \<Rightarrow> loader_mem res" where
  "map_descriptor KERNEL_START l desc =
     map_pages (KERNEL_START + PhysicalStart desc) (PhysicalStart desc) (NumberOfPages desc) 2 l"

definition setup_page_table :: "u64 \<Rightarrow> (nat \<Rightarrow> efi_memory_descriptor_t list option) \<Rightarrow> loader_mem \<Rightarrow> (loader_mem \<times> nat) run" where
  "setup_page_table KERNEL_START get_map l =
     bindR (Some (copy_existing_pages l)) (\<lambda>l1.
     case quick_memory_map get_map 0 of
       None \<Rightarrow> None
     | Some (mmap, n) \<Rightarrow>
         bindR (Some (foldE (map_descriptor KERNEL_START) mmap l1)) (\<lambda>l2. Some (Inr (load_page_table l2, n))))"

section \<open>Lemmas\<close>

lemma encode_decode [simp]: "encode_entry (decode_entry w) = w"
proof (rule bit_word_eqI)
  fix n assume "n < LENGTH(64)"
  then have n: "n < 64" by simp
  have fields: "8 \<le> n \<and> bit (unused_2 (decode_entry w)) (n - 8) \<longleftrightarrow> 8 \<le> n \<and> n < 12 \<and> bit w n"
    "12 \<le> n \<and> bit (address (decode_entry w)) (n - 12) \<longleftrightarrow> 12 \<le> n \<and> n < 52 \<and> bit w n"
    "52 \<le> n \<and> bit (unused_3 (decode_entry w)) (n - 52) \<longleftrightarrow> 52 \<le> n \<and> n < 63 \<and> bit w n"
    by (auto simp: decode_entry_def bit_simps)
  have flags: "present (decode_entry w) = bit w 0" "writable (decode_entry w) = bit w 1" "user_accessable (decode_entry w) = bit w 2"
    "write_through (decode_entry w) = bit w 3" "cache_disable (decode_entry w) = bit w 4" "accessed (decode_entry w) = bit w 5"
    "unused_1 (decode_entry w) = bit w 6" "page_size (decode_entry w) = bit w 7" "execute_disable (decode_entry w) = bit w 63"
    by (simp_all add: decode_entry_def)
  show "bit (encode_entry (decode_entry w)) n \<longleftrightarrow> bit w n"
  proof (cases "n < 8 \<or> n = 63")
    case True
    then have "n = 0 \<or> n = 1 \<or> n = 2 \<or> n = 3 \<or> n = 4 \<or> n = 5 \<or> n = 6 \<or> n = 7 \<or> n = 63" by linarith
    then show ?thesis unfolding bit_encode_entry[OF n] fields flags by (elim disjE) simp_all
  next
    case False
    then have "n \<noteq> 0" "n \<noteq> 1" "n \<noteq> 2" "n \<noteq> 3" "n \<noteq> 4" "n \<noteq> 5" "n \<noteq> 6" "n \<noteq> 7" "n \<noteq> 63"
      and "8 \<le> n \<and> n < 12 \<or> 12 \<le> n \<and> n < 52 \<or> 52 \<le> n \<and> n < 63" using n by linarith+
    then show ?thesis unfolding bit_encode_entry[OF n] fields flags by (elim disjE) simp_all
  qed
qed

text \<open>The loader's view of an entry is that of theory Paging.\<close>

lemma entry_present: "w AND 1 = 0 \<longleftrightarrow> \<not> present (decode_entry w)"
  by (simp add: decode_entry_def and_one_eq mod_2_eq_odd bit_0)

lemma entry_target: "target (decode_entry w) = w AND 0x000FFFFFFFFFF000"
proof -
  have m: "(0x000FFFFFFFFFF000 :: u64) = push_bit 12 (mask 40)" by (simp add: mask_eq_exp_minus_1)
  show ?thesis unfolding m by (rule bit_word_eqI) (auto simp: target_def decode_entry_def bit_simps)
qed

lemma made_entry:
  assumes "flags < 4096"
  shows "present (decode_entry (ADDR_TO_ENTRY a flags))"
    and "unat a mod 4096 = 0 \<Longrightarrow> unat a < 2 ^ 52 \<Longrightarrow> target (decode_entry (ADDR_TO_ENTRY a flags)) = a"
proof -
  have m: "(0xFFFFFFFFFF :: u64) = mask 40" by (simp add: mask_eq_exp_minus_1)
  have fl: "\<not> bit flags n" if "12 \<le> n" for n
  proof -
    have "take_bit 12 flags = flags" using assms by (simp add: word_unat_eq_iff unsigned_take_bit_eq word_less_nat_alt take_bit_nat_eq_self)
    then have "bit flags n \<longleftrightarrow> bit (take_bit 12 flags) n" by simp
    then show ?thesis using that by (simp add: bit_simps)
  qed
  show "present (decode_entry (ADDR_TO_ENTRY a flags))" by (simp add: decode_entry_def ADDR_TO_ENTRY_def bit_simps)
  assume a: "unat a mod 4096 = 0" "unat a < 2 ^ 52"
  have "target (decode_entry (ADDR_TO_ENTRY a flags)) = target (set_entry a flags)"
    unfolding ADDR_TO_ENTRY_def m
    by (rule bit_word_eqI) (auto simp: target_def decode_entry_def set_entry_def bit_simps fl)
  then show "target (decode_entry (ADDR_TO_ENTRY a flags)) = a" using target_set_entry[OF a] by simp
qed

text \<open>The loader's memory as a memory of theory Paging, whose free frames are the pages the firmware has left.\<close>

definition to_mm :: "loader_mem \<Rightarrow> mm" where
  "to_mm l = \<lparr>memory_map = map (\<lambda>a. \<lparr>me_base = a, me_length = 4096, me_type = LIMINE_MEMMAP_USABLE\<rparr>) (pool l),
     next_frame = \<lparr>f_start = False, f_base = 4096, f_length = 0\<rparr>, phys = cells l, root = p4_table l\<rparr>"

definition loader_inv :: "loader_mem \<Rightarrow> bool" where
  "loader_inv l \<longleftrightarrow> pt_inv (to_mm l) \<and> 0 \<notin> set (pool l)"

lemma free_frames_to_mm: "free_frames (to_mm l) = filter (\<lambda>a. a \<noteq> 0) (pool l)"
proof -
  have one: "region_frames a 4096 = filter (\<lambda>a. a \<noteq> 0) [a]" for a by (simp add: region_frames_def)
  have "concat (map (\<lambda>a. region_frames a 4096) as) = filter (\<lambda>a. a \<noteq> 0) as" for as
    by (induction as) (simp_all add: one)
  then show ?thesis
    by (simp add: free_frames_def to_mm_def usable_def filter_map o_def) (simp add: region_frames_def)
qed

lemma to_mm_set_cell: "to_mm (set_cell l t i w) = write_entry (to_mm l) t i (decode_entry w)"
  by (simp add: to_mm_def set_cell_def write_entry_def)

lemma entry_at_to_mm: "entry_at (to_mm l) t i = decode_entry (cells l t i)"
  by (simp add: entry_at_def to_mm_def)

lemma to_mm_allocate:
  assumes "loader_inv l" "pool l = a # rest"
  defines "l' \<equiv> l\<lparr>pool := rest, cells := (cells l)(a := \<lambda>_. 0)\<rparr>"
  shows "free_frames (to_mm l) = a # rest" "free_frames (to_mm l') = rest" "frames_wf (to_mm l')"
    "phys (to_mm l') = (phys (to_mm l))(a := \<lambda>_. 0)" "root (to_mm l') = root (to_mm l)"
proof -
  have z: "0 \<notin> set (a # rest)" using assms(1,2) by (simp add: loader_inv_def)
  then show f: "free_frames (to_mm l) = a # rest" "free_frames (to_mm l') = rest"
    by (auto simp: free_frames_to_mm assms(2) l'_def filter_id_conv)
  have "frames_wf (to_mm l)" using assms(1) by (simp add: loader_inv_def pt_invD(1))
  then show "frames_wf (to_mm l')"
    unfolding frames_wf_def f by (simp add: to_mm_def l'_def assms(2) usable_def)
  show "phys (to_mm l') = (phys (to_mm l))(a := \<lambda>_. 0)" "root (to_mm l') = root (to_mm l)"
    by (simp_all add: to_mm_def l'_def)
qed

lemma next_table_spec:
  assumes inv: "loader_inv l" and at: "table_at (to_mm l) ps = Some t" "length ps \<le> 2"
    and room: "pool l \<noteq> []" and fl: "flags < 4096"
  shows "\<exists>c l2. next_table l t i flags = Inr (c, l2) \<and> loader_inv l2 \<and> table_at (to_mm l2) (i # ps) = Some c
    \<and> length (pool l) \<le> Suc (length (pool l2)) \<and> p4_table l2 = p4_table l \<and> (\<forall>v. leaf (to_mm l2) v = leaf (to_mm l) v)"
proof -
  have pt: "pt_inv (to_mm l)" using inv by (simp add: loader_inv_def)
  show ?thesis
  proof (cases "present (entry_at (to_mm l) t i)")
    case True
    then have "target (entry_at (to_mm l) t i) \<noteq> 0" using pt_invD(4)[OF pt at(2,1), of i] by simp
    with True inv at show ?thesis
      by (simp add: next_table_def entry_present follow_def entry_at_to_mm entry_target Let_def)
  next
    case False
    from room obtain a rest where p: "pool l = a # rest" by (cases "pool l") auto
    define l' where "l' = l\<lparr>pool := rest, cells := (cells l)(a := \<lambda>_. 0)\<rparr>"
    note A = to_mm_allocate[OF inv p, folded l'_def]
    have a: "unat a mod 4096 = 0" "unat a < 2 ^ 52" using frames_wf_mem[OF pt_invD(1)[OF pt], of a] A(1) by (auto simp: frame_ok_def)
    note L = link_table[OF pt at False A made_entry(1)[OF fl] made_entry(2)[OF fl a], folded to_mm_set_cell]
    have "next_table l t i flags = Inr (a, set_cell l' t i (ADDR_TO_ENTRY a flags))"
      using False by (simp add: next_table_def entry_present entry_at_to_mm new_page_table_def quick_allocate_page_def p l'_def)
    moreover have "loader_inv (set_cell l' t i (ADDR_TO_ENTRY a flags))"
      using L(1) inv p by (simp add: loader_inv_def) (simp add: set_cell_def l'_def)
    moreover have "table_at (to_mm (set_cell l' t i (ADDR_TO_ENTRY a flags))) (i # ps) = Some a"
      using L(7)[of "i # ps" a] at(2) by simp
    moreover have "pool (set_cell l' t i (ADDR_TO_ENTRY a flags)) = rest" "p4_table (set_cell l' t i (ADDR_TO_ENTRY a flags)) = p4_table l"
      by (simp_all add: set_cell_def l'_def)
    ultimately show ?thesis using L(6) p by auto
  qed
qed

lemma loader_indices:
  "drop_bit 27 (drop_bit 12 v) AND 0x1FF = p4_index v" "drop_bit 18 (drop_bit 12 v) AND 0x1FF = p3_index v"
  "drop_bit 9 (drop_bit 12 v) AND 0x1FF = p2_index v" "drop_bit 12 v AND 0x1FF = p1_index v"
  by (simp_all add: p4_index_def p3_index_def p2_index_def p1_index_def drop_bit_drop_bit)

lemma map_one_spec:
  assumes inv: "loader_inv l" and fl: "flags < 4096" and room: "3 \<le> length (pool l)"
  shows "\<exists>l'. map_one l v p flags = Inr l' \<and> loader_inv l' \<and> length (pool l) \<le> length (pool l') + 3
    \<and> (\<forall>w. leaf (to_mm l') w = (if same_page w v then decode_entry (ADDR_TO_ENTRY p flags) else leaf (to_mm l) w))"
proof -
  have r: "table_at (to_mm l) [] = Some (p4_table l)" by (simp add: to_mm_def)
  have ne: "pool x \<noteq> []" if "1 \<le> length (pool x)" for x :: loader_mem using that by auto
  from next_table_spec[OF inv r _ _ fl, of "p4_index v"] room obtain p3 l1 where
    1: "next_table l (p4_table l) (p4_index v) flags = Inr (p3, l1)" "loader_inv l1" "table_at (to_mm l1) [p4_index v] = Some p3"
      "length (pool l) \<le> Suc (length (pool l1))" "\<forall>v. leaf (to_mm l1) v = leaf (to_mm l) v" by fastforce
  from next_table_spec[OF 1(2,3) _ _ fl, of "p3_index v"] 1(4) room ne[of l1] obtain p2 l2 where
    2: "next_table l1 p3 (p3_index v) flags = Inr (p2, l2)" "loader_inv l2" "table_at (to_mm l2) [p3_index v, p4_index v] = Some p2"
      "length (pool l1) \<le> Suc (length (pool l2))" "\<forall>v. leaf (to_mm l2) v = leaf (to_mm l1) v" by fastforce
  from next_table_spec[OF 2(2,3) _ _ fl, of "p2_index v"] 1(4) 2(4) room ne[of l2] obtain p1 l3 where
    3: "next_table l2 p2 (p2_index v) flags = Inr (p1, l3)" "loader_inv l3" "table_at (to_mm l3) (leaf_path v) = Some p1"
      "length (pool l2) \<le> Suc (length (pool l3))" "\<forall>v. leaf (to_mm l3) v = leaf (to_mm l2) v"
    unfolding leaf_path_def by fastforce
  have pt: "pt_inv (to_mm l3)" using 3(2) by (simp add: loader_inv_def)
  define l' where "l' = set_cell l3 p1 (p1_index v) (ADDR_TO_ENTRY p flags)"
  have "map_one l v p flags = Inr l'" 
    unfolding map_one_def Let_def loader_indices by (simp add: 1(1) 2(1) 3(1) l'_def)
  moreover have "pt_inv (to_mm l')" "leaf (to_mm l') w = (if same_page w v then decode_entry (ADDR_TO_ENTRY p flags) else leaf (to_mm l3) w)" for w
    using write_leaf[OF pt 3(3), of "decode_entry (ADDR_TO_ENTRY p flags)"] by (simp_all add: l'_def to_mm_set_cell)
  moreover have "pool l' = pool l3" by (simp add: l'_def set_cell_def)
  ultimately show ?thesis using 1(4,5) 2(4,5) 3(2,4,5) by (auto simp: loader_inv_def)
qed

interpretation loader_pages: page_mapper map_one "\<lambda>l. leaf (to_mm l)" "\<lambda>l. length (pool l)" loader_inv False
  "\<lambda>f. f < 4096" "\<lambda>p f. decode_entry (ADDR_TO_ENTRY p f)"
  by unfold_locales (rule map_one_spec)

section \<open>Runs of pages\<close>

lemma map_pages_loop_seq:
  assumes "unat v mod 4096 = 0" "unat p mod 4096 = 0" "i + k \<le> 2 ^ 19"
  shows "map_pages_loop v p flags [i..<i + k] l = map_seq map_one flags k (v + pgoff i) (p + pgoff i) l"
  using assms(3)
proof (induction k arbitrary: i l)
  case (Suc k)
  have ov: "int (i * EFI_PAGE_SIZE) \<le> INT_MAX" using Suc.prems by (simp add: EFI_PAGE_SIZE_def INT_MAX_def)
  have "[i..<i + Suc k] = i # [Suc i..<Suc i + k]" by (simp add: upt_rec)
  moreover have "pgoff (Suc i) = pgoff i + 4096" by (simp add: pgoff_def)
  moreover have "of_nat (i * EFI_PAGE_SIZE) = pgoff i" by (simp add: pgoff_def EFI_PAGE_SIZE_def mult.commute)
  ultimately show ?case
    using assms(1,2) Suc.IH[of "Suc i", THEN ext, of "\<lambda>l. l"] Suc.prems ov by (simp add: EFI_PAGE_SIZE_def add.assoc[symmetric] del: upt_Suc)
qed simp

lemma map_pages_spec:
  assumes "loader_inv l" "flags < 4096" "3 * unat n \<le> length (pool l)" "unat n \<le> 2 ^ 19" "unat v mod 4096 = 0" "unat p mod 4096 = 0"
  shows "\<exists>l'. map_pages v p n flags l = Inr l' \<and> loader_inv l' \<and> length (pool l) \<le> length (pool l') + 3 * unat n
    \<and> (\<forall>j < unat n. leaf (to_mm l') (v + pgoff j) = decode_entry (ADDR_TO_ENTRY (p + pgoff j) flags))
    \<and> (\<forall>w. (\<forall>j < unat n. \<not> same_page w (v + pgoff j)) \<longrightarrow> leaf (to_mm l') w = leaf (to_mm l) w)"
proof -
  have "unat n < 2 ^ 36" using assms(4) by simp
  from loader_pages.map_seq_maps[OF assms(1-3) this, of v p] map_pages_loop_seq[OF assms(5,6), of 0 "unat n" flags l] assms(4)
  show ?thesis by (simp add: map_pages_def)
qed

lemma map_pages_unaligned:
  assumes "\<not> (unat v mod 4096 = 0 \<and> unat p mod 4096 = 0)"
  shows "map_pages v p n flags l = Inr l"
proof -
  have "map_pages_loop v p flags js l = Inr l" for js using assms by (cases js) (auto simp: EFI_PAGE_SIZE_def)
  then show ?thesis by (simp add: map_pages_def)
qed

text \<open>Aligned or not, mapping ends and takes at most three pages for each page it maps.\<close>

lemma map_pages_total:
  assumes "loader_inv l" "flags < 4096" "3 * unat n \<le> length (pool l)" "unat n \<le> 2 ^ 19"
  shows "\<exists>l'. map_pages v p n flags l = Inr l' \<and> loader_inv l' \<and> length (pool l) \<le> length (pool l') + 3 * unat n"
proof (cases "unat v mod 4096 = 0 \<and> unat p mod 4096 = 0")
  case True
  from map_pages_spec[OF assms, of v p] True show ?thesis by auto
next
  case False
  then show ?thesis using map_pages_unaligned[OF False] assms(1) by simp
qed

text \<open>A run of more than 2 to the 19 pages ends at the overflow.\<close>

lemma map_pages_loop_append:
  assumes "unat v mod 4096 = 0" "unat p mod 4096 = 0"
  shows "map_pages_loop v p flags (is @ js) l = bindE (map_pages_loop v p flags is l) (map_pages_loop v p flags js)"
proof (induction "is" arbitrary: l)
  case (Cons i "is")
  have "map_pages_loop v p flags (is @ js) = (\<lambda>l. bindE (map_pages_loop v p flags is l) (map_pages_loop v p flags js))" by (rule ext) (rule Cons.IH)
  then show ?case using assms by (simp add: EFI_PAGE_SIZE_def bindE_assoc)
qed simp

text \<open>The physical addresses of the pages of a region, and of all regions of a map.\<close>

definition region_pages :: "efi_memory_descriptor_t \<Rightarrow> u64 list" where
  "region_pages d = map (\<lambda>j. PhysicalStart d + pgoff j) [0..<unat (NumberOfPages d)]"

definition map_ok :: "efi_memory_descriptor_t list \<Rightarrow> bool" where
  "map_ok ds \<longleftrightarrow> list_all (\<lambda>d. unat (PhysicalStart d) mod 4096 = 0 \<and> unat (NumberOfPages d) \<le> 2 ^ 19
     \<and> unat (PhysicalStart d) + 4096 * unat (NumberOfPages d) \<le> 2 ^ 48) ds"

definition all_pages :: "efi_memory_descriptor_t list \<Rightarrow> u64 list" where
  "all_pages ds = concat (map region_pages ds)"

lemma length_region_pages [simp]: "length (region_pages d) = unat (NumberOfPages d)"
  by (simp add: region_pages_def)

lemma page_frame:
  assumes "map_ok ds" "a \<in> set (all_pages ds)"
  shows "unat a mod 4096 = 0 \<and> unat a < 2 ^ 48"
proof -
  from assms(2) obtain d where D: "d \<in> set ds" "a \<in> set (region_pages d)" by (auto simp: all_pages_def)
  from D(2) obtain j where j: "j < unat (NumberOfPages d)" "a = PhysicalStart d + pgoff j" by (auto simp: region_pages_def)
  have d: "unat (PhysicalStart d) mod 4096 = 0" "unat (PhysicalStart d) + 4096 * unat (NumberOfPages d) \<le> 2 ^ 48"
    using assms(1) D(1) by (auto simp: map_ok_def list_all_iff)
  have "unat a = unat (PhysicalStart d) + 4096 * j" unfolding j(2) pgoff_def using d(2) j(1) by (intro unat_add_of_nat) simp
  with d j(1) show ?thesis by simp
qed

text \<open>Page-aligned addresses below 2 to the 48 keep apart in the direct map.\<close>

lemma same_page_direct:
  assumes "same_page (K + a) (K + b)" "unat a mod 4096 = 0 \<and> unat a < 2 ^ 48" "unat b mod 4096 = 0 \<and> unat b < 2 ^ 48"
  shows "a = b"
proof -
  have off: "x = pgoff (unat x div 4096)" "unat x div 4096 < 2 ^ 36" if "unat x mod 4096 = 0 \<and> unat x < 2 ^ 48" for x :: u64
  proof -
    have "4096 * (unat x div 4096) = unat x" using that mult_div_mod_eq[of 4096 "unat x"] by simp
    then show "x = pgoff (unat x div 4096)" by (simp only: pgoff_def word_of_nat_eq_iff of_nat_unat ucast_id)
    show "unat x div 4096 < 2 ^ 36" using that by (simp add: less_mult_imp_div_less)
  qed
  from assms(1) have "same_page (K + pgoff (unat a div 4096)) (K + pgoff (unat b div 4096))"
    using off(1)[OF assms(2)] off(1)[OF assms(3)] by simp
  then have "unat a div 4096 = unat b div 4096" using same_page_pgoff off(2)[OF assms(2)] off(2)[OF assms(3)] by blast
  then show ?thesis using off(1)[OF assms(2)] off(1)[OF assms(3)] by metis
qed

definition direct :: "u64 \<Rightarrow> loader_mem \<Rightarrow> u64 \<Rightarrow> bool" where
  "direct K l a \<longleftrightarrow> leaf (to_mm l) (K + a) = decode_entry (ADDR_TO_ENTRY a 2)"

lemma aligned_add:
  fixes v w :: u64
  assumes "unat v mod 4096 = 0" "unat w mod 4096 = 0"
  shows "unat (v + w) mod 4096 = 0"
proof -
  have "unat (v + w) mod 4096 = (unat v + unat w) mod 2 ^ 64 mod 4096" by (simp only: unat_word_ariths) simp
  also have "\<dots> = (unat v + unat w) mod 4096" by (rule mod_mod_cancel) simp
  also have "\<dots> = (unat v mod 4096 + unat w mod 4096) mod 4096" by (rule mod_add_eq[symmetric])
  finally show ?thesis using assms by simp
qed

lemma map_descriptors_spec:
  assumes "loader_inv l" "map_ok ds" "3 * length (all_pages ds) \<le> length (pool l)" "unat K mod 4096 = 0"
  shows "\<exists>l'. foldE (map_descriptor K) ds l = Inr l' \<and> loader_inv l' \<and> list_all (direct K l') (all_pages ds)
    \<and> length (pool l) \<le> length (pool l') + 3 * length (all_pages ds)
    \<and> (\<forall>w. list_all (\<lambda>a. \<not> same_page w (K + a)) (all_pages ds) \<longrightarrow> leaf (to_mm l') w = leaf (to_mm l) w)"
  using assms
proof (induction ds arbitrary: l)
  case (Cons d ds)
  have d: "unat (PhysicalStart d) mod 4096 = 0" "unat (NumberOfPages d) \<le> 2 ^ 19" and ok: "map_ok ds"
    using Cons.prems(2) by (auto simp: map_ok_def)
  have len: "3 * (unat (NumberOfPages d) + length (all_pages ds)) \<le> length (pool l)" using Cons.prems(3) by (simp add: all_pages_def)
  have v: "unat (K + PhysicalStart d) mod 4096 = 0"
    using Cons.prems(4) d(1) by (rule aligned_add)
  have fl: "(2 :: u16) < 4096" by simp
  have "3 * unat (NumberOfPages d) \<le> length (pool l)" using len by simp
  from map_pages_spec[OF Cons.prems(1) fl this d(2) v d(1)] obtain l1 where l1:
    "map_descriptor K l d = Inr l1" "loader_inv l1" "length (pool l) \<le> length (pool l1) + 3 * unat (NumberOfPages d)"
    "\<forall>j < unat (NumberOfPages d). leaf (to_mm l1) (K + PhysicalStart d + pgoff j) = decode_entry (ADDR_TO_ENTRY (PhysicalStart d + pgoff j) 2)"
    "\<forall>w. (\<forall>j < unat (NumberOfPages d). \<not> same_page w (K + PhysicalStart d + pgoff j)) \<longrightarrow> leaf (to_mm l1) w = leaf (to_mm l) w"
    unfolding map_descriptor_def by blast
  have "3 * length (all_pages ds) \<le> length (pool l1)" using l1(3) len by simp
  from Cons.IH[OF l1(2) ok this Cons.prems(4)] obtain l' where l':
    "foldE (map_descriptor K) ds l1 = Inr l'" "loader_inv l'" "list_all (direct K l') (all_pages ds)"
    "length (pool l1) \<le> length (pool l') + 3 * length (all_pages ds)"
    "\<forall>w. list_all (\<lambda>a. \<not> same_page w (K + a)) (all_pages ds) \<longrightarrow> leaf (to_mm l') w = leaf (to_mm l1) w" by blast
  have mine: "list_all (direct K l1) (region_pages d)" using l1(4) by (auto simp: direct_def region_pages_def list_all_iff add.assoc)
  have "direct K l' a" if a: "a \<in> set (region_pages d)" for a
  proof (cases "\<exists>b \<in> set (all_pages ds). same_page (K + a) (K + b)")
    case True
    then obtain b where b: "b \<in> set (all_pages ds)" "same_page (K + a) (K + b)" by blast
    have "a \<in> set (all_pages (d # ds))" "b \<in> set (all_pages (d # ds))" using a b by (auto simp: all_pages_def)
    then have "a = b" using same_page_direct[OF b(2)] page_frame[OF Cons.prems(2)] by blast
    then show ?thesis using b(1) l'(3) by (simp add: list_all_iff)
  next
    case False
    then have "leaf (to_mm l') (K + a) = leaf (to_mm l1) (K + a)" using l'(5) by (auto simp: list_all_iff)
    then show ?thesis using mine a by (simp add: direct_def list_all_iff)
  qed
  moreover have "leaf (to_mm l') w = leaf (to_mm l) w" if "list_all (\<lambda>a. \<not> same_page w (K + a)) (all_pages (d # ds))" for w
  proof -
    have "list_all (\<lambda>a. \<not> same_page w (K + a)) (all_pages ds)" using that by (simp add: all_pages_def)
    moreover have "\<not> same_page w (K + PhysicalStart d + pgoff j)" if "j < unat (NumberOfPages d)" for j
      using \<open>list_all _ (all_pages (d # ds))\<close> that by (auto simp: all_pages_def region_pages_def list_all_iff add.assoc)
    ultimately show ?thesis using l'(5) l1(5) by simp
  qed
  moreover have "length (pool l) \<le> length (pool l') + 3 * length (all_pages (d # ds))" using l1(3) l'(4) by (simp add: all_pages_def)
  ultimately show ?case using l1(1) l'(1-3) by (auto simp: all_pages_def list_all_iff)
qed (simp add: all_pages_def)

section \<open>The copy of the firmware's root table\<close>

text \<open>The loop copies the 512 cells of another table.\<close>

lemma copy_loop:
  assumes "t \<noteq> cr3 l" "n \<le> 512"
  shows "foldl (\<lambda>l i. set_cell l t (of_nat i) (cells l (cr3 l) (of_nat i))) l [0..<n] =
     l\<lparr>cells := (cells l)(t := \<lambda>i. if unat i < n then cells l (cr3 l) i else cells l t i)\<rparr>"
  using assms(2)
proof (induction n)
  case (Suc n)
  have n: "unat (of_nat n :: u64) = n" using Suc.prems by (simp add: unsigned_of_nat take_bit_nat_eq_self)
  have "unat i < Suc n \<longleftrightarrow> unat i < n \<or> i = of_nat n" for i :: u64 using n by (metis less_Suc_eq word_unat_eq_iff)
  then show ?case using Suc assms(1) by (auto simp: set_cell_def fun_eq_iff)
qed simp

definition firmware_view :: "loader_mem \<Rightarrow> loader_mem" where
  "firmware_view l = l\<lparr>p4_table := cr3 l\<rparr>"

lemma p4_index_less: "unat (p4_index v) < 512"
proof -
  have "p4_index v = take_bit 9 (drop_bit 9 (drop_bit 9 (drop_bit 9 (drop_bit 12 v))))"
    by (simp add: p4_index_def take_bit_eq_mask mask_eq_exp_minus_1)
  then have "unat (p4_index v) = take_bit 9 (unat (drop_bit 9 (drop_bit 9 (drop_bit 9 (drop_bit 12 v)))))"
    by (simp add: unsigned_take_bit_eq)
  then show ?thesis using take_bit_nat_less_exp[of 9] by simp
qed

text \<open>The memory after the copy: the page t holds the first 512 cells of the firmware's root table.\<close>

definition copied_root :: "loader_mem \<Rightarrow> u64 \<Rightarrow> u64 list \<Rightarrow> loader_mem" where
  "copied_root l t rest = l\<lparr>pool := rest, p4_table := t,
      cells := (cells l)(t := \<lambda>i. if unat i < 512 then cells l (cr3 l) i else 0)\<rparr>"

lemma copied_entry:
  "entry_at (to_mm (copied_root l t rest)) u i =
     (if u = t then if unat i < 512 then entry_at (to_mm (firmware_view l)) (cr3 l) i else zero_entry
      else entry_at (to_mm (firmware_view l)) u i)"
  by (simp add: entry_at_to_mm copied_root_def) (simp add: firmware_view_def)

lemma firmware_root: "table_at (to_mm (firmware_view l)) [] = Some (cr3 l)"
  by (simp add: to_mm_def firmware_view_def)

lemma fresh_root:
  assumes "loader_inv (firmware_view l)" "pool l = t # rest" "length js \<le> 3" "table_at (to_mm (firmware_view l)) js = Some u"
  shows "u \<noteq> t"
proof -
  have "pool (firmware_view l) = t # rest" using assms(2) by (simp add: firmware_view_def)
  from to_mm_allocate(1)[OF assms(1) this] pt_invD(3)[OF _ assms(3,4)] assms(1) show ?thesis by (auto simp: loader_inv_def)
qed

lemma copied_tables:
  assumes "loader_inv (firmware_view l)" "pool l = t # rest"
  shows "table_at (to_mm (copied_root l t rest)) js = Some u \<Longrightarrow> length js \<le> 3 \<Longrightarrow>
    js = [] \<and> u = t \<or> js \<noteq> [] \<and> table_at (to_mm (firmware_view l)) js = Some u"
proof (induction js arbitrary: u)
  case Nil
  then show ?case by (simp add: to_mm_def copied_root_def)
next
  case (Cons j js)
  then obtain x where x: "table_at (to_mm (copied_root l t rest)) js = Some x" "follow (to_mm (copied_root l t rest)) x j = Some u"
    by (auto split: option.splits)
  from Cons.IH[OF x(1)] Cons.prems(2) consider "js = []" "x = t" | "js \<noteq> []" "table_at (to_mm (firmware_view l)) js = Some x" by auto
  then show ?case
  proof cases
    case 1
    then show ?thesis using x(2) firmware_root[of l] by (auto simp: follow_def copied_entry split: if_splits)
  next
    case 2
    then show ?thesis using x(2) fresh_root[OF assms, of js x] Cons.prems(2) by (simp add: follow_def copied_entry)
  qed
qed

lemma copied_leaf:
  assumes "loader_inv (firmware_view l)" "pool l = t # rest"
  shows "leaf (to_mm (copied_root l t rest)) v = leaf (to_mm (firmware_view l)) v"
proof -
  let ?m = "to_mm (firmware_view l)" and ?m' = "to_mm (copied_root l t rest)"
  have f: "follow ?m' x i = follow ?m x i" if "length js \<le> 3" "table_at ?m js = Some x" for js x i
    using fresh_root[OF assms that] by (simp add: follow_def copied_entry)
  have "table_at ?m' [p4_index v] = table_at ?m [p4_index v]"
    using p4_index_less[of v] by (simp add: follow_def copied_entry) (simp add: to_mm_def copied_root_def firmware_view_def)
  then have "table_at ?m' [p3_index v, p4_index v] = table_at ?m [p3_index v, p4_index v]"
    using f[of "[p4_index v]"] by (simp del: table_at.simps(1) split: option.split)
  then have "table_at ?m' (leaf_path v) = table_at ?m (leaf_path v)"
    using f[of "[p3_index v, p4_index v]"] unfolding leaf_path_def by (simp split: option.split)
  then show ?thesis
    using fresh_root[OF assms, of "leaf_path v"]
    by (auto simp: leaf_def copied_entry leaf_path_def simp del: table_at.simps split: option.split)
qed

lemma copied_inv:
  assumes "loader_inv (firmware_view l)" "pool l = t # rest"
  shows "pt_inv (to_mm (copied_root l t rest))"
proof -
  let ?m = "to_mm (firmware_view l)" and ?m' = "to_mm (copied_root l t rest)"
  have p: "pool (firmware_view l) = t # rest" using assms(2) by (simp add: firmware_view_def)
  note A = to_mm_allocate[OF assms(1) p]
  have "pt_inv ?m" using assms(1) by (simp add: loader_inv_def)
  note D = pt_invD[OF this]
  note tab = copied_tables[OF assms]
  have nt: "u \<noteq> t" if "js \<noteq> []" "table_at ?m' js = Some u" "length js \<le> 3" for js u
    using tab[OF that(2,3)] fresh_root[OF assms that(3)] that(1) by blast
  have free: "free_frames ?m' = rest"
    using A(2) unfolding free_frames_to_mm by (simp add: copied_root_def)
  show ?thesis
    unfolding pt_inv_def
  proof (intro conjI allI impI)
    show "frames_wf ?m'" using A(3) unfolding frames_wf_def free_frames_def by (simp add: to_mm_def copied_root_def)
  next
    fix js ks u assume "length js \<le> 3" "length ks \<le> 3" "table_at ?m' js = Some u" "table_at ?m' ks = Some u"
    then show "js = ks" using tab[of js u] tab[of ks u] nt[of js u] nt[of ks u] D(2)[of js ks u] by blast
  next
    fix js u assume *: "length js \<le> 3" "table_at ?m' js = Some u"
    have "distinct (t # rest)" using D(1) A(1) by (simp add: frames_wf_def)
    then show "u \<notin> set (free_frames ?m')" using tab[OF *(2,1)] D(3)[OF *(1), of u] A(1) free by auto
  next
    fix js u i assume *: "length js \<le> 2" "table_at ?m' js = Some u"
    have "\<not> present zero_entry" by (simp add: zero_entry_def)
    with tab[OF *(2)] *(1) D(4)[OF *(1), of u i] D(4)[OF _ firmware_root, of i] nt[of js u] *(2)
    show "present (entry_at ?m' u i) \<longleftrightarrow> target (entry_at ?m' u i) \<noteq> 0" by (auto simp: copied_entry)
  qed
qed

lemma copy_existing_pages_spec:
  assumes "loader_inv (firmware_view l)" "pool l = t # rest"
  shows "copy_existing_pages l = Inr (copied_root l t rest) \<and> loader_inv (copied_root l t rest)"
proof -
  have "t \<noteq> cr3 l" using fresh_root[OF assms _ firmware_root] by simp
  then have "copy_existing_pages l = Inr (copied_root l t rest)"
    using copy_loop[of t "l\<lparr>pool := rest, cells := (cells l)(t := \<lambda>_. 0), p4_table := t\<rparr>" 512]
    by (simp add: copy_existing_pages_def new_page_table_def quick_allocate_page_def assms(2) copied_root_def Let_def cong: if_cong)
  moreover have "0 \<notin> set rest" using assms by (simp add: loader_inv_def firmware_view_def)
  ultimately show ?thesis using copied_inv[OF assms] by (simp add: loader_inv_def) (simp add: copied_root_def)
qed

lemma quick_memory_map_first:
  assumes "get_map n = Some m" "\<And>i. i < n \<Longrightarrow> get_map i = None"
  shows "quick_memory_map get_map 0 = Some (m, Suc n)"
proof -
  have "k \<le> n \<Longrightarrow> quick_memory_map get_map (n - k) = Some (m, Suc n)" for k
  proof (induction k)
    case 0
    then show ?case using assms(1) by (simp add: quick_memory_map.simps)
  next
    case (Suc k)
    then have "get_map (n - Suc k) = None" using assms(2) by simp
    moreover have "Suc (n - Suc k) = n - k" using Suc.prems by simp
    ultimately show ?case using Suc by (subst quick_memory_map.simps) simp
  qed
  from this[of n] show ?thesis by simp
qed

lemma setup_spec:
  assumes "loader_inv (firmware_view l)" "get_map n = Some ds" "\<And>i. i < n \<Longrightarrow> get_map i = None"
    and "map_ok ds" "3 * length (all_pages ds) < length (pool l)" "unat K mod 4096 = 0"
  shows "\<exists>l'. setup_page_table K get_map l = Some (Inr (l', Suc n)) \<and> loader_inv l' \<and> cr3 l' = p4_table l'
    \<and> list_all (direct K l') (all_pages ds)
    \<and> length (pool l) \<le> length (pool l') + 3 * length (all_pages ds) + 1
    \<and> (\<forall>w. list_all (\<lambda>a. \<not> same_page w (K + a)) (all_pages ds) \<longrightarrow> leaf (to_mm l') w = leaf (to_mm (firmware_view l)) w)"
proof -
  obtain t rest where p: "pool l = t # rest" using assms(5) by (cases "pool l") auto
  note C = copy_existing_pages_spec[OF assms(1) p]
  have pool: "pool (copied_root l t rest) = rest" by (simp add: copied_root_def)
  have "3 * length (all_pages ds) \<le> length (pool (copied_root l t rest))" using assms(5) p by (simp add: pool)
  from map_descriptors_spec[OF conjunct2[OF C] assms(4) this assms(6)] obtain l2 where l2:
    "foldE (map_descriptor K) ds (copied_root l t rest) = Inr l2" "loader_inv l2" "list_all (direct K l2) (all_pages ds)"
    "length rest \<le> length (pool l2) + 3 * length (all_pages ds)"
    "\<forall>w. list_all (\<lambda>a. \<not> same_page w (K + a)) (all_pages ds) \<longrightarrow> leaf (to_mm l2) w = leaf (to_mm (copied_root l t rest)) w"
    unfolding pool by blast
  have same: "to_mm (load_page_table l2) = to_mm l2" by (simp add: to_mm_def load_page_table_def)
  have run: "setup_page_table K get_map l = Some (Inr (load_page_table l2, Suc n))"
    using C l2(1) quick_memory_map_first[of get_map n ds] assms(2,3) by (simp add: setup_page_table_def)
  have inv: "loader_inv (load_page_table l2)" "cr3 (load_page_table l2) = p4_table (load_page_table l2)"
    using l2(2) by (simp_all add: loader_inv_def same) (simp_all add: load_page_table_def)
  have "pool (load_page_table l2) = pool l2" by (simp add: load_page_table_def)
  then show ?thesis
    using run inv l2(3-5) p by (intro exI[of _ "load_page_table l2"]) (simp add: same list_all_iff direct_def copied_leaf[OF assms(1) p])
qed

text \<open>Examples: empty firmware tables and a few pages, and a table that maps a large page.\<close>

definition demo_loader_of :: "nat \<Rightarrow> loader_mem" where
  "demo_loader_of n = \<lparr>cells = (\<lambda>_ _. 0), p4_table = 0x9000, pool = map (\<lambda>i. 0x10000 + of_nat (4096 * i)) [0..<n], cr3 = 0x9000\<rparr>"

definition demo_loader :: loader_mem where
  "demo_loader = demo_loader_of 10"

lemma length_demo_pool [simp]: "length (pool (demo_loader_of n)) = n" "length (pool demo_loader) = 10"
  by (simp_all add: demo_loader_of_def demo_loader_def)

lemma demo_view [simp]: "firmware_view (demo_loader_of n) = demo_loader_of n" "firmware_view demo_loader = demo_loader"
  by (simp_all add: firmware_view_def demo_loader_of_def demo_loader_def)

lemma demo_loader_of_inv:
  assumes "n < 2 ^ 36"
  shows "loader_inv (demo_loader_of n)"
proof -
  let ?l = "demo_loader_of n"
  have u: "unat (0x10000 + of_nat (4096 * i) :: u64) = 0x10000 + 4096 * i" if "i < n" for i
    using unat_add_of_nat[of "0x10000 :: u64" "4096 * i"] that assms by simp
  have inj: "inj_on (\<lambda>i. 0x10000 + of_nat (4096 * i) :: u64) {0..<n}"
    by (rule inj_onI) (metis atLeastLessThan_iff add_left_cancel mult_left_cancel u zero_neq_numeral)
  have big: "0x10000 \<le> unat a \<and> unat a mod 4096 = 0 \<and> unat a + 4096 \<le> 2 ^ 52" if "a \<in> set (pool ?l)" for a
    using that assms by (auto simp: demo_loader_of_def u simp del: of_nat_mult)
  have out: "0 \<notin> set (pool ?l)" "0x9000 \<notin> set (pool ?l)" using big[of 0] big[of "0x9000"] by auto
  have e: "entry_at (to_mm ?l) t i = zero_entry" for t i by (simp add: entry_at_to_mm demo_loader_of_def)
  have tab: "table_at (to_mm ?l) js = Some t \<longleftrightarrow> js = [] \<and> t = 0x9000" for js t
    by (induction js) (auto simp: follow_def e split: option.split, simp_all add: to_mm_def demo_loader_of_def)
  have f: "free_frames (to_mm ?l) = pool ?l" using out(1) unfolding free_frames_to_mm by (auto simp: filter_id_conv)
  have "distinct (pool ?l)" using inj by (simp add: demo_loader_of_def distinct_map)
  then have "frames_wf (to_mm ?l)"
    unfolding frames_wf_def f using big by (auto simp: to_mm_def region_ok_def usable_def list_all_iff)
  moreover have "\<not> present zero_entry" by (simp add: zero_entry_def)
  ultimately show ?thesis unfolding loader_inv_def pt_inv_def tab f e using out by simp
qed

lemma demo_loader_inv: "loader_inv demo_loader"
  unfolding demo_loader_def by (rule demo_loader_of_inv) simp

section \<open>Properties\<close>

text \<open>Mapping a run of pages in the boot loader: with page-aligned addresses and pages left for tables, every page of the run is
  mapped to the frame with the same offset, present and writable as the flags say, and no other page changes; with an unaligned
  address nothing is mapped.\<close>

theorem map_pages_translates:
  assumes "loader_inv l" "flags < 4096" "unat n \<le> 2 ^ 19" "3 * unat n \<le> length (pool l)" "unat p + 4096 * unat n \<le> 2 ^ 52"
  shows "if unat v mod 4096 = 0 \<and> unat p mod 4096 = 0
    then \<exists>l'. map_pages v p n flags l = Inr l' \<and> loader_inv l'
      \<and> (\<forall>j < unat n. virtual_to_physical (to_mm l') (v + pgoff j) = p + pgoff j \<and> present (leaf (to_mm l') (v + pgoff j)))
      \<and> (\<forall>w. (\<forall>j < unat n. \<not> same_page w (v + pgoff j)) \<longrightarrow> leaf (to_mm l') w = leaf (to_mm l) w)
    else map_pages v p n flags l = Inr l"
proof (cases "unat v mod 4096 = 0 \<and> unat p mod 4096 = 0")
  case True
  then have al: "unat v mod 4096 = 0" "unat p mod 4096 = 0" by auto
  from map_pages_spec[OF assms(1,2,4,3) al] obtain l' where "map_pages v p n flags l = Inr l'" "loader_inv l'"
    "\<forall>j < unat n. leaf (to_mm l') (v + pgoff j) = decode_entry (ADDR_TO_ENTRY (p + pgoff j) flags)"
    "\<forall>w. (\<forall>j < unat n. \<not> same_page w (v + pgoff j)) \<longrightarrow> leaf (to_mm l') w = leaf (to_mm l) w" by blast
  then show ?thesis
    using True frame_in_run[OF al(2) assms(5)] made_entry[OF assms(2)] by (auto simp: virtual_to_physical_leaf)
next
  case False
  then show ?thesis unfolding if_not_P[OF False] by (rule map_pages_unaligned)
qed

theorem map_pages_translates_witness:
  "\<exists>l'. map_pages 0xFFFF800000000000 0x200000 2 2 demo_loader = Inr l' \<and> virtual_to_physical (to_mm l') 0xFFFF800000001000 = 0x201000"
proof -
  have "3 * unat (2 :: u64) \<le> length (pool demo_loader)" by simp
  with map_pages_translates[OF demo_loader_inv, where flags = 2 and n = 2 and p = "0x200000" and v = "0xFFFF800000000000"]
  obtain l' where l': "map_pages 0xFFFF800000000000 0x200000 2 2 demo_loader = Inr l'"
    "\<forall>j < unat (2 :: u64). virtual_to_physical (to_mm l') (0xFFFF800000000000 + pgoff j) = 0x200000 + pgoff j" by auto
  from spec[OF l'(2), of 1] l'(1) show ?thesis by simp
qed



text \<open>Regions of more than 2 GiB: the byte offset of a page is computed in the type int, which overflows when the run has more than
  2 to the 19 pages, after that many pages have been mapped.\<close>

theorem large_region_overflows:
  assumes "loader_inv l" "flags < 4096" "2 ^ 19 < unat n" "3 * 2 ^ 19 \<le> length (pool l)" "unat v mod 4096 = 0" "unat p mod 4096 = 0"
  shows "map_pages v p n flags l = Inl SignedOverflow"
proof -
  have u: "unat (of_nat (2 ^ 19) :: u64) = 2 ^ 19" by simp
  from map_pages_spec[of l flags "of_nat (2 ^ 19)" v p] assms obtain l' where
    l': "map_pages_loop v p flags [0..<2 ^ 19] l = Inr l'" unfolding map_pages_def u by auto
  have "[0..<unat n] = [0..<2 ^ 19] @ [2 ^ 19..<unat n]" using upt_add_eq_append[of 0 "2 ^ 19" "unat n - 2 ^ 19"] assms(3) by simp
  moreover have "[2 ^ 19..<unat n] = 2 ^ 19 # [Suc (2 ^ 19)..<unat n]" using assms(3) by (rule upt_conv_Cons)
  ultimately show ?thesis
    using l' assms(5,6) by (simp only: map_pages_def map_pages_loop_append[OF assms(5,6)] bindE_simps) (simp add: EFI_PAGE_SIZE_def INT_MAX_def)
qed

theorem large_region_overflows_witness:
  "map_pages 0xFFFF800000000000 0 0x100000 2 (demo_loader_of 2000000) = Inl SignedOverflow"
  by (rule large_region_overflows[OF demo_loader_of_inv]) simp_all

text \<open>Large pages: the walk looks at the present bit only. When the firmware maps the address with a 2 MiB page, \<^verbatim>\<open>map_pages\<close>
  takes the page for a table and writes the new entry into the memory it maps, at eight times the index, and leaves all tables as they are.\<close>

theorem large_page_taken_for_table:
  assumes "present (entry_at (to_mm l) (p4_table l) (p4_index v))" "t3 = target (entry_at (to_mm l) (p4_table l) (p4_index v))"
    and "present (entry_at (to_mm l) t3 (p3_index v))" "t2 = target (entry_at (to_mm l) t3 (p3_index v))"
    and "present (entry_at (to_mm l) t2 (p2_index v))" "page_size (entry_at (to_mm l) t2 (p2_index v))"
    and "big = target (entry_at (to_mm l) t2 (p2_index v))"
  shows "map_one l v p flags = Inr (l\<lparr>cells := (cells l)(big := (cells l big)(p1_index v := ADDR_TO_ENTRY p flags))\<rparr>)"
  using assms unfolding map_one_def Let_def loader_indices next_table_def entry_present entry_at_to_mm entry_target set_cell_def
  by simp

theorem large_page_taken_for_table_witness:
  "map_one \<lparr>cells = (\<lambda>t i. if t = 0x9000 then 0xA003 else if t = 0xA000 then 0xB003 else 0x200083), p4_table = 0x9000, pool = [], cr3 = 0x9000\<rparr>
     0x5000 0x7000 2 =
   Inr \<lparr>cells = (\<lambda>t i. if t = 0x9000 then 0xA003 else if t = 0xA000 then 0xB003 else 0x200083)
       (0x200000 := (\<lambda>_. 0x200083)(5 := 0x7003)), p4_table = 0x9000, pool = [], cr3 = 0x9000\<rparr>"
proof -
  let ?l = "\<lparr>cells = (\<lambda>t i. if t = 0x9000 then 0xA003 else if t = 0xA000 then 0xB003 else 0x200083), p4_table = 0x9000, pool = [], cr3 = 0x9000\<rparr>"
  have e: "entry_at (to_mm ?l) 0x9000 i = decode_entry 0xA003" "entry_at (to_mm ?l) 0xA000 i = decode_entry 0xB003"
    "entry_at (to_mm ?l) 0xB000 i = decode_entry 0x200083" for i by (simp_all add: entry_at_to_mm)
  have t: "target (decode_entry 0xA003) = 0xA000" "target (decode_entry 0xB003) = 0xB000" "target (decode_entry 0x200083) = 0x200000"
    by (simp_all add: entry_target)
  have b: "present (decode_entry 0xA003)" "present (decode_entry 0xB003)" "present (decode_entry 0x200083)" "page_size (decode_entry 0x200083)"
    by (simp_all add: decode_entry_def)
  have i: "p1_index 0x5000 = 5" "ADDR_TO_ENTRY 0x7000 2 = 0x7003" by (simp_all add: p1_index_def ADDR_TO_ENTRY_def)
  from large_page_taken_for_table[of ?l "0x5000" "0xA000" "0xB000" "0x200000" "0x7000" 2] show ?thesis by (simp add: e t b i fun_eq_iff)
qed

end
