(* ===== verification/Loader.thy ===== *)
theory Loader
  imports LoaderPages CString
begin

text \<open>
  The UEFI boot loader: \<^verbatim>\<open>elf.c\<close>, \<^verbatim>\<open>bootinfo.c\<close> and \<^verbatim>\<open>bootx64.c\<close> of \<^verbatim>\<open>lethe-bootloaders/loader\<close>. Files and pool blocks live in
  a byte memory, page tables in the memory of theory LoaderPages; the two do not overlap. What the firmware gives is a
  parameter: pages and pool blocks, the contents of files, the configuration tables, the graphics mode, the memory map. A file
  that cannot be opened is \<open>None\<close>. The GUIDs come from the headers of the firmware interface and are arguments, as is the
  virtual base of the kernel. \<^verbatim>\<open>memmove\<close> of the firmware library copies a block as the C standard says. The messages are left out.
\<close>

section \<open>The kernel image\<close>

record Elf64_Phdr =
  p_type :: u32
  p_offset :: u64
  p_vaddr :: u64
  p_paddr :: u64
  p_filesz :: u64
  p_memsz :: u64
  p_align :: u64

definition PT_LOAD :: u32 where "PT_LOAD = 1"
definition sizeof_Elf64_Phdr :: nat where "sizeof_Elf64_Phdr = 56"

definition eh_entry :: "mem \<Rightarrow> ptr \<Rightarrow> u64" where "eh_entry m hdr = rd64 m (hdr + 24)"
definition eh_phoff :: "mem \<Rightarrow> ptr \<Rightarrow> u64" where "eh_phoff m hdr = rd64 m (hdr + 32)"
definition eh_phnum :: "mem \<Rightarrow> ptr \<Rightarrow> u16" where "eh_phnum m hdr = rd16 m (hdr + 56)"

definition read_phdr :: "mem \<Rightarrow> ptr \<Rightarrow> Elf64_Phdr" where
  "read_phdr m a = \<lparr>p_type = rd32 m a, p_offset = rd64 m (a + 8), p_vaddr = rd64 m (a + 16), p_paddr = rd64 m (a + 24),
     p_filesz = rd64 m (a + 32), p_memsz = rd64 m (a + 40), p_align = rd64 m (a + 48)\<rparr>"

definition is_image_valid :: "mem \<Rightarrow> ptr \<Rightarrow> bool" where
  "is_image_valid m hdr \<longleftrightarrow>
     (if m hdr \<noteq> 0x7F then False else if m (hdr + 1) \<noteq> 0x45 then False
      else if m (hdr + 2) \<noteq> 0x4C then False else if m (hdr + 3) \<noteq> 0x46 then False else True)"

text \<open>The first loop of \<^verbatim>\<open>load\<close>: alignment, first and last address. The mask has 32 bits.\<close>

definition align_mask :: "u32 \<Rightarrow> u64" where
  "align_mask align = ucast (NOT (align - 1))"

fun extent_step :: "u32 \<times> u64 \<times> u64 \<Rightarrow> Elf64_Phdr \<Rightarrow> u32 \<times> u64 \<times> u64" where
  "extent_step (align, lo, hi) cur =
     (if p_type cur \<noteq> PT_LOAD then (align, lo, hi)
      else let align' = (if p_align cur > ucast align then ucast (p_align cur) else align);
               phdr_begin = p_vaddr cur AND align_mask align';
               lo' = (if lo > phdr_begin then phdr_begin else lo);
               phdr_end = (p_vaddr cur + p_memsz cur) AND align_mask align';
               hi' = (if hi < phdr_end then phdr_end else hi)
           in (align', lo', hi'))"

definition phdr_at :: "mem \<Rightarrow> ptr \<Rightarrow> nat \<Rightarrow> Elf64_Phdr" where
  "phdr_at m buf i = read_phdr m (buf + eh_phoff m buf + of_nat (sizeof_Elf64_Phdr * i))"

definition image_extent :: "Elf64_Phdr list \<Rightarrow> u32 \<times> u64 \<times> u64" where
  "image_extent phdrs = foldl extent_step (4096, 18446744073709551615, 0) phdrs"

definition image_begin :: "Elf64_Phdr list \<Rightarrow> u64" where
  "image_begin phdrs = fst (snd (image_extent phdrs))"

definition page_count :: "Elf64_Phdr list \<Rightarrow> u64" where
  "page_count phdrs = (snd (snd (image_extent phdrs)) - image_begin phdrs) div of_nat EFI_PAGE_SIZE"

text \<open>The second loop: the number of headers and the headers are read again, from the memory as the copies so far have left it.\<close>

definition copy_segment :: "ptr \<Rightarrow> ptr \<Rightarrow> u64 \<Rightarrow> u64 \<Rightarrow> mem \<Rightarrow> nat \<Rightarrow> mem" where
  "copy_segment buf phdrs addr lo m i =
     (let cur = read_phdr m (phdrs + of_nat (sizeof_Elf64_Phdr * i)) in
      if p_type cur \<noteq> PT_LOAD then m
      else block_copy m (addr + p_paddr cur - lo) (buf + p_offset cur) (unat (p_filesz cur)))"

function copy_segments :: "ptr \<Rightarrow> ptr \<Rightarrow> u64 \<Rightarrow> u64 \<Rightarrow> mem \<Rightarrow> nat \<Rightarrow> mem" where
  "copy_segments buf phdrs addr lo m i =
     (if i < unat (eh_phnum m buf) then copy_segments buf phdrs addr lo (copy_segment buf phdrs addr lo m i) (Suc i) else m)"
  by pat_completeness auto

text \<open>The number of headers has 16 bits.\<close>

lemma eh_phnum_less: "unat (eh_phnum m buf) < 65536"
  by (rule order_less_le_trans[OF unsigned_less]) simp

termination copy_segments
proof (relation "measure (\<lambda>(buf, phdrs, addr, lo, m, i). 65536 - i)")
  fix buf phdrs addr lo m i assume "i < unat (eh_phnum m buf)"
  then show "((buf, phdrs, addr, lo, copy_segment buf phdrs addr lo m i, Suc i), buf, phdrs, addr, lo, m, i)
      \<in> measure (\<lambda>(buf, phdrs, addr, lo, m, i). 65536 - i)" using eh_phnum_less[of m buf] by simp
qed simp

declare copy_segments.simps [simp del]

record loaded =
  bytes :: mem
  tabs :: loader_mem
  base_address :: ptr

definition load :: "u64 \<Rightarrow> (u64 \<Rightarrow> u64 option) \<Rightarrow> ptr \<Rightarrow> loaded \<Rightarrow> (ptr \<times> loaded) res" where
  "load KERNEL_START alloc_pages buf s =
     (let m = bytes s in
      if \<not> is_image_valid m buf then Inr (NULL, s)
      else let phdrs = map (phdr_at m buf) [0..<unat (eh_phnum m buf)]; b = image_begin phdrs; n = page_count phdrs in
        case alloc_pages n of
          None \<Rightarrow> Inl Uninitialised
        | Some addr \<Rightarrow>
            bindE (map_pages KERNEL_START addr n 2 (tabs s)) (\<lambda>l.
            let m' = copy_segments buf (buf + eh_phoff m buf) addr b m 0
            in Inr (addr + eh_entry m' buf - b - KERNEL_START, s\<lparr>base_address := addr, tabs := l, bytes := m'\<rparr>)))"

definition KERNEL_FILE_MAX :: nat where "KERNEL_FILE_MAX = 1048576 * 5"

definition put_bytes :: "mem \<Rightarrow> ptr \<Rightarrow> u8 list \<Rightarrow> mem" where
  "put_bytes m p xs = (\<lambda>a. if unat (a - p) < length xs then xs ! unat (a - p) else m a)"

definition load_kernel :: "u64 \<Rightarrow> (u64 \<Rightarrow> u64 option) \<Rightarrow> u8 list option \<Rightarrow> ptr \<Rightarrow> loaded \<Rightarrow> (ptr \<times> loaded) res" where
  "load_kernel KERNEL_START alloc_pages file elf_buffer s =
     (case file of
        None \<Rightarrow> Inr (NULL, s)
      | Some xs \<Rightarrow>
          if elf_buffer = NULL then Inr (NULL, s)
          else load KERNEL_START alloc_pages elf_buffer (s\<lparr>bytes := put_bytes (bytes s) elf_buffer (take KERNEL_FILE_MAX xs)\<rparr>))"

section \<open>Boot information\<close>

record efi_guid_t =
  Data1 :: u32
  Data2 :: u16
  Data3 :: u16
  Data4 :: "u8 list"

definition guid_equal :: "efi_guid_t \<Rightarrow> efi_guid_t \<Rightarrow> bool" where
  "guid_equal a b \<longleftrightarrow> Data1 a = Data1 b \<and> Data2 a = Data2 b \<and> Data3 a = Data3 b
     \<and> list_all (\<lambda>i. Data4 a ! i = Data4 b ! i) [0..<8]"

fun get_configuration_table :: "efi_guid_t \<Rightarrow> (efi_guid_t \<times> ptr) list \<Rightarrow> ptr" where
  "get_configuration_table guid [] = NULL"
| "get_configuration_table guid ((table_guid, table) # ts) =
     (if guid_equal table_guid guid then table else get_configuration_table guid ts)"

definition rsdp_checksum :: "mem \<Rightarrow> ptr \<Rightarrow> bool" where
  "rsdp_checksum m rsdp =
     (let checksum_bytes = (if m (rsdp + 15) > 0 then 36 else 20) in
      foldl (\<lambda>sum i. sum + m (rsdp + of_nat i)) 0 [0..<checksum_bytes] = 0)"

datatype efi_status_t = EFI_SUCCESS | EFI_NOT_FOUND | EFI_OUT_OF_RESOURCES | EFI_OTHER u64

record kernel_bootinfo_t =
  magic :: "u8 list"
  bi_base :: u64
  bi_size :: u64
  bi_pitch :: u32
  horizontal_resolution :: u32
  vertical_resolution :: u32
  initfs :: ptr
  initfs_size :: int
  bi_mmap :: "efi_memory_descriptor_t list"
  rsdp_address :: ptr
  stack_top :: u64
  stack_bottom :: u64

definition zero_bootinfo :: kernel_bootinfo_t where
  "zero_bootinfo = \<lparr>magic = replicate 5 0, bi_base = 0, bi_size = 0, bi_pitch = 0, horizontal_resolution = 0,
     vertical_resolution = 0, initfs = NULL, initfs_size = 0, bi_mmap = [], rsdp_address = NULL, stack_top = 0, stack_bottom = 0\<rparr>"

definition get_rsdp :: "efi_guid_t \<Rightarrow> efi_guid_t \<Rightarrow> (efi_guid_t \<times> ptr) list \<Rightarrow> kernel_bootinfo_t \<Rightarrow> efi_status_t \<times> kernel_bootinfo_t" where
  "get_rsdp acpi_guid fallback_guid ts bi =
     (let t = get_configuration_table acpi_guid ts;
          acpi_table = (if t = NULL then get_configuration_table fallback_guid ts else t)
      in if acpi_table = NULL then (EFI_NOT_FOUND, bi) else (EFI_SUCCESS, bi\<lparr>rsdp_address := acpi_table\<rparr>))"

definition INITFS_MAX :: nat where "INITFS_MAX = 1048576"

definition get_initfs :: "u64 \<Rightarrow> u8 list option \<Rightarrow> ptr \<Rightarrow> loaded \<times> kernel_bootinfo_t \<Rightarrow> (efi_status_t \<times> loaded \<times> kernel_bootinfo_t) res" where
  "get_initfs KERNEL_START file initfs_buffer sb =
     (let (s, bi) = sb in
      case file of
        None \<Rightarrow> Inr (EFI_NOT_FOUND, s, bi)
      | Some xs \<Rightarrow>
          if initfs_buffer = NULL then Inr (EFI_OUT_OF_RESOURCES, s, bi)
          else bindE (map_pages (initfs_buffer + KERNEL_START) initfs_buffer (of_nat (INITFS_MAX div EFI_PAGE_SIZE)) 2 (tabs s)) (\<lambda>l.
               Inr (EFI_SUCCESS, s\<lparr>bytes := put_bytes (bytes s) initfs_buffer (take INITFS_MAX xs), tabs := l\<rparr>,
                    bi\<lparr>initfs_size := int INITFS_MAX, initfs := initfs_buffer\<rparr>)))"

record efi_gop_mode =
  FrameBufferBase :: u64
  FrameBufferSize :: u64
  PixelsPerScanLine :: u32
  HorizontalResolution :: u32
  VerticalResolution :: u32

definition get_gop :: "u64 \<Rightarrow> (efi_status_t + efi_gop_mode) \<Rightarrow> loaded \<times> kernel_bootinfo_t \<Rightarrow> (efi_status_t \<times> loaded \<times> kernel_bootinfo_t) res" where
  "get_gop KERNEL_START gop sb =
     (let (s, bi) = sb in
      case gop of
        Inl status \<Rightarrow> Inr (status, s, bi)
      | Inr g \<Rightarrow>
          bindE (map_pages (FrameBufferBase g + KERNEL_START) (FrameBufferBase g) (FrameBufferSize g div of_nat EFI_PAGE_SIZE) 2 (tabs s)) (\<lambda>l.
          Inr (EFI_SUCCESS, s\<lparr>tabs := l\<rparr>,
               bi\<lparr>bi_base := FrameBufferBase g, bi_pitch := PixelsPerScanLine g * 4, horizontal_resolution := HorizontalResolution g,
                  vertical_resolution := VerticalResolution g, bi_size := FrameBufferSize g\<rparr>)))"

definition KERNEL_MEMORY_MAX :: u64 where "KERNEL_MEMORY_MAX = 18446744073709551615"
definition stack_pages :: u64 where "stack_pages = 100 * 1024 div 4096 + 1"

text \<open>The loop over the memory map: virtual addresses are filled in, and the smallest region with room is remembered.\<close>

fun stack_step :: "u64 \<times> u64 \<Rightarrow> nat \<times> efi_memory_descriptor_t \<Rightarrow> u64 \<times> u64" where
  "stack_step (min_pages, min_offset) (i, desc) =
     (if NumberOfPages desc \<ge> stack_pages
      then if NumberOfPages desc < min_pages then (NumberOfPages desc, of_nat i) else (min_pages, min_offset)
      else (min_pages, min_offset))"

definition find_stack :: "efi_memory_descriptor_t list \<Rightarrow> u64 \<times> u64" where
  "find_stack ds = foldl stack_step (KERNEL_MEMORY_MAX, KERNEL_MEMORY_MAX) (zip [0..<length ds] ds)"

definition place_stack :: "u64 \<Rightarrow> efi_memory_descriptor_t list \<Rightarrow> kernel_bootinfo_t \<Rightarrow> kernel_bootinfo_t option" where
  "place_stack KERNEL_START mmap bi =
     (let ds = map (\<lambda>d. d\<lparr>VirtualStart := KERNEL_START + PhysicalStart d\<rparr>) mmap; i = snd (find_stack ds) in
      if i = KERNEL_MEMORY_MAX then None
      else let d = ds ! unat i;
               stack_start = VirtualStart d + of_nat EFI_PAGE_SIZE;
               stack_end = stack_start + (stack_pages - 1) * of_nat EFI_PAGE_SIZE;
               d' = d\<lparr>PhysicalStart := stack_end, VirtualStart := KERNEL_START + stack_end\<rparr>
           in Some (bi\<lparr>stack_bottom := stack_start, stack_top := stack_end AND NOT 15, bi_mmap := ds[unat i := d']\<rparr>))"

record firmware =
  fw_acpi_guid :: efi_guid_t
  fw_fallback_guid :: efi_guid_t
  fw_tables :: "(efi_guid_t \<times> ptr) list"
  fw_gop :: "efi_status_t + efi_gop_mode"
  fw_kernel_file :: "u8 list option"
  fw_kernel_buffer :: ptr
  fw_initfs_file :: "u8 list option"
  fw_initfs_buffer :: ptr
  fw_bootinfo_block :: ptr
  fw_mmap_block :: ptr
  fw_map :: "nat \<Rightarrow> efi_memory_descriptor_t list option"
  fw_alloc_pages :: "u64 \<Rightarrow> u64 option"
  fw_exit :: "nat \<Rightarrow> efi_status_t"

text \<open>The statuses of \<^verbatim>\<open>get_rsdp\<close>, \<^verbatim>\<open>get_gop\<close> and \<^verbatim>\<open>get_initfs\<close> are dropped. The number is that of the last call of
  \<^verbatim>\<open>GetMemoryMap\<close>, whose key \<^verbatim>\<open>main\<close> passes on.\<close>

definition get_bootinfo :: "u64 \<Rightarrow> firmware \<Rightarrow> nat \<Rightarrow> loaded \<Rightarrow> (kernel_bootinfo_t \<times> nat \<times> loaded) run" where
  "get_bootinfo KERNEL_START fw calls s =
     bindR (Some (guardE NullDeref (fw_bootinfo_block fw \<noteq> NULL))) (\<lambda>_.
     let bi0 = snd (get_rsdp (fw_acpi_guid fw) (fw_fallback_guid fw) (fw_tables fw) zero_bootinfo) in
     bindR (Some (get_gop KERNEL_START (fw_gop fw) (s, bi0))) (\<lambda>(_, s1, bi1).
     let bi2 = bi1\<lparr>magic := lit ''OS649''\<rparr> in
     bindR (Some (get_initfs KERNEL_START (fw_initfs_file fw) (fw_initfs_buffer fw) (s1, bi2))) (\<lambda>(_, s2, bi3).
     case quick_memory_map (fw_map fw) calls of
       None \<Rightarrow> None
     | Some (mmap, calls') \<Rightarrow>
         (case place_stack KERNEL_START mmap bi3 of None \<Rightarrow> None | Some bi \<Rightarrow>
            bindR (Some (guardE NullDeref (fw_mmap_block fw \<noteq> NULL))) (\<lambda>_. Some (Inr (bi, calls', s2)))))))"

section \<open>The entry of the loader\<close>

record jump =
  jump_rsp :: u64
  jump_rdi :: ptr
  jump_rip :: ptr
  jump_bootinfo :: kernel_bootinfo_t
  jump_state :: loaded

definition loader_main :: "u64 \<Rightarrow> firmware \<Rightarrow> loaded \<Rightarrow> jump run" where
  "loader_main KERNEL_START fw s =
     bindR (setup_page_table KERNEL_START (fw_map fw) (tabs s)) (\<lambda>(l, calls).
     bindR (Some (load_kernel KERNEL_START (fw_alloc_pages fw) (fw_kernel_file fw) (fw_kernel_buffer fw) (s\<lparr>tabs := l\<rparr>))) (\<lambda>(ptr, s1).
     if ptr = NULL then None
     else bindR (get_bootinfo KERNEL_START fw calls s1) (\<lambda>(bi, calls', s2).
          if fw_exit fw calls' \<noteq> EFI_SUCCESS then None
          else Some (Inr \<lparr>jump_rsp = stack_top bi, jump_rdi = fw_bootinfo_block fw, jump_rip = ptr, jump_bootinfo = bi,
                 jump_state = s2\<lparr>tabs := load_page_table (tabs s2)\<rparr>\<rparr>))))"

section \<open>Lemmas\<close>

lemma read_phdr_cong:
  assumes "\<And>k. k < 56 \<Longrightarrow> m' (a + of_nat k) = m (a + of_nat k)"
  shows "read_phdr m' a = read_phdr m a"
proof -
  have "list_all (\<lambda>k. m' (a + of_nat k) = m (a + of_nat k)) [0..<56]" using assms by (simp add: list_all_iff)
  then show ?thesis by (simp add: upt_rec read_phdr_def rd64_def rd32_def add.assoc)
qed

text \<open>The placement of a segment, and when two blocks share no byte.\<close>

definition placed_at :: "ptr \<Rightarrow> u64 \<Rightarrow> Elf64_Phdr \<Rightarrow> ptr" where
  "placed_at addr lo ph = addr + p_paddr ph - lo"

definition apart :: "ptr \<Rightarrow> nat \<Rightarrow> ptr \<Rightarrow> nat \<Rightarrow> bool" where
  "apart d n e k \<longleftrightarrow> (\<forall>a. \<not> (in_block a d n \<and> in_block a e k))"

definition segment_placed :: "mem \<Rightarrow> mem \<Rightarrow> ptr \<Rightarrow> ptr \<Rightarrow> u64 \<Rightarrow> Elf64_Phdr \<Rightarrow> bool" where
  "segment_placed m' m buf addr lo ph \<longleftrightarrow>
     (\<forall>k < unat (p_filesz ph). m' (placed_at addr lo ph + of_nat k) = m (buf + p_offset ph + of_nat k))"

text \<open>An image within a buffer of \<open>sz\<close> bytes whose segments go to places apart from the buffer and from each other.\<close>

definition image_ok :: "mem \<Rightarrow> ptr \<Rightarrow> nat \<Rightarrow> Elf64_Phdr list \<Rightarrow> ptr \<Rightarrow> u64 \<Rightarrow> bool" where
  "image_ok m buf sz phdrs addr lo \<longleftrightarrow> 64 \<le> sz \<and> sz \<le> 2 ^ 64 \<and> length phdrs = unat (eh_phnum m buf) \<and>
     (\<forall>i < length phdrs. phdrs ! i = phdr_at m buf i
        \<and> (\<forall>k < 56. in_block (buf + eh_phoff m buf + of_nat (sizeof_Elf64_Phdr * i) + of_nat k) buf sz)
        \<and> (p_type (phdrs ! i) = PT_LOAD \<longrightarrow>
             (\<forall>k < unat (p_filesz (phdrs ! i)). in_block (buf + p_offset (phdrs ! i) + of_nat k) buf sz)
             \<and> apart (placed_at addr lo (phdrs ! i)) (unat (p_filesz (phdrs ! i))) buf sz
             \<and> (\<forall>j < i. p_type (phdrs ! j) = PT_LOAD \<longrightarrow>
                  apart (placed_at addr lo (phdrs ! i)) (unat (p_filesz (phdrs ! i))) (placed_at addr lo (phdrs ! j)) (unat (p_filesz (phdrs ! j))))))"

lemma in_block_offset: "k < n \<Longrightarrow> n \<le> 2 ^ 64 \<Longrightarrow> in_block (d + of_nat k) d n"
  using in_block_iff[of n "d + of_nat k" d] by auto

lemma copy_segments_prefix:
  assumes ok: "image_ok m buf sz phdrs addr lo" and n: "n \<le> length phdrs"
  defines "run k \<equiv> foldl (copy_segment buf (buf + eh_phoff m buf) addr lo) m [0..<k]"
  shows "(\<forall>a. in_block a buf sz \<longrightarrow> run n a = m a)
    \<and> (\<forall>i < n. p_type (phdrs ! i) = PT_LOAD \<longrightarrow> segment_placed (run n) m buf addr lo (phdrs ! i))"
  using n
proof (induction n)
  case 0
  then show ?case by (simp add: run_def)
next
  case (Suc n)
  then have IH: "\<And>a. in_block a buf sz \<Longrightarrow> run n a = m a"
    "\<And>i. i < n \<Longrightarrow> p_type (phdrs ! i) = PT_LOAD \<Longrightarrow> segment_placed (run n) m buf addr lo (phdrs ! i)" by auto
  let ?ph = "phdrs ! n" and ?d = "placed_at addr lo (phdrs ! n)"
  let ?c = "unat (p_filesz ?ph)"
  have N: "n < length phdrs" using Suc.prems by simp
  note ph = ok[unfolded image_ok_def, THEN conjunct2, THEN conjunct2, THEN conjunct2, rule_format, OF N]
  have "read_phdr (run n) (buf + eh_phoff m buf + of_nat (sizeof_Elf64_Phdr * n)) = ?ph"
    using ph IH(1) by (simp add: phdr_at_def) (rule read_phdr_cong, simp)
  then have step: "run (Suc n) = (if p_type ?ph \<noteq> PT_LOAD then run n else block_copy (run n) ?d (buf + p_offset ?ph) ?c)"
    by (simp add: run_def copy_segment_def placed_at_def Let_def)
  show ?case
  proof (cases "p_type ?ph = PT_LOAD")
    case False
    then show ?thesis using IH step by (auto simp: less_Suc_eq)
  next
    case True
    have src: "in_block (buf + p_offset ?ph + of_nat k) buf sz" if "k < ?c" for k using ph True that by blast
    have apt: "apart ?d ?c buf sz" "\<And>j. j < n \<Longrightarrow> p_type (phdrs ! j) = PT_LOAD \<Longrightarrow>
        apart ?d ?c (placed_at addr lo (phdrs ! j)) (unat (p_filesz (phdrs ! j)))" using ph True by blast+
    have c64: "?c \<le> 2 ^ 64" by (rule less_imp_le) (rule order_less_le_trans[OF unsigned_less], simp)
    have r: "run (Suc n) a = (if in_block a ?d ?c then run n (buf + p_offset ?ph + (a - ?d)) else run n a)" for a
      using step True by (simp add: block_copy_def)
    have buf: "run (Suc n) a = m a" if "in_block a buf sz" for a
      using r[of a] IH(1)[OF that] apt(1) that by (auto simp: apart_def)
    have mine: "segment_placed (run (Suc n)) m buf addr lo ?ph"
      unfolding segment_placed_def
    proof (intro allI impI)
      fix k assume k: "k < ?c"
      have "run (Suc n) (?d + of_nat k) = run n (buf + p_offset ?ph + of_nat k)"
        using r[of "?d + of_nat k"] in_block_offset[OF k c64, of ?d] by simp
      then show "run (Suc n) (?d + of_nat k) = m (buf + p_offset ?ph + of_nat k)" using IH(1)[OF src[OF k]] by simp
    qed
    have "segment_placed (run (Suc n)) m buf addr lo (phdrs ! i)" if i: "i < n" "p_type (phdrs ! i) = PT_LOAD" for i
    proof -
      let ?n = "unat (p_filesz (phdrs ! i))"
      have "?n \<le> 2 ^ 64" by (rule less_imp_le) (rule order_less_le_trans[OF unsigned_less], simp)
      then have "run (Suc n) (placed_at addr lo (phdrs ! i) + of_nat k) = run n (placed_at addr lo (phdrs ! i) + of_nat k)" if "k < ?n" for k
        using r[of "placed_at addr lo (phdrs ! i) + of_nat k"] in_block_offset[OF that, of "placed_at addr lo (phdrs ! i)"] apt(2)[OF i]
        by (auto simp: apart_def)
      then show ?thesis using IH(2)[OF i] by (simp add: segment_placed_def)
    qed
    with buf mine show ?thesis by (auto simp: less_Suc_eq)
  qed
qed

text \<open>The loop reads the same header on every round, so it visits each segment once.\<close>

lemma header_cong:
  assumes "\<And>k. k < 64 \<Longrightarrow> m' (buf + of_nat k) = m (buf + of_nat k)"
  shows "eh_phnum m' buf = eh_phnum m buf" "eh_entry m' buf = eh_entry m buf"
  using assms[of 24] assms[of 25] assms[of 26] assms[of 27] assms[of 28] assms[of 29] assms[of 30] assms[of 31] assms[of 56] assms[of 57]
  by (simp_all add: eh_phnum_def eh_entry_def rd64_def rd32_def rd16_def add.assoc)

lemma copy_segments_fold:
  assumes ok: "image_ok m buf sz phdrs addr lo" and "i \<le> unat (eh_phnum m buf)"
  defines "run k \<equiv> foldl (copy_segment buf (buf + eh_phoff m buf) addr lo) m [0..<k]"
  shows "copy_segments buf (buf + eh_phoff m buf) addr lo (run i) i = run (unat (eh_phnum m buf))
    \<and> eh_entry (run (unat (eh_phnum m buf))) buf = eh_entry m buf"
proof -
  have hd: "eh_phnum (run k) buf = eh_phnum m buf \<and> eh_entry (run k) buf = eh_entry m buf" if "k \<le> unat (eh_phnum m buf)" for k
  proof -
    have "64 \<le> sz" "sz \<le> 2 ^ 64" "k \<le> length phdrs" using ok that by (auto simp: image_ok_def)
    then have "run k (buf + of_nat j) = m (buf + of_nat j)" if "j < 64" for j
      using copy_segments_prefix[OF ok] in_block_offset[of j sz buf] that unfolding run_def by simp
    then show ?thesis using header_cong by blast
  qed
  have "copy_segments buf (buf + eh_phoff m buf) addr lo (run i) i = run (unat (eh_phnum m buf))"
    using assms(2)
  proof (induction "unat (eh_phnum m buf) - i" arbitrary: i)
    case 0
    then show ?case using hd[of i] by (subst copy_segments.simps) simp
  next
    case (Suc n)
    then have "i < unat (eh_phnum m buf)" by simp
    moreover have "copy_segment buf (buf + eh_phoff m buf) addr lo (run i) i = run (Suc i)" by (simp add: run_def)
    ultimately show ?case using hd[of i] Suc.hyps(1)[of "Suc i"] Suc.hyps(2) by (subst copy_segments.simps) simp
  qed
  then show ?thesis using hd[of "unat (eh_phnum m buf)"] by simp
qed

text \<open>Loading an image: the segments are in place and the pages of the image are mapped.\<close>

lemma load_spec:
  assumes "is_image_valid (bytes s) buf" "phdrs = map (phdr_at (bytes s) buf) [0..<unat (eh_phnum (bytes s) buf)]"
    and "alloc_pages (page_count phdrs) = Some addr" "image_ok (bytes s) buf sz phdrs addr (image_begin phdrs)"
    and "map_pages K addr (page_count phdrs) 2 (tabs s) = Inr l"
  shows "\<exists>m'. load K alloc_pages buf s = Inr (addr + eh_entry (bytes s) buf - image_begin phdrs - K, s\<lparr>base_address := addr, tabs := l, bytes := m'\<rparr>)
    \<and> list_all (\<lambda>ph. p_type ph = PT_LOAD \<longrightarrow> segment_placed m' (bytes s) buf addr (image_begin phdrs) ph) phdrs"
proof -
  let ?m = "foldl (copy_segment buf (buf + eh_phoff (bytes s) buf) addr (image_begin phdrs)) (bytes s) [0..<unat (eh_phnum (bytes s) buf)]"
  have len: "length phdrs = unat (eh_phnum (bytes s) buf)" by (simp add: assms(2))
  have "list_all (\<lambda>ph. p_type ph = PT_LOAD \<longrightarrow> segment_placed ?m (bytes s) buf addr (image_begin phdrs) ph) phdrs"
    using copy_segments_prefix[OF assms(4) order_refl] by (simp add: list_all_length len)
  moreover have "load K alloc_pages buf s = Inr (addr + eh_entry (bytes s) buf - image_begin phdrs - K, s\<lparr>base_address := addr, tabs := l, bytes := ?m\<rparr>)"
    using assms(1,3,5) copy_segments_fold[OF assms(4) le0] by (simp add: load_def Let_def assms(2)[symmetric])
  ultimately show ?thesis by blast
qed

text \<open>The mask of the default alignment keeps the page number within 4 GiB.\<close>

lemma unat_align_mask: "unat (w AND align_mask 4096) = 4096 * (unat w div 4096 mod 2 ^ 20)"
proof -
  have "align_mask 4096 = push_bit 12 (mask 20)" by (simp add: align_mask_def mask_eq_exp_minus_1)
  then have "w AND align_mask 4096 = push_bit 12 (take_bit 20 (drop_bit 12 w))"
    by (simp only:) (rule bit_word_eqI, auto simp: bit_simps)
  moreover have "unat (push_bit 12 x) = 4096 * unat x" if "unat x < 2 ^ 20" for x :: u64
    using that by (simp add: push_bit_eq_mult unat_word_ariths)
  moreover have "unat (take_bit 20 (drop_bit 12 w)) = unat w div 4096 mod 2 ^ 20"
    using unsigned_less[of w, where 'a = nat] by (simp only: unsigned_take_bit_eq take_bit_nat_def unsigned_drop_bit_eq drop_bit_nat_def) simp
  ultimately show ?thesis by simp
qed

lemma page_count_single:
  assumes "p_type ph = PT_LOAD" "p_align ph \<le> 4096" "unat (p_vaddr ph) mod 4096 = 0"
    and "unat (p_vaddr ph) mod 2 ^ 32 + unat (p_memsz ph) < 2 ^ 32"
  shows "unat (page_count [ph]) = unat (p_memsz ph) div 4096"
proof -
  let ?x = "unat (p_vaddr ph)" and ?n = "unat (p_memsz ph)"
  define lo where "lo = p_vaddr ph AND align_mask 4096"
  define hi where "hi = (p_vaddr ph + p_memsz ph) AND align_mask 4096"
  have al: "\<not> p_align ph > 4096" using assms(2) by (simp add: not_less)
  have x: "4096 * (?x div 4096 mod 2 ^ 20) = ?x mod 2 ^ 32"
  proof -
    have "?x mod 2 ^ 32 = 4096 * (?x div 4096 mod 2 ^ 20) + ?x mod 4096"
      using mod_mult2_eq[of ?x 4096 "2 ^ 20"] by simp
    then show ?thesis using assms(3) by simp
  qed
  have ulo: "unat lo = ?x mod 2 ^ 32" using x by (simp add: lo_def unat_align_mask)
  have "unat (p_vaddr ph + p_memsz ph) mod 2 ^ 32 = (?x + ?n) mod 2 ^ 32"
    by (simp only: unat_word_ariths) (simp add: mod_mod_cancel)
  also have "\<dots> = (?x mod 2 ^ 32 + ?n) mod 2 ^ 32" by (simp add: mod_simps)
  also have "\<dots> = ?x mod 2 ^ 32 + ?n" using assms(4) by simp
  finally have s: "unat (p_vaddr ph + p_memsz ph) mod 2 ^ 32 = ?x mod 2 ^ 32 + ?n" .
  have "unat (p_vaddr ph + p_memsz ph) div 4096 mod 2 ^ 20 = unat (p_vaddr ph + p_memsz ph) mod 2 ^ 32 div 4096"
    using mod_mult2_eq[of "unat (p_vaddr ph + p_memsz ph)" 4096 "2 ^ 20"] by simp
  also have "\<dots> = (4096 * (?x div 4096 mod 2 ^ 20) + ?n) div 4096" using s x by simp
  finally have uhi: "unat hi = ?x mod 2 ^ 32 + 4096 * (?n div 4096)"
    using x by (simp add: hi_def unat_align_mask)
  have "lo < 18446744073709551615" using ulo by (simp add: word_less_nat_alt)
  moreover have "hi = 0 \<or> 0 < hi" by (simp add: word_gt_0)
  ultimately have ext: "image_extent [ph] = (4096, lo, hi)"
    using assms(1) al by (auto simp: image_extent_def Let_def lo_def hi_def)
  have "unat (hi - lo) = 4096 * (?n div 4096)" using ulo uhi by (simp add: unat_sub word_le_nat_alt)
  then show ?thesis by (simp add: page_count_def image_begin_def ext EFI_PAGE_SIZE_def unat_div_distrib)
qed

text \<open>The region for the stack: the first among the smallest regions with enough pages, or none.\<close>

definition roomy :: "efi_memory_descriptor_t \<Rightarrow> bool" where
  "roomy d \<longleftrightarrow> stack_pages \<le> NumberOfPages d"

definition best_region :: "efi_memory_descriptor_t list \<Rightarrow> nat \<Rightarrow> bool" where
  "best_region ds i \<longleftrightarrow> i < length ds \<and> roomy (ds ! i)
     \<and> (\<forall>j < length ds. roomy (ds ! j) \<longrightarrow> NumberOfPages (ds ! i) \<le> NumberOfPages (ds ! j)
          \<and> (j < i \<longrightarrow> NumberOfPages (ds ! i) < NumberOfPages (ds ! j)))"

lemma find_stack_best:
  assumes "list_all (\<lambda>d. NumberOfPages d < KERNEL_MEMORY_MAX) ds"
  shows "if list_all (\<lambda>d. \<not> roomy d) ds then find_stack ds = (KERNEL_MEMORY_MAX, KERNEL_MEMORY_MAX)
    else \<exists>i. best_region ds i \<and> find_stack ds = (NumberOfPages (ds ! i), of_nat i)"
  using assms
proof (induction ds rule: rev_induct)
  case (snoc d ds)
  have fs: "find_stack (ds @ [d]) = stack_step (find_stack ds) (length ds, d)" by (simp add: find_stack_def)
  have lim: "NumberOfPages d < KERNEL_MEMORY_MAX" using snoc.prems by simp
  show ?case
  proof (cases "list_all (\<lambda>d. \<not> roomy d) ds")
    case True
    then have f: "find_stack ds = (KERNEL_MEMORY_MAX, KERNEL_MEMORY_MAX)" using snoc by simp
    show ?thesis
    proof (cases "roomy d")
      case True
      have "best_region (ds @ [d]) (length ds)"
        using \<open>list_all _ ds\<close> True by (auto simp: best_region_def list_all_length nth_append less_Suc_eq)
      then show ?thesis using True f fs lim by (auto simp: roomy_def)
    next
      case False
      then show ?thesis using True f fs by (auto simp: roomy_def)
    qed
  next
    case False
    then obtain i where i: "best_region ds i" "find_stack ds = (NumberOfPages (ds ! i), of_nat i)" using snoc by auto
    show ?thesis
    proof (cases "roomy d \<and> NumberOfPages d < NumberOfPages (ds ! i)")
      case True
      have "best_region (ds @ [d]) (length ds)"
        using i(1) True by (fastforce simp: best_region_def nth_append less_Suc_eq)
      then show ?thesis using True i(2) fs False by (auto simp: roomy_def)
    next
      case False
      have "best_region (ds @ [d]) i"
        using i(1) False by (auto simp: best_region_def nth_append less_Suc_eq)
      moreover have "(ds @ [d]) ! i = ds ! i" using i(1) by (simp add: best_region_def nth_append)
      ultimately show ?thesis using False i(2) fs \<open>\<not> list_all _ ds\<close> by (auto simp: roomy_def)
    qed
  qed
qed (simp add: find_stack_def)

lemma stack_pages_eq: "stack_pages = 26"
  by (simp add: stack_pages_def)

lemma place_stack_cases:
  assumes "list_all (\<lambda>d. NumberOfPages d < KERNEL_MEMORY_MAX) ds" "length ds < 2 ^ 63"
  shows "if list_all (\<lambda>d. \<not> roomy d) ds then place_stack K ds bi = None
    else \<exists>i. best_region ds i \<and> (let s = K + PhysicalStart (ds ! i) in
       place_stack K ds bi = Some (bi\<lparr>stack_bottom := s + 4096, stack_top := (s + 26 * 4096) AND NOT 15,
         bi_mmap := (map (\<lambda>d. d\<lparr>VirtualStart := K + PhysicalStart d\<rparr>) ds)
           [i := (ds ! i)\<lparr>PhysicalStart := s + 26 * 4096, VirtualStart := K + (s + 26 * 4096)\<rparr>]\<rparr>))"
proof -
  let ?ds = "map (\<lambda>d. d\<lparr>VirtualStart := K + PhysicalStart d\<rparr>) ds"
  have best: "best_region ?ds i \<longleftrightarrow> best_region ds i" for i by (auto simp: best_region_def roomy_def)
  have none: "list_all (\<lambda>d. \<not> roomy d) ?ds \<longleftrightarrow> list_all (\<lambda>d. \<not> roomy d) ds" by (simp add: list_all_iff roomy_def)
  have "list_all (\<lambda>d. NumberOfPages d < KERNEL_MEMORY_MAX) ?ds" using assms(1) by (simp add: list_all_iff)
  note F = find_stack_best[OF this, unfolded best none]
  show ?thesis
  proof (cases "list_all (\<lambda>d. \<not> roomy d) ds")
    case True
    then show ?thesis using F by (simp add: place_stack_def)
  next
    case False
    with F obtain i where i: "best_region ds i" "snd (find_stack ?ds) = of_nat i" by auto
    have il: "i < length ds" using i(1) by (simp add: best_region_def)
    have u: "unat (of_nat i :: u64) = i" using il assms(2) by (simp add: unsigned_of_nat take_bit_nat_eq_self)
    have "of_nat i \<noteq> KERNEL_MEMORY_MAX"
    proof
      assume "of_nat i = KERNEL_MEMORY_MAX"
      then have "i = unat KERNEL_MEMORY_MAX" using u by simp
      then show False using il assms(2) by (simp add: KERNEL_MEMORY_MAX_def)
    qed
    with i u il have "place_stack K ds bi = Some (bi\<lparr>stack_bottom := K + PhysicalStart (ds ! i) + 4096,
        stack_top := (K + PhysicalStart (ds ! i) + 26 * 4096) AND NOT 15,
        bi_mmap := ?ds[i := (ds ! i)\<lparr>PhysicalStart := K + PhysicalStart (ds ! i) + 26 * 4096,
          VirtualStart := K + (K + PhysicalStart (ds ! i) + 26 * 4096)\<rparr>]\<rparr>)"
      by (simp add: place_stack_def Let_def EFI_PAGE_SIZE_def stack_pages_eq add.commute[of 106496])
    then show ?thesis using False i(1) by (auto simp: Let_def)
  qed
qed

lemma and_not_15: "(w AND NOT 15) AND 15 = (0 :: u64)"
proof (rule bit_word_eqI)
  fix k
  have "(15 :: u64) = mask 4" by (simp add: mask_eq_exp_minus_1)
  then show "bit ((w AND NOT 15) AND 15) k \<longleftrightarrow> bit (0 :: u64) k" by (auto simp: bit_simps)
qed

text \<open>With pages left for the tables, neither the graphics mode nor the file system can stop the loader.\<close>

definition gop_pages :: "efi_status_t + efi_gop_mode \<Rightarrow> u64" where
  "gop_pages gop = (case gop of Inl _ \<Rightarrow> 0 | Inr g \<Rightarrow> FrameBufferSize g div of_nat EFI_PAGE_SIZE)"

lemma get_gop_total:
  assumes "loader_inv (tabs s)" "3 * unat (gop_pages gop) \<le> length (pool (tabs s))" "unat (gop_pages gop) \<le> 2 ^ 19"
  shows "\<exists>st s' bi'. get_gop K gop (s, bi) = Inr (st, s', bi') \<and> loader_inv (tabs s')
    \<and> length (pool (tabs s)) \<le> length (pool (tabs s')) + 3 * unat (gop_pages gop)"
proof (cases gop)
  case (Inl st)
  then show ?thesis using assms(1) by (simp add: get_gop_def)
next
  case (Inr g)
  have fl: "(2 :: u16) < 4096" by simp
  from map_pages_total[OF assms(1) fl assms(2,3), of "FrameBufferBase g + K" "FrameBufferBase g"] Inr show ?thesis
    by (auto simp: get_gop_def gop_pages_def)
qed

lemma get_initfs_total:
  assumes "loader_inv (tabs s)" "768 \<le> length (pool (tabs s))"
  shows "\<exists>st s' bi'. get_initfs K file buf (s, bi) = Inr (st, s', bi') \<and> magic bi' = magic bi"
proof (cases "file = None \<or> buf = NULL")
  case True
  then show ?thesis by (auto simp: get_initfs_def split: option.split)
next
  case False
  then obtain xs where xs: "file = Some xs" "buf \<noteq> NULL" by auto
  have fl: "(2 :: u16) < 4096" by simp
  have n: "unat (of_nat (INITFS_MAX div EFI_PAGE_SIZE) :: u64) = 256" by (simp add: INITFS_MAX_def EFI_PAGE_SIZE_def)
  have "3 * unat (of_nat (INITFS_MAX div EFI_PAGE_SIZE) :: u64) \<le> length (pool (tabs s))" "unat (of_nat (INITFS_MAX div EFI_PAGE_SIZE) :: u64) \<le> 2 ^ 19"
    unfolding n using assms(2) by simp_all
  from map_pages_total[OF assms(1) fl this, of "buf + K" buf] xs show ?thesis by (auto simp: get_initfs_def)
qed

lemma get_bootinfo_total:
  assumes "loader_inv (tabs s)" "768 + 3 * unat (gop_pages (fw_gop fw)) \<le> length (pool (tabs s))" "unat (gop_pages (fw_gop fw)) \<le> 2 ^ 19"
    and "fw_bootinfo_block fw \<noteq> NULL \<and> fw_mmap_block fw \<noteq> NULL" "fw_map fw calls = Some ds" "\<not> list_all (\<lambda>d. \<not> roomy d) ds"
    and "list_all (\<lambda>d. NumberOfPages d < KERNEL_MEMORY_MAX) ds" "length ds < 2 ^ 63"
  shows "\<exists>bi s' i. get_bootinfo K fw calls s = Some (Inr (bi, Suc calls, s')) \<and> best_region ds i
    \<and> stack_top bi = (K + PhysicalStart (ds ! i) + 26 * 4096) AND NOT 15 \<and> magic bi = lit ''OS649''"
proof -
  let ?bi = "snd (get_rsdp (fw_acpi_guid fw) (fw_fallback_guid fw) (fw_tables fw) zero_bootinfo)"
  have "3 * unat (gop_pages (fw_gop fw)) \<le> length (pool (tabs s))" using assms(2) by simp
  from get_gop_total[OF assms(1) this assms(3), of K ?bi] obtain st s1 b1 where 1: "get_gop K (fw_gop fw) (s, ?bi) = Inr (st, s1, b1)"
    "loader_inv (tabs s1)" "length (pool (tabs s)) \<le> length (pool (tabs s1)) + 3 * unat (gop_pages (fw_gop fw))" by blast
  have "768 \<le> length (pool (tabs s1))" using 1(3) assms(2) by simp
  from get_initfs_total[OF 1(2) this, of K "fw_initfs_file fw" "fw_initfs_buffer fw" "b1\<lparr>magic := lit ''OS649''\<rparr>"] obtain st' s2 b2 where
    2: "get_initfs K (fw_initfs_file fw) (fw_initfs_buffer fw) (s1, b1\<lparr>magic := lit ''OS649''\<rparr>) = Inr (st', s2, b2)" "magic b2 = lit ''OS649''" by auto
  from place_stack_cases[OF assms(7,8), of K b2] assms(6) obtain i b3 where 3: "best_region ds i" "place_stack K ds b2 = Some b3"
    "stack_top b3 = (K + PhysicalStart (ds ! i) + 26 * 4096) AND NOT 15" "magic b3 = magic b2" by (auto simp: Let_def)
  have "quick_memory_map (fw_map fw) calls = Some (ds, Suc calls)" using assms(5) by (simp add: quick_memory_map.simps)
  then show ?thesis using 1(1) 2 3 assms(4) by (auto simp: get_bootinfo_def Let_def)
qed

text \<open>An example: an image of one segment with four bytes, at offset 120 of the file.\<close>

definition demo_image :: "u8 list" where
  "demo_image = [0x7F, 0x45, 0x4C, 0x46] @ replicate 20 0 @ [0, 0x10, 0, 0, 0, 0x80, 0xFF, 0xFF] @ [64, 0, 0, 0, 0, 0, 0, 0]
     @ replicate 16 0 @ [1, 0] @ replicate 6 0
     @ [1, 0, 0, 0, 5, 0, 0, 0] @ [120, 0, 0, 0, 0, 0, 0, 0] @ [0, 0x10, 0, 0, 0, 0x80, 0xFF, 0xFF] @ [0, 0x10, 0, 0, 0, 0, 0, 0]
     @ [4, 0, 0, 0, 0, 0, 0, 0] @ [0, 0x10, 0, 0, 0, 0, 0, 0] @ [0, 0x10, 0, 0, 0, 0, 0, 0] @ [0xDE, 0xAD, 0xBE, 0xEF]"

definition demo_file :: mem where
  "demo_file = put_bytes (\<lambda>_. 0) 0x300000 demo_image"

definition demo_phdr :: Elf64_Phdr where
  "demo_phdr = \<lparr>p_type = PT_LOAD, p_offset = 120, p_vaddr = 0xFFFF800000001000, p_paddr = 0x1000, p_filesz = 4, p_memsz = 0x1000, p_align = 0x1000\<rparr>"

lemma apart_no_wrap:
  assumes "unat d + n \<le> unat e" "unat e + k \<le> 2 ^ 64"
  shows "apart d n e k"
  unfolding apart_def
proof (intro allI notI)
  fix a assume a: "in_block a d n \<and> in_block a e k"
  have *: "n \<le> 2 ^ 64" "k \<le> 2 ^ 64" using assms by linarith+
  from a in_block_iff[OF *(1), of a d] in_block_iff[OF *(2), of a e] obtain i j where
    i: "i < n" "a = d + of_nat i" and j: "j < k" "a = e + of_nat j" by blast
  have "unat a = unat d + i" unfolding i(2) using i(1) assms by (intro unat_add_of_nat) simp
  moreover have "unat a = unat e + j" unfolding j(2) using j(1) assms by (intro unat_add_of_nat) simp
  ultimately show False using i(1) assms(1) by linarith
qed

lemma apart_sym: "apart d n e k \<longleftrightarrow> apart e k d n"
  by (auto simp: apart_def)

lemma length_demo_image [simp]: "length demo_image = 124"
  by (simp add: demo_image_def)

lemma demo_byte: "k < 124 \<Longrightarrow> demo_file (0x300000 + of_nat k) = demo_image ! k"
  by (simp add: demo_file_def put_bytes_def unsigned_of_nat take_bit_nat_eq_self)

lemma demo_header:
  "is_image_valid demo_file 0x300000" "eh_entry demo_file 0x300000 = 0xFFFF800000001000"
  "eh_phoff demo_file 0x300000 = 64" "unat (eh_phnum demo_file 0x300000) = 1" "phdr_at demo_file 0x300000 0 = demo_phdr"
proof -
  have b: "demo_file a = demo_image ! unat (a - 0x300000)" if "unat (a - 0x300000) < 124" for a
    using that by (simp add: demo_file_def put_bytes_def)
  note img = demo_image_def
  show "is_image_valid demo_file 0x300000" by (simp add: is_image_valid_def b img nth_append)
  show "eh_entry demo_file 0x300000 = 0xFFFF800000001000" by (simp add: eh_entry_def rd64_def rd32_def b img nth_append)
  show off: "eh_phoff demo_file 0x300000 = 64" by (simp add: eh_phoff_def rd64_def rd32_def b img nth_append)
  show "unat (eh_phnum demo_file 0x300000) = 1" by (simp add: eh_phnum_def rd16_def b img nth_append)
  show "phdr_at demo_file 0x300000 0 = demo_phdr"
    by (simp add: phdr_at_def off read_phdr_def demo_phdr_def PT_LOAD_def rd64_def rd32_def b img nth_append)
qed

lemma demo_extent: "image_begin [demo_phdr] = 0x1000" "page_count [demo_phdr] = 1"
  by (simp_all add: image_begin_def page_count_def image_extent_def demo_phdr_def align_mask_def Let_def EFI_PAGE_SIZE_def)

lemma demo_image_ok: "image_ok demo_file 0x300000 124 [demo_phdr] 0x500000 0x1000"
proof -
  have "apart 0x300000 124 (0x500000 :: ptr) 4" by (rule apart_no_wrap) simp_all
  then have "apart (placed_at 0x500000 0x1000 demo_phdr) (unat (p_filesz demo_phdr)) 0x300000 124"
    by (simp add: placed_at_def demo_phdr_def apart_sym)
  moreover have "in_block (0x300000 + p_offset demo_phdr + of_nat k) 0x300000 124" if "k < unat (p_filesz demo_phdr)" for k
    using in_block_offset[of "120 + k" 124 "0x300000"] that by (simp add: demo_phdr_def add.assoc)
  moreover have "in_block (0x300000 + 64 + of_nat k) 0x300000 124" if "k < 56" for k
    using in_block_offset[of "64 + k" 124 "0x300000"] that by (simp add: add.assoc)
  ultimately show ?thesis by (simp add: image_ok_def demo_header)
qed

section \<open>Properties\<close>



text \<open>The end of the image is rounded down: for an image of one segment on a page boundary the number of pages is its memory size divided by
  4096, so whenever the size is not a whole number of pages less memory is allocated and mapped than the segment takes.\<close>

theorem last_page_not_allocated:
  assumes "p_type ph = PT_LOAD" "p_align ph \<le> 4096" "unat (p_vaddr ph) mod 4096 = 0"
    and "unat (p_vaddr ph) mod 2 ^ 32 + unat (p_memsz ph) < 2 ^ 32"
  shows "unat (page_count [ph]) = unat (p_memsz ph) div 4096
    \<and> (4096 * unat (page_count [ph]) < unat (p_memsz ph) \<longleftrightarrow> unat (p_memsz ph) mod 4096 \<noteq> 0)"
proof -
  have "unat (p_memsz ph) = 4096 * (unat (p_memsz ph) div 4096) + unat (p_memsz ph) mod 4096" by simp
  then have "4096 * (unat (p_memsz ph) div 4096) < unat (p_memsz ph) \<longleftrightarrow> unat (p_memsz ph) mod 4096 \<noteq> 0" by linarith
  then show ?thesis using page_count_single[OF assms] by simp
qed

theorem last_page_not_allocated_witness:
  "unat (page_count [\<lparr>p_type = 1, p_offset = 0x1000, p_vaddr = 0xFFFF800000001000, p_paddr = 0x1000, p_filesz = 0x2345, p_memsz = 0x2345, p_align = 4096\<rparr>]) = 2"
  using last_page_not_allocated[of "\<lparr>p_type = 1, p_offset = 0x1000, p_vaddr = 0xFFFF800000001000, p_paddr = 0x1000, p_filesz = 0x2345,
      p_memsz = 0x2345, p_align = 4096\<rparr>"] by (simp add: PT_LOAD_def)

text \<open>A file system image in a pool block that is not page-aligned is reported as loaded, but no page of it is mapped.\<close>

theorem initfs_left_unmapped:
  assumes "buf \<noteq> NULL" "unat buf mod 4096 \<noteq> 0"
  shows "\<exists>s'. get_initfs K (Some xs) buf (s, bi) = Inr (EFI_SUCCESS, s', bi\<lparr>initfs_size := 1048576, initfs := buf\<rparr>) \<and> tabs s' = tabs s"
  using assms map_pages_unaligned[of "buf + K" buf] by (simp add: get_initfs_def INITFS_MAX_def)

theorem initfs_left_unmapped_witness:
  "\<exists>s'. get_initfs 0xFFFF800000000000 (Some [1, 2, 3]) 0x5008 (\<lparr>bytes = (\<lambda>_. 0), tabs = demo_loader, base_address = 0\<rparr>, zero_bootinfo)
      = Inr (EFI_SUCCESS, s', zero_bootinfo\<lparr>initfs_size := 1048576, initfs := 0x5008\<rparr>) \<and> tabs s' = demo_loader"
proof -
  have "(0x5008 :: ptr) \<noteq> NULL" "unat (0x5008 :: ptr) mod 4096 \<noteq> 0" by simp_all
  from initfs_left_unmapped[OF this] show ?thesis by fastforce
qed

text \<open>The kernel's stack: it is put into the first of the smallest regions of at least 26 pages, whatever the type of the region, one page in and 25
  pages long; the descriptor that the kernel gets for the region then has the virtual end of the stack as its physical start and still all
  its pages. When no region has room the loader hangs.\<close>

theorem place_stack_smallest_region:
  assumes "list_all (\<lambda>d. NumberOfPages d < KERNEL_MEMORY_MAX) ds" "length ds < 2 ^ 63"
  shows "if list_all (\<lambda>d. \<not> roomy d) ds then place_stack K ds bi = None
    else \<exists>i bi'. best_region ds i \<and> place_stack K ds bi = Some bi'
      \<and> stack_bottom bi' = K + PhysicalStart (ds ! i) + 4096 \<and> stack_top bi' = (K + PhysicalStart (ds ! i) + 26 * 4096) AND NOT 15
      \<and> PhysicalStart (bi_mmap bi' ! i) = K + PhysicalStart (ds ! i) + 26 * 4096
      \<and> NumberOfPages (bi_mmap bi' ! i) = NumberOfPages (ds ! i) \<and> MemoryType (bi_mmap bi' ! i) = MemoryType (ds ! i)
      \<and> (\<forall>j < length ds. j \<noteq> i \<longrightarrow> bi_mmap bi' ! j = (ds ! j)\<lparr>VirtualStart := K + PhysicalStart (ds ! j)\<rparr>)"
proof (cases "list_all (\<lambda>d. \<not> roomy d) ds")
  case True
  then show ?thesis using place_stack_cases[OF assms, of K bi] by simp
next
  case False
  with place_stack_cases[OF assms, of K bi] obtain i where i: "best_region ds i" "place_stack K ds bi =
      Some (bi\<lparr>stack_bottom := K + PhysicalStart (ds ! i) + 4096, stack_top := (K + PhysicalStart (ds ! i) + 26 * 4096) AND NOT 15,
         bi_mmap := (map (\<lambda>d. d\<lparr>VirtualStart := K + PhysicalStart d\<rparr>) ds)
           [i := (ds ! i)\<lparr>PhysicalStart := K + PhysicalStart (ds ! i) + 26 * 4096, VirtualStart := K + (K + PhysicalStart (ds ! i) + 26 * 4096)\<rparr>]\<rparr>)"
    by (auto simp: Let_def)
  have "i < length ds" using i(1) by (simp add: best_region_def)
  then have "\<exists>bi'. place_stack K ds bi = Some bi'
      \<and> stack_bottom bi' = K + PhysicalStart (ds ! i) + 4096 \<and> stack_top bi' = (K + PhysicalStart (ds ! i) + 26 * 4096) AND NOT 15
      \<and> PhysicalStart (bi_mmap bi' ! i) = K + PhysicalStart (ds ! i) + 26 * 4096
      \<and> NumberOfPages (bi_mmap bi' ! i) = NumberOfPages (ds ! i) \<and> MemoryType (bi_mmap bi' ! i) = MemoryType (ds ! i)
      \<and> (\<forall>j < length ds. j \<noteq> i \<longrightarrow> bi_mmap bi' ! j = (ds ! j)\<lparr>VirtualStart := K + PhysicalStart (ds ! j)\<rparr>)"
    by (simp add: i(2))
  with i(1) False show ?thesis by auto
qed

theorem place_stack_smallest_region_witness:
  "\<exists>bi'. place_stack 0xFFFF800000000000
      [\<lparr>MemoryType = 7, PhysicalStart = 0x100000, VirtualStart = 0, NumberOfPages = 100\<rparr>, \<lparr>MemoryType = 0, PhysicalStart = 0x9000, VirtualStart = 0, NumberOfPages = 30\<rparr>]
      zero_bootinfo = Some bi' \<and> stack_bottom bi' = 0xFFFF80000000A000 \<and> PhysicalStart (bi_mmap bi' ! 1) = 0xFFFF800000023000"
proof -
  let ?ds = "[\<lparr>MemoryType = 7, PhysicalStart = 0x100000, VirtualStart = 0, NumberOfPages = 100\<rparr>,
      \<lparr>MemoryType = 0, PhysicalStart = 0x9000, VirtualStart = 0, NumberOfPages = 30\<rparr>] :: efi_memory_descriptor_t list"
  have r: "roomy (?ds ! 0)" "roomy (?ds ! 1)" by (simp_all add: roomy_def stack_pages_eq)
  have "best_region ?ds i \<Longrightarrow> i = 1" for i
    using r by (auto simp: best_region_def less_Suc_eq)
  with place_stack_smallest_region[of ?ds "0xFFFF800000000000" zero_bootinfo] r show ?thesis
    by (fastforce simp: KERNEL_MEMORY_MAX_def)
qed


definition demo_firmware :: firmware where
  "demo_firmware = \<lparr>fw_acpi_guid = \<lparr>Data1 = 1, Data2 = 0, Data3 = 0, Data4 = replicate 8 0\<rparr>,
     fw_fallback_guid = \<lparr>Data1 = 2, Data2 = 0, Data3 = 0, Data4 = replicate 8 0\<rparr>, fw_tables = [], fw_gop = Inl EFI_NOT_FOUND,
     fw_kernel_file = Some demo_image, fw_kernel_buffer = 0x300000, fw_initfs_file = Some [1, 2, 3], fw_initfs_buffer = 0x5008,
     fw_bootinfo_block = 0x6000, fw_mmap_block = 0x7000,
     fw_map = (\<lambda>n. if n = 0 then None else Some [\<lparr>MemoryType = 7, PhysicalStart = 0x200000, VirtualStart = 0, NumberOfPages = 30\<rparr>]),
     fw_alloc_pages = (\<lambda>_. Some 0x500000), fw_exit = (\<lambda>n. if n = 3 then EFI_SUCCESS else EFI_OTHER 2)\<rparr>"


end
