(* ===== verification/Console.thy ===== *)
theory Console
  imports Stdio Terminal Symbols Interrupts
begin

text \<open>
  Kernel output: \<^verbatim>\<open>putchar\<close> and \<^verbatim>\<open>printf\<close> of \<^verbatim>\<open>lethe-libc/stdio.c\<close>, \<^verbatim>\<open>lethe-kernel/terminal/log.c\<close>,
  \<^verbatim>\<open>lethe-libc/assert.c\<close>, \<^verbatim>\<open>__panic\<close> of \<^verbatim>\<open>lethe-kernel/misc/utils.c\<close>, the printing of \<^verbatim>\<open>walk_stack\<close> and
  \<^verbatim>\<open>dump_stack\<close> of \<^verbatim>\<open>lethe-kernel/cpu/idt.c\<close>. This theory joins the formatter of theory Stdio, the console of theory
  Terminal and the symbol lookup of theory Symbols: what is formatted is drawn, character by character. String literals have
  addresses, the field \<open>literal\<close>. A call that stops the processor gives the screen it leaves behind. When a
  formatting fault occurs, the characters printed before it are not shown.
\<close>

section \<open>Output\<close>

record console_env =
  font :: "int \<Rightarrow> u8"
  memory :: mem
  literal :: "string \<Rightarrow> ptr"
  dot_strtab :: ptr
  kernel_image :: ptr
  symbols_of :: symbols
  frame_pointer :: ptr

definition putchar :: "(int \<Rightarrow> u8) \<Rightarrow> int \<Rightarrow> tty \<Rightarrow> int \<times> tty" where
  "putchar fnt ic t = (ic, tty_putc fnt t (word_of_int ic))"

text \<open>The characters that \<^verbatim>\<open>vprintf\<close> passes to \<^verbatim>\<open>putchar\<close>, one after the other.\<close>

definition put_text :: "(int \<Rightarrow> u8) \<Rightarrow> tty \<Rightarrow> u8 list \<Rightarrow> tty" where
  "put_text fnt t xs = foldl (\<lambda>t c. snd (putchar fnt (sint c) t)) t xs"

definition printf :: "console_env \<Rightarrow> u8 list \<Rightarrow> u64 list \<Rightarrow> tty \<Rightarrow> (int \<times> tty) run" where
  "printf e fmt va t = bindR (vprintf (memory e) fmt va) (\<lambda>(out, n). Some (Inr (n, put_text (font e) t out)))"

text \<open>A call whose result is not used.\<close>

definition shown :: "(int \<times> tty) run \<Rightarrow> tty run" where
  "shown r = bindR r (\<lambda>(_, t). Some (Inr t))"

record source_location =
  loc_file :: ptr
  loc_function :: ptr
  loc_line :: u32

definition kernel_log :: "console_env \<Rightarrow> source_location \<Rightarrow> u8 list \<Rightarrow> u64 list \<Rightarrow> tty \<Rightarrow> (int \<times> tty) run" where
  "kernel_log e loc fmt va t =
     bindR (printf e (lit ''[%s:%d] '' @ [0]) [loc_function loc, ucast (loc_line loc)] t) (\<lambda>(_, t1). printf e fmt va t1)"

definition aml_log :: "console_env \<Rightarrow> source_location \<Rightarrow> u8 list \<Rightarrow> u64 list \<Rightarrow> tty \<Rightarrow> (int \<times> tty) run" where
  "aml_log e loc fmt va t =
     bindR (printf e (lit ''[%s:%d] '' @ [0]) [loc_function loc, ucast (loc_line loc)] t) (\<lambda>(_, t1). printf e fmt va t1)"

section \<open>Stopping\<close>

datatype outcome = Returns tty | Halts tty

definition assert_that :: "console_env \<Rightarrow> bool \<Rightarrow> source_location \<Rightarrow> ptr \<Rightarrow> tty \<Rightarrow> outcome run" where
  "assert_that e expr loc expr_str t =
     (if \<not> expr
      then bindR (shown (printf e (lit ''Assertion %s failed at %s:%d (%s)'' @ [10, 0])
             [expr_str, loc_file loc, ucast (loc_line loc), loc_function loc] t)) (\<lambda>t1. Some (Inr (Halts t1)))
      else Some (Inr (Returns t)))"

definition trace_mark :: "console_env \<Rightarrow> tty \<Rightarrow> tty run" where
  "trace_mark e t = shown (printf e (10 # lit ''==TRACE=='' @ [10, 0]) [] t)"

definition name_ptr :: "console_env \<Rightarrow> ptr option \<Rightarrow> ptr" where
  "name_ptr e name = (case name of None \<Rightarrow> literal e ''???'' | Some p \<Rightarrow> p)"

definition trace_line :: "console_env \<Rightarrow> tty \<Rightarrow> u64 \<times> ptr option \<Rightarrow> tty run" where
  "trace_line e t fr = shown (printf e (lit ''[%p] %s'' @ [10, 0]) [fst fr, name_ptr e (snd fr)] t)"

text \<open>\<^verbatim>\<open>walk_stack\<close> with its output, from the frame pointer register.\<close>

definition print_trace :: "console_env \<Rightarrow> tty \<Rightarrow> tty run" where
  "print_trace e t =
     bindR (trace_mark e t) (\<lambda>t1.
     case walk_stack (memory e) (dot_strtab e) (kernel_image e) (frame_pointer e) (symbols_of e) of
       None \<Rightarrow> None
     | Some frs \<Rightarrow> bindR (foldR (trace_line e) frs t1) (trace_mark e))"

definition panic :: "console_env \<Rightarrow> ptr \<Rightarrow> source_location \<Rightarrow> tty \<Rightarrow> outcome run" where
  "panic e msg loc t =
     bindR (shown (printf e (lit ''Panicked at %s:%d (%s): %s'' @ [0]) [loc_file loc, ucast (loc_line loc), loc_function loc, msg] t)) (\<lambda>t1.
     bindR (print_trace e t1) (\<lambda>t2. Some (Inr (Halts t2))))"

definition dump_member :: "console_env \<Rightarrow> string \<Rightarrow> tty \<Rightarrow> string \<times> u64 \<Rightarrow> tty run" where
  "dump_member e fmt t nv = shown (printf e (lit fmt @ [10, 0]) [literal e (fst nv), snd nv] t)"

definition dump_stack :: "console_env \<Rightarrow> ptr \<Rightarrow> u64 \<Rightarrow> isr_stack_t \<Rightarrow> tty \<Rightarrow> tty run" where
  "dump_stack e st_ptr cr2 st t =
     bindR (shown (printf e (lit ''STACK:%p'' @ [10, 0]) [st_ptr] t)) (\<lambda>t1.
     bindR (foldR (dump_member e ''%9s:%llx'') [(''rflags'', rflags st), (''cs'', cs st)] t1) (\<lambda>t2.
     bindR (shown (printf e (lit ''%9s:[%llx] %s'' @ [10, 0]) [literal e ''rip'', rip st,
              name_ptr e (fst (resolve_function_name (memory e) (dot_strtab e) (kernel_image e) (rip st) (symbols_of e)))] t2)) (\<lambda>t3.
     bindR (dump_member e ''%9s:%llu'' t3 (''err'', err st)) (\<lambda>t4.
     bindR (foldR (dump_member e ''%9s:%llx'')
              [(''isr'', isr st), (''rax'', rax st), (''rbx'', rbx st), (''rcx'', rcx st), (''rdx'', rdx st), (''rsi'', rsi st),
               (''rdi'', rdi st), (''rbp'', rbp st), (''r8'', r8 st), (''r9'', r9 st), (''r10'', r10 st), (''r11'', r11 st),
               (''r12'', r12 st), (''r13'', r13 st), (''r14'', r14 st), (''r15'', r15 st), (''cr2'', cr2)] t4) (\<lambda>t5.
     print_trace e t5)))))"

section \<open>The list of functions\<close>

text \<open>What the shell prints when it does not know a command: the names of all function symbols.\<close>

definition dump_name :: "console_env \<Rightarrow> symbols \<Rightarrow> tty \<Rightarrow> nat \<Rightarrow> tty run" where
  "dump_name e s t i =
     (let symb = symbol_at (memory e) s i in
      if \<not> is_function symb then Some (Inr t)
      else shown (printf e (lit ''%s'' @ [10, 0]) [strtab s + ucast (st_name symb)] t))"

definition dump_function_names :: "console_env \<Rightarrow> tty \<Rightarrow> (symbols \<times> tty) run" where
  "dump_function_names e t =
     (let s = load_symbols (memory e) (dot_strtab e) (kernel_image e) (symbols_of e) in
      if strtab s = NULL \<or> symtab s = NULL then Some (Inr (s, t))
      else bindR (foldR (dump_name e s) [0..<nat (sym_entries s)] t) (\<lambda>t'. Some (Inr (s, t'))))"

section \<open>Output stays in the framebuffer\<close>

text \<open>The area of the screen: all lines of the mode, and at least the 400 lines of the console.\<close>

definition in_framebuffer :: "fb \<Rightarrow> u64 \<Rightarrow> bool" where
  "in_framebuffer f a \<longleftrightarrow> unat (fb_base f) \<le> unat a
     \<and> unat a < unat (fb_base f) + nat (max 400 (fb_yres f)) * unat (fb_pitch f)"

definition fb_fits :: "fb \<Rightarrow> bool" where
  "fb_fits f \<longleftrightarrow> 4 * nat (max 640 (fb_xres f)) \<le> unat (fb_pitch f) \<and> nat (max 400 (fb_yres f)) * unat (fb_pitch f) < 2 ^ 32
     \<and> unat (fb_base f) + nat (max 400 (fb_yres f)) * unat (fb_pitch f) < 2 ^ 64"

definition same_mode :: "fb \<Rightarrow> fb \<Rightarrow> bool" where
  "same_mode f g \<longleftrightarrow> fb_base g = fb_base f \<and> fb_pitch g = fb_pitch f \<and> fb_xres g = fb_xres f \<and> fb_yres g = fb_yres f \<and> fb_init g = fb_init f"

definition draws :: "tty \<Rightarrow> tty \<Rightarrow> bool" where
  "draws t t' \<longleftrightarrow> same_mode (screen t) (screen t')
     \<and> (\<forall>a. \<not> in_framebuffer (screen t) a \<longrightarrow> pixels (screen t') a = pixels (screen t) a)"

lemma draws_refl [simp]: "draws t t"
  by (simp add: draws_def same_mode_def)

lemma draws_trans: "draws t u \<Longrightarrow> draws u w \<Longrightarrow> draws t w"
  by (auto simp: draws_def same_mode_def in_framebuffer_def)

lemma draws_fits: "draws t u \<Longrightarrow> fb_fits (screen t) \<Longrightarrow> fb_fits (screen u)"
  by (simp add: draws_def same_mode_def fb_fits_def)

lemma pixel_inside:
  assumes "fb_fits f" "0 \<le> x" "x < max 640 (fb_xres f)" "0 \<le> y" "y < max 400 (fb_yres f)"
  shows "in_framebuffer f (pixel_addr f x y)"
proof -
  let ?p = "unat (fb_pitch f)" and ?w = "nat (max 640 (fb_xres f))" and ?h = "nat (max 400 (fb_yres f))"
  have P: "4 * ?w \<le> ?p" "?h * ?p < 2 ^ 32" "unat (fb_base f) + ?h * ?p < 2 ^ 64" using assms(1) by (simp_all add: fb_fits_def)
  have "unat (pixel_addr f x y) = unat (fb_base f) + ?p * nat y + 4 * nat x"
    using pixel_addr_offset[OF P] assms(2-5) by simp
  moreover have "?p * nat y + 4 * nat x < ?h * ?p"
    using pixel_offset_less[OF P(1)] assms(2-5) by simp
  ultimately show ?thesis by (simp add: in_framebuffer_def mult.commute)
qed

lemma same_mode_put [simp]: "same_mode f (put_pixel g x y c) = same_mode f g"
  by (simp add: same_mode_def)

lemma same_mode_inside: "same_mode f g \<Longrightarrow> in_framebuffer g a = in_framebuffer f a \<and> pixel_addr g = pixel_addr f \<and> fb_fits g = fb_fits f"
  by (simp add: same_mode_def in_framebuffer_def pixel_addr_def fb_fits_def fun_eq_iff)

text \<open>Writing pixels of the area.\<close>

lemma put_pixels_inside:
  assumes "fb_fits f" "\<And>x y c. (x, y, c) \<in> set ps \<Longrightarrow> 0 \<le> x \<and> x < max 640 (fb_xres f) \<and> 0 \<le> y \<and> y < max 400 (fb_yres f)"
  shows "same_mode f (foldl (\<lambda>f (x, y, c). put_pixel f x y c) f ps)
    \<and> (\<not> in_framebuffer f a \<longrightarrow> pixels (foldl (\<lambda>f (x, y, c). put_pixel f x y c) f ps) a = pixels f a)"
proof -
  have "same_mode f (foldl (\<lambda>f (x, y, c). put_pixel f x y c) g ps)" if "same_mode f g" for g
    using that by (induction ps arbitrary: g) auto
  then have "same_mode f (foldl (\<lambda>f (x, y, c). put_pixel f x y c) f ps)" by (simp add: same_mode_def)
  moreover have "pixels (foldl (\<lambda>f (x, y, c). put_pixel f x y c) f ps) a = pixels f a" if "\<not> in_framebuffer f a"
    using that pixel_inside[OF assms(1)] assms(2) by (intro foldl_put_pixel_other) blast
  ultimately show ?thesis by blast
qed

lemma fill_as_puts:
  "fill f 0 0 w h c = foldl (\<lambda>f (x, y, c). put_pixel f x y c) f (map (\<lambda>(x, y). (x, y, c)) (fill_coords 0 0 w h))"
proof (cases "fb_init f")
  case True
  have "foldl (\<lambda>g (x, y). g\<lparr>pixels := (pixels g)(pixel_addr g x y := c)\<rparr>) g zs
      = foldl (\<lambda>f (x, y, c). put_pixel f x y c) g (map (\<lambda>(x, y). (x, y, c)) zs)" if "fb_init g" for g zs
    using that by (induction zs arbitrary: g) (auto simp: put_pixel_def)
  with True show ?thesis by (simp add: fill_def)
next
  case False
  have "foldl (\<lambda>f (x, y, c). put_pixel f x y c) f zs = f" for zs
    using False by (induction zs) (auto simp: put_pixel_def)
  with False show ?thesis by (simp add: fill_def)
qed

lemma clear_screen_draws:
  assumes "fb_fits (screen t)"
  shows "draws t (clear_screen t)"
proof -
  let ?ps = "map (\<lambda>(x, y). (x, y, 0 :: u32)) (fill_coords 0 0 (fb_xres (screen t)) (fb_yres (screen t)))"
  have "0 \<le> x \<and> x < max 640 (fb_xres (screen t)) \<and> 0 \<le> y \<and> y < max 400 (fb_yres (screen t))" if "(x, y, c) \<in> set ?ps" for x y c
    using that by (auto simp: fill_coords_def)
  note * = put_pixels_inside[OF assms, of ?ps, OF this]
  show ?thesis unfolding draws_def clear_screen_def set_cursor_def fill_as_puts using * by simp
qed

lemma wrap_cursor_draws:
  assumes "fb_fits (screen t)"
  shows "draws t (wrap_cursor t)"
proof -
  have move: "draws t (u\<lparr>cursor := c, line := l\<rparr>) = draws t u" "draws (t\<lparr>cursor := c, line := l\<rparr>) u = draws t u" for u c l
    by (simp_all add: draws_def)
  have "draws t (clear_screen (t\<lparr>cursor := c, line := l\<rparr>))" for c l
    using clear_screen_draws[of "t\<lparr>cursor := c, line := l\<rparr>"] assms by (simp add: move)
  then show ?thesis using clear_screen_draws[OF assms] by (simp add: wrap_cursor_def Let_def move)
qed

lemma tty_putc_draws:
  assumes "fb_fits (screen t)"
  shows "draws t (tty_putc fnt t ch)"
proof -
  let ?w = "wrap_cursor t"
  have w: "draws t ?w" using wrap_cursor_draws[OF assms] .
  have "0 \<le> x \<and> x < max 640 (fb_xres (screen ?w)) \<and> 0 \<le> y \<and> y < max 400 (fb_yres (screen ?w))"
    if "(x, y, c) \<in> set (glyph_pixels fnt ch (cursor ?w) (line ?w))" for x y c
    using glyph_pixels_bounds[OF that wrap_cursor_bounds] by linarith
  from put_pixels_inside[OF draws_fits[OF w assms] this] have "draws ?w (draw_glyph fnt ?w ch)"
    by (simp add: draws_def draw_glyph_def)
  with w have "draws t (draw_glyph fnt ?w ch)" by (rule draws_trans)
  then show ?thesis by (simp add: tty_putc_def Let_def) (simp add: draws_def same_mode_def)
qed

lemma put_text_draws: "fb_fits (screen t) \<Longrightarrow> draws t (put_text fnt t xs)"
proof (induction xs arbitrary: t)
  case (Cons x xs)
  have 1: "draws t (snd (putchar fnt (sint x) t))" using tty_putc_draws[OF Cons.prems] by (simp add: putchar_def)
  from Cons.IH[OF draws_fits[OF 1 Cons.prems]] have "draws (snd (putchar fnt (sint x) t)) (put_text fnt t (x # xs))" by (simp add: put_text_def)
  with 1 show ?case by (rule draws_trans)
qed (simp add: put_text_def)

text \<open>Steps that draw, one after the other.\<close>

definition drawing :: "(tty \<Rightarrow> tty run) \<Rightarrow> bool" where
  "drawing f \<longleftrightarrow> (\<forall>t t'. fb_fits (screen t) \<longrightarrow> f t = Some (Inr t') \<longrightarrow> draws t t')"

lemma drawing_bind: "drawing f \<Longrightarrow> drawing g \<Longrightarrow> drawing (\<lambda>t. bindR (f t) g)"
  unfolding drawing_def bindR_ok_iff using draws_fits draws_trans by blast

lemma drawing_fold: "(\<And>x. drawing (\<lambda>t. f t x)) \<Longrightarrow> drawing (foldR f xs)"
proof (induction xs)
  case (Cons x xs)
  then show ?case using drawing_bind[of "\<lambda>t. f t x" "foldR f xs"] by simp
qed (simp add: drawing_def)

lemma drawing_printf: "drawing (\<lambda>t. shown (printf e fmt va t))"
  by (auto simp: drawing_def shown_def printf_def res_iff put_text_draws)

lemma drawing_trace: "drawing (print_trace e)"
proof -
  have marks: "drawing (trace_mark e)" unfolding trace_mark_def by (rule drawing_printf)
  have lines: "drawing (foldR (trace_line e) frs)" for frs
    by (rule drawing_fold) (unfold trace_line_def, rule drawing_printf)
  show ?thesis
  proof (cases "walk_stack (memory e) (dot_strtab e) (kernel_image e) (frame_pointer e) (symbols_of e)")
    case None
    then show ?thesis by (auto simp: drawing_def print_trace_def res_iff)
  next
    case (Some frs)
    then show ?thesis using drawing_bind[OF marks drawing_bind[OF lines[of frs] marks]] by (simp add: print_trace_def drawing_def)
  qed
qed

lemma drawing_dump: "drawing (dump_stack e p cr2 st)"
  unfolding dump_stack_def dump_member_def
  by (intro drawing_bind drawing_fold drawing_printf drawing_trace)

section \<open>What is printed\<close>

lemma put_text_append: "put_text fnt (put_text fnt t xs) ys = put_text fnt t (xs @ ys)"
  by (simp add: put_text_def)

lemma put_text_Nil [simp]: "put_text fnt t [] = t"
  by (simp add: put_text_def)

lemma shown_printf: "vprintf (memory e) fmt va = Some (Inr (out, r)) \<Longrightarrow> shown (printf e fmt va t) = Some (Inr (put_text (font e) t out))"
  by (simp add: shown_def printf_def)

text \<open>Line numbers are below 2 to the 31.\<close>

definition line_ok :: "source_location \<Rightarrow> bool" where
  "line_ok loc \<longleftrightarrow> loc_line loc < 2 ^ 31"

lemma line_decimal:
  assumes "line_ok loc"
  shows "sint (ucast (ucast (loc_line loc) :: u64) :: u32) = uint (loc_line loc)"
    "sint (ucast (ucast (loc_line loc) :: u64) :: u32) \<noteq> - 2147483648"
proof -
  have "unat (loc_line loc) < 2 ^ 31" using assms by (simp add: line_ok_def word_less_nat_alt)
  then have "sint (loc_line loc) = uint (loc_line loc)"
    using sint_of_nat_small[of "unat (loc_line loc)", where 'a = 32] by simp
  moreover have "ucast (ucast (loc_line loc) :: u64) = loc_line loc" by (rule bit_word_eqI) (auto simp: bit_simps)
  ultimately show "sint (ucast (ucast (loc_line loc) :: u64) :: u32) = uint (loc_line loc)" by simp
  then show "sint (ucast (ucast (loc_line loc) :: u64) :: u32) \<noteq> - 2147483648"
    using uint_nonnegative[of "loc_line loc"] by linarith
qed

definition line_chars :: "source_location \<Rightarrow> u8 list" where
  "line_chars loc = signed_chars (uint (loc_line loc))"

lemma no_flags: "\<not> has_flag 0 f" "\<not> has_flag (FLAGS_ZEROPAD OR FLAGS_UPPER) FLAGS_PRECISION" "\<not> has_flag (FLAGS_ZEROPAD OR FLAGS_UPPER) FLAGS_LEFT"
  by (simp_all add: has_flag_def FLAGS_ZEROPAD_def FLAGS_UPPER_def FLAGS_PRECISION_def FLAGS_LEFT_def)

lemma log_prefix:
  assumes "cstr m (loc_function loc) fn" "line_ok loc"
  shows "\<exists>r. vprintf m (lit ''[%s:%d] '' @ [0]) [loc_function loc, ucast (loc_line loc)]
    = Some (Inr (lit ''['' @ fn @ lit '':'' @ line_chars loc @ lit ''] '', r))"
proof -
  have split: "lit ''[%s:%d] '' @ [0] = lit ''['' @ lit ''%s'' @ lit '':'' @ lit ''%d'' @ lit ''] '' @ [0]" by (simp add: lit_def)
  have plain: "0 \<notin> set (lit x) \<and> ascii CHR ''%'' \<notin> set (lit x)" if "x \<in> {''['', '':'', ''] ''}" for x
    using that by (auto simp: lit_def ascii_def)
  obtain i where "vprintf_loop m (fmt_state 0 (lit ''[%s:%d] '' @ [0]) [loc_function loc, ucast (loc_line loc)] [] 0)
      = vprintf_loop m (fmt_state 0 [0] [] (lit ''['' @ fn @ lit '':'' @ line_chars loc @ lit ''] '') i)"
    using loop_decimal[OF line_decimal(2)[OF assms(2)], of m "lit ''] '' @ [0]" "[]" "lit ''['' @ fn @ lit '':''"]
    unfolding split
    by (auto simp: loop_text plain loop_string[OF assms(1)] line_chars_def line_decimal(1)[OF assms(2)] no_flags)
  from vprintf_loop_run[OF this] show ?thesis by blast
qed

lemma panic_message:
  assumes "cstr m (loc_file loc) fl" "cstr m (loc_function loc) fn" "cstr m msg text" "line_ok loc"
  shows "\<exists>r. vprintf m (lit ''Panicked at %s:%d (%s): %s'' @ [0]) [loc_file loc, ucast (loc_line loc), loc_function loc, msg]
    = Some (Inr (lit ''Panicked at '' @ fl @ lit '':'' @ line_chars loc @ lit '' ('' @ fn @ lit ''): '' @ text, r))"
proof -
  have split: "lit ''Panicked at %s:%d (%s): %s'' @ [0] =
      lit ''Panicked at '' @ lit ''%s'' @ lit '':'' @ lit ''%d'' @ lit '' ('' @ lit ''%s'' @ lit ''): '' @ lit ''%s'' @ [0]" by (simp add: lit_def)
  have plain: "0 \<notin> set (lit x) \<and> ascii CHR ''%'' \<notin> set (lit x)" if "x \<in> {''Panicked at '', '':'', '' ('', ''): ''}" for x
    using that by (auto simp: lit_def ascii_def)
  obtain i where "vprintf_loop m (fmt_state 0 (lit ''Panicked at %s:%d (%s): %s'' @ [0]) [loc_file loc, ucast (loc_line loc), loc_function loc, msg] [] 0)
      = vprintf_loop m (fmt_state 0 [0] [] (lit ''Panicked at '' @ fl @ lit '':'' @ line_chars loc @ lit '' ('' @ fn @ lit ''): '' @ text) i)"
    using loop_decimal[OF line_decimal(2)[OF assms(4)], of m "lit '' ('' @ lit ''%s'' @ lit ''): '' @ lit ''%s'' @ [0]" "[loc_function loc, msg]"
        "lit ''Panicked at '' @ fl @ lit '':''"]
    unfolding split
    by (auto simp: loop_text plain loop_string[OF assms(1)] loop_string[OF assms(2)] loop_string[OF assms(3)]
        line_chars_def line_decimal(1)[OF assms(4)] no_flags)
  from vprintf_loop_run[OF this] show ?thesis by blast
qed

definition mark_chars :: "u8 list" where
  "mark_chars = 10 # lit ''==TRACE=='' @ [10]"

lemma trace_mark_text: "trace_mark e t = Some (Inr (put_text (font e) t mark_chars))"
proof -
  have fmt: "10 # lit ''==TRACE=='' @ [10, 0] = mark_chars @ [0]" by (simp add: mark_chars_def)
  have "0 \<notin> set mark_chars" "ascii CHR ''%'' \<notin> set mark_chars" by (auto simp: mark_chars_def lit_def ascii_def)
  then have "vprintf_loop (memory e) (fmt_state 0 (mark_chars @ [0]) [] [] 0) = vprintf_loop (memory e) (fmt_state 0 [0] [] mark_chars (of_nat (length mark_chars)))"
    by (simp add: loop_text)
  from shown_printf[OF vprintf_loop_run[OF this]] show ?thesis unfolding trace_mark_def fmt .
qed

definition trace_chars :: "u64 \<Rightarrow> u8 list \<Rightarrow> u8 list" where
  "trace_chars ret name = lit ''['' @ pointer_chars ret @ lit ''] '' @ name @ [10]"

lemma trace_line_text:
  assumes "cstr (memory e) (name_ptr e (snd fr)) name"
  shows "trace_line e t fr = Some (Inr (put_text (font e) t (trace_chars (fst fr) name)))"
proof -
  have split: "lit ''[%p] %s'' @ [10, 0] = lit ''['' @ lit ''%p'' @ lit ''] '' @ lit ''%s'' @ [10] @ [0]" by (simp add: lit_def)
  have plain: "0 \<notin> set (lit x) \<and> ascii CHR ''%'' \<notin> set (lit x)" if "x \<in> {''['', ''] ''}" for x
    using that by (auto simp: lit_def ascii_def)
  have nl: "vprintf_loop m (fmt_state fl ([10] @ f) va out i) = vprintf_loop m (fmt_state fl f va (out @ [10]) (i + 1))" for m fl f va out i
    using loop_text[of "[10]" m fl f va out i] by (simp add: ascii_def)
  obtain i where "vprintf_loop (memory e) (fmt_state 0 (lit ''[%p] %s'' @ [10, 0]) [fst fr, name_ptr e (snd fr)] [] 0)
      = vprintf_loop (memory e) (fmt_state (FLAGS_ZEROPAD OR FLAGS_UPPER) [0] [] (trace_chars (fst fr) name) i)"
    using loop_pointer[of "memory e" "lit ''] '' @ lit ''%s'' @ [10] @ [0]" "fst fr" "[name_ptr e (snd fr)]" "lit ''[''"]
    unfolding split
    by (auto simp: loop_text plain loop_string[OF assms] no_flags nl trace_chars_def simp del: append_Cons)
  from shown_printf[OF vprintf_loop_run[OF this]] show ?thesis by (simp add: trace_line_def)
qed

lemma trace_lines_text:
  assumes "list_all2 (\<lambda>fr name. cstr (memory e) (name_ptr e (snd fr)) name) frs names"
  shows "foldR (trace_line e) frs t = Some (Inr (put_text (font e) t (concat (map2 trace_chars (map fst frs) names))))"
  using assms
proof (induction frs names arbitrary: t rule: list_all2_induct)
  case (Cons fr frs name names)
  then show ?case by (simp add: trace_line_text put_text_append)
qed simp

lemma print_trace_text:
  assumes "walk_stack (memory e) (dot_strtab e) (kernel_image e) (frame_pointer e) (symbols_of e) = Some frs"
    and "list_all2 (\<lambda>fr name. cstr (memory e) (name_ptr e (snd fr)) name) frs names"
  shows "print_trace e t = Some (Inr (put_text (font e) t (mark_chars @ concat (map2 trace_chars (map fst frs) names) @ mark_chars)))"
  using assms by (simp add: print_trace_def trace_mark_text trace_lines_text put_text_append)

lemma name_line:
  assumes "cstr m p name"
  shows "\<exists>r. vprintf m (lit ''%s'' @ [10, 0]) [p] = Some (Inr (name @ [10], r))"
proof -
  have "vprintf_loop m (fmt_state 0 (lit ''%s'' @ [10] @ [0]) [p] [] 0)
      = vprintf_loop m (fmt_state 0 [0] [] (name @ [10]) (of_nat (length name) + of_nat (length [10 :: u8])))"
    using loop_text[of "[10]" m 0 "[0]"] by (simp add: loop_string[OF assms] no_flags ascii_def del: append_Cons)
  then have "vprintf m (lit ''%s'' @ [10] @ [0]) [p] = Some (Inr (name @ [10], sint (of_nat (length name) + of_nat (length [10 :: u8]) :: u32)))"
    by (rule vprintf_loop_run)
  then show ?thesis by simp
qed

lemma dump_names_text:
  assumes "\<And>i. i \<in> set is \<Longrightarrow> is_function (symbol_at (memory e) s i) \<Longrightarrow>
      cstr (memory e) (strtab s + ucast (st_name (symbol_at (memory e) s i))) (nm i)"
  shows "foldR (dump_name e s) is t = Some (Inr (put_text (font e) t
      (concat (map (\<lambda>i. nm i @ [10]) (filter (\<lambda>i. is_function (symbol_at (memory e) s i)) is)))))"
  using assms
proof (induction "is" arbitrary: t)
  case (Cons i "is")
  have rest: "foldR (dump_name e s) is u = Some (Inr (put_text (font e) u
      (concat (map (\<lambda>i. nm i @ [10]) (filter (\<lambda>i. is_function (symbol_at (memory e) s i)) is)))))" for u
    using Cons by simp
  show ?case
  proof (cases "is_function (symbol_at (memory e) s i)")
    case True
    then have "cstr (memory e) (strtab s + ucast (st_name (symbol_at (memory e) s i))) (nm i)" using Cons.prems by simp
    from name_line[OF this] obtain r where "vprintf (memory e) (lit ''%s'' @ [10, 0]) [strtab s + ucast (st_name (symbol_at (memory e) s i))]
        = Some (Inr (nm i @ [10], r))" by blast
    from shown_printf[OF this] True have "dump_name e s t i = Some (Inr (put_text (font e) t (nm i @ [10])))" by (simp add: dump_name_def Let_def)
    with True rest show ?thesis by (simp add: put_text_append)
  next
    case False
    then have "dump_name e s t i = Some (Inr t)" by (simp add: dump_name_def Let_def)
    with False rest show ?thesis by simp
  qed
qed simp

text \<open>An example: three strings, no symbols, and the bottom of the stack.\<close>

definition demo_console :: console_env where
  "demo_console = \<lparr>font = (\<lambda>_. 0x80), memory = (\<lambda>_. 0)(0x10 := 97, 0x20 := 98, 0x30 := 99), literal = (\<lambda>_. 0x40),
     dot_strtab = 0x40, kernel_image = 0x50, symbols_of = no_symbols, frame_pointer = NULL\<rparr>"

definition demo_location :: source_location where
  "demo_location = \<lparr>loc_file = 0x10, loc_function = 0x20, loc_line = 7\<rparr>"

lemma demo_strings: "cstr (memory demo_console) 0x10 [97]" "cstr (memory demo_console) 0x20 [98]" "cstr (memory demo_console) 0x30 [99]"
  by (simp_all add: demo_console_def)

section \<open>Properties\<close>



text \<open>A log line: the name of the function and the line number come first, in brackets, then the text; the result is the length of the text alone.\<close>

theorem kernel_log_line:
  assumes "cstr (memory e) (loc_function loc) fn" "line_ok loc" "0 \<notin> set text" "ascii CHR ''%'' \<notin> set text"
  shows "kernel_log e loc (text @ [0]) va t =
     Some (Inr (sint (of_nat (length text) :: u32), put_text (font e) t (lit ''['' @ fn @ lit '':'' @ line_chars loc @ lit ''] '' @ text)))"
proof -
  from log_prefix[OF assms(1,2)] obtain r where "vprintf (memory e) (lit ''[%s:%d] '' @ [0]) [loc_function loc, ucast (loc_line loc)]
    = Some (Inr (lit ''['' @ fn @ lit '':'' @ line_chars loc @ lit ''] '', r))" by blast
  moreover have "vprintf (memory e) (text @ [0]) va = Some (Inr (text, sint (of_nat (length text) :: u32)))"
    by (rule vprintf_loop_run) (simp add: loop_text assms(3,4))
  ultimately show ?thesis by (simp add: kernel_log_def printf_def put_text_append)
qed

theorem kernel_log_line_witness:
  "kernel_log demo_console demo_location (lit ''hi'' @ [0]) [] demo_tty =
     Some (Inr (2, put_text (\<lambda>_. 0x80) demo_tty (lit ''['' @ [98] @ lit '':'' @ line_chars demo_location @ lit ''] '' @ lit ''hi'')))"
proof -
  have "cstr (memory demo_console) (loc_function demo_location) [98]" "line_ok demo_location"
    using demo_strings(2) by (simp_all add: demo_location_def line_ok_def)
  moreover have "0 \<notin> set (lit ''hi'')" "ascii CHR ''%'' \<notin> set (lit ''hi'')" by (auto simp: lit_def ascii_def)
  ultimately have "kernel_log demo_console demo_location (lit ''hi'' @ [0]) [] demo_tty =
     Some (Inr (sint (of_nat (length (lit ''hi'')) :: u32), put_text (font demo_console) demo_tty
       (lit ''['' @ [98] @ lit '':'' @ line_chars demo_location @ lit ''] '' @ lit ''hi'')))" by (rule kernel_log_line)
  then show ?thesis by (simp add: demo_console_def lit_def)
qed



text \<open>The list of functions: with the tables loaded and names that end, the names of the function symbols are printed, in the order of the table,
  one on each line.\<close>

theorem dump_lists_functions:
  assumes "s = symbols_of e" "kernel_header s \<noteq> NULL" "strtab s \<noteq> NULL" "symtab s \<noteq> NULL"
    and "\<And>i. i < nat (sym_entries s) \<Longrightarrow> is_function (symbol_at (memory e) s i) \<Longrightarrow>
      cstr (memory e) (strtab s + ucast (st_name (symbol_at (memory e) s i))) (nm i)"
  shows "dump_function_names e t = Some (Inr (s, put_text (font e) t
      (concat (map (\<lambda>i. nm i @ [10]) (filter (\<lambda>i. is_function (symbol_at (memory e) s i)) [0..<nat (sym_entries s)])))))"
  using assms(2-5) dump_names_text[of "[0..<nat (sym_entries s)]" e s nm]
  by (simp add: dump_function_names_def load_symbols_def Let_def assms(1)[symmetric])

theorem dump_lists_functions_witness:
  "dump_function_names (demo_console\<lparr>memory := sym_mem, symbols_of := sym_tables\<rparr>) demo_tty =
     Some (Inr (sym_tables, put_text (\<lambda>_. 0x80) demo_tty (lit ''main'' @ [10] @ lit ''idle'' @ [10])))"
proof -
  let ?e = "demo_console\<lparr>memory := sym_mem, symbols_of := sym_tables\<rparr>"
  let ?nm = "\<lambda>i :: nat. if i = 1 then lit ''main'' else lit ''idle''"
  have h: "kernel_header sym_tables \<noteq> NULL" "strtab sym_tables \<noteq> NULL" "symtab sym_tables \<noteq> NULL" by code_simp+
  have n: "nat (sym_entries sym_tables) = 3" by (simp add: sym_tables_def)
  have "list_all (\<lambda>i. is_function (symbol_at sym_mem sym_tables i) \<longrightarrow>
      cstr sym_mem (strtab sym_tables + ucast (st_name (symbol_at sym_mem sym_tables i))) (?nm i)) [0..<3]" by code_simp
  then have c: "i < nat (sym_entries sym_tables) \<Longrightarrow> is_function (symbol_at (memory ?e) sym_tables i) \<Longrightarrow>
      cstr (memory ?e) (strtab sym_tables + ucast (st_name (symbol_at (memory ?e) sym_tables i))) (?nm i)" for i
    unfolding n by (auto simp: list_all_iff)
  have f: "filter (\<lambda>i. is_function (symbol_at sym_mem sym_tables i)) [0..<3] = [1, 2]" by code_simp
  have "dump_function_names ?e demo_tty = Some (Inr (sym_tables, put_text (font ?e) demo_tty
      (concat (map (\<lambda>i. ?nm i @ [10]) (filter (\<lambda>i. is_function (symbol_at (memory ?e) sym_tables i)) [0..<nat (sym_entries sym_tables)])))))"
    by (rule dump_lists_functions[OF _ h c]) simp
  then show ?thesis unfolding n by (simp add: f del: upt_Suc) (simp add: demo_console_def)
qed

end
