(* ===== verification/Kernel.thy ===== *)
theory Kernel
  imports Boot Ahci Shell AmlDefs
begin

text \<open>
  The rest of \<^verbatim>\<open>kmain\<close> of \<^verbatim>\<open>lethe-kernel/kernel.c\<close>, after interrupts are enabled: the device scan, the disk controller, the shell, and what happens
  when the kernel is told to exit. \<^verbatim>\<open>acpi_late_init\<close> only prints, as its one statement is commented out. Interrupts between
  the steps are left out; those that wake the loop at the end are in theory Idle.
\<close>

section \<open>State and operations\<close>

record kernel_run =
  kernel :: kernel_state
  root_bus :: "pci_device list"
  disks :: ahci
  shell_of :: shell
  namespaces_of :: aml_state

text \<open>The devices share page tables, handler table and hardware with the rest of the kernel.\<close>

definition init_devices :: "surroundings \<Rightarrow> ptr \<Rightarrow> kernel_run \<Rightarrow> kernel_run run" where
  "init_devices e irq_addr r =
     (let k = kernel r; s = sys_of k; a = acpi_of s in
      bindR (init_pci (hardware e) (io a)) (\<lambda>(devs, h).
      bindR (init_ahci (hardware e) (hhdm_mapping k) (lapic_addr_phys (hhdm_mapping k) a) irq_addr devs
               (idt_of s, (disks r)\<lparr>apages := acpi.pages a, aio := h\<rparr>)) (\<lambda>(t, d).
      Some (Inr (r\<lparr>root_bus := devs, disks := d,
        kernel := k\<lparr>sys_of := s\<lparr>idt_of := t, acpi_of := a\<lparr>acpi.pages := apages d, io := aio d\<rparr>\<rparr>,
                    heap_of := (heap_of k)\<lparr>vm := apages d\<rparr>\<rparr>\<rparr>)))))"

definition kmain :: "surroundings \<Rightarrow> ptr \<Rightarrow> (int \<Rightarrow> bool) \<Rightarrow> kernel_run \<Rightarrow> kernel_run run" where
  "kmain e irq_addr avail r =
     bindR (kmain_start e (kernel r)) (\<lambda>k.
     bindR (init_devices e irq_addr (r\<lparr>kernel := k\<rparr>)) (\<lambda>r1.
     Some (Inr (r1\<lparr>shell_of := init_shell avail (shell_of r1)\<rparr>))))"

text \<open>The loop waits for interrupts as long as this holds; then the kernel goes to sleep state 5, and stops if that fails to power off.\<close>

definition keeps_running :: "kernel_run \<Rightarrow> bool" where
  "keeps_running r \<longleftrightarrow> kexit (conf (sys_of (kernel r))) = 0"

definition kexit_command :: "kernel_run \<Rightarrow> kernel_run" where
  "kexit_command r = r\<lparr>kernel := (kernel r)\<lparr>sys_of := set_conf (\<lambda>c. c\<lparr>kexit := 1\<rparr>) (sys_of (kernel r))\<rparr>\<rparr>"

definition shutdown :: "fadt \<Rightarrow> kernel_run \<Rightarrow> (u16 \<times> u16) list res" where
  "shutdown f r = execute_sleep (namespaces_of r) f 5"

text \<open>The end of \<^verbatim>\<open>kmain\<close>: the words written to ports, and how the kernel stops if that does not switch the machine off.\<close>

definition kmain_end :: "fadt \<Rightarrow> kernel_run \<Rightarrow> (u16 \<times> u16) list \<times> fault" where
  "kmain_end f r = (case shutdown f r of Inl e \<Rightarrow> ([], e) | Inr writes \<Rightarrow> (writes, Halted))"

section \<open>Lemmas\<close>

text \<open>Heap and interrupt controllers leave the start with the same page tables.\<close>

lemma on_sys_pages: "on_sys f k = Some (Inr k') \<Longrightarrow> vm (heap_of k') = acpi.pages (acpi_of (sys_of k'))"
  by (auto simp: on_sys_def res_iff)

lemma kmain_start_pages: "kmain_start e k = Some (Inr k') \<Longrightarrow> vm (heap_of k') = acpi.pages (acpi_of (sys_of k'))"
  unfolding kmain_start_def bindR_ok_iff using on_sys_pages by blast

lemma no_sleep_package: "children (init_aml_namespaces ! root) (lit ''_S5_'') = None"
  by code_simp

lemma kmain_end_aborts: "namespaces_of r = init_aml_namespaces \<Longrightarrow> kmain_end f r = ([], Abort)"
  by (simp add: kmain_end_def shutdown_def execute_sleep_def no_sleep_package)

lemma kmain_namespaces: "kmain e irq_addr avail r = Some (Inr r') \<Longrightarrow> namespaces_of r' = namespaces_of r"
  by (auto simp: kmain_def init_devices_def res_iff Let_def split: prod.splits)

lemma kmain_ok:
  assumes "responses_ok (requests e)" "memory_ok e (kernel r) m" "apic_ok e p es j" "devices_ok e m p j"
    and "idt_wf (idt_of (sys_of (kernel r)))" "init_config_cpuid (cpuid_fn e) = Inr c" "boot_frequency (requests e) c \<noteq> 0" "kexit c = 0"
    and "\<forall>n. kmalloc_ok e n" "task_block e \<noteq> NULL" "ctx_block e \<noteq> NULL"
    and "config_reads (hardware e) cfg" "bridges_up cfg" "\<not> multi_function cfg 0 0"
    and "list_all (\<lambda>d. \<not> matches 2 0x01060000 0xFFFF0000 d) (preorder (bus_devices cfg 0))"
  shows "\<exists>r'. kmain e irq_addr avail r = Some (Inr r') \<and> keeps_running r' \<and> IF (sys_of (kernel r'))
    \<and> root_bus r' = bus_devices cfg 0 \<and> shell_of r' = init_shell avail (shell_of r) \<and> enabled (shell_of r')
    \<and> shell_cur (shell_of r') = 0 \<and> out (shell_of r') = out (shell_of r) @ [PutChar (ascii CHR ''>'')]
    \<and> isr_handler_table (idt_of (sys_of (kernel r'))) =
        (replicate 256 NULL)[32 := apic_timer_addr e, 33 := keyboard_addr e, 128 := task_switch_addr e]
    \<and> sched_wf (sched_of (sys_of (kernel r'))) \<and> waiting (sched_of (sys_of (kernel r'))) = [] \<and> pt_inv (vm (heap_of (kernel r')))"
proof -
  from kmain_start_ok[OF assms(1-7,9-11)] obtain k where k: "kmain_start e (kernel r) = Some (Inr k)" "IF (sys_of k)"
    "isr_handler_table (idt_of (sys_of k)) = (replicate 256 NULL)[32 := apic_timer_addr e, 33 := keyboard_addr e, 128 := task_switch_addr e]"
    "sched_wf (sched_of (sys_of k))" "waiting (sched_of (sys_of k)) = []" "pt_inv (vm (heap_of k))" "kexit (conf (sys_of k)) = kexit c" by blast
  from scan_root_devices[OF assms(12-14), of "io (acpi_of (sys_of k))"] obtain h where
    h: "init_pci (hardware e) (io (acpi_of (sys_of k))) = Some (Inr (bus_devices cfg 0, h))" by blast
  have "filter (matches 2 0x01060000 0xFFFF0000) (preorder (bus_devices cfg 0)) = []"
    using assms(15) by (simp add: list_all_iff filter_empty_conv)
  then have none: "locate_pci_device (bus_devices cfg 0) 1 6 0 = Inr None"
    using search_bus_for_match_nth[OF preorder_has_register[of cfg 0], of "0x01060000" "0xFFFF0000" 0]
    by (simp add: locate_pci_device_def Let_def)
  show ?thesis
    using k h none assms(8) kmain_start_pages[OF k(1)]
    by (simp add: kmain_def init_devices_def init_ahci_def Let_def keeps_running_def conf_def init_shell_def Shell.emit_def)
qed

text \<open>An example: no device on the bus.\<close>

definition bare_cfg :: "u32 \<Rightarrow> u32" where
  "bare_cfg a = (if a AND 0xFC = 0 then 0xFFFFFFFF else 0)"

definition bare_machine :: machine where
  "bare_machine h ev = (case (h, ev) of (Out32 _ a # _, In32 _) \<Rightarrow> ucast (bare_cfg a) | _ \<Rightarrow> 0)"

definition bare_env :: surroundings where
  "bare_env = demo_env\<lparr>hardware := bare_machine\<rparr>"

definition bare_run :: kernel_run where
  "bare_run = \<lparr>kernel = demo_kernel, root_bus = [], disks = \<lparr>apages = boot_mm, dram = (\<lambda>_. 0), aio = [], device_list = [], abar = 0\<rparr>,
     shell_of = boot_shell, namespaces_of = init_aml_namespaces\<rparr>"

lemma bare_config: "config_reads bare_machine bare_cfg" "bridges_up bare_cfg" "\<not> multi_function bare_cfg 0 0" "bus_devices bare_cfg 0 = []"
proof -
  show "config_reads bare_machine bare_cfg" by (simp add: config_reads_def bare_machine_def)
  have "bits_8_upper (bare_cfg (get_pci_device_address b d f (of_nat 2))) = 0" for b d f
    by (simp only: bare_cfg_def reg2_address) code_simp
  then show "bridges_up bare_cfg" by (simp add: bridges_up_def is_bridge_def cfg_reg_def)
  show "\<not> multi_function bare_cfg 0 0" "bus_devices bare_cfg 0 = []" by code_simp+
qed

lemma bare_start:
  "responses_ok (requests bare_env)" "memory_ok bare_env (kernel bare_run) demo_mm" "apic_ok bare_env 0x200 acpi_entries 0"
  "devices_ok bare_env demo_mm 0x200 0" "idt_wf (idt_of (sys_of (kernel bare_run)))" "init_config_cpuid (cpuid_fn bare_env) = Inr zero_config"
  "boot_frequency (requests bare_env) zero_config \<noteq> 0" "kexit zero_config = 0" "\<forall>n. kmalloc_ok bare_env n" "task_block bare_env \<noteq> NULL"
  "ctx_block bare_env \<noteq> NULL" "config_reads (hardware bare_env) bare_cfg" "bridges_up bare_cfg" "\<not> multi_function bare_cfg 0 0"
  "list_all (\<lambda>d. \<not> matches 2 0x01060000 0xFFFF0000 d) (preorder (bus_devices bare_cfg 0))"
proof -
  have same: "requests bare_env = requests demo_env" "tables bare_env = tables demo_env" "cr3_value bare_env = cr3_value demo_env"
    "kernel_end_addr bare_env = kernel_end_addr demo_env" "kernel bare_run = demo_kernel" "cpuid_fn bare_env = cpuid_fn demo_env" "hardware bare_env = bare_machine"
    by (simp_all add: bare_env_def bare_run_def)
  have hb: "heap_base bare_env = heap_base demo_env" "lapic_phys bare_env = lapic_phys demo_env" "ioapic_phys bare_env = ioapic_phys demo_env"
    by (simp_all add: heap_base_def lapic_phys_def ioapic_phys_def same fun_eq_iff)
  show "responses_ok (requests bare_env)" "boot_frequency (requests bare_env) zero_config \<noteq> 0" unfolding same by code_simp+
  show "memory_ok bare_env (kernel bare_run) demo_mm" using demo_memory_ok by (simp add: memory_ok_def same hb)
  show "apic_ok bare_env 0x200 acpi_entries 0" using demo_apic_ok by (simp add: apic_ok_def same hb)
  show "devices_ok bare_env demo_mm 0x200 0" using demo_devices_ok by (simp add: devices_ok_def device_page_ok_def same hb)
  show "idt_wf (idt_of (sys_of (kernel bare_run)))" by (simp add: same demo_kernel_def idt_wf_def)
  show "init_config_cpuid (cpuid_fn bare_env) = Inr zero_config" by (simp add: same init_config_cpuid_def demo_env_def)
  show "kexit zero_config = 0" by (simp add: zero_config_def)
  show "\<forall>n. kmalloc_ok bare_env n" "task_block bare_env \<noteq> NULL" "ctx_block bare_env \<noteq> NULL" by (simp_all add: bare_env_def demo_env_def)
  show "config_reads (hardware bare_env) bare_cfg" "bridges_up bare_cfg" "\<not> multi_function bare_cfg 0 0" using bare_config by (simp_all add: same)
  show "list_all (\<lambda>d. \<not> matches 2 0x01060000 0xFFFF0000 d) (preorder (bus_devices bare_cfg 0))" by (simp add: bare_config(4))
qed

section \<open>Properties\<close>

text \<open>(C5) The kernel comes up: under the assumptions of the start, with a configuration space whose bridges lead to higher bus numbers and no disk controller
  on bus 0, \<^verbatim>\<open>kmain\<close> reaches its idle loop. The devices of bus 0 are listed, the shell is enabled with an empty line and has printed its prompt, interrupts are
  on, the handlers are those of timer, keyboard and scheduler, no task waits, and the loop condition holds.\<close>

theorem kernel_comes_up:
  assumes "responses_ok (requests e)" "memory_ok e (kernel r) m" "apic_ok e p es j" "devices_ok e m p j"
    and "idt_wf (idt_of (sys_of (kernel r)))" "init_config_cpuid (cpuid_fn e) = Inr c" "boot_frequency (requests e) c \<noteq> 0" "kexit c = 0"
    and "\<forall>n. kmalloc_ok e n" "task_block e \<noteq> NULL" "ctx_block e \<noteq> NULL"
    and "config_reads (hardware e) cfg" "bridges_up cfg" "\<not> multi_function cfg 0 0"
    and "list_all (\<lambda>d. \<not> matches 2 0x01060000 0xFFFF0000 d) (preorder (bus_devices cfg 0))"
  shows "\<exists>r'. kmain e irq_addr avail r = Some (Inr r') \<and> keeps_running r' \<and> IF (sys_of (kernel r'))
    \<and> root_bus r' = bus_devices cfg 0 \<and> shell_of r' = init_shell avail (shell_of r) \<and> enabled (shell_of r')
    \<and> shell_cur (shell_of r') = 0 \<and> out (shell_of r') = out (shell_of r) @ [PutChar (ascii CHR ''>'')]
    \<and> isr_handler_table (idt_of (sys_of (kernel r'))) =
        (replicate 256 NULL)[32 := apic_timer_addr e, 33 := keyboard_addr e, 128 := task_switch_addr e]
    \<and> sched_wf (sched_of (sys_of (kernel r'))) \<and> waiting (sched_of (sys_of (kernel r'))) = [] \<and> pt_inv (vm (heap_of (kernel r')))"
  using kmain_ok[OF assms] .

theorem kernel_comes_up_witness:
  "\<exists>r'. kmain bare_env 0x5500 (\<lambda>_. True) bare_run = Some (Inr r') \<and> keeps_running r' \<and> root_bus r' = [] \<and> out (shell_of r') = [PutChar (ascii CHR ''>'')]"
proof -
  have "out (shell_of bare_run) = []" by (simp add: bare_run_def boot_shell_def)
  with kernel_comes_up[OF bare_start, of "0x5500" "\<lambda>_. True"] bare_config(4) show ?thesis by auto
qed

text \<open>(C40) Told to exit, the kernel does not power off: no table is ever read into the namespaces, so the package with the sleep types is missing and the interpreter
  aborts before it writes a port.\<close>

theorem exit_cannot_power_off:
  assumes "namespaces_of r = init_aml_namespaces" "kmain e irq_addr avail r = Some (Inr r')"
  shows "\<not> keeps_running (kexit_command r') \<and> kmain_end f (kexit_command r') = ([], Abort)"
proof -
  have "namespaces_of (kexit_command r') = init_aml_namespaces" using assms kmain_namespaces by (simp add: kexit_command_def)
  then show ?thesis using kmain_end_aborts by (simp add: kexit_command_def keeps_running_def)
qed

theorem exit_cannot_power_off_witness:
  "\<exists>r'. kmain bare_env 0x5500 (\<lambda>_. True) bare_run = Some (Inr r')
     \<and> kmain_end \<lparr>fadt_flags = 0, pm1a_control_block = 0x604, pm1b_control_block = 0\<rparr> (kexit_command r') = ([], Abort)"
proof -
  from kmain_ok[OF bare_start, of "0x5500" "\<lambda>_. True"] obtain r' where r': "kmain bare_env 0x5500 (\<lambda>_. True) bare_run = Some (Inr r')" by blast
  have "namespaces_of bare_run = init_aml_namespaces" by (simp add: bare_run_def)
  from exit_cannot_power_off[OF this r'] r' show ?thesis by blast
qed

end
