(* ===== verification/Idle.thy ===== *)
theory Idle
  imports Kernel
begin

text \<open>
  The idle loop at the end of \<^verbatim>\<open>kmain\<close> of \<^verbatim>\<open>lethe-kernel/kernel.c\<close> with the interrupts that wake it. An interrupt is the register
  frame the processor pushes, whose field \<open>isr\<close> is the vector, with what the keyboard controller would answer on its two ports while
  it is handled. It goes through \<^verbatim>\<open>exception_handler\<close> of theory Interrupts to the handler in the table: the timer
  (\<^verbatim>\<open>apic_timer_isr\<close>), the keyboard (\<^verbatim>\<open>keyboard_isr\<close>) or the scheduler (\<^verbatim>\<open>task_switch_isr\<close>), and is acknowledged at the
  local APIC. A function that is called by name at the prompt runs on the state the keyboard handler leaves; \<^verbatim>\<open>kexit\<close> is modelled, the others are
  an argument. The record \<open>services\<close> holds these arguments. The abstract specification is a line editor with an exit flag.
\<close>

section \<open>State and operations\<close>

record idle =
  run_of :: kernel_run
  KB_STATUS :: "u8 list"

record services =
  heap_gives :: "int \<Rightarrow> bool"
  resolve_address :: "u8 list \<Rightarrow> u64"
  kexit_addr :: u64
  commands :: "u64 \<Rightarrow> kernel_run \<Rightarrow> kernel_run run"
  other_isr :: "idle handlers"

datatype interrupt = Interrupt (pushed: isr_stack_t) (port_64: u8) (port_60: u8)

definition on_run_sys :: "(sys \<Rightarrow> sys) \<Rightarrow> idle \<Rightarrow> idle" where
  "on_run_sys f m = (let r = run_of m in m\<lparr>run_of := r\<lparr>kernel := (kernel r)\<lparr>sys_of := f (sys_of (kernel r))\<rparr>\<rparr>\<rparr>)"

abbreviation run_sys :: "idle \<Rightarrow> sys" where
  "run_sys m \<equiv> sys_of (kernel (run_of m))"

definition call_function :: "services \<Rightarrow> kernel_run \<Rightarrow> u64 \<Rightarrow> kernel_run run" where
  "call_function v r a = (if a = kexit_addr v then Some (Inr (kexit_command r)) else commands v a r)"

fun calls :: "shell_out list \<Rightarrow> u64 list" where
  "calls [] = []"
| "calls (CallFunction a # es) = a # calls es"
| "calls (_ # es) = calls es"

definition keyboard_isr :: "services \<Rightarrow> u8 \<Rightarrow> u8 \<Rightarrow> isr_stack_t \<Rightarrow> idle \<Rightarrow> (isr_stack_t \<times> idle) run" where
  "keyboard_isr v status byte stack m =
     bindR (Some (kb_handle_key (heap_gives v) (resolve_address v) status byte (KB_STATUS m, shell_of (run_of m)))) (\<lambda>(kb, sh).
     let m1 = on_run_sys (with_io (\<lambda>h. if status AND 1 = 1 then In8 0x60 # In8 0x64 # h else In8 0x64 # h)) m;
         new = drop (length (out (shell_of (run_of m)))) (out sh)
     in bindR (foldR (call_function v) (calls new) ((run_of m1)\<lparr>shell_of := sh\<rparr>)) (\<lambda>r.
        Some (Inr (stack, m1\<lparr>run_of := r, KB_STATUS := kb\<rparr>))))"

definition isr_call :: "services \<Rightarrow> surroundings \<Rightarrow> u8 \<Rightarrow> u8 \<Rightarrow> idle handlers" where
  "isr_call v e status byte h stack m =
     (if h = apic_timer_addr e then Some (Inr (stack, on_run_sys (\<lambda>s. s\<lparr>ticks := apic_timer_isr (ticks s)\<rparr>) m))
      else if h = keyboard_addr e then keyboard_isr v status byte stack m
      else if h = task_switch_addr e
      then bindR (task_switch_isr (kmalloc_ok e) stack (sched_of (run_sys m))) (\<lambda>(stack', sc).
             Some (Inr (stack', on_run_sys (\<lambda>s. s\<lparr>sched_of := sc\<rparr>) m)))
      else other_isr v h stack m)"

definition deliver :: "services \<Rightarrow> surroundings \<Rightarrow> interrupt \<Rightarrow> idle \<Rightarrow> (isr_stack_t \<times> idle) run" where
  "deliver v e i m =
     exception_handler (isr_call v e (port_64 i) (port_60 i))
       (on_run_sys (\<lambda>s. s\<lparr>acpi_of := lapic_send_eoi (acpi_of s)\<rparr>)) (idt_of (run_sys m)) (pushed i) m"

text \<open>The loop \<^verbatim>\<open>while (kernel_config.kexit == 0) hlt\<close> on a sequence of interrupts: it still waits when they are used up, it is left,
  or an interrupt returns into another context than the one it interrupted.\<close>

datatype idle_end = Waiting | LoopLeft | Switched isr_stack_t

fun idle_loop :: "services \<Rightarrow> surroundings \<Rightarrow> interrupt list \<Rightarrow> idle \<Rightarrow> (idle_end \<times> idle) run" where
  "idle_loop v e [] m = Some (Inr (if keeps_running (run_of m) then Waiting else LoopLeft, m))"
| "idle_loop v e (i # is) m =
     (if \<not> keeps_running (run_of m) then Some (Inr (LoopLeft, m))
      else bindR (deliver v e i m) (\<lambda>(stack, m').
        if stack = pushed i then idle_loop v e is m' else Some (Inr (Switched stack, m'))))"

section \<open>The line editor\<close>

record editor =
  ed_keys :: "u8 list"
  ed_line :: "u8 list"
  ed_room :: int
  ed_left :: bool

definition ed_key :: "(u8 list \<Rightarrow> u64) \<Rightarrow> u64 \<Rightarrow> u8 \<Rightarrow> editor \<Rightarrow> editor res" where
  "ed_key resolve ke byte a =
     bindE (kb_update (ed_keys a) byte) (\<lambda>ks.
     bindE (scancode_to_char ks byte) (\<lambda>ch.
     let xs = ed_line a; a1 = a\<lparr>ed_keys := ks\<rparr> in
     if ch = 0 then Inr a1
     else if ch = 10
     then if xs \<noteq> [] \<and> int (length xs) = ed_room a then Inl OutOfBounds
          else Inr (a1\<lparr>ed_line := [], ed_left := ed_left a \<or> xs \<noteq> [] \<and> resolve xs = ke\<rparr>)
     else if ch = 8 then if xs = [] then Inl OutOfBounds else Inr (a1\<lparr>ed_line := butlast xs\<rparr>)
     else Inr (a1\<lparr>ed_line := xs @ [ch], ed_room := if int (length xs) < ed_room a then ed_room a else ed_room a + 80\<rparr>)))"

text \<open>Vectors: 2 is the non-maskable interrupt, other exceptions stop the machine, 32 is the timer and 33 the keyboard. Vector 128 calls the
  scheduler, which follows a null pointer when no task waits; no other vector has a handler.\<close>

definition ed_step :: "(u8 list \<Rightarrow> u64) \<Rightarrow> u64 \<Rightarrow> interrupt \<Rightarrow> editor \<Rightarrow> editor res" where
  "ed_step resolve ke i a =
     (let n = isr (pushed i) in
      if n = 32 \<or> n = 2 then Inr a
      else if n < 32 then Inl Halted
      else if n = 33 then if port_64 i AND 1 = 1 then ed_key resolve ke (port_60 i) a else Inr a
      else if n < 256 then Inl NullDeref
      else Inl OutOfBounds)"

fun ed_run :: "(u8 list \<Rightarrow> u64) \<Rightarrow> u64 \<Rightarrow> interrupt list \<Rightarrow> editor \<Rightarrow> editor res" where
  "ed_run resolve ke [] a = Inr a"
| "ed_run resolve ke (i # is) a =
     (if ed_left a then Inr a else bindE (ed_step resolve ke i a) (ed_run resolve ke is))"

definition ed_start :: editor where
  "ed_start = \<lparr>ed_keys = kb_init, ed_line = [], ed_room = 80, ed_left = False\<rparr>"

text \<open>The invariant that ties the kernel to the editor.\<close>

definition idle_ok :: "surroundings \<Rightarrow> idle \<Rightarrow> editor \<Rightarrow> bool" where
  "idle_ok e m a \<longleftrightarrow> KB_STATUS m = ed_keys a \<and> length (ed_keys a) = 88
     \<and> line_of (shell_of (run_of m)) (ed_line a) \<and> 0 \<notin> set (ed_line a) \<and> enabled (shell_of (run_of m))
     \<and> shell_size (shell_of (run_of m)) = ed_room a \<and> keeps_running (run_of m) = (\<not> ed_left a)
     \<and> isr_handler_table (idt_of (run_sys m)) =
         (replicate 256 NULL)[32 := apic_timer_addr e, 33 := keyboard_addr e, 128 := task_switch_addr e]
     \<and> sched_wf (sched_of (run_sys m)) \<and> waiting (sched_of (run_sys m)) = [] \<and> IF (run_sys m)
     \<and> namespaces_of (run_of m) = init_aml_namespaces"

text \<open>The handlers have addresses of their own, and the functions called by name other than \<^verbatim>\<open>kexit\<close> return and leave the kernel state alone.\<close>

definition services_ok :: "services \<Rightarrow> surroundings \<Rightarrow> bool" where
  "services_ok v e \<longleftrightarrow> distinct [NULL, apic_timer_addr e, keyboard_addr e, task_switch_addr e]
     \<and> (\<forall>n. heap_gives v n) \<and> kexit_addr v \<noteq> 0 \<and> (\<forall>a r. a \<noteq> kexit_addr v \<longrightarrow> commands v a r = Some (Inr r))"

section \<open>Lemmas\<close>

lemma run_sys_simps [simp]:
  "run_sys (on_run_sys f m) = f (run_sys m)" "KB_STATUS (on_run_sys f m) = KB_STATUS m"
  "shell_of (run_of (on_run_sys f m)) = shell_of (run_of m)" "namespaces_of (run_of (on_run_sys f m)) = namespaces_of (run_of m)"
  by (simp_all add: on_run_sys_def Let_def)

lemma with_io_keeps [simp]: "idt_of (with_io f s) = idt_of s" "sched_of (with_io f s) = sched_of s" "IF (with_io f s) = IF s" "conf (with_io f s) = conf s"
  by (simp_all add: with_io_def conf_def)

lemma keeps_running_sys: "keeps_running (run_of m) \<longleftrightarrow> kexit (conf (run_sys m)) = 0"
  by (simp add: keeps_running_def)

lemma idle_ok_sys:
  assumes "idle_ok e m a" "idt_of (f (run_sys m)) = idt_of (run_sys m)" "sched_of (f (run_sys m)) = sched_of (run_sys m)"
    "IF (f (run_sys m)) = IF (run_sys m)" "conf (f (run_sys m)) = conf (run_sys m)"
  shows "idle_ok e (on_run_sys f m) a"
  using assms by (simp add: idle_ok_def keeps_running_sys)

lemma idle_ok_eoi: "idle_ok e m a \<Longrightarrow> idle_ok e (on_run_sys (\<lambda>s. s\<lparr>acpi_of := lapic_send_eoi (acpi_of s)\<rparr>) m) a"
  by (rule idle_ok_sys) (simp_all add: conf_def lapic_send_eoi_def lapic_write_def)

lemma idle_ok_tick: "idle_ok e m a \<Longrightarrow> idle_ok e (on_run_sys (\<lambda>s. s\<lparr>ticks := t s\<rparr>) m) a"
  by (rule idle_ok_sys) (simp_all add: conf_def)

lemma calls_command [simp]:
  "calls (command_events resolve xs) = (if xs \<noteq> [] \<and> resolve xs \<noteq> 0 then [resolve xs] else [])"
  by (simp add: command_events_def)

lemma kexit_command_keeps:
  "shell_of (kexit_command r) = shell_of r" "namespaces_of (kexit_command r) = namespaces_of r" "\<not> keeps_running (kexit_command r)"
  "idt_of (sys_of (kernel (kexit_command r))) = idt_of (sys_of (kernel r))"
  "sched_of (sys_of (kernel (kexit_command r))) = sched_of (sys_of (kernel r))"
  "IF (sys_of (kernel (kexit_command r))) = IF (sys_of (kernel r))"
  by (simp_all add: kexit_command_def keeps_running_def set_conf_def conf_def)

text \<open>The keyboard handler implements the key step of the editor.\<close>

lemma keyboard_isr_runs:
  assumes "kb_handle_key (heap_gives v) (resolve_address v) status byte (KB_STATUS m, shell_of (run_of m)) = Inr (kb, sh)"
    "out sh = out (shell_of (run_of m)) @ new" "services_ok v e" "length (calls new) \<le> 1"
  shows "\<exists>m'. keyboard_isr v status byte st m = Some (Inr (st, m')) \<and> KB_STATUS m' = kb \<and> shell_of (run_of m') = sh
    \<and> keeps_running (run_of m') = (keeps_running (run_of m) \<and> kexit_addr v \<notin> set (calls new))
    \<and> idt_of (run_sys m') = idt_of (run_sys m) \<and> sched_of (run_sys m') = sched_of (run_sys m) \<and> IF (run_sys m') = IF (run_sys m)
    \<and> namespaces_of (run_of m') = namespaces_of (run_of m)"
proof -
  define m1 where "m1 = on_run_sys (with_io (\<lambda>h. if status AND 1 = 1 then In8 0x60 # In8 0x64 # h else In8 0x64 # h)) m"
  define r1 where "r1 = (run_of m1)\<lparr>shell_of := sh\<rparr>"
  have sys: "idt_of (run_sys m1) = idt_of (run_sys m)" "sched_of (run_sys m1) = sched_of (run_sys m)" "IF (run_sys m1) = IF (run_sys m)"
    "keeps_running (run_of m1) = keeps_running (run_of m)" "namespaces_of (run_of m1) = namespaces_of (run_of m)"
    by (simp_all add: m1_def keeps_running_sys)
  have "\<exists>r. foldR (call_function v) (calls new) r1 = Some (Inr r) \<and> shell_of r = sh
      \<and> keeps_running r = (keeps_running r1 \<and> kexit_addr v \<notin> set (calls new))
      \<and> idt_of (sys_of (kernel r)) = idt_of (sys_of (kernel r1)) \<and> sched_of (sys_of (kernel r)) = sched_of (sys_of (kernel r1))
      \<and> IF (sys_of (kernel r)) = IF (sys_of (kernel r1)) \<and> namespaces_of r = namespaces_of r1"
  proof (cases "calls new")
    case Nil
    then show ?thesis by (simp add: r1_def)
  next
    case (Cons a as)
    then have "as = []" using assms(4) by simp
    with Cons show ?thesis using assms(3) kexit_command_keeps[of r1]
      by (auto simp: call_function_def services_ok_def r1_def)
  qed
  then obtain r where r: "foldR (call_function v) (calls new) r1 = Some (Inr r)" "shell_of r = sh"
      "keeps_running r = (keeps_running r1 \<and> kexit_addr v \<notin> set (calls new))"
      "idt_of (sys_of (kernel r)) = idt_of (sys_of (kernel r1))" "sched_of (sys_of (kernel r)) = sched_of (sys_of (kernel r1))"
      "IF (sys_of (kernel r)) = IF (sys_of (kernel r1))" "namespaces_of r = namespaces_of r1" by blast
  have "keeps_running r1 = keeps_running (run_of m1)" by (simp add: r1_def keeps_running_def)
  moreover have "keyboard_isr v status byte st m = Some (Inr (st, m1\<lparr>run_of := r, KB_STATUS := kb\<rparr>))"
    using assms(1,2) r(1) by (simp add: keyboard_isr_def Let_def m1_def r1_def)
  ultimately show ?thesis using r(2-) sys by (simp add: r1_def)
qed

lemma keyboard_isr_refines:
  assumes "services_ok v e" "idle_ok e m a" "ed_room a + 80 \<le> INT_MAX" "\<not> ed_left a" "status AND 1 = 1"
  shows "case ed_key (resolve_address v) (kexit_addr v) byte a of
      Inl f \<Rightarrow> keyboard_isr v status byte st m = Some (Inl f)
    | Inr a' \<Rightarrow> \<exists>m'. keyboard_isr v status byte st m = Some (Inr (st, m')) \<and> idle_ok e m' a'"
proof (cases "kb_update (ed_keys a) byte")
  case (Inl f)
  then show ?thesis using assms by (simp add: ed_key_def keyboard_isr_def kb_handle_key_def idle_ok_def)
next
  case (Inr ks)
  let ?xs = "ed_line a" and ?s = "shell_of (run_of m)"
  have ok: "KB_STATUS m = ed_keys a" "length (ed_keys a) = 88" "line_of ?s ?xs" "0 \<notin> set ?xs" "enabled ?s" "shell_size ?s = ed_room a"
    "keeps_running (run_of m)" using assms(2,4) by (simp_all add: idle_ok_def)
  have l: "length ks = 88" using Inr ok(2) by (auto simp: kb_update_def writeE_def split: if_splits)
  then obtain ch where ch: "scancode_to_char ks byte = Inr ch" using scancode_to_char_ok[of ks byte] by (auto simp: is_ok_iff)
  have h: "heap_gives v (shell_size ?s + 80)" "kexit_addr v \<noteq> 0" using assms(1) by (simp_all add: services_ok_def)
  note key = kb_handle_key_line[where avail = "heap_gives v" and resolve = "resolve_address v", OF ok(2) Inr ch assms(5) ok(3-5) h(1), unfolded ok(6), OF assms(3)]
  let ?out = "if ch = 0 then [] else if ch = 10 then command_events (resolve_address v) ?xs else if ch = 8 then [DelChar] else [PutChar ch]"
  show ?thesis
  proof (cases "ch = 8 \<and> ?xs = [] \<or> ch = 10 \<and> ?xs \<noteq> [] \<and> int (length ?xs) = ed_room a")
    case True
    with key have "kb_handle_key (heap_gives v) (resolve_address v) status byte (ed_keys a, ?s) = Inl OutOfBounds" by simp
    with True show ?thesis using Inr ch ok(1) by (auto simp: ed_key_def keyboard_isr_def Let_def)
  next
    case False
    with key obtain sh where sh: "kb_handle_key (heap_gives v) (resolve_address v) status byte (KB_STATUS m, ?s) = Inr (ks, sh)" "enabled sh"
      "shell_size sh = (if ch \<in> {0, 8, 10} \<or> int (length ?xs) < ed_room a then ed_room a else ed_room a + 80)"
      "line_of sh (if ch = 0 then ?xs else if ch = 10 then [] else if ch = 8 then butlast ?xs else ?xs @ [ch])"
      "out sh = out ?s @ ?out" unfolding if_not_P[OF False] ok(1) by blast
    have "length (calls ?out) \<le> 1" by simp
    from keyboard_isr_runs[OF sh(1,5) assms(1) this, of st] obtain m' where m': "keyboard_isr v status byte st m = Some (Inr (st, m'))"
      "KB_STATUS m' = ks" "shell_of (run_of m') = sh" "keeps_running (run_of m') = (kexit_addr v \<notin> set (calls ?out))"
      "idt_of (run_sys m') = idt_of (run_sys m)" "sched_of (run_sys m') = sched_of (run_sys m)" "IF (run_sys m') = IF (run_sys m)"
      "namespaces_of (run_of m') = namespaces_of (run_of m)" using ok(7) by blast
    have "0 \<notin> set (butlast ?xs)" using ok(4) by (meson in_set_butlastD)
    note facts = this False Inr ch m' sh(2-4) ok(4) l h(2) assms(2,4)
    consider "ch = 0" | "ch = 10" | "ch = 8" | "ch \<notin> {0, 8, 10}" by blast
    then show ?thesis
      by cases (use facts in \<open>auto simp: ed_key_def Let_def idle_ok_def\<close>)
  qed
qed

text \<open>Any interrupt implements the step of the editor, and returns to where it came from.\<close>

lemma handler_of:
  assumes "idle_ok e m a"
  shows "readE (isr_handler_table (idt_of (run_sys m))) (uint (n :: u64)) =
    (if n < 256 then Inr (if n = 32 then apic_timer_addr e else if n = 33 then keyboard_addr e
                          else if n = 128 then task_switch_addr e else NULL) else Inl OutOfBounds)"
proof -
  define t where "t = (replicate 256 NULL)[32 := apic_timer_addr e, 33 := keyboard_addr e, 128 := task_switch_addr e]"
  have len: "length t = 256" by (simp only: t_def length_list_update length_replicate)
  have nth: "t ! k = (if k = 32 then apic_timer_addr e else if k = 33 then keyboard_addr e else if k = 128 then task_switch_addr e else NULL)"
    if "k < 256" for k
    using that unfolding t_def
    by (simp only: nth_list_update length_list_update length_replicate nth_replicate) simp
  have u: "uint n = int (unat n)" "n < 256 \<longleftrightarrow> unat n < 256" "n = 32 \<longleftrightarrow> unat n = 32" "n = 33 \<longleftrightarrow> unat n = 33" "n = 128 \<longleftrightarrow> unat n = 128"
    by (simp_all add: word_less_nat_alt word_unat_eq_iff)
  have "isr_handler_table (idt_of (run_sys m)) = t" using assms by (simp add: idle_ok_def t_def)
  moreover have "uint n < 256 \<longleftrightarrow> unat n < 256" unfolding uint_nat by linarith
  ultimately show ?thesis unfolding u by (simp add: readE_def len nth)
qed

lemma deliver_refines:
  assumes "services_ok v e" "idle_ok e m a" "ed_room a + 80 \<le> INT_MAX" "\<not> ed_left a"
  shows "case ed_step (resolve_address v) (kexit_addr v) i a of
      Inl f \<Rightarrow> deliver v e i m = Some (Inl f)
    | Inr a' \<Rightarrow> \<exists>m'. deliver v e i m = Some (Inr (pushed i, m')) \<and> idle_ok e m' a'"
proof -
  let ?n = "isr (pushed i)"
  let ?eoi = "on_run_sys (\<lambda>s. s\<lparr>acpi_of := lapic_send_eoi (acpi_of s)\<rparr>)"
  have addr: "apic_timer_addr e \<noteq> NULL" "keyboard_addr e \<noteq> NULL" "task_switch_addr e \<noteq> NULL" "keyboard_addr e \<noteq> apic_timer_addr e"
    "task_switch_addr e \<noteq> apic_timer_addr e" "task_switch_addr e \<noteq> keyboard_addr e"
    using assms(1) by (auto simp: services_ok_def)
  have run: "deliver v e i m = (if ?n < 32 then if ?n = 2 then Some (Inr (pushed i, m)) else Some (Inl Halted)
      else if \<not> ?n < 256 then Some (Inl OutOfBounds)
      else let h = if ?n = 32 then apic_timer_addr e else if ?n = 33 then keyboard_addr e else if ?n = 128 then task_switch_addr e else NULL
        in if h = NULL then Some (Inl NullDeref)
           else bindR (isr_call v e (port_64 i) (port_60 i) h (pushed i) m) (\<lambda>(st, m'). Some (Inr (st, ?eoi m'))))"
    unfolding deliver_def exception_handler_def interrupt_handler_def handler_of[OF assms(2)] guardE_def
    by (auto simp: Let_def not_less)
  consider "?n = 32" | "?n = 33" | "?n = 128" | "?n < 32" | "\<not> ?n < 32" "?n \<noteq> 32" "?n \<noteq> 33" "?n \<noteq> 128" by blast
  then show ?thesis
  proof cases
    case 1
    then show ?thesis using idle_ok_eoi[OF idle_ok_tick[OF assms(2)]] addr by (simp add: run ed_step_def isr_call_def)
  next
    case 2
    have d: "deliver v e i m = bindR (keyboard_isr v (port_64 i) (port_60 i) (pushed i) m) (\<lambda>(st, m'). Some (Inr (st, ?eoi m')))"
      using 2 addr by (simp add: run isr_call_def)
    show ?thesis
    proof (cases "port_64 i AND 1 = 1")
      case True
      from keyboard_isr_refines[OF assms True, of "port_60 i" "pushed i"] 2 True show ?thesis
        by (auto simp: d ed_step_def split: sum.splits intro: idle_ok_eoi)
    next
      case False
      then have "kb_handle_key (heap_gives v) (resolve_address v) (port_64 i) (port_60 i) (KB_STATUS m, shell_of (run_of m))
          = Inr (KB_STATUS m, shell_of (run_of m))" by (simp add: kb_handle_key_def)
      from keyboard_isr_runs[OF this _ assms(1), of "[]" "pushed i"] assms(2) obtain m'
        where "keyboard_isr v (port_64 i) (port_60 i) (pushed i) m = Some (Inr (pushed i, m'))" "idle_ok e m' a"
        by (auto simp: idle_ok_def)
      with 2 False show ?thesis by (auto simp: d ed_step_def intro: idle_ok_eoi)
    qed
  next
    case 3
    have "sched_wf (sched_of (run_sys m))" "waiting (sched_of (run_sys m)) = []" using assms(2) by (simp_all add: idle_ok_def)
    from switch_alone[OF this] show ?thesis using 3 addr by (simp add: run ed_step_def isr_call_def task_switch_isr_def)
  next
    case 4
    then show ?thesis using assms(2) by (cases "?n = 2") (auto simp: run ed_step_def Let_def)
  next
    case 5
    then have "?n \<noteq> 2" by auto
    with 5 show ?thesis by (simp add: run ed_step_def)
  qed
qed

lemma idle_loop_refines:
  assumes "services_ok v e" "idle_ok e m a" "ed_room a + 80 * int (length is) \<le> INT_MAX"
  shows "case ed_run (resolve_address v) (kexit_addr v) is a of
      Inl f \<Rightarrow> idle_loop v e is m = Some (Inl f)
    | Inr a' \<Rightarrow> \<exists>m'. idle_loop v e is m = Some (Inr (if ed_left a' then LoopLeft else Waiting, m')) \<and> idle_ok e m' a'"
  using assms(2,3)
proof (induction "is" arbitrary: m a)
  case Nil
  then show ?case by (auto simp: idle_ok_def)
next
  case (Cons i "is")
  show ?case
  proof (cases "ed_left a")
    case True
    with Cons.prems show ?thesis by (auto simp: idle_ok_def)
  next
    case False
    then have k: "keeps_running (run_of m)" using Cons.prems(1) by (simp add: idle_ok_def)
    have room: "ed_room a + 80 \<le> INT_MAX" using Cons.prems(2) by simp
    note step = deliver_refines[OF assms(1) Cons.prems(1) room False, of i]
    show ?thesis
    proof (cases "ed_step (resolve_address v) (kexit_addr v) i a")
      case (Inl f)
      with step False k show ?thesis by simp
    next
      case (Inr a')
      with step obtain m' where m': "deliver v e i m = Some (Inr (pushed i, m'))" "idle_ok e m' a'" by auto
      have "ed_room a' \<le> ed_room a + 80" using Inr
        by (auto simp: ed_step_def ed_key_def Let_def bindE_Inr_iff split: if_splits)
      with Cons.prems(2) have "ed_room a' + 80 * int (length is) \<le> INT_MAX" by simp
      from Cons.IH[OF m'(2) this] show ?thesis using Inr m'(1) False k by (auto split: sum.splits)
    qed
  qed
qed

text \<open>The state \<^verbatim>\<open>kmain\<close> reaches is one in which the editor starts.\<close>

lemma line_of_init: "avail 80 \<Longrightarrow> line_of (init_shell avail s) [] \<and> shell_size (init_shell avail s) = 80"
  by (simp add: init_shell_def Shell.emit_def line_of_def krealloc_cmd_def)

lemma kmain_idle_ok:
  assumes "enabled (shell_of r)" "shell_of r = init_shell (heap_gives v) s" "keeps_running r" "IF (sys_of (kernel r))" "services_ok v e"
    "isr_handler_table (idt_of (sys_of (kernel r))) =
       (replicate 256 NULL)[32 := apic_timer_addr e, 33 := keyboard_addr e, 128 := task_switch_addr e]"
    "sched_wf (sched_of (sys_of (kernel r)))" "waiting (sched_of (sys_of (kernel r))) = []" "namespaces_of r = init_aml_namespaces"
  shows "idle_ok e \<lparr>run_of = r, KB_STATUS = kb_init\<rparr> ed_start"
  using assms line_of_init[of "heap_gives v" s] by (simp add: idle_ok_def ed_start_def services_ok_def kb_init_length)

text \<open>An example: the letters of the command, each with its release code, timer interrupts in between, and the enter key.\<close>

definition irq :: "u64 \<Rightarrow> u8 \<Rightarrow> interrupt" where
  "irq n b = Interrupt (blank_frame\<lparr>isr := n\<rparr>) 1 b"

definition kexit_session :: "interrupt list" where
  "kexit_session = [irq 33 0x25, irq 33 0xA5, irq 32 0, irq 33 0x12, irq 33 0x92, irq 33 0x2D, irq 33 0xAD, irq 32 0, irq 32 0,
     irq 33 0x17, irq 33 0x97, irq 33 0x14, irq 33 0x94, irq 33 0x1C]"

definition demo_services :: services where
  "demo_services = \<lparr>heap_gives = (\<lambda>_. True), resolve_address = (\<lambda>xs. if xs = lit ''kexit'' then 0x7000 else 0), kexit_addr = 0x7000,
     commands = (\<lambda>_ r. Some (Inr r)), other_isr = (\<lambda>_ _ _. Some (Inl NullDeref))\<rparr>"

lemma kexit_session_runs:
  "ed_run (resolve_address demo_services) (kexit_addr demo_services) kexit_session ed_start
   = Inr (ed_start\<lparr>ed_keys := kb_init[28 := 1], ed_left := True\<rparr>)"
  by code_simp

section \<open>Properties\<close>



end
