(* ===== verification/Dumps.thy ===== *)
theory Dumps
  imports Console Pci Acpi
begin

text \<open>
  The listings a user of the shell can ask for by name: \<^verbatim>\<open>debug_pci\<close> of \<^verbatim>\<open>lethe-kernel/pci/pci.c\<close>, which shows the device lists of theory Pci, and
  \<^verbatim>\<open>acpi_dump_tables\<close> of \<^verbatim>\<open>lethe-kernel/acpi/acpi.c\<close>, which shows the signatures of the tables of theory Acpi. Both print through
  theory Console. A device list is the list \<^verbatim>\<open>dev_list\<close> with its \<^verbatim>\<open>next\<close> pointers, as in theory Pci; \<^verbatim>\<open>root_bus\<close> has no next bus.
\<close>

section \<open>Devices\<close>

definition bits_16_upper :: "u32 \<Rightarrow> u16" where "bits_16_upper r = ucast (drop_bit 16 r)"

definition tabs :: "nat \<Rightarrow> u8 list" where "tabs n = replicate n 9"

text \<open>The format of a block, \<open>n\<close> tabulators in, and its arguments after the usual promotions.\<close>

definition block_format :: "nat \<Rightarrow> string \<Rightarrow> u8 list" where
  "block_format n title =
     tabs n @ lit title @ [10] @ tabs (Suc n) @ lit ''Bus %d'' @ [10] @ tabs (Suc n) @ lit ''Device %d'' @ [10]
     @ tabs (Suc n) @ lit ''Function %d'' @ [10] @ tabs (Suc n) @ lit ''Id: %0.4x:%0.4x'' @ [10]
     @ tabs (Suc n) @ lit ''Class %0.4x:%0.4x'' @ [10] @ tabs (Suc n) @ lit ''Header %0.1d'' @ [10, 0]"

definition block_args :: "pci_device_descriptor \<Rightarrow> u64 list res" where
  "block_args d =
     bindE (desc_register d 0) (\<lambda>r0. bindE (desc_register d 2) (\<lambda>r2. bindE (desc_register d 3) (\<lambda>r3.
     Inr [ucast (pd_bus d), ucast (pd_device d), ucast (pd_function d), ucast (bits_16_upper r0), ucast (bits_16_lower r0),
          ucast (bits_16_upper r2), ucast (bits_16_lower r2), ucast (bits_8_upper_mid r3 AND 0x7F)])))"

definition show_block :: "console_env \<Rightarrow> nat \<Rightarrow> string \<Rightarrow> pci_device_descriptor \<Rightarrow> tty \<Rightarrow> tty run" where
  "show_block e n title d t = bindR (Some (block_args d)) (\<lambda>va. shown (printf e (block_format n title) va t))"

fun debug_function :: "console_env \<Rightarrow> pci_device list \<Rightarrow> tty \<Rightarrow> tty run" where
  "debug_function e [] t = Some (Inr t)"
| "debug_function e (f # fs) t = bindR (show_block e 2 ''Function'' (descriptor f) t) (debug_function e fs)"

fun debug_device :: "console_env \<Rightarrow> pci_device list \<Rightarrow> bool \<Rightarrow> tty \<Rightarrow> tty run" where
  "debug_device e [] once t = Some (Inr t)"
| "debug_device e (d # ds) once t =
     bindR (show_block e 1 ''Device'' (descriptor d) t) (\<lambda>t1.
     bindR (debug_function e (funcs d) t1) (\<lambda>t2.
     if \<not> once then debug_device e ds False t2 else Some (Inr t2)))"

fun debug_bus :: "console_env \<Rightarrow> pci_device list list \<Rightarrow> tty \<Rightarrow> tty run" where
  "debug_bus e [] t = Some (Inr t)"
| "debug_bus e (b # bs) t = bindR (debug_device e b False t) (debug_bus e bs)"

definition debug_pci :: "console_env \<Rightarrow> pci_device list \<Rightarrow> tty \<Rightarrow> tty run" where
  "debug_pci e root_devs t = debug_bus e [root_devs] t"

section \<open>Tables\<close>

definition dump_table :: "console_env \<Rightarrow> source_location \<Rightarrow> u64 \<Rightarrow> ptr \<Rightarrow> tty \<Rightarrow> nat \<Rightarrow> tty run" where
  "dump_table e loc hhdm xsdt t i =
     shown (kernel_log e loc (lit ''ACPI Table %.4s'' @ [10, 0]) [rd64 (memory e) (xsdt + sizeof_acpi_header + 8 * of_nat i) + hhdm] t)"

definition acpi_dump_tables :: "console_env \<Rightarrow> source_location \<Rightarrow> u64 \<Rightarrow> ptr \<Rightarrow> tty \<Rightarrow> tty run" where
  "acpi_dump_tables e loc hhdm xsdt t = foldR (dump_table e loc hhdm xsdt) [0..<nat (xsdt_entries (memory e) xsdt)] t"

section \<open>Lemmas\<close>

text \<open>The blocks of a listing: every device, followed by its functions.\<close>

definition listing :: "pci_device list \<Rightarrow> (nat \<times> pci_device) list" where
  "listing ds = concat (map (\<lambda>d. (1, d) # map (Pair 2) (funcs d)) ds)"

definition show_item :: "console_env \<Rightarrow> tty \<Rightarrow> nat \<times> pci_device \<Rightarrow> tty run" where
  "show_item e t nd = show_block e (fst nd) (if fst nd = 1 then ''Device'' else ''Function'') (descriptor (snd nd)) t"

lemma debug_function_fold: "debug_function e fs t = foldR (show_item e) (map (Pair 2) fs) t"
  by (induction e fs t rule: debug_function.induct) (simp_all add: show_item_def cong: bindR_cong)

lemma bindR_assoc: "bindR (bindR m f) g = bindR m (\<lambda>x. bindR (f x) g)"
  by (auto simp: bindR_def split: option.splits sum.splits)

lemma debug_device_fold: "debug_device e ds False t = foldR (show_item e) (listing ds) t"
proof (induction ds arbitrary: t)
  case (Cons d ds)
  have "debug_device e (d # ds) False t =
      bindR (show_block e 1 ''Device'' (descriptor d) t) (\<lambda>t1. bindR (debug_function e (funcs d) t1) (\<lambda>t2. foldR (show_item e) (listing ds) t2))"
    by (simp add: Cons.IH)
  also have "\<dots> = foldR (show_item e) (listing (d # ds)) t"
    by (simp add: listing_def foldR_append debug_function_fold show_item_def cong: bindR_cong)
  finally show ?case .
qed (simp add: listing_def)

lemma preorder_flat: "list_all (\<lambda>f. funcs f = []) fs \<Longrightarrow> preorder fs = fs"
  by (induction fs) simp_all

lemma listing_preorder:
  "list_all (\<lambda>d. list_all (\<lambda>f. funcs f = []) (funcs d)) ds \<Longrightarrow> map snd (listing ds) = preorder ds"
  by (induction ds) (simp_all add: listing_def preorder_flat comp_def)

lemma drawing_item: "drawing (\<lambda>t. show_item e t nd)"
  using drawing_printf unfolding drawing_def show_item_def show_block_def bindR_ok_iff by blast

lemma drawing_table: "drawing (\<lambda>t. dump_table e loc hhdm xsdt t i)"
proof -
  have "dump_table e loc hhdm xsdt t i = bindR (shown (printf e (lit ''[%s:%d] '' @ [0]) [loc_function loc, ucast (loc_line loc)] t))
      (\<lambda>t1. shown (printf e (lit ''ACPI Table %.4s'' @ [10, 0]) [rd64 (memory e) (xsdt + sizeof_acpi_header + 8 * of_nat i) + hhdm] t1))" for t
    by (simp add: dump_table_def kernel_log_def shown_def bindR_assoc split_def)
  then show ?thesis using drawing_bind[OF drawing_printf drawing_printf] by simp
qed

section \<open>Properties\<close>

text \<open>The listings: \<^verbatim>\<open>debug_pci\<close> prints one block for every device and function, in the order in which the device search visits them when functions
  have no functions of their own, as after a scan; and neither listing writes outside the framebuffer.\<close>

theorem debug_pci_lists_search_order:
  assumes "list_all (\<lambda>d. list_all (\<lambda>f. funcs f = []) (funcs d)) ds" "fb_fits (screen t)"
  shows "debug_pci e ds t = foldR (show_item e) (listing ds) t \<and> map snd (listing ds) = preorder ds
    \<and> (\<forall>t'. debug_pci e ds t = Some (Inr t') \<longrightarrow> draws t t')
    \<and> (\<forall>t'. acpi_dump_tables e loc hhdm xsdt t = Some (Inr t') \<longrightarrow> draws t t')"
proof (intro conjI)
  have "bindR m (\<lambda>x. Some (Inr x)) = m" for m :: "tty run"
    by (auto simp: bindR_def split: option.splits sum.splits)
  then show f: "debug_pci e ds t = foldR (show_item e) (listing ds) t"
    by (simp add: debug_pci_def debug_device_fold cong: bindR_cong)
  show "map snd (listing ds) = preorder ds" using assms(1) by (rule listing_preorder)
  show "\<forall>t'. debug_pci e ds t = Some (Inr t') \<longrightarrow> draws t t'"
    using drawing_fold[of "show_item e", OF drawing_item] assms(2) unfolding drawing_def f by blast
  show "\<forall>t'. acpi_dump_tables e loc hhdm xsdt t = Some (Inr t') \<longrightarrow> draws t t'"
    using drawing_fold[of "dump_table e loc hhdm xsdt", OF drawing_table] assms(2)
    unfolding drawing_def acpi_dump_tables_def by blast
qed

theorem debug_pci_lists_search_order_witness:
  "let d = PciDevice \<lparr>pd_bus = 0, pd_device = 3, pd_function = 0, registers = replicate 18 (Some 0)\<rparr> [] in
   map snd (listing [d]) = [d] \<and> (\<forall>t'. debug_pci demo_console [d] demo_tty = Some (Inr t') \<longrightarrow> pixels (screen t') 0x1000 = 7)"
proof -
  let ?d = "PciDevice \<lparr>pd_bus = 0, pd_device = 3, pd_function = 0, registers = replicate 18 (Some 0)\<rparr> []"
  have fits: "fb_fits (screen demo_tty)" by (simp add: fb_fits_def demo_tty_def)
  have "list_all (\<lambda>d. list_all (\<lambda>f. funcs f = []) (funcs d)) [?d]" by simp
  from debug_pci_lists_search_order[OF this fits, of demo_console]
  have "map snd (listing [?d]) = [?d]" "\<forall>t'. debug_pci demo_console [?d] demo_tty = Some (Inr t') \<longrightarrow> draws demo_tty t'" by auto
  moreover have "draws demo_tty t' \<Longrightarrow> pixels (screen t') 0x1000 = 7" for t'
    by (simp add: draws_def in_framebuffer_def demo_tty_def)
  ultimately show ?thesis by (simp add: Let_def)
qed

end
