(* ===== verification/Layout.thy ===== *)
theory Layout
  imports Prelude
begin

text \<open>
  Object layout of the C declarations the development reads memory through: sizes, alignments and member positions on the target
  (x86_64, System V ABI, clang). A member starts at the next multiple of its alignment; a structure is as aligned as its most
  aligned member and padded to a multiple of that; a bit-field follows the bits before it unless it would cross a unit of its declared
  type; \<^verbatim>\<open>__attribute__((packed))\<close> drops all of this. Positions are counted in bits. Theory Structs has the declarations.
\<close>

section \<open>Types\<close>

datatype ctype =
    Scalar nat
  | Arr ctype nat
  | Struct bool "cmember list"
  | Union "cmember list"
and cmember =
    Member (member_name: string) ctype
  | BitField (member_name: string) nat nat

abbreviation uint8_t :: ctype where "uint8_t \<equiv> Scalar 1"
abbreviation uint16_t :: ctype where "uint16_t \<equiv> Scalar 2"
abbreviation uint32_t :: ctype where "uint32_t \<equiv> Scalar 4"
abbreviation uint64_t :: ctype where "uint64_t \<equiv> Scalar 8"
abbreviation pointer :: ctype where "pointer \<equiv> Scalar 8"

definition round_up :: "nat \<Rightarrow> nat \<Rightarrow> nat" where
  "round_up p a = (p + a - 1) div a * a"

fun alignof :: "ctype \<Rightarrow> nat" and members_align :: "cmember list \<Rightarrow> nat" where
  "alignof (Scalar n) = n"
| "alignof (Arr t n) = alignof t"
| "alignof (Struct pk ms) = (if pk then 1 else members_align ms)"
| "alignof (Union ms) = members_align ms"
| "members_align [] = 1"
| "members_align (Member _ t # ms) = max (alignof t) (members_align ms)"
| "members_align (BitField _ n _ # ms) = max n (members_align ms)"

text \<open>Where a member starts, given the first bit that is free.\<close>

definition member_start :: "bool \<Rightarrow> nat \<Rightarrow> nat \<Rightarrow> nat" where
  "member_start pk a p = round_up p (8 * (if pk then 1 else a))"

definition field_start :: "bool \<Rightarrow> nat \<Rightarrow> nat \<Rightarrow> nat \<Rightarrow> nat" where
  "field_start pk n w p = (if pk \<or> p div (8 * n) = (p + w - 1) div (8 * n) then p else round_up p (8 * n))"

text \<open>Size of a type, first free bit behind the members, and size of the largest member.\<close>

fun sizeof :: "ctype \<Rightarrow> nat" and members_end :: "bool \<Rightarrow> cmember list \<Rightarrow> nat \<Rightarrow> nat" and members_max :: "cmember list \<Rightarrow> nat" where
  "sizeof (Scalar n) = n"
| "sizeof (Arr t n) = n * sizeof t"
| "sizeof (Struct pk ms) = round_up (round_up (members_end pk ms 0) 8 div 8) (alignof (Struct pk ms))"
| "sizeof (Union ms) = round_up (members_max ms) (members_align ms)"
| "members_end pk [] p = p"
| "members_end pk (Member _ t # ms) p = members_end pk ms (member_start pk (alignof t) p + 8 * sizeof t)"
| "members_end pk (BitField _ n w # ms) p = members_end pk ms (field_start pk n w p + w)"
| "members_max [] = 0"
| "members_max (Member _ t # ms) = max (sizeof t) (members_max ms)"
| "members_max (BitField _ n _ # ms) = max n (members_max ms)"

text \<open>Start and width of every member, in bits.\<close>

fun positions :: "bool \<Rightarrow> cmember list \<Rightarrow> nat \<Rightarrow> (string \<times> nat \<times> nat) list" where
  "positions pk [] p = []"
| "positions pk (Member x t # ms) p =
     (let s = member_start pk (alignof t) p in (x, s, 8 * sizeof t) # positions pk ms (s + 8 * sizeof t))"
| "positions pk (BitField x n w # ms) p =
     (let s = field_start pk n w p in (x, s, w) # positions pk ms (s + w))"

fun layout :: "ctype \<Rightarrow> (string \<times> nat \<times> nat) list" where
  "layout (Struct pk ms) = positions pk ms 0"
| "layout (Union ms) = map (\<lambda>m. (member_name m, 0, case m of Member _ t \<Rightarrow> 8 * sizeof t | BitField _ _ w \<Rightarrow> w)) ms"
| "layout _ = []"

definition bitpos :: "ctype \<Rightarrow> string \<Rightarrow> nat" where
  "bitpos t x = (case map_of (layout t) x of None \<Rightarrow> 0 | Some (s, _) \<Rightarrow> s)"

definition offsetof :: "ctype \<Rightarrow> string \<Rightarrow> nat" where
  "offsetof t x = bitpos t x div 8"

section \<open>Lemmas\<close>

lemma round_up_ge: "0 < a \<Longrightarrow> p \<le> round_up p a"
proof -
  assume "0 < a"
  then have "(p + a - 1) mod a < a" by simp
  then show ?thesis unfolding round_up_def using div_mult_mod_eq[of "p + a - 1" a] \<open>0 < a\<close> by linarith
qed

lemma round_up_dvd [simp]: "a dvd round_up p a"
  by (simp add: round_up_def)

text \<open>Scalars of no size and bit-fields wider than their type do not occur in C.\<close>

fun type_ok :: "ctype \<Rightarrow> bool" and members_ok :: "cmember list \<Rightarrow> bool" where
  "type_ok (Scalar n) \<longleftrightarrow> 0 < n"
| "type_ok (Arr t n) \<longleftrightarrow> type_ok t"
| "type_ok (Struct pk ms) \<longleftrightarrow> members_ok ms"
| "type_ok (Union ms) \<longleftrightarrow> members_ok ms"
| "members_ok [] \<longleftrightarrow> True"
| "members_ok (Member _ t # ms) \<longleftrightarrow> type_ok t \<and> members_ok ms"
| "members_ok (BitField _ n w # ms) \<longleftrightarrow> 0 < w \<and> w \<le> 8 * n \<and> members_ok ms"

lemma align_pos: "type_ok t \<Longrightarrow> 0 < alignof t" "members_ok ms \<Longrightarrow> 0 < members_align ms"
  by (induction t and ms rule: alignof_members_align.induct) auto

lemma member_start_ge: "0 < a \<Longrightarrow> p \<le> member_start pk a p"
  by (simp add: member_start_def round_up_ge)

lemma field_start_ge: "0 < w \<Longrightarrow> w \<le> 8 * n \<Longrightarrow> p \<le> field_start pk n w p"
  by (auto simp: field_start_def intro: round_up_ge)

text \<open>A bit-field never crosses a unit of its type.\<close>

lemma field_in_unit:
  assumes "0 < w" "w \<le> 8 * n"
  shows "let s = field_start False n w p in s div (8 * n) = (s + w - 1) div (8 * n)"
proof (cases "p div (8 * n) = (p + w - 1) div (8 * n)")
  case False
  obtain k where k: "round_up p (8 * n) = 8 * n * k" using round_up_dvd[of "8 * n" p] by blast
  have "(8 * n * k + w - 1) div (8 * n) = k + (w - 1) div (8 * n)"
    using assms by (metis Nat.add_diff_assoc add.commute div_mult_self2 less_eq_Suc_le mult_is_0 not_gr_zero One_nat_def zero_less_iff_neq_zero le_zero_eq)
  moreover have "(w - 1) div (8 * n) = 0" using assms by (intro div_less) linarith
  ultimately show ?thesis using False k assms by (simp add: field_start_def)
qed (simp add: field_start_def)

text \<open>Members follow one another, from the first free bit to the last.\<close>

fun ascending :: "nat \<Rightarrow> (string \<times> nat \<times> nat) list \<Rightarrow> nat \<Rightarrow> bool" where
  "ascending p [] e \<longleftrightarrow> p \<le> e"
| "ascending p ((_, s, w) # xs) e \<longleftrightarrow> p \<le> s \<and> ascending (s + w) xs e"

lemma positions_ascending: "members_ok ms \<Longrightarrow> ascending p (positions pk ms p) (members_end pk ms p)"
  by (induction pk ms p rule: positions.induct)
    (simp_all add: Let_def member_start_ge field_start_ge align_pos(1))

lemma ascending_le: "ascending p xs e \<Longrightarrow> p \<le> e"
  by (induction p xs e rule: ascending.induct) auto

lemma ascending_member: "ascending p xs e \<Longrightarrow> (x, s, w) \<in> set xs \<Longrightarrow> p \<le> s \<and> s + w \<le> e"
  by (induction p xs e rule: ascending.induct) (auto dest: ascending_le)

lemma ascending_disjoint:
  "ascending p xs e \<Longrightarrow> i < j \<Longrightarrow> j < length xs \<Longrightarrow> fst (snd (xs ! i)) + snd (snd (xs ! i)) \<le> fst (snd (xs ! j))"
proof (induction p xs e arbitrary: i j rule: ascending.induct)
  case (2 p x s w xs e)
  show ?case
  proof (cases i)
    case 0
    obtain k where k: "j = Suc k" "k < length xs" using 2(3,4) by (cases j) auto
    obtain y t v where "xs ! k = (y, t, v)" by (cases "xs ! k")
    moreover from this k(2) have "s + w \<le> t" using ascending_member 2(2) nth_mem[of k xs] by fastforce
    ultimately show ?thesis using 0 k by simp
  next
    case (Suc i')
    then show ?thesis using 2 by (cases j) auto
  qed
qed simp

lemma positions_length [simp]: "length (positions pk ms p) = length ms"
  by (induction pk ms p rule: positions.induct) (simp_all add: Let_def)

lemma positions_aligned:
  "i < length ms \<Longrightarrow> ms ! i = Member x t \<Longrightarrow> 8 * alignof t dvd fst (snd (positions False ms p ! i))"
proof (induction "False" ms p arbitrary: i rule: positions.induct)
  case (2 y u ms p)
  then show ?case using round_up_dvd[of "8 * alignof t" p] by (cases i) (auto simp: Let_def member_start_def)
next
  case (3 y n w ms p)
  then show ?case by (cases i) (auto simp: Let_def)
qed simp

lemma end_in_size:
  assumes "members_ok ms"
  shows "members_end pk ms 0 \<le> 8 * sizeof (Struct pk ms)"
proof -
  let ?e = "members_end pk ms 0" and ?a = "alignof (Struct pk ms)"
  have "0 < ?a" using assms align_pos by simp
  then have "round_up ?e 8 div 8 \<le> sizeof (Struct pk ms)" unfolding sizeof.simps(3) by (rule round_up_ge)
  moreover have "?e \<le> round_up ?e 8" by (rule round_up_ge) simp
  moreover have "8 * (round_up ?e 8 div 8) = round_up ?e 8" by simp
  ultimately show ?thesis by linarith
qed

section \<open>Properties\<close>

text \<open>Every layout the rules give is sound: members are stored in the order of their declaration without overlap and inside the structure, byte
  members of an unpacked structure start at a multiple of their alignment, and the size is a multiple of the alignment.\<close>

theorem struct_layout_sound:
  assumes "members_ok ms"
  shows "let xs = layout (Struct pk ms) in
    (\<forall>i j. i < j \<longrightarrow> j < length xs \<longrightarrow> fst (snd (xs ! i)) + snd (snd (xs ! i)) \<le> fst (snd (xs ! j)))
    \<and> (\<forall>(x, s, w) \<in> set xs. s + w \<le> 8 * sizeof (Struct pk ms))
    \<and> (\<forall>i < length ms. \<forall>x t. \<not> pk \<longrightarrow> ms ! i = Member x t \<longrightarrow> 8 * alignof t dvd fst (snd (xs ! i)))
    \<and> alignof (Struct pk ms) dvd sizeof (Struct pk ms)"
proof -
  have asc: "ascending 0 (layout (Struct pk ms)) (members_end pk ms 0)" using positions_ascending[OF assms] by simp
  have "s + w \<le> 8 * sizeof (Struct pk ms)" if "(x, s, w) \<in> set (layout (Struct pk ms))" for x s w
    using ascending_member[OF asc that] end_in_size[OF assms, of pk] by linarith
  moreover have "8 * alignof t dvd fst (snd (layout (Struct pk ms) ! i))" if "i < length ms" "\<not> pk" "ms ! i = Member x t" for i x t
    using positions_aligned[OF that(1,3)] that(2) by simp
  moreover have "alignof (Struct pk ms) dvd sizeof (Struct pk ms)" by (simp only: sizeof.simps round_up_dvd)
  ultimately show ?thesis using ascending_disjoint[OF asc] unfolding Let_def by blast
qed

theorem struct_layout_sound_witness:
  "let t = Struct False [BitField ''a'' 1 5, BitField ''b'' 1 4, Member ''c'' uint32_t] in
   layout t = [(''a'', 0, 5), (''b'', 8, 4), (''c'', 32, 32)] \<and> (\<forall>(x, s, w) \<in> set (layout t). s + w \<le> 8 * sizeof t)"
proof -
  have "members_ok [BitField ''a'' 1 5, BitField ''b'' 1 4, Member ''c'' uint32_t]" by simp
  from struct_layout_sound[OF this, of False] show ?thesis
    by (simp add: Let_def field_start_def member_start_def round_up_def)
qed

end
