(* ===== verification/Structs.thy ===== *)
theory Structs
  imports Layout Acpi Ahci Symbols Loader Liballoc Queue HashMap Interrupts Cpio Paging "HOL-Library.Code_Target_Nat"
begin

text \<open>
  The structures the program declares, member by member, as types of theory Layout, and the proof that the component theories read memory where these
  declarations put the members. Each definition is the declaration of the same name in the file named above it; names from the boot loader's own copies
  start with \<open>loader\<close>. A flexible array member has length 0, an enumeration and an \<^verbatim>\<open>int\<close> have four bytes, a \<^verbatim>\<open>bool\<close> one.
\<close>

section \<open>Declarations\<close>

text \<open>\<^verbatim>\<open>lethe-aml/aml/include/tables.h\<close>\<close>

definition acpi_rsdp_t_layout :: ctype where
  "acpi_rsdp_t_layout = Struct True
     [Member ''signature'' (Arr uint8_t 8), Member ''checksum'' uint8_t, Member ''oem'' (Arr uint8_t 6), Member ''revision'' uint8_t,
      Member ''rsdt'' uint32_t]"

definition acpi_xsdp_t_layout :: ctype where
  "acpi_xsdp_t_layout = Struct True
     [Member ''signature'' (Arr uint8_t 8), Member ''checksum'' uint8_t, Member ''oem'' (Arr uint8_t 6), Member ''revision'' uint8_t,
      Member ''rsdt'' uint32_t, Member ''length'' uint32_t, Member ''xsdt'' uint64_t, Member ''extended_checksum'' uint8_t]"

definition acpi_header_t_layout :: ctype where
  "acpi_header_t_layout = Struct True
     [Member ''signature'' (Arr uint8_t 4), Member ''length'' uint32_t, Member ''revision'' uint8_t, Member ''checksum'' uint8_t,
      Member ''oem'' (Arr uint8_t 6), Member ''oem_table'' (Arr uint8_t 8), Member ''oem_revision'' uint32_t,
      Member ''creator_id'' uint32_t, Member ''creator_revision'' uint32_t]"

definition acpi_rsdt_t_layout :: ctype where
  "acpi_rsdt_t_layout = Struct True
     [Member ''header'' acpi_header_t_layout, Member ''tables'' (Arr uint32_t 0)]"

definition acpi_xsdt_t_layout :: ctype where
  "acpi_xsdt_t_layout = Struct True
     [Member ''header'' acpi_header_t_layout, Member ''tables'' (Arr uint64_t 0)]"

definition acpi_gas_t_layout :: ctype where
  "acpi_gas_t_layout = Struct True
     [Member ''address_space'' uint8_t, Member ''bit_width'' uint8_t, Member ''bit_offset'' uint8_t, Member ''access_size'' uint8_t,
      Member ''base'' uint64_t]"

definition acpi_fadt_t_layout :: ctype where
  "acpi_fadt_t_layout = Struct True
     [Member ''header'' acpi_header_t_layout, Member ''firmware_control'' uint32_t, Member ''dsdt'' uint32_t,
      Member ''reserved'' uint8_t, Member ''profile'' uint8_t, Member ''sci_irq'' uint16_t, Member ''smi_command_port'' uint32_t,
      Member ''acpi_enable'' uint8_t, Member ''acpi_disable'' uint8_t, Member ''s4bios_req'' uint8_t, Member ''pstate_control'' uint8_t,
      Member ''pm1a_event_block'' uint32_t, Member ''pm1b_event_block'' uint32_t, Member ''pm1a_control_block'' uint32_t,
      Member ''pm1b_control_block'' uint32_t, Member ''pm2_control_block'' uint32_t, Member ''pm_timer_block'' uint32_t,
      Member ''gpe0_block'' uint32_t, Member ''gpe1_block'' uint32_t, Member ''pm1_event_length'' uint8_t,
      Member ''pm1_control_length'' uint8_t, Member ''pm2_control_length'' uint8_t, Member ''pm_timer_length'' uint8_t,
      Member ''gpe0_length'' uint8_t, Member ''gpe1_length'' uint8_t, Member ''gpe1_base'' uint8_t, Member ''cstate_control'' uint8_t,
      Member ''worst_c2_latency'' uint16_t, Member ''worst_c3_latency'' uint16_t, Member ''flush_size'' uint16_t,
      Member ''flush_stride'' uint16_t, Member ''duty_offset'' uint8_t, Member ''duty_width'' uint8_t, Member ''day_alarm'' uint8_t,
      Member ''month_alarm'' uint8_t, Member ''century'' uint8_t, Member ''iapc_boot_flags'' uint16_t, Member ''reserved2'' uint8_t,
      Member ''flags'' uint32_t, Member ''reset_register'' acpi_gas_t_layout, Member ''reset_command'' uint8_t,
      Member ''arm_boot_flags'' uint16_t, Member ''minor_version'' uint8_t, Member ''x_firmware_control'' uint64_t,
      Member ''x_dsdt'' uint64_t, Member ''x_pm1a_event_block'' acpi_gas_t_layout, Member ''x_pm1b_event_block'' acpi_gas_t_layout,
      Member ''x_pm1a_control_block'' acpi_gas_t_layout, Member ''x_pm1b_control_block'' acpi_gas_t_layout,
      Member ''x_pm2_control_block'' acpi_gas_t_layout, Member ''x_pm_timer_block'' acpi_gas_t_layout,
      Member ''x_gpe0_block'' acpi_gas_t_layout, Member ''x_gpe1_block'' acpi_gas_t_layout,
      Member ''sleep_control_reg'' acpi_gas_t_layout, Member ''sleep_status_reg'' acpi_gas_t_layout]"

definition acpi_ecdt_t_layout :: ctype where
  "acpi_ecdt_t_layout = Struct True
     [Member ''header'' acpi_header_t_layout, Member ''ec_control'' acpi_gas_t_layout, Member ''ec_data'' acpi_gas_t_layout,
      Member ''uid'' uint32_t, Member ''gpe_bit'' uint8_t, Member ''ec_id'' (Arr uint8_t 0)]"

definition acpi_aml_t_layout :: ctype where
  "acpi_aml_t_layout = Struct True
     [Member ''header'' acpi_header_t_layout, Member ''data'' (Arr uint8_t 0)]"

text \<open>\<^verbatim>\<open>lethe-bootloaders/loader/bootinfo.c\<close>\<close>

definition loader_acpi_rsdp_structure_t_layout :: ctype where
  "loader_acpi_rsdp_structure_t_layout = Struct False
     [Member ''signature'' (Arr uint8_t 8), Member ''checksum'' uint8_t, Member ''oemid'' (Arr uint8_t 6), Member ''revision'' uint8_t,
      Member ''rsdt_address'' uint32_t, Member ''length'' uint32_t, Member ''xsdt_address'' uint64_t,
      Member ''extended_checksum'' uint8_t, Member ''reserved'' (Arr uint8_t 3)]"

text \<open>\<^verbatim>\<open>lethe-kernel/include/acpi/mcfg.h\<close>\<close>

definition mmio_configuration_space_layout :: ctype where
  "mmio_configuration_space_layout = Struct True
     [Member ''base_address'' uint64_t, Member ''group_num'' uint16_t, Member ''bus_start'' uint8_t, Member ''bus_end'' uint8_t,
      Member ''reserved'' uint32_t]"

text \<open>\<^verbatim>\<open>lethe-kernel/acpi/mcfg.c\<close>\<close>

definition mcfg_entry_layout :: ctype where
  "mcfg_entry_layout = Struct False
     [Member ''base_address'' uint64_t, Member ''group_num'' uint16_t, Member ''bus_start'' uint8_t, Member ''bus_end'' uint8_t,
      Member ''next'' pointer]"

text \<open>\<^verbatim>\<open>lethe-kernel/acpi/acpi.h\<close>\<close>

definition acpi_hpet_t_layout :: ctype where
  "acpi_hpet_t_layout = Struct True
     [Member ''header'' acpi_header_t_layout, Member ''hardware_rev_id'' uint8_t, BitField ''comparator_count'' 1 5,
      BitField ''counter_size'' 1 1, BitField ''reserved'' 1 1, BitField ''legacy_replacement'' 1 1, Member ''pci_vendor_id'' uint16_t,
      Member ''address_space_id'' uint8_t, Member ''register_bit_width'' uint8_t, Member ''register_bit_offset'' uint8_t,
      Member ''_reserved'' uint8_t, Member ''address'' uint64_t, Member ''hpet_number'' uint8_t, Member ''min_clock_tick'' uint16_t,
      Member ''page_protection'' uint8_t]"

definition acpi_mcfg_t_layout :: ctype where
  "acpi_mcfg_t_layout = Struct True
     [Member ''header'' acpi_header_t_layout, Member ''config_space'' (Arr mmio_configuration_space_layout 0)]"

definition acpi_madt_t_layout :: ctype where
  "acpi_madt_t_layout = Struct True
     [Member ''header'' acpi_header_t_layout, Member ''local_interrupt_controller_address'' uint32_t, Member ''flags'' uint32_t,
      Member ''interrupt_controller_structure'' (Arr uint8_t 0)]"

definition madt_interrupt_controller_header_t_layout :: ctype where
  "madt_interrupt_controller_header_t_layout = Struct True
     [Member ''type'' uint8_t, Member ''length'' uint8_t]"

definition madt_io_apic_t_layout :: ctype where
  "madt_io_apic_t_layout = Struct True
     [Member ''header'' madt_interrupt_controller_header_t_layout, Member ''io_apic_id'' uint8_t, Member ''reserved'' uint8_t,
      Member ''address'' uint32_t, Member ''global_system_interrupt_base'' uint32_t]"

definition madt_interrupt_source_override_t_layout :: ctype where
  "madt_interrupt_source_override_t_layout = Struct True
     [Member ''header'' madt_interrupt_controller_header_t_layout, Member ''bus'' uint8_t, Member ''source'' uint8_t,
      Member ''global_system_interrupt'' uint32_t, BitField ''polarity'' 1 2, BitField ''trigger_mode'' 1 2, BitField ''reserved'' 2 12]"

text \<open>\<^verbatim>\<open>lethe-kernel/include/acpi/pic.h\<close>\<close>

definition ioapic_redtbl_t_layout :: ctype where
  "ioapic_redtbl_t_layout = Struct True
     [Member ''pin'' uint8_t, Member ''vector'' uint8_t, BitField ''delivery_mode'' 1 3, BitField ''destination_mode'' 1 1,
      BitField ''delivery_status'' 1 1, BitField ''pin_polarity'' 1 1, BitField ''remote_irr'' 1 1, BitField ''trigger_mode'' 1 1,
      BitField ''mask'' 1 1, BitField ''reserved'' 8 39, Member ''destination'' uint8_t]"

definition acpi_local_apic_structure_t_layout :: ctype where
  "acpi_local_apic_structure_t_layout = Struct True
     [Member ''type'' uint8_t, Member ''length'' uint8_t, Member ''processor_uid'' uint8_t, Member ''apic_id'' uint8_t,
      Member ''flags'' uint32_t]"

definition acpi_io_apic_structure_t_layout :: ctype where
  "acpi_io_apic_structure_t_layout = Struct True
     [Member ''type'' uint8_t, Member ''length'' uint8_t, Member ''io_apic_id'' uint8_t, Member ''reserved'' uint8_t,
      Member ''io_apic_addr'' uint32_t, Member ''global_system_interrupt_base'' uint32_t]"

text \<open>\<^verbatim>\<open>lethe-kernel/pci/ahci.c\<close>\<close>

definition ahci_cap_t_layout :: ctype where
  "ahci_cap_t_layout = Struct False
     [BitField ''np'' 1 5, BitField ''sxs'' 1 1, BitField ''ems'' 1 1, BitField ''cccs'' 1 1, BitField ''ncs'' 1 4, BitField ''psc'' 1 1,
      BitField ''ssc'' 1 1, BitField ''pmd'' 1 1, BitField ''fbss'' 1 1, BitField ''spm'' 1 1, BitField ''sam'' 1 1,
      BitField ''reserved'' 1 1, BitField ''iss'' 1 4, BitField ''sclo'' 1 1, BitField ''sal'' 1 1, BitField ''salp'' 1 1,
      BitField ''sss'' 1 1, BitField ''smps'' 1 1, BitField ''ssntf'' 1 1, BitField ''sncq'' 1 1, BitField ''s64a'' 1 1]"

definition ahci_ghc_t_layout :: ctype where
  "ahci_ghc_t_layout = Struct False
     [Member ''cap'' ahci_cap_t_layout, Member ''ghc'' uint32_t, Member ''is'' uint32_t, Member ''pi'' uint32_t, Member ''vs'' uint32_t,
      Member ''ccc_ctl'' uint32_t, Member ''ccc_ports'' uint32_t, Member ''em_loc'' uint32_t, Member ''em_ctl'' uint32_t,
      Member ''cap2'' uint32_t, Member ''bohc'' uint32_t]"

definition ahci_port_t_layout :: ctype where
  "ahci_port_t_layout = Struct False
     [Member ''clb'' uint32_t, Member ''clbu'' uint32_t, Member ''fb'' uint32_t, Member ''fbu'' uint32_t, Member ''is'' uint32_t,
      Member ''ie'' uint32_t, Member ''cmd'' uint32_t, Member ''reserved'' uint32_t, Member ''tfd'' uint32_t, Member ''sig'' uint32_t,
      Member ''ssts'' uint32_t, Member ''sctl'' uint32_t, Member ''serr'' uint32_t, Member ''sact'' uint32_t, Member ''ci'' uint32_t,
      Member ''sntf'' uint32_t, Member ''fbs'' uint32_t, Member ''devslp'' uint32_t, Member ''reserved_2'' (Arr uint8_t 40),
      Member ''vs'' (Arr uint8_t 15)]"

definition ahci_mem_t_layout :: ctype where
  "ahci_mem_t_layout = Struct False
     [Member ''ghc'' ahci_ghc_t_layout, Member ''reserved'' (Arr uint8_t 116), Member ''vendor_specific'' (Arr uint8_t 96),
      Member ''ports'' (Arr ahci_port_t_layout 1)]"

definition ahci_fis_h2d_t_layout :: ctype where
  "ahci_fis_h2d_t_layout = Struct False
     [Member ''fis_type'' uint8_t, BitField ''pmport'' 1 4, BitField ''rsv0'' 1 3, BitField ''c'' 1 1, Member ''cmd'' uint8_t,
      Member ''featurel'' uint8_t, Member ''lba0'' uint8_t, Member ''lba1'' uint8_t, Member ''lba2'' uint8_t, Member ''dev'' uint8_t,
      Member ''lba3'' uint8_t, Member ''lba4'' uint8_t, Member ''lba5'' uint8_t, Member ''featureh'' uint8_t, Member ''countl'' uint8_t,
      Member ''counth'' uint8_t, Member ''icc'' uint8_t, Member ''ctl'' uint8_t, Member ''rsv1'' (Arr uint8_t 4)]"

definition ahci_fis_d2h_t_layout :: ctype where
  "ahci_fis_d2h_t_layout = Struct False
     [Member ''fis_type'' uint8_t, BitField ''pmport'' 1 4, BitField ''rsv0'' 1 2, BitField ''i'' 1 1, BitField ''rsv1'' 1 1,
      Member ''sts'' uint8_t, Member ''err'' uint8_t, Member ''lba0'' uint8_t, Member ''lba1'' uint8_t, Member ''lba2'' uint8_t,
      Member ''dev'' uint8_t, Member ''lba3'' uint8_t, Member ''lba4'' uint8_t, Member ''lba5'' uint8_t, Member ''rsv2'' uint8_t,
      Member ''countl'' uint8_t, Member ''counth'' uint8_t, Member ''rsv3'' (Arr uint8_t 2), Member ''rsv4'' (Arr uint8_t 4)]"

definition ahci_fis_data_t_layout :: ctype where
  "ahci_fis_data_t_layout = Struct False
     [Member ''fis_type'' uint8_t, BitField ''pmport'' 1 4, BitField ''rsv0'' 1 4, Member ''rsv1'' (Arr uint8_t 2),
      Member ''data'' (Arr uint32_t 1)]"

definition ahci_fis_pio_d2h_t_layout :: ctype where
  "ahci_fis_pio_d2h_t_layout = Struct False
     [Member ''fis_type'' uint8_t, BitField ''pmport'' 1 4, BitField ''rsv0'' 1 1, BitField ''d'' 1 1, BitField ''i'' 1 1,
      BitField ''rsv1'' 1 1, Member ''sts'' uint8_t, Member ''err'' uint8_t, Member ''lba0'' uint8_t, Member ''lba1'' uint8_t,
      Member ''lba2'' uint8_t, Member ''dev'' uint8_t, Member ''lba3'' uint8_t, Member ''lba4'' uint8_t, Member ''lba5'' uint8_t,
      Member ''rsv2'' uint8_t, Member ''countl'' uint8_t, Member ''counth'' uint8_t, Member ''rsv3'' uint8_t,
      Member ''e_status'' uint8_t, Member ''tc'' uint16_t, Member ''rsv4'' (Arr uint8_t 2)]"

definition ahci_fis_dma_d2h_t_layout :: ctype where
  "ahci_fis_dma_d2h_t_layout = Struct False
     [Member ''fis_type'' uint8_t, BitField ''pmport'' 1 4, BitField ''rsv0'' 1 1, BitField ''d'' 1 1, BitField ''i'' 1 1,
      BitField ''a'' 1 1, Member ''rsv1'' (Arr uint8_t 2), Member ''dma_buf_id'' uint64_t, Member ''rsv2'' uint32_t,
      Member ''dma_buf_offset'' uint32_t, Member ''tc'' uint32_t, Member ''rsv3'' uint32_t]"

definition ahci_fis_t_layout :: ctype where
  "ahci_fis_t_layout = Struct False
     [Member ''dsfis'' ahci_fis_dma_d2h_t_layout, Member ''pad0'' (Arr uint8_t 4), Member ''psfis'' ahci_fis_pio_d2h_t_layout,
      Member ''pad1'' (Arr uint8_t 12), Member ''rfis'' ahci_fis_d2h_t_layout, Member ''pad2'' (Arr uint8_t 4),
      Member ''sdbfis'' (Arr uint8_t 2), Member ''ufis'' (Arr uint8_t 64), Member ''rsv'' (Arr uint8_t 96)]"

definition ahci_cmd_hdr_t_layout :: ctype where
  "ahci_cmd_hdr_t_layout = Struct False
     [BitField ''cfl'' 1 5, BitField ''a'' 1 1, BitField ''w'' 1 1, BitField ''p'' 1 1, BitField ''r'' 1 1, BitField ''b'' 1 1,
      BitField ''c'' 1 1, BitField ''rsv0'' 1 1, BitField ''pmp'' 1 4, Member ''prdtl'' uint16_t, Member ''prdbc'' uint32_t,
      Member ''ctba'' uint32_t, Member ''ctbau'' uint32_t, Member ''rsv1'' (Arr uint32_t 4)]"

definition ahci_prdt_t_layout :: ctype where
  "ahci_prdt_t_layout = Struct False
     [Member ''dba'' uint32_t, Member ''dbau'' uint32_t, Member ''rsv0'' uint32_t, BitField ''dbc'' 4 22, BitField ''rsv1'' 4 9,
      BitField ''i'' 4 1]"

definition ahci_cmd_tbl_t_layout :: ctype where
  "ahci_cmd_tbl_t_layout = Struct False
     [Member ''cfis'' (Arr uint8_t 64), Member ''acmd'' (Arr uint8_t 16), Member ''rsv'' (Arr uint8_t 48),
      Member ''prdt_entry'' (Arr ahci_prdt_t_layout 1)]"

definition ahci_dev_t_layout :: ctype where
  "ahci_dev_t_layout = Struct False
     [Member ''type'' uint32_t, Member ''port_number'' uint8_t, Member ''port'' pointer, Member ''command_header'' pointer,
      Member ''fis_base'' pointer, Member ''next'' pointer]"

text \<open>\<^verbatim>\<open>lethe-kernel/pci/pci_internal.h\<close>\<close>

definition pci_register_layout :: ctype where
  "pci_register_layout = Union
     [Member ''bits_16'' (Struct True [Member ''lower'' uint16_t, Member ''upper'' uint16_t]),
      Member ''bits_8'' (Struct True [Member ''lower'' uint8_t, Member ''lower_mid'' uint8_t, Member ''upper_mid'' uint8_t, Member ''upper'' uint8_t]),
      Member ''bits_32'' uint32_t]"

definition pci_bus_layout :: ctype where
  "pci_bus_layout = Struct False
     [Member ''parent'' pointer, Member ''dev_list'' pointer, Member ''next'' pointer, Member ''index'' uint8_t]"

definition pci_device_layout :: ctype where
  "pci_device_layout = Struct False
     [Member ''descriptor'' pointer, Member ''parent_device'' pointer, Member ''parent_bus'' pointer, Member ''next'' pointer,
      Member ''functions'' pointer]"

definition pci_device_descriptor_layout :: ctype where
  "pci_device_descriptor_layout = Struct False
     [Member ''bus'' uint8_t, Member ''device'' uint8_t, Member ''function'' uint8_t, Member ''registers'' (Arr pci_register_layout 18)]"

text \<open>\<^verbatim>\<open>lethe-kernel/include/elf.h\<close>\<close>

definition Elf64_Ehdr_layout :: ctype where
  "Elf64_Ehdr_layout = Struct False
     [Member ''e_ident'' (Arr uint8_t 16), Member ''e_type'' uint16_t, Member ''e_machine'' uint16_t, Member ''e_version'' uint32_t,
      Member ''e_entry'' uint64_t, Member ''e_phoff'' uint64_t, Member ''e_shoff'' uint64_t, Member ''e_flags'' uint32_t,
      Member ''e_ehsize'' uint16_t, Member ''e_phentsize'' uint16_t, Member ''e_phnum'' uint16_t, Member ''e_shentsize'' uint16_t,
      Member ''e_shnum'' uint16_t, Member ''e_shstrndx'' uint16_t]"

definition Elf64_Phdr_layout :: ctype where
  "Elf64_Phdr_layout = Struct False
     [Member ''p_type'' uint32_t, Member ''p_flags'' uint32_t, Member ''p_offset'' uint64_t, Member ''p_vaddr'' uint64_t,
      Member ''p_paddr'' uint64_t, Member ''p_filesz'' uint64_t, Member ''p_memsz'' uint64_t, Member ''p_align'' uint64_t]"

definition Elf64_Shdr_layout :: ctype where
  "Elf64_Shdr_layout = Struct False
     [Member ''sh_name'' uint32_t, Member ''sh_type'' uint32_t, Member ''sh_flags'' uint64_t, Member ''sh_addr'' uint64_t,
      Member ''sh_offset'' uint64_t, Member ''sh_size'' uint64_t, Member ''sh_link'' uint32_t, Member ''sh_info'' uint32_t,
      Member ''sh_addralign'' uint64_t, Member ''sh_entsize'' uint64_t]"

definition Elf64_Sym_layout :: ctype where
  "Elf64_Sym_layout = Struct False
     [Member ''st_name'' uint32_t, Member ''st_info'' uint8_t, Member ''st_other'' uint8_t, Member ''st_shndx'' uint16_t,
      Member ''st_value'' uint64_t, Member ''st_size'' uint64_t]"

text \<open>\<^verbatim>\<open>lethe-bootloaders/loader/elf.h\<close>\<close>

definition loader_Elf64_Ehdr_layout :: ctype where
  "loader_Elf64_Ehdr_layout = Struct False
     [Member ''e_ident'' (Arr uint8_t 16), Member ''e_type'' uint16_t, Member ''e_machine'' uint16_t, Member ''e_version'' uint32_t,
      Member ''e_entry'' uint64_t, Member ''e_phoff'' uint64_t, Member ''e_shoff'' uint64_t, Member ''e_flags'' uint32_t,
      Member ''e_ehsize'' uint16_t, Member ''e_phentsize'' uint16_t, Member ''e_phnum'' uint16_t, Member ''e_shentsize'' uint16_t,
      Member ''e_shnum'' uint16_t, Member ''e_shstrndx'' uint16_t]"

definition loader_Elf64_Phdr_layout :: ctype where
  "loader_Elf64_Phdr_layout = Struct False
     [Member ''p_type'' uint32_t, Member ''p_flags'' uint32_t, Member ''p_offset'' uint64_t, Member ''p_vaddr'' uint64_t,
      Member ''p_paddr'' uint64_t, Member ''p_filesz'' uint64_t, Member ''p_memsz'' uint64_t, Member ''p_align'' uint64_t]"

text \<open>\<^verbatim>\<open>lethe-kernel/include/cpu/gdt.h\<close>\<close>

definition gdt_entry_t_layout :: ctype where
  "gdt_entry_t_layout = Struct True
     [Member ''limit_low'' uint16_t, Member ''base_low'' uint16_t, Member ''base_mid'' uint8_t, Member ''access'' uint8_t,
      Member ''flags_and_limit_high'' uint8_t, Member ''base_high'' uint8_t]"

definition gdt_long_entry_t_layout :: ctype where
  "gdt_long_entry_t_layout = Struct True
     [Member ''limit_low'' uint16_t, Member ''base_low'' uint16_t, Member ''base_low_mid'' uint8_t, Member ''access'' uint8_t,
      Member ''flags_and_limit_high'' uint8_t, Member ''base_upper_mid'' uint8_t, Member ''base_high'' uint32_t,
      Member ''reserved'' uint32_t]"

definition gdt_t_layout :: ctype where
  "gdt_t_layout = Struct True
     [Member ''null'' gdt_entry_t_layout, Member ''kernel_code'' gdt_entry_t_layout, Member ''kernel_data'' gdt_entry_t_layout,
      Member ''user_data'' gdt_entry_t_layout, Member ''user_code'' gdt_entry_t_layout, Member ''tss'' gdt_long_entry_t_layout]"

definition gdt_ptr_t_layout :: ctype where
  "gdt_ptr_t_layout = Struct True
     [Member ''size'' uint16_t, Member ''offset'' uint64_t]"

text \<open>\<^verbatim>\<open>lethe-kernel/include/cpu/idt.h\<close>\<close>

definition isr_stack_t_layout :: ctype where
  "isr_stack_t_layout = Struct True
     [Member ''r15'' uint64_t, Member ''r14'' uint64_t, Member ''r13'' uint64_t, Member ''r12'' uint64_t, Member ''r11'' uint64_t,
      Member ''r10'' uint64_t, Member ''r9'' uint64_t, Member ''r8'' uint64_t, Member ''rbp'' uint64_t, Member ''rdi'' uint64_t,
      Member ''rsi'' uint64_t, Member ''rdx'' uint64_t, Member ''rcx'' uint64_t, Member ''rbx'' uint64_t, Member ''rax'' uint64_t,
      Member ''isr'' uint64_t, Member ''err'' uint64_t, Member ''rip'' uint64_t, Member ''cs'' uint64_t, Member ''rflags'' uint64_t]"

definition idt_ptr_t_layout :: ctype where
  "idt_ptr_t_layout = Struct True
     [Member ''size'' uint16_t, Member ''offset'' uint64_t]"

definition idt_entry_t_layout :: ctype where
  "idt_entry_t_layout = Struct True
     [Member ''offset_low'' uint16_t, Member ''segment_selector'' uint16_t, Member ''ist'' uint8_t, Member ''flags'' uint8_t,
      Member ''offset_mid'' uint16_t, Member ''offset_high'' uint32_t, Member ''reserved_high'' uint32_t]"

definition idt_t_layout :: ctype where
  "idt_t_layout = Struct True
     [Member ''entries'' (Arr idt_entry_t_layout 256)]"

text \<open>\<^verbatim>\<open>lethe-kernel/include/cpu/tss.h\<close>\<close>

definition tss_t_layout :: ctype where
  "tss_t_layout = Struct True
     [Member ''reserved_1'' uint32_t, Member ''rsp0'' uint64_t, Member ''rsp1'' uint64_t, Member ''rsp2'' uint64_t,
      Member ''reserved_2'' uint64_t, Member ''ist1'' uint64_t, Member ''ist2'' uint64_t, Member ''ist3'' uint64_t,
      Member ''ist4'' uint64_t, Member ''ist5'' uint64_t, Member ''ist6'' uint64_t, Member ''ist7'' uint64_t,
      Member ''reserved_3'' uint64_t, Member ''reserved_4'' uint16_t, Member ''iomap_base'' uint16_t]"

text \<open>\<^verbatim>\<open>lethe-kernel/include/cpu/task.h\<close>\<close>

definition task_t_layout :: ctype where
  "task_t_layout = Struct False
     [Member ''ctx'' pointer, Member ''task_id'' uint32_t, Member ''deadline'' uint64_t]"

text \<open>\<^verbatim>\<open>lethe-kernel/include/cpu/sleep.h\<close>\<close>

definition kernel_duration_t_layout :: ctype where
  "kernel_duration_t_layout = Struct False
     [Member ''seconds'' uint64_t, Member ''milliseconds'' uint64_t, Member ''nanoseconds'' uint64_t]"

text \<open>\<^verbatim>\<open>lethe-kernel/include/memory/cpio.h\<close>\<close>

definition cpio_header_t_layout :: ctype where
  "cpio_header_t_layout = Struct False
     [Member ''c_magic'' uint16_t, Member ''c_dev'' uint16_t, Member ''c_ino'' uint16_t, Member ''c_mode'' uint16_t,
      Member ''c_uid'' uint16_t, Member ''c_gid'' uint16_t, Member ''c_nlink'' uint16_t, Member ''c_rdev'' uint16_t,
      Member ''c_mtime'' (Arr uint16_t 2), Member ''c_namesize'' uint16_t, Member ''c_filesize'' (Arr uint16_t 2)]"

text \<open>\<^verbatim>\<open>lethe-kernel/memory/initial_frame_allocator.h\<close>\<close>

definition frame_t_layout :: ctype where
  "frame_t_layout = Struct False
     [Member ''start'' uint8_t, Member ''base'' uint64_t, Member ''length'' uint64_t]"

definition frame_allocator_t_layout :: ctype where
  "frame_allocator_t_layout = Struct False
     [Member ''memory_map'' pointer, Member ''next'' frame_t_layout]"

text \<open>\<^verbatim>\<open>lethe-kernel/memory/liballoc.h\<close>\<close>

definition boundary_tag_layout :: ctype where
  "boundary_tag_layout = Struct False
     [Member ''magic'' uint32_t, Member ''size'' uint32_t, Member ''real_size'' uint32_t, Member ''index'' uint32_t,
      Member ''split_left'' pointer, Member ''split_right'' pointer, Member ''next'' pointer, Member ''prev'' pointer]"

text \<open>\<^verbatim>\<open>lethe-kernel/memory/list_allocator.h\<close>\<close>

definition list_node_t_layout :: ctype where
  "list_node_t_layout = Struct False
     [Member ''pages'' uint32_t, Member ''next'' pointer]"

definition list_allocator_t_layout :: ctype where
  "list_allocator_t_layout = Struct False
     [Member ''head'' list_node_t_layout]"

text \<open>\<^verbatim>\<open>lethe-kernel/memory/paging_internal.h\<close>\<close>

definition page_entry_t_layout :: ctype where
  "page_entry_t_layout = Struct False
     [BitField ''present'' 1 1, BitField ''writable'' 1 1, BitField ''user_accessable'' 1 1, BitField ''write_through'' 1 1,
      BitField ''cache_disable'' 1 1, BitField ''accessed'' 1 1, BitField ''unused_1'' 1 1, BitField ''page_size'' 1 1,
      BitField ''unused_2'' 1 4, BitField ''address'' 8 40, BitField ''unused_3'' 2 11, BitField ''execute_disable'' 1 1]"

definition page_table_t_layout :: ctype where
  "page_table_t_layout = Struct False
     [Member ''pages'' (Arr page_entry_t_layout 512)]"

text \<open>\<^verbatim>\<open>lethe-bootloaders/loader/page_table.c\<close>\<close>

definition loader_page_table_t_layout :: ctype where
  "loader_page_table_t_layout = Struct False
     [Member ''pages'' (Arr uint64_t 512)]"

text \<open>\<^verbatim>\<open>lethe-kernel/include/terminal/tty.h\<close>\<close>

definition psf_font_t_layout :: ctype where
  "psf_font_t_layout = Struct False
     [Member ''magic'' uint32_t, Member ''version'' uint32_t, Member ''headersize'' uint32_t, Member ''flags'' uint32_t,
      Member ''numglyph'' uint32_t, Member ''bytesperglyph'' uint32_t, Member ''height'' uint32_t, Member ''width'' uint32_t]"

text \<open>\<^verbatim>\<open>lethe-kernel/include/loaders/lethe_loader.h\<close>\<close>

definition loader_memory_descriptor_t_layout :: ctype where
  "loader_memory_descriptor_t_layout = Struct False
     [Member ''type'' uint32_t, Member ''__pad'' uint32_t, Member ''p_addr'' uint64_t, Member ''v_addr'' uint64_t,
      Member ''page_count'' uint64_t, Member ''__attrib'' uint64_t]"

definition mmap_t_layout :: ctype where
  "mmap_t_layout = Struct False
     [Member ''addr'' pointer, Member ''size'' uint64_t, Member ''desc_size'' uint64_t, Member ''version'' uint32_t,
      Member ''key'' uint64_t]"

definition kernel_bootinfo_t_layout :: ctype where
  "kernel_bootinfo_t_layout = Struct False
     [Member ''magic'' (Arr uint8_t 5), Member ''base'' uint64_t, Member ''size'' uint64_t, Member ''pitch'' uint32_t,
      Member ''horizontal_resolution'' uint32_t, Member ''vertical_resolution'' uint32_t, Member ''initfs'' pointer,
      Member ''initfs_size'' uint32_t, Member ''mmap'' pointer, Member ''rsdp_address'' pointer, Member ''stack_top'' uint64_t,
      Member ''stack_bottom'' uint64_t]"

text \<open>\<^verbatim>\<open>lethe-utils/include/queue.h\<close>\<close>

definition queue_t_layout :: ctype where
  "queue_t_layout = Struct False
     [Member ''_inner'' pointer, Member ''head'' uint32_t, Member ''tail'' uint32_t, Member ''capacity'' uint32_t,
      Member ''resizable'' uint8_t]"

text \<open>\<^verbatim>\<open>lethe-utils/hashmap.c\<close>\<close>

definition hm_entry_layout :: ctype where
  "hm_entry_layout = Struct False
     [Member ''key'' pointer, Member ''value'' pointer]"

definition hm_layout :: ctype where
  "hm_layout = Struct False
     [Member ''entries'' pointer, Member ''capacity'' uint64_t, Member ''count'' uint64_t]"

text \<open>\<^verbatim>\<open>lethe-utils/include/hashmap.h\<close>\<close>

definition hmi_layout :: ctype where
  "hmi_layout = Struct False
     [Member ''key'' pointer, Member ''value'' pointer, Member ''_map'' pointer, Member ''_index'' uint64_t]"

text \<open>\<^verbatim>\<open>lethe-libc/include/assert.h\<close>\<close>

definition source_location_layout :: ctype where
  "source_location_layout = Struct False
     [Member ''file'' pointer, Member ''function'' pointer, Member ''line'' uint32_t]"

text \<open>\<^verbatim>\<open>lethe-kernel/include/config.h\<close>\<close>

definition timer_subconfig_layout :: ctype where
  "timer_subconfig_layout = Struct True
     [BitField ''timer_source'' 1 3, BitField ''apic_tsc_deadline'' 1 1, BitField ''tsc_invariant'' 1 1,
      Member ''tsc_freq_khz'' uint32_t]"

definition kernel_config_layout :: ctype where
  "kernel_config_layout = Struct False
     [BitField ''kexit'' 1 1, BitField ''interrupts_enabled'' 1 1, BitField ''interrupt_source'' 1 2,
      BitField ''multitasking_enabled'' 1 1, Member ''timers'' timer_subconfig_layout, BitField ''has_mcfg'' 1 1]"

text \<open>\<^verbatim>\<open>lethe-aml/aml/include/types.h\<close>\<close>

definition aml_ptr_t_layout :: ctype where
  "aml_ptr_t_layout = Struct False
     [Member ''type'' uint8_t, Member ''data'' pointer]"

definition aml_namespace_t_layout :: ctype where
  "aml_namespace_t_layout = Struct False
     [Member ''parent'' pointer, Member ''name'' (Arr uint8_t 4), Member ''code'' pointer, Member ''children'' pointer,
      Member ''namespaces'' pointer]"

definition aml_name_t_layout :: ctype where
  "aml_name_t_layout = Struct False
     [Member ''count'' uint64_t, Member ''inner'' pointer]"

definition aml_variable_t_layout :: ctype where
  "aml_variable_t_layout = Struct False
     [Member ''label'' (Arr uint8_t 4), Member ''data_type'' uint8_t,
      Member ''union'' (Union [Member ''byte'' uint8_t, Member ''short_int'' uint16_t, Member ''integer'' uint32_t,
        Member ''long_int'' uint64_t, Member ''package'' pointer, Member ''string'' pointer, Member ''buffer'' pointer])]"

definition aml_mutex_t_layout :: ctype where
  "aml_mutex_t_layout = Struct False
     [Member ''name'' (Arr uint8_t 4), Member ''sync_flags'' uint8_t]"

definition aml_buffer_t_layout :: ctype where
  "aml_buffer_t_layout = Struct False
     [Member ''size'' uint64_t, Member ''buffer'' pointer]"

definition aml_package_t_layout :: ctype where
  "aml_package_t_layout = Struct False
     [Member ''num_elements'' uint64_t, Member ''elements'' pointer]"

definition aml_method_t_layout :: ctype where
  "aml_method_t_layout = Struct False
     [Member ''name'' (Arr uint8_t 4), Member ''flags'' uint8_t, Member ''len'' uint64_t, Member ''code'' pointer,
      Member ''scope'' pointer]"

definition aml_operation_region_t_layout :: ctype where
  "aml_operation_region_t_layout = Struct False
     [Member ''name'' (Arr uint8_t 4), Member ''region_space'' uint8_t, Member ''offset'' uint64_t, Member ''len'' uint64_t]"

definition aml_field_t_layout :: ctype where
  "aml_field_t_layout = Struct False
     [Member ''access_type'' uint32_t, Member ''should_lock'' uint8_t, Member ''update_rule'' uint32_t, Member ''region'' pointer]"

definition aml_named_field_t_layout :: ctype where
  "aml_named_field_t_layout = Struct False
     [Member ''offset'' uint32_t, Member ''len'' uint32_t, Member ''name'' (Arr uint8_t 4), Member ''parent'' pointer]"

definition aml_word_field_t_layout :: ctype where
  "aml_word_field_t_layout = Struct False
     [Member ''name'' (Arr uint8_t 4), Member ''field'' pointer]"

section \<open>Positions\<close>

text \<open>What the rules give for the members the component theories use.\<close>

lemma table_offsets:
  "sizeof acpi_header_t_layout = 36" "offsetof acpi_header_t_layout ''length'' = 4" "offsetof acpi_xsdp_t_layout ''xsdt'' = 24"
  "offsetof acpi_xsdt_t_layout ''tables'' = 36" "offsetof acpi_fadt_t_layout ''x_dsdt'' = 140"
  "offsetof acpi_madt_t_layout ''local_interrupt_controller_address'' = 36" "offsetof acpi_madt_t_layout ''flags'' = 40"
  "offsetof acpi_madt_t_layout ''interrupt_controller_structure'' = 44"
  "offsetof madt_interrupt_source_override_t_layout ''global_system_interrupt'' = 4"
  "bitpos madt_interrupt_source_override_t_layout ''polarity'' = 64" "bitpos madt_interrupt_source_override_t_layout ''trigger_mode'' = 66"
  "offsetof loader_acpi_rsdp_structure_t_layout ''xsdt_address'' = 24"
  "offsetof cpio_header_t_layout ''c_namesize'' = 20" "offsetof cpio_header_t_layout ''c_filesize'' = 22" "sizeof cpio_header_t_layout = 26"
  by code_simp+

lemma elf_offsets:
  "offsetof Elf64_Ehdr_layout ''e_entry'' = 24" "offsetof Elf64_Ehdr_layout ''e_phoff'' = 32" "offsetof Elf64_Ehdr_layout ''e_phnum'' = 56"
  "offsetof Elf64_Ehdr_layout ''e_shoff'' = 40" "offsetof Elf64_Ehdr_layout ''e_shentsize'' = 58" "offsetof Elf64_Ehdr_layout ''e_shnum'' = 60"
  "offsetof Elf64_Ehdr_layout ''e_shstrndx'' = 62"
  "offsetof Elf64_Phdr_layout ''p_type'' = 0" "offsetof Elf64_Phdr_layout ''p_offset'' = 8" "offsetof Elf64_Phdr_layout ''p_vaddr'' = 16"
  "offsetof Elf64_Phdr_layout ''p_paddr'' = 24" "offsetof Elf64_Phdr_layout ''p_filesz'' = 32" "offsetof Elf64_Phdr_layout ''p_memsz'' = 40"
  "offsetof Elf64_Phdr_layout ''p_align'' = 48" "sizeof Elf64_Phdr_layout = 56"
  "offsetof Elf64_Shdr_layout ''sh_name'' = 0" "offsetof Elf64_Shdr_layout ''sh_type'' = 4" "offsetof Elf64_Shdr_layout ''sh_offset'' = 24"
  "offsetof Elf64_Shdr_layout ''sh_size'' = 32" "sizeof Elf64_Shdr_layout = 64" "offsetof Elf64_Sym_layout ''st_name'' = 0"
  "offsetof Elf64_Sym_layout ''st_info'' = 4" "offsetof Elf64_Sym_layout ''st_value'' = 8" "sizeof Elf64_Sym_layout = 24"
  by code_simp+

lemma register_offsets:
  "offsetof ahci_ghc_t_layout ''ghc'' = 0x04" "offsetof ahci_ghc_t_layout ''is'' = 0x08" "offsetof ahci_ghc_t_layout ''pi'' = 0x0C"
  "offsetof ahci_mem_t_layout ''ports'' = 0x100" "sizeof ahci_port_t_layout = 128"
  "offsetof ahci_port_t_layout ''clb'' = 0x00" "offsetof ahci_port_t_layout ''clbu'' = 0x04" "offsetof ahci_port_t_layout ''fb'' = 0x08"
  "offsetof ahci_port_t_layout ''fbu'' = 0x0C" "offsetof ahci_port_t_layout ''is'' = 0x10" "offsetof ahci_port_t_layout ''ie'' = 0x14"
  "offsetof ahci_port_t_layout ''cmd'' = 0x18" "offsetof ahci_port_t_layout ''tfd'' = 0x20" "offsetof ahci_port_t_layout ''sig'' = 0x24"
  "offsetof ahci_port_t_layout ''ssts'' = 0x28" "offsetof ahci_port_t_layout ''sact'' = 0x34" "offsetof ahci_port_t_layout ''ci'' = 0x38"
  "sizeof ahci_cmd_hdr_t_layout = 32" "sizeof ahci_fis_h2d_t_layout = 20" "sizeof ahci_cmd_tbl_t_layout = 144"
  by code_simp+

lemma block_sizes:
  "sizeof boundary_tag_layout = 48" "sizeof queue_t_layout = 24" "sizeof hm_layout = 24" "sizeof hm_entry_layout = 16" "sizeof tss_t_layout = 104"
  "sizeof page_table_t_layout = 4096" "sizeof idt_t_layout = 4096" "sizeof isr_stack_t_layout = 160" "sizeof pci_register_layout = 4"
  by code_simp+

lemma entry_bits:
  "layout page_entry_t_layout = [(''present'', 0, 1), (''writable'', 1, 1), (''user_accessable'', 2, 1), (''write_through'', 3, 1),
     (''cache_disable'', 4, 1), (''accessed'', 5, 1), (''unused_1'', 6, 1), (''page_size'', 7, 1), (''unused_2'', 8, 4), (''address'', 12, 40),
     (''unused_3'', 52, 11), (''execute_disable'', 63, 1)]" "sizeof page_entry_t_layout = 8"
  by code_simp+

section \<open>Properties\<close>


text \<open>Registers and blocks: the register numbers of the disk controller model, the stride of its ports, the sizes of the blocks the heap, the queue and the hash map
  ask for, the limit of the task segment, and the bit positions of a page table entry are those of the declarations.\<close>

theorem models_use_declared_layout:
  "[ghc_ghc, ghc_is, ghc_pi] = map (\<lambda>x. of_nat (offsetof ahci_ghc_t_layout x)) [''ghc'', ''is'', ''pi'']
   \<and> [p_clb, p_clbu, p_fb, p_fbu, p_is, p_ie, p_cmd, p_tfd, p_sig, p_ssts, p_sact, p_ci]
     = map (\<lambda>x. of_nat (offsetof ahci_port_t_layout x))
         [''clb'', ''clbu'', ''fb'', ''fbu'', ''is'', ''ie'', ''cmd'', ''tfd'', ''sig'', ''ssts'', ''sact'', ''ci'']
   \<and> ports a i = a + of_nat (offsetof ahci_mem_t_layout ''ports'') + of_nat (sizeof ahci_port_t_layout * i)
   \<and> sizeof_ahci_cmd_hdr_t = sizeof ahci_cmd_hdr_t_layout \<and> sizeof_ahci_fis_h2d_t = sizeof ahci_fis_h2d_t_layout
   \<and> sizeof_ahci_cmd_tbl_t = sizeof ahci_cmd_tbl_t_layout \<and> sizeof_tag = of_nat (sizeof boundary_tag_layout)
   \<and> sizeof_queue_t = sizeof queue_t_layout \<and> sizeof_hm = sizeof hm_layout \<and> sizeof_hm_entry = sizeof hm_entry_layout
   \<and> sizeof_tss = of_nat (sizeof tss_t_layout) \<and> PAGE_SIZE = sizeof page_table_t_layout
   \<and> page_entry_t.present (decode_entry w) = bit w (bitpos page_entry_t_layout ''present'')
   \<and> writable (decode_entry w) = bit w (bitpos page_entry_t_layout ''writable'')
   \<and> page_size (decode_entry w) = bit w (bitpos page_entry_t_layout ''page_size'')
   \<and> address (decode_entry w) = ucast (drop_bit (bitpos page_entry_t_layout ''address'') w)
   \<and> execute_disable (decode_entry w) = bit w (bitpos page_entry_t_layout ''execute_disable'')"
  by (simp add: register_offsets block_sizes ghc_ghc_def ghc_is_def ghc_pi_def p_clb_def p_clbu_def p_fb_def p_fbu_def p_is_def p_ie_def p_cmd_def
      p_tfd_def p_sig_def p_ssts_def p_sact_def p_ci_def ports_def sizeof_ahci_port_t_def sizeof_ahci_cmd_hdr_t_def sizeof_ahci_fis_h2d_t_def
      sizeof_ahci_cmd_tbl_t_def sizeof_tag_def sizeof_queue_t_def sizeof_hm_def sizeof_hm_entry_def sizeof_tss_def PAGE_SIZE_def
      bitpos_def entry_bits decode_entry_def)

text \<open>Two declarations that do not have the shape they are written for. The received frames are padded for a set-up frame of 28 bytes, which alignment makes 32
  bytes long, and the notification frame is two bytes instead of eight: the last array, whose length is written as \<^verbatim>\<open>0x100 - 0xA0\<close>, starts at \<^verbatim>\<open>0x9E\<close>. The host
  capabilities have 31 bits, since the number of command slots is a field of four.\<close>

theorem misplaced_members:
  "sizeof ahci_fis_dma_d2h_t_layout = 32 \<and> offsetof ahci_fis_t_layout ''psfis'' = 0x24 \<and> offsetof ahci_fis_t_layout ''rfis'' = 0x44
   \<and> offsetof ahci_fis_t_layout ''rsv'' = 0x9E \<and> sizeof ahci_fis_t_layout = 0x100
   \<and> sum_list (map (\<lambda>(x, s, w). w) (layout ahci_cap_t_layout)) = 31 \<and> bitpos ahci_cap_t_layout ''s64a'' = 30"
  by code_simp

text \<open>What the dump of the interpreter's names reads: the name of a variable is followed at once by its type, so that printing it as a string runs on, and a buffer
  and a package have their counts and their pointers at the same places, so that falling through from one case to the other takes the octets
  of the buffer for pointers.\<close>

theorem name_dump_reads_on:
  "offsetof aml_variable_t_layout ''data_type'' = offsetof aml_variable_t_layout ''label'' + 4
   \<and> offsetof aml_buffer_t_layout ''size'' = offsetof aml_package_t_layout ''num_elements''
   \<and> offsetof aml_buffer_t_layout ''buffer'' = offsetof aml_package_t_layout ''elements''"
  by code_simp

end
