(* ===== verification/Spec2Isabelle.thy ===== *)
theory Spec2Isabelle
  imports Prelude Fnv Queue CString HashMap Stdio FrameAlloc Paging ListAlloc Liballoc Terminal Keyboard Shell Aml AmlDefs Interrupts Task Hardware Pci Acpi Timers Symbols Cpio Ahci Boot LoaderPages Loader Console Kernel Idle Dumps Layout Structs
begin

text \<open>
  \<^bold>\<open>The lethe operating system\<close>

  A small x86-64 system: a UEFI boot loader (\<^verbatim>\<open>lethe-bootloaders/loader\<close>), a kernel (\<^verbatim>\<open>lethe-kernel\<close>), a C library
  (\<^verbatim>\<open>lethe-libc\<close>), an interpreter for ACPI machine language (\<^verbatim>\<open>lethe-aml\<close>) and shared containers (\<^verbatim>\<open>lethe-utils\<close>).

  \<^bold>\<open>How the parts work together.\<close> The loader copies the firmware's page tables, maps all memory at the kernel's base, loads the ELF image,
  chooses a stack and jumps. The kernel loads its descriptor tables, reads the answers of the boot loader, takes over the page tables,
  builds the page heap and on it \<^verbatim>\<open>malloc\<close>, reads the ACPI tables for the interrupt controllers, sets up keyboard line, scheduler and timer and
  enables interrupts. Interrupts reach handlers through the handler table; the software interrupt 128 switches tasks through two pointer
  queues; keys reach the shell's line editor, which looks a command up among the kernel's own symbols. Output is formatted by
  \<^verbatim>\<open>vprintf\<close> and drawn glyph by glyph. The AML interpreter builds a namespace tree out of hash maps.

  \<^bold>\<open>Theories and sources.\<close>
  \<^item> Prelude: word sizes, faults, results that may fault (\<open>res\<close>) and runs that may also not end (\<open>run\<close>, where \<open>None\<close> is not
    returning), their sequencing and lemmas on lists and words.
  \<^item> Fnv (\<^verbatim>\<open>hash_32a.c\<close>, \<^verbatim>\<open>hash_64a.c\<close>), Queue (\<^verbatim>\<open>queue.c\<close>), HashMap (\<^verbatim>\<open>hashmap.c\<close>), Cpio (\<^verbatim>\<open>cpio.c\<close>, \<^verbatim>\<open>linked_list.c\<close>): containers.
    A C struct is a record with the names of its fields; a heap block is a list of cells with bounds; the allocator is a predicate on sizes.
  \<^item> CString (\<^verbatim>\<open>string.c\<close>), Stdio (\<^verbatim>\<open>stdio.c\<close>): bytes in a memory that is a function from addresses; \<^verbatim>\<open>vprintf\<close> reads its format byte by byte
    and gives the characters it passes to \<^verbatim>\<open>putchar\<close> and its result.
  \<^item> FrameAlloc (\<^verbatim>\<open>initial_frame_allocator.c\<close>), Paging (\<^verbatim>\<open>paging.c\<close>), ListAlloc (\<^verbatim>\<open>list_allocator.c\<close>, \<^verbatim>\<open>alloc.c\<close>), Liballoc (\<^verbatim>\<open>liballoc.c\<close>): memory, from the
    map of physical memory through four levels of page tables to \<^verbatim>\<open>malloc\<close>. Page tables are cells of physical memory with the bit layout of the
    processor.
  \<^item> Terminal (\<^verbatim>\<open>pixel.c\<close>, \<^verbatim>\<open>tty.c\<close>), Keyboard (\<^verbatim>\<open>keyboard.c\<close>), Shell (\<^verbatim>\<open>shell.c\<close>), Symbols (\<^verbatim>\<open>trace.c\<close>), Console (\<^verbatim>\<open>log.c\<close>, \<^verbatim>\<open>assert.c\<close>, \<^verbatim>\<open>utils.c\<close>, \<^verbatim>\<open>dump_stack\<close>): the console.
  \<^item> Interrupts (\<^verbatim>\<open>gdt.c\<close>, \<^verbatim>\<open>tss.c\<close>, \<^verbatim>\<open>idt.c\<close>, \<^verbatim>\<open>isr.c\<close>), Task (\<^verbatim>\<open>task.c\<close>), Timers (\<^verbatim>\<open>config.c\<close>, \<^verbatim>\<open>pit.c\<close>, \<^verbatim>\<open>sleep.c\<close>, \<^verbatim>\<open>tsc.c\<close>): the processor.
  \<^item> Hardware (accessors of \<^verbatim>\<open>utils.h\<close>), Pci (\<^verbatim>\<open>pci.c\<close>, \<^verbatim>\<open>msi.c\<close>), Acpi (\<^verbatim>\<open>acpi.c\<close>, \<^verbatim>\<open>madt.c\<close>, \<^verbatim>\<open>lapic.c\<close>, \<^verbatim>\<open>ioapic.c\<close>, \<^verbatim>\<open>mcfg.c\<close>, \<^verbatim>\<open>idt.c\<close>), Ahci
    (\<^verbatim>\<open>ahci.c\<close>): devices. The hardware is the list of accesses so far and a function that answers reads from it.
  \<^item> Aml (\<^verbatim>\<open>name.c\<close>, \<^verbatim>\<open>namespace.c\<close>, \<^verbatim>\<open>helpers.c\<close>), AmlDefs (\<^verbatim>\<open>defs.c\<close>, \<^verbatim>\<open>helpers.c\<close>): the interpreter. The namespace tree is a list of nodes with
    parent numbers; hash maps are taken at the abstraction theory HashMap proves.
  \<^item> Boot (\<^verbatim>\<open>kernel.c\<close>, \<^verbatim>\<open>kernel_limine.c\<close>), Kernel (\<^verbatim>\<open>kernel.c\<close>): the start of the kernel on one state of all components, and its exit.
  \<^item> Idle (\<^verbatim>\<open>kernel.c\<close>, \<^verbatim>\<open>keyboard.c\<close>, \<^verbatim>\<open>idt.c\<close>): the idle loop on any sequence of interrupts, from the pushed registers through the dispatch to timer, keyboard and
    scheduler and back; a run of it is compared with an abstract line editor.
  \<^item> Dumps (\<^verbatim>\<open>pci.c\<close>, \<^verbatim>\<open>acpi.c\<close>): the listings of devices and tables on the console.
  \<^item> Layout, Structs (all headers and the structures declared in source files): the rules by which the compiler lays out structures and bit-fields, the
    declarations, and the agreement of the offsets and sizes in the other theories with them.
  \<^item> LoaderPages (\<^verbatim>\<open>page_table.c\<close>), Loader (\<^verbatim>\<open>elf.c\<close>, \<^verbatim>\<open>bootinfo.c\<close>, \<^verbatim>\<open>bootx64.c\<close>): the boot loader.

  \<^bold>\<open>Interfaces.\<close>
  \<^item> \<open>frame_source\<close> (FrameAlloc): what the page tables need of a frame allocator; interpreted by \<^verbatim>\<open>allocate_frame\<close>.
  \<^item> \<open>page_mapper\<close> (Paging): mapping one page changes the translation of that page only, and a run of pages is mapped page by page.
    Interpreted twice, by the kernel's \<^verbatim>\<open>map_page\<close> and by the loop body of the loader's \<^verbatim>\<open>map_pages\<close>.
  \<^item> \<open>name_map\<close> (HashMap): a finite map from names; interpreted by the hash map.
  \<^item> \<open>bounded_queue\<close> (Queue): a queue with a bound; interpreted by the fixed-size queue, whose bound is one element.

  \<^bold>\<open>What is shown.\<close>
  \<^item> Memory: frames handed out are free, cleared and distinct; mapping and unmapping change one page and keep the tables a tree; the
    heap is backed page by page; the block heap conserves bytes when it splits; the word-wise copy equals the byte-wise one.
  \<^item> Scheduling: the switch implements an abstract round-robin scheduler, two switches restore a task's registers, and in every reachable state
    only two tasks run. Interrupt dispatch after boot; the size of the interrupt tables.
  \<^item> Devices: the scan of the PCI bus ends and lists the devices of bus 0; ACPI table search and interrupt routing; the commands written
    to the disk controller; sleeping and its rounding.
  \<^item> Text: round trips of number output, bounds of the number buffer, output stays in the framebuffer, a panic ends and shows the chain of
    calls; the line editor is a refinement of an abstract one.
  \<^item> Interpreter: reading any table ends with a well-formed tree; package lengths, integer expressions and name definitions round trip.
  \<^item> Start: with sane answers the loader reaches the kernel's entry with the direct map in place, and the kernel reaches its
    idle loop with heap, controllers, handlers, scheduler, devices and shell set up; told to exit it aborts, as no table is ever interpreted.
  \<^item> Operation: from then on every sequence of interrupts, whatever their vectors and scancodes, takes the kernel where it takes a line editor with an exit flag,
    and it faults exactly where the editor does.
  \<^item> Layout: members are in order, apart, aligned and inside their structure; the models read every member where the declaration puts it; boot loader and kernel agree on
    the structures both declare.
  \<^item> Faults: null pointers, accesses out of bounds, uninitialised reads, signed overflow and division errors of the C code are values of the
    model, and several theorems show where the code runs into them.

  \<^bold>\<open>Bounds and loops.\<close> A loop that ends on every input is a recursive function with a termination proof or a fold over the range of its counter.
  A loop that may not end is a partial function in the option monad and its theorems show that it returns. Fuel occurs only in the
  interpreter: where the namespace tree is climbed, with the number of nodes, and where terms nest, with the length of the code; both are
  shown to be enough for every well-formed tree and every code. Counts such as the busy wait of the disk driver and
  the passes of the calibration are those of the source. The page table theorems assume tables that form a tree without large pages;
  what happens with large pages is a theorem of LoaderPages.

  \<^bold>\<open>Not modelled.\<close> Assembly stubs and the loads of descriptor tables (their effects are arguments); the protocol header of the boot loader and the list of
  processor identification bits, which are not this project's code; code that is commented out; the host build of the interpreter; the debug dump of
  the namespace tree, which prints names without a terminator and so depends on what lies behind them in memory (theory Structs has the layouts); log lines of the drivers; interrupts while
  \<^verbatim>\<open>kmain\<close> sets up the devices; what functions other than \<^verbatim>\<open>kexit\<close> do when they are called by name at the prompt. Concurrency is modelled where the code has it: interrupts are sequences of steps between which
  handlers run; there is one processor.
\<close>

end
